(* ===== verification/Go_Prelude.thy ===== *)
theory Go_Prelude
  imports Main "HOL-Library.Word" "HOL-Library.AList" "HOL-Library.Multiset"
begin

text \<open>
  The shared layer of the development: the Go data types the gateway is written with and
  the standard-library operations it calls, with the generic facts the component theories use.

  \<^item> A Go \<open>string\<close> is an immutable byte sequence; HOL's \<open>string\<close> (a list of 8-bit \<open>char\<close>)
    is exactly that, so \<open>len(s)\<close> is \<open>length s\<close> and literals keep their source spelling.
  \<^item> A \<open>[]byte\<close> is a list of \<open>8 word\<close>; the conversions \<open>[]byte(s)\<close> and \<open>string(b)\<close> are
    \<open>bytes_of\<close> and \<open>string_of\<close>.
  \<^item> Ranging over a string decodes UTF-8; an ill-formed byte yields U+FFFD and advances by one.
    \<open>utf8_chunks\<close> is that loop, with the bytes each rune was read from.
  \<^item> A \<open>time.Time\<close> is an \<open>int\<close>, the nanoseconds since Go's zero time, so \<open>IsZero\<close> is \<open>t = 0\<close>.
    A \<open>time.Duration\<close> is an \<open>int\<close> of nanoseconds. The clock is an argument of every operation
    that reads it.
  \<^item> A Go map is an association list with distinct keys. The list order stands for one iteration
    order of the map; operations whose result depends on the order take it as an argument.
\<close>

unbundle bit_operations_syntax

type_synonym byte = "8 word"
type_synonym bytes = "byte list"
type_synonym rune = nat
type_synonym gotime = int
type_synonym duration = int
type_synonym ('k, 'v) gomap = "('k \<times> 'v) list"

named_theorems wire_simps \<open>encoding and decoding of wire fields\<close>
named_theorems map_simps \<open>lookups in association lists after updates and deletions\<close>

subsection \<open>Durations\<close>

abbreviation Millisecond :: duration where "Millisecond \<equiv> 1000000"
abbreviation Second :: duration where "Second \<equiv> 1000000000"
abbreviation Minute :: duration where "Minute \<equiv> 60000000000"
abbreviation Hour :: duration where "Hour \<equiv> 3600000000000"

subsection \<open>Bytes and strings\<close>

definition bytes_of :: "string \<Rightarrow> bytes" where
  "bytes_of s = map of_char s"

definition string_of :: "bytes \<Rightarrow> string" where
  "string_of bs = map (\<lambda>b. char_of (unat b)) bs"

definition HasPrefix :: "string \<Rightarrow> string \<Rightarrow> bool" where
  "HasPrefix s p \<longleftrightarrow> take (length p) s = p"

definition TrimPrefix :: "string \<Rightarrow> string \<Rightarrow> string" where
  "TrimPrefix s p = (if HasPrefix s p then drop (length p) s else s)"

definition TrimLeftChar :: "string \<Rightarrow> char \<Rightarrow> string" where
  "TrimLeftChar s c = dropWhile (\<lambda>x. x = c) s"

definition TrimRightChar :: "string \<Rightarrow> char \<Rightarrow> string" where
  "TrimRightChar s c = rev (dropWhile (\<lambda>x. x = c) (rev s))"

text \<open>Byte-wise comparison, Go's \<open><\<close> on strings.\<close>

definition codes :: "string \<Rightarrow> nat list" where
  "codes s = map of_char s"

definition string_less :: "string \<Rightarrow> string \<Rightarrow> bool" where
  "string_less s t \<longleftrightarrow> ord_class.lexordp (codes s) (codes t)"

lemma length_bytes_of [simp]: "length (bytes_of s) = length s"
  by (simp add: bytes_of_def)

lemma length_string_of [simp]: "length (string_of bs) = length bs"
  by (simp add: string_of_def)

lemma bytes_of_append [simp]: "bytes_of (s @ t) = bytes_of s @ bytes_of t"
  by (simp add: bytes_of_def)

lemma string_of_append [simp]: "string_of (s @ t) = string_of s @ string_of t"
  by (simp add: string_of_def)

lemma bytes_of_Nil [simp]: "bytes_of [] = []"
  by (simp add: bytes_of_def)

lemma string_of_Nil [simp]: "string_of [] = []"
  by (simp add: string_of_def)

lemma unat_of_char_byte [simp]: "unat (of_char c :: byte) = of_char c"
proof -
  have "(of_char c :: byte) = of_nat (of_char c)"
    by (simp add: of_char_def)
  moreover have "(of_char c :: nat) < 256" by simp
  ultimately show ?thesis by (simp add: unat_of_nat)
qed

lemma string_of_bytes_of [simp, wire_simps]: "string_of (bytes_of s) = s"
  by (simp add: bytes_of_def string_of_def o_def)

lemma bytes_of_string_of [simp, wire_simps]: "bytes_of (string_of bs) = bs"
proof -
  have "(of_char (char_of (unat b)) :: byte) = b" for b :: byte
  proof (rule iffD2 [OF word_unat_eq_iff])
    have "unat b < 256" using unsigned_less [of b, where 'a = nat] by simp
    then show "unat (of_char (char_of (unat b)) :: byte) = unat b" by simp
  qed
  then show ?thesis by (simp add: bytes_of_def string_of_def o_def)
qed

lemma zero_notin_bytes_of [simp]: "0 \<in> set (bytes_of s) \<longleftrightarrow> CHR 0x00 \<in> set s"
proof -
  have "(of_char c :: byte) = 0 \<longleftrightarrow> c = CHR 0x00" for c
  proof
    assume "(of_char c :: byte) = 0"
    then have "unat (of_char c :: byte) = 0" by simp
    then have "(of_char c :: nat) = of_char (CHR 0x00)" by simp
    then show "c = CHR 0x00" by (simp only: of_char_eq_iff)
  qed simp
  then show ?thesis by (force simp: bytes_of_def)
qed

lemma HasPrefix_append [simp]: "HasPrefix (p @ s) p"
  by (simp add: HasPrefix_def)

lemma HasPrefix_Nil [simp]: "HasPrefix s []"
  by (simp add: HasPrefix_def)

lemma HasPrefixE: "HasPrefix s p \<Longrightarrow> (\<And>t. s = p @ t \<Longrightarrow> P) \<Longrightarrow> P"
  by (metis HasPrefix_def append_take_drop_id)

lemma HasPrefix_iff: "HasPrefix s p \<longleftrightarrow> (\<exists>t. s = p @ t)"
  by (auto elim: HasPrefixE)

lemma HasPrefix_length: "HasPrefix s p \<Longrightarrow> length p \<le> length s"
  by (auto elim: HasPrefixE)

lemma length_codes [simp]: "length (codes s) = length s"
  by (simp add: codes_def)

lemma codes_append [simp]: "codes (s @ t) = codes s @ codes t"
  by (simp add: codes_def)

lemma codes_Nil [simp]: "codes [] = []"
  by (simp add: codes_def)

lemma codes_inject: "codes s = codes t \<longleftrightarrow> s = t"
proof
  assume "codes s = codes t"
  then have "map char_of (codes s) = (map char_of (codes t) :: string)" by simp
  then show "s = t" by (simp add: codes_def o_def)
qed simp

lemma string_less_irrefl [simp]: "\<not> string_less s s"
  by (simp add: string_less_def lexordp_irreflexive')

lemma string_less_linear: "s = t \<or> string_less s t \<or> string_less t s"
  unfolding string_less_def using lexordp_linear codes_inject by metis

lemma string_less_trans: "string_less s t \<Longrightarrow> string_less t u \<Longrightarrow> string_less s u"
  unfolding string_less_def by (rule lexordp_trans)

lemma string_less_asym: "string_less s t \<Longrightarrow> \<not> string_less t s"
  using string_less_trans string_less_irrefl by blast

subsection \<open>UTF-8: ranging over a string\<close>

definition RuneError :: rune where "RuneError = 0xFFFD"

definition isCont :: "nat \<Rightarrow> bool" where
  "isCont b \<longleftrightarrow> 0x80 \<le> b \<and> b \<le> 0xBF"

text \<open>
  \<open>decodeRune\<close> is \<open>utf8.DecodeRune\<close>: the first rune and its width. Over-long forms,
  surrogates, values above U+10FFFF and truncated sequences give \<open>RuneError\<close> with width one.
\<close>

definition decode2 :: "nat \<Rightarrow> nat list \<Rightarrow> rune \<times> nat" where
  "decode2 b0 t =
     (case t of
        b1 # _ \<Rightarrow> if isCont b1 then ((b0 - 0xC0) * 64 + (b1 - 0x80), 2) else (RuneError, 1)
      | [] \<Rightarrow> (RuneError, 1))"

definition decode3 :: "nat \<Rightarrow> nat list \<Rightarrow> rune \<times> nat" where
  "decode3 b0 t =
     (case t of
        b1 # b2 # _ \<Rightarrow>
          if isCont b1 \<and> isCont b2 \<and> (b0 = 0xE0 \<longrightarrow> 0xA0 \<le> b1) \<and> (b0 = 0xED \<longrightarrow> b1 \<le> 0x9F)
          then ((b0 - 0xE0) * 4096 + (b1 - 0x80) * 64 + (b2 - 0x80), 3)
          else (RuneError, 1)
      | _ \<Rightarrow> (RuneError, 1))"

definition decode4 :: "nat \<Rightarrow> nat list \<Rightarrow> rune \<times> nat" where
  "decode4 b0 t =
     (case t of
        b1 # b2 # b3 # _ \<Rightarrow>
          if isCont b1 \<and> isCont b2 \<and> isCont b3
             \<and> (b0 = 0xF0 \<longrightarrow> 0x90 \<le> b1) \<and> (b0 = 0xF4 \<longrightarrow> b1 \<le> 0x8F)
          then ((b0 - 0xF0) * 262144 + (b1 - 0x80) * 4096 + (b2 - 0x80) * 64 + (b3 - 0x80), 4)
          else (RuneError, 1)
      | _ \<Rightarrow> (RuneError, 1))"

definition decodeRune :: "nat list \<Rightarrow> rune \<times> nat" where
  "decodeRune bs =
     (case bs of
        [] \<Rightarrow> (RuneError, 0)
      | b0 # t \<Rightarrow>
          if b0 < 0x80 then (b0, 1)
          else if 0xC2 \<le> b0 \<and> b0 \<le> 0xDF then decode2 b0 t
          else if 0xE0 \<le> b0 \<and> b0 \<le> 0xEF then decode3 b0 t
          else if 0xF0 \<le> b0 \<and> b0 \<le> 0xF4 then decode4 b0 t
          else (RuneError, 1))"

lemmas decodeRune_defs = decodeRune_def decode2_def decode3_def decode4_def

definition validRune :: "rune \<Rightarrow> bool" where
  "validRune r \<longleftrightarrow> r < 0xD800 \<or> (0xDFFF < r \<and> r \<le> 0x10FFFF)"

text \<open>\<open>utf8.AppendRune\<close>: what \<open>string(r)\<close> and \<open>WriteRune\<close> emit.\<close>

definition encodeRune :: "rune \<Rightarrow> nat list" where
  "encodeRune r =
     (if r \<le> 0x7F then [r]
      else if r \<le> 0x7FF then [0xC0 + r div 64, 0x80 + r mod 64]
      else if \<not> validRune r then [0xEF, 0xBF, 0xBD]
      else if r \<le> 0xFFFF then [0xE0 + r div 4096, 0x80 + (r div 64) mod 64, 0x80 + r mod 64]
      else [0xF0 + r div 262144, 0x80 + (r div 4096) mod 64,
            0x80 + (r div 64) mod 64, 0x80 + r mod 64])"

lemma decodeRune_width: "bs \<noteq> [] \<Longrightarrow> 1 \<le> snd (decodeRune bs) \<and> snd (decodeRune bs) \<le> length bs"
  by (auto simp: decodeRune_defs split: list.splits)

lemma length_encodeRune_pos: "0 < length (encodeRune r)"
  by (simp add: encodeRune_def)

lemma div_lt: "(a :: nat) < b * n \<Longrightarrow> 0 < b \<Longrightarrow> a div b < n"
  by (simp add: less_mult_imp_div_less mult.commute)

lemma encodeRune_byte:
  assumes "b \<in> set (encodeRune r)"
  shows "b < 256"
proof -
  have m: "k mod 64 < 64" for k :: nat by simp
  have "r \<le> 0x7FF \<Longrightarrow> r div 64 < 32" by (rule div_lt) simp_all
  moreover have "r \<le> 0xFFFF \<Longrightarrow> r div 4096 < 16" by (rule div_lt) simp_all
  moreover have "validRune r \<Longrightarrow> r div 262144 < 16" by (rule div_lt) (auto simp: validRune_def)
  ultimately show ?thesis
    using assms m [of r] m [of "r div 64"] m [of "r div 4096"]
    by (simp add: encodeRune_def split: if_split_asm) linarith+
qed

lemma decodeRune_2:
  "2 \<le> a \<Longrightarrow> a < 32 \<Longrightarrow> b < 64 \<Longrightarrow> decodeRune ((0xC0 + a) # (0x80 + b) # rest) = (a * 64 + b, 2)"
  by (simp add: decodeRune_defs isCont_def)

lemma decodeRune_3:
  "a < 16 \<Longrightarrow> b < 64 \<Longrightarrow> c < 64 \<Longrightarrow> (a = 0 \<longrightarrow> 32 \<le> b) \<Longrightarrow> (a = 13 \<longrightarrow> b < 32) \<Longrightarrow>
   decodeRune ((0xE0 + a) # (0x80 + b) # (0x80 + c) # rest) = (a * 4096 + b * 64 + c, 3)"
  by (auto simp: decodeRune_defs isCont_def)

lemma decodeRune_4:
  "a < 5 \<Longrightarrow> b < 64 \<Longrightarrow> c < 64 \<Longrightarrow> d < 64 \<Longrightarrow> (a = 0 \<longrightarrow> 16 \<le> b) \<Longrightarrow> (a = 4 \<longrightarrow> b < 16) \<Longrightarrow>
   decodeRune ((0xF0 + a) # (0x80 + b) # (0x80 + c) # (0x80 + d) # rest)
     = (a * 262144 + b * 4096 + c * 64 + d, 4)"
  by (auto simp: decodeRune_defs isCont_def)

lemma decode_encodeRune:
  assumes "validRune r"
  shows "decodeRune (encodeRune r @ rest) = (r, length (encodeRune r))"
proof -
  define d c b a where "d = r mod 64" and "c = (r div 64) mod 64"
    and "b = (r div 4096) mod 64" and "a = r div 262144"
  have lt: "b < 64" "c < 64" "d < 64" by (simp_all add: b_def c_def d_def)
  have r2: "r = (r div 64) * 64 + d" by (simp add: d_def)
  have "r div 64 = (r div 4096) * 64 + c"
    by (simp add: c_def div_mult2_eq [of r 64 64, simplified])
  with r2 have r3: "r = (r div 4096) * 4096 + c * 64 + d" by linarith
  have "r div 4096 = a * 64 + b"
    by (simp add: a_def b_def div_mult2_eq [of r 4096 64, simplified])
  with r3 have r4: "r = a * 262144 + b * 4096 + c * 64 + d" by linarith
  consider "r \<le> 0x7F" | "0x7F < r" "r \<le> 0x7FF" | "0x7FF < r" "r \<le> 0xFFFF" | "0xFFFF < r" "r \<le> 0x10FFFF"
    using assms by (force simp: validRune_def)
  then show ?thesis
  proof cases
    case 1
    then show ?thesis by (simp add: encodeRune_def decodeRune_def)
  next
    case 2
    with r2 lt have "2 \<le> r div 64" "r div 64 < 32" by linarith+
    from decodeRune_2 [OF this lt(3), of rest, folded r2] 2 show ?thesis
      by (simp add: encodeRune_def d_def)
  next
    case 3
    with r3 lt have "r div 4096 < 16" "r div 4096 = 0 \<longrightarrow> 32 \<le> c" by linarith+
    moreover from assms r3 lt have "r div 4096 = 13 \<longrightarrow> c < 32"
      unfolding validRune_def by linarith
    ultimately have "decodeRune ((0xE0 + r div 4096) # (0x80 + c) # (0x80 + d) # rest) = (r, 3)"
      using decodeRune_3 [OF _ lt(2,3), of "r div 4096" rest, folded r3] by iprover
    with 3 assms show ?thesis by (simp add: encodeRune_def c_def d_def)
  next
    case 4
    with r4 lt have "a < 5" "a = 0 \<longrightarrow> 16 \<le> b" "a = 4 \<longrightarrow> b < 16" by linarith+
    from decodeRune_4 [OF this(1) lt this(2,3), of rest, folded r4] 4 assms show ?thesis
      by (simp add: encodeRune_def a_def b_def c_def d_def)
  qed
qed

function utf8_chunks :: "string \<Rightarrow> (rune \<times> string) list" where
  "utf8_chunks s =
     (if s = [] then []
      else let (r, w) = decodeRune (codes s) in (r, take w s) # utf8_chunks (drop w s))"
  by pat_completeness auto
termination
proof (relation "measure length")
  fix s :: string and x r w
  assume "s \<noteq> []" "x = decodeRune (codes s)" "(r, w) = x"
  then show "(drop w s, s) \<in> measure length"
    using decodeRune_width [of "codes s"] by (cases s) (auto simp: codes_def dest!: sym [of "(r, w)"])
qed simp

declare utf8_chunks.simps [simp del]

text \<open>\<open>[]rune(s)\<close> and \<open>string(rs)\<close>.\<close>

definition runes :: "string \<Rightarrow> rune list" where
  "runes s = map fst (utf8_chunks s)"

definition string_of_rune :: "rune \<Rightarrow> string" where
  "string_of_rune r = map char_of (encodeRune r)"

definition string_of_runes :: "rune list \<Rightarrow> string" where
  "string_of_runes rs = concat (map string_of_rune rs)"

text \<open>Well-formed text: decoding and encoding again gives the same bytes.\<close>

definition valid_utf8 :: "string \<Rightarrow> bool" where
  "valid_utf8 s \<longleftrightarrow> string_of_runes (runes s) = s"

lemma utf8_chunks_Nil [simp]: "utf8_chunks [] = []"
  by (simp add: utf8_chunks.simps)

lemma runes_Nil [simp]: "runes [] = []"
  by (simp add: runes_def)

lemma string_of_runes_simps [simp]:
  "string_of_runes [] = []"
  "string_of_runes (r # rs) = string_of_rune r @ string_of_runes rs"
  "string_of_runes (rs @ qs) = string_of_runes rs @ string_of_runes qs"
  by (simp_all add: string_of_runes_def)

lemma string_of_rune_nonempty [simp]: "string_of_rune r \<noteq> []"
  using length_encodeRune_pos [of r] by (auto simp: string_of_rune_def)

lemma codes_string_of_rune: "codes (string_of_rune r) = encodeRune r"
  by (simp add: codes_def string_of_rune_def o_def encodeRune_byte cong: map_cong)

lemma concat_utf8_chunks: "concat (map snd (utf8_chunks s)) = s"
proof (induction s rule: utf8_chunks.induct)
  case (1 s)
  then show ?case
    by (cases "s = []"; cases "decodeRune (codes s)") (simp_all add: utf8_chunks.simps [of s])
qed

lemma utf8_chunks_rune:
  assumes "validRune r"
  shows "utf8_chunks (string_of_rune r @ s) = (r, string_of_rune r) # utf8_chunks s"
proof -
  have l: "length (string_of_rune r) = length (encodeRune r)" by (simp add: string_of_rune_def)
  have "decodeRune (codes (string_of_rune r @ s)) = (r, length (string_of_rune r))"
    using decode_encodeRune [OF assms] by (simp add: codes_string_of_rune l)
  then show ?thesis by (simp add: utf8_chunks.simps [of "string_of_rune r @ s"])
qed

lemma utf8_chunks_runes:
  "\<forall>r \<in> set rs. validRune r \<Longrightarrow>
   utf8_chunks (string_of_runes rs) = map (\<lambda>r. (r, string_of_rune r)) rs"
  by (induction rs) (simp_all add: utf8_chunks_rune)

lemma runes_string_of_runes [simp]:
  "\<forall>r \<in> set rs. validRune r \<Longrightarrow> runes (string_of_runes rs) = rs"
  by (simp add: runes_def utf8_chunks_runes o_def)

lemma valid_utf8_string_of_runes: "\<forall>r \<in> set rs. validRune r \<Longrightarrow> valid_utf8 (string_of_runes rs)"
  by (simp add: valid_utf8_def)

lemma validRune_RuneError: "validRune RuneError"
  by (simp add: validRune_def RuneError_def)

lemma validRune_decode: "validRune (fst (decodeRune bs))"
proof -
  have three: "validRune ((b0 - 0xE0) * 4096 + (b1 - 0x80) * 64 + (b2 - 0x80))"
    if "0xE0 \<le> b0" "b0 \<le> 0xEF" "0x80 \<le> b1" "b1 \<le> 0xBF" "0x80 \<le> b2" "b2 \<le> 0xBF"
      "b0 = 0xED \<longrightarrow> b1 \<le> 0x9F" for b0 b1 b2 :: nat
  proof (cases "b0 < 0xED")
    case True
    then have "b0 - 0xE0 \<le> 12" "b1 - 0x80 \<le> 63" "b2 - 0x80 \<le> 63" using that by auto
    then show ?thesis unfolding validRune_def by linarith
  next
    case False
    with that consider "b0 - 0xE0 = 13" "b1 - 0x80 \<le> 31" "b2 - 0x80 \<le> 63"
      | "14 \<le> b0 - 0xE0" "b0 - 0xE0 \<le> 15" "b1 - 0x80 \<le> 63" "b2 - 0x80 \<le> 63"
      by (cases "b0 = 0xED") auto
    then show ?thesis unfolding validRune_def by cases linarith+
  qed
  have four: "validRune ((b0 - 0xF0) * 262144 + (b1 - 0x80) * 4096 + (b2 - 0x80) * 64 + (b3 - 0x80))"
    if "0xF0 \<le> b0" "b0 \<le> 0xF4" "0x80 \<le> b1" "b1 \<le> 0xBF" "0x80 \<le> b2" "b2 \<le> 0xBF"
      "0x80 \<le> b3" "b3 \<le> 0xBF" "b0 = 0xF0 \<longrightarrow> 0x90 \<le> b1" "b0 = 0xF4 \<longrightarrow> b1 \<le> 0x8F"
    for b0 b1 b2 b3 :: nat
  proof -
    from that have le: "b1 - 0x80 \<le> 63" "b2 - 0x80 \<le> 63" "b3 - 0x80 \<le> 63" by auto
    from that consider "b0 - 0xF0 = 0" "16 \<le> b1 - 0x80"
      | "1 \<le> b0 - 0xF0" "b0 - 0xF0 \<le> 3" | "b0 - 0xF0 = 4" "b1 - 0x80 \<le> 15"
      by (cases "b0 = 0xF0"; cases "b0 = 0xF4") auto
    then show ?thesis unfolding validRune_def using le by cases linarith+
  qed
  have two: "validRune ((b0 - 0xC0) * 64 + (b1 - 0x80))"
    if "b0 \<le> 0xDF" "b1 \<le> 0xBF" for b0 b1 :: nat
  proof -
    from that have "b0 - 0xC0 \<le> 31" "b1 - 0x80 \<le> 63" by auto
    then show ?thesis unfolding validRune_def by linarith
  qed
  have "validRune (fst (decode2 b0 t))" if "b0 \<le> 0xDF" for b0 t
    using that two validRune_RuneError by (simp add: decode2_def isCont_def split: list.split del: Nat.add_diff_assoc)
  moreover have "validRune (fst (decode3 b0 t))" if "0xE0 \<le> b0" "b0 \<le> 0xEF" for b0 t
  proof -
    have "validRune (fst (decode3 b0 (b1 # b2 # u)))" for b1 b2 u
      unfolding decode3_def using that three [of b0 b1 b2] validRune_RuneError
      by (simp add: isCont_def del: Nat.add_diff_assoc)
    then show ?thesis using validRune_RuneError
      by (cases t rule: remdups_adj.cases) (simp_all add: decode3_def)
  qed
  moreover have "validRune (fst (decode4 b0 t))" if "0xF0 \<le> b0" "b0 \<le> 0xF4" for b0 t
  proof -
    have *: "validRune (fst (decode4 b0 (b1 # b2 # b3 # u)))" for b1 b2 b3 u
      unfolding decode4_def using that four [of b0 b1 b2 b3] validRune_RuneError
      by (simp add: isCont_def del: Nat.add_diff_assoc)
    show ?thesis
    proof (cases "\<exists>b1 b2 b3 u. t = b1 # b2 # b3 # u")
      case True
      then show ?thesis using * by blast
    next
      case False
      then show ?thesis using validRune_RuneError
        by (auto simp: decode4_def split: list.splits)
    qed
  qed
  ultimately show ?thesis using validRune_RuneError
    by (auto simp: decodeRune_def validRune_def [of "_ :: nat"] split: list.split)
qed

lemma validRune_runes: "r \<in> set (runes s) \<Longrightarrow> validRune r"
  unfolding runes_def
proof (induction s rule: utf8_chunks.induct)
  case (1 s)
  show ?case
  proof (cases "s = []")
    case False
    obtain q w where d: "decodeRune (codes s) = (q, w)" by force
    then have "validRune q" using validRune_decode [of "codes s"] by simp
    with 1 False d show ?thesis by (auto simp: utf8_chunks.simps [of s])
  qed (use 1 in simp)
qed

lemma runes_eq_Nil [simp]: "runes s = [] \<longleftrightarrow> s = []"
  by (simp add: runes_def utf8_chunks.simps [of s] split: prod.splits)

lemma runes_ascii: "\<forall>c \<in> set s. (of_char c :: nat) < 128 \<Longrightarrow> runes s = codes s"
proof (induction s)
  case (Cons c s)
  then have "decodeRune (codes (c # s)) = (of_char c, 1)" by (simp add: codes_def decodeRune_def)
  with Cons show ?case by (simp add: runes_def utf8_chunks.simps [of "c # s"] codes_def)
qed simp

lemma valid_utf8_ascii: "\<forall>c \<in> set s. (of_char c :: nat) < 128 \<Longrightarrow> valid_utf8 s"
  by (induction s) (simp_all add: valid_utf8_def runes_ascii codes_def string_of_rune_def encodeRune_def)

lemma replicate_num: "replicate (numeral k) x = x # replicate (pred_numeral k) x"
  by (simp add: numeral_eq_Suc)

subsection \<open>Letter case and white space\<close>

text \<open>
  \<open>strings.ToLower\<close>, \<open>strings.ToUpper\<close> and \<open>strings.EqualFold\<close> are used to compare configured
  names with ASCII literals only. Besides the ASCII letters the runes whose image is ASCII are
  U+0130 and U+212A (lower case), U+0131 and U+017F (upper case) and U+017F and U+212A
  (folding). Every other rune maps to a non-ASCII rune and is left as it is here.
\<close>

definition toLowerRune :: "rune \<Rightarrow> rune" where
  "toLowerRune r = (if 0x41 \<le> r \<and> r \<le> 0x5A then r + 32
                    else if r = 0x130 then 0x69 else if r = 0x212A then 0x6B else r)"

definition toUpperRune :: "rune \<Rightarrow> rune" where
  "toUpperRune r = (if 0x61 \<le> r \<and> r \<le> 0x7A then r - 32
                    else if r = 0x131 then 0x49 else if r = 0x17F then 0x53 else r)"

definition foldRune :: "rune \<Rightarrow> rune" where
  "foldRune r = (if 0x41 \<le> r \<and> r \<le> 0x5A then r + 32
                 else if r = 0x17F then 0x73 else if r = 0x212A then 0x6B else r)"

definition ToLower :: "string \<Rightarrow> string" where
  "ToLower s = string_of_runes (map toLowerRune (runes s))"

definition ToUpper :: "string \<Rightarrow> string" where
  "ToUpper s = string_of_runes (map toUpperRune (runes s))"

definition EqualFold :: "string \<Rightarrow> string \<Rightarrow> bool" where
  "EqualFold s t \<longleftrightarrow> map foldRune (runes s) = map foldRune (runes t)"

definition isSpaceRune :: "rune \<Rightarrow> bool" where
  "isSpaceRune r \<longleftrightarrow> r \<in> {0x20, 0x85, 0xA0, 0x1680, 0x2028, 0x2029, 0x202F, 0x205F, 0x3000}
     \<or> (0x09 \<le> r \<and> r \<le> 0x0D) \<or> (0x2000 \<le> r \<and> r \<le> 0x200A)"

definition TrimSpace :: "string \<Rightarrow> string" where
  "TrimSpace s =
     concat (map snd (rev (dropWhile (isSpaceRune \<circ> fst)
       (rev (dropWhile (isSpaceRune \<circ> fst) (utf8_chunks s))))))"

subsection \<open>Integers\<close>

text \<open>Go's integer division truncates towards zero.\<close>

definition godiv :: "int \<Rightarrow> int \<Rightarrow> int" where
  "godiv a b = sgn a * sgn b * (\<bar>a\<bar> div \<bar>b\<bar>)"

subsection \<open>Big-endian fields\<close>

definition be_get16 :: "byte \<Rightarrow> byte \<Rightarrow> 16 word" where
  "be_get16 a b = push_bit 8 (ucast a) OR ucast b"

definition be_put16 :: "16 word \<Rightarrow> bytes" where
  "be_put16 w = [ucast (drop_bit 8 w), ucast w]"

definition be_get32 :: "byte \<Rightarrow> byte \<Rightarrow> byte \<Rightarrow> byte \<Rightarrow> 32 word" where
  "be_get32 a b c d =
     push_bit 24 (ucast a) OR push_bit 16 (ucast b) OR push_bit 8 (ucast c) OR ucast d"

definition be_put32 :: "32 word \<Rightarrow> bytes" where
  "be_put32 w = [ucast (drop_bit 24 w), ucast (drop_bit 16 w), ucast (drop_bit 8 w), ucast w]"

lemma length_be_put16 [simp]: "length (be_put16 w) = 2"
  by (simp add: be_put16_def)

lemma length_be_put32 [simp]: "length (be_put32 w) = 4"
  by (simp add: be_put32_def)

lemma be_get_put16 [wire_simps]: "be_get16 (ucast (drop_bit 8 w)) (ucast w) = w"
  unfolding be_get16_def by (rule bit_word_eqI) (auto simp: bit_simps)

lemma be_put_get16 [wire_simps]: "be_put16 (be_get16 a b) = [a, b]"
proof -
  have "\<not> bit b (8 + n)" for n using bit_imp_le_length [of b "8 + n"] by auto
  then have "ucast (drop_bit 8 (be_get16 a b)) = a" "ucast (be_get16 a b) = b"
    by (auto intro!: bit_word_eqI simp: be_get16_def bit_simps)
  then show ?thesis by (simp add: be_put16_def)
qed

lemma be_get_put32 [wire_simps]:
  "be_get32 (ucast (drop_bit 24 w)) (ucast (drop_bit 16 w)) (ucast (drop_bit 8 w)) (ucast w) = w"
proof (rule bit_word_eqI)
  fix n assume "n < LENGTH(32)"
  then consider "n < 8" | "8 \<le> n" "n < 16" | "16 \<le> n" "n < 24" | "24 \<le> n" "n < 32"
    by force
  then show "bit (be_get32 (ucast (drop_bit 24 w)) (ucast (drop_bit 16 w)) (ucast (drop_bit 8 w))
      (ucast w)) n = bit w n"
    by cases (auto simp: be_get32_def bit_simps)
qed

lemma be_put_get32 [wire_simps]: "be_put32 (be_get32 a b c d) = [a, b, c, d]"
proof -
  have n: "\<not> bit (x :: byte) n" if "8 \<le> n" for x n using bit_imp_le_length [of x n] that by auto
  have "ucast (drop_bit 24 (be_get32 a b c d)) = a" "ucast (drop_bit 16 (be_get32 a b c d)) = b"
    "ucast (drop_bit 8 (be_get32 a b c d)) = c" "ucast (be_get32 a b c d) = d"
    by (auto intro!: bit_word_eqI simp: be_get32_def bit_simps n)
  then show ?thesis by (simp add: be_put32_def)
qed

lemma unat_of_nat32: "n < 2 ^ 32 \<Longrightarrow> unat (of_nat n :: 32 word) = n"
  by (simp add: unat_of_nat)

lemma unat_of_nat16: "n < 65536 \<Longrightarrow> unat (of_nat n :: 16 word) = n"
  by (simp add: unat_of_nat)

subsection \<open>Association lists\<close>

lemma map_of_filter_distinct:
  "distinct (map fst al) \<Longrightarrow> map_of (filter (\<lambda>(k, v). P v) al) k
     = (case map_of al k of Some v \<Rightarrow> if P v then Some v else None | None \<Rightarrow> None)"
proof (induction al)
  case (Cons e al)
  have "map_of al (fst e) = None" using Cons.prems by (simp add: map_of_eq_None_iff)
  with Cons show ?case by (cases e) (auto split: option.splits)
qed simp

lemma map_of_filter_Some:
  "distinct (map fst al) \<Longrightarrow> map_of (filter (\<lambda>(k, v). P v) al) k = Some v \<longleftrightarrow> map_of al k = Some v \<and> P v"
  by (cases "map_of al k") (auto simp: map_of_filter_distinct)

lemma distinct_fst_filter: "distinct (map fst al) \<Longrightarrow> distinct (map fst (filter P al))"
  by (simp add: distinct_map inj_on_def)

lemma map_of_update [simp, map_simps]: "map_of (AList.update k v al) = (map_of al)(k \<mapsto> v)"
  by (rule update_conv')

lemma map_of_delete [simp, map_simps]: "map_of (AList.delete k al) = (map_of al)(k := None)"
  by (rule delete_conv')

lemma distinct_update [simp]: "distinct (map fst al) \<Longrightarrow> distinct (map fst (AList.update k v al))"
  by (rule distinct_update)

lemma distinct_delete [simp]: "distinct (map fst al) \<Longrightarrow> distinct (map fst (AList.delete k al))"
  by (rule distinct_delete)

end
