(* ===== verification/Sms_Text.thy ===== *)
theory Sms_Text
  imports Go_Prelude
begin

text \<open>
  The message package: the message and segment records, encoding detection, the splitting of a
  text into concatenated segments and their joining (\<open>message.go\<close>), and the UCS-2, Latin-1 and
  GSM 03.38 codecs with the septet packing (\<open>codec.go\<close>).
\<close>

subsection \<open>Records and limits\<close>

definition DefaultGSM7SingleLimit :: int where "DefaultGSM7SingleLimit = 160"
definition DefaultGSM7ConcatLimit :: int where "DefaultGSM7ConcatLimit = 153"
definition Default8BitSingleLimit :: int where "Default8BitSingleLimit = 140"
definition Default8BitConcatLimit :: int where "Default8BitConcatLimit = 134"
definition DefaultUCS2SingleLimit :: int where "DefaultUCS2SingleLimit = 70"
definition DefaultUCS2ConcatLimit :: int where "DefaultUCS2ConcatLimit = 67"

lemmas limit_defs = DefaultGSM7SingleLimit_def DefaultGSM7ConcatLimit_def
  Default8BitSingleLimit_def Default8BitConcatLimit_def
  DefaultUCS2SingleLimit_def DefaultUCS2ConcatLimit_def

record Segment =
  Seg_Reference :: "16 word"
  Seg_Part :: int
  Seg_Total :: int
  Seg_Text :: string
  Seg_UDH :: bytes

datatype Direction = DirectionMO | DirectionMT

text \<open>A nil \<open>Metadata\<close> map reads like an empty one; the code never writes to it before making it.\<close>

record Message =
  Msg_ID :: string
  Msg_ProviderID :: string
  Msg_TenantID :: string
  Msg_AccountID :: string
  Msg_ClientMsgID :: string
  Msg_Direction :: Direction
  Msg_From :: string
  Msg_To :: string
  Msg_Text :: string
  Msg_Encoding :: string
  Msg_Route :: string
  Msg_Provider :: string
  Msg_SourceKind :: string
  Msg_SourceID :: string
  Msg_State :: string
  Msg_ErrorCode :: int
  Msg_Segments :: "Segment list"
  Msg_Metadata :: "(string, string) gomap"
  Msg_SubmittedAt :: gotime
  Msg_SentAt :: gotime
  Msg_DoneAt :: gotime

subsection \<open>The GSM 03.38 tables\<close>

definition gsm7DefaultRunes :: "rune list" where
  "gsm7DefaultRunes =
    [64, 163, 36, 165, 232, 233, 249, 236, 242, 199, 10, 216, 248, 13, 197, 229,
     916, 95, 934, 915, 923, 937, 928, 936, 931, 920, 926, 0, 198, 230, 223, 201,
     32, 33, 34, 35, 164, 37, 38, 39, 40, 41, 42, 43, 44, 45, 46, 47,
     48, 49, 50, 51, 52, 53, 54, 55, 56, 57, 58, 59, 60, 61, 62, 63,
     161, 65, 66, 67, 68, 69, 70, 71, 72, 73, 74, 75, 76, 77, 78, 79,
     80, 81, 82, 83, 84, 85, 86, 87, 88, 89, 90, 196, 214, 209, 220, 167,
     191, 97, 98, 99, 100, 101, 102, 103, 104, 105, 106, 107, 108, 109, 110, 111,
     112, 113, 114, 115, 116, 117, 118, 119, 120, 121, 122, 228, 246, 241, 252, 224]"

text \<open>The table filled by \<open>init\<close>: a later entry for the same rune would replace an earlier one.\<close>

definition gsm7DefaultCodes :: "rune \<rightharpoonup> byte" where
  "gsm7DefaultCodes =
     map_of (rev [(r, of_nat i). (i, r) \<leftarrow> enumerate 0 gsm7DefaultRunes, r \<noteq> 0])"

definition gsm7ExtTable :: "(byte \<times> rune) list" where
  "gsm7ExtTable =
     [(0x0A, 12), (0x14, 94), (0x28, 123), (0x29, 125), (0x2F, 92),
      (0x3C, 91), (0x3D, 126), (0x3E, 93), (0x40, 124), (0x65, 8364)]"

definition gsm7ExtToRune :: "byte \<rightharpoonup> rune" where
  "gsm7ExtToRune = map_of gsm7ExtTable"

definition gsm7RuneToExt :: "rune \<rightharpoonup> byte" where
  "gsm7RuneToExt = map_of (map (\<lambda>(c, r). (r, c)) gsm7ExtTable)"

definition isGSM7Basic :: "rune \<Rightarrow> bool" where
  "isGSM7Basic r \<longleftrightarrow> gsm7DefaultCodes r \<noteq> None \<or> gsm7RuneToExt r \<noteq> None"

definition DetectEncoding :: "string \<Rightarrow> string" where
  "DetectEncoding text = (if \<exists>r \<in> set (runes text). \<not> isGSM7Basic r then ''ucs2'' else ''gsm7'')"

definition Message_New :: "gotime \<Rightarrow> string \<Rightarrow> Direction \<Rightarrow> string \<Rightarrow> string \<Rightarrow> string \<Rightarrow> Message" where
  "Message_New now ident direction from to text =
     \<lparr>Msg_ID = ident, Msg_ProviderID = [], Msg_TenantID = [], Msg_AccountID = [],
      Msg_ClientMsgID = [], Msg_Direction = direction, Msg_From = from, Msg_To = to,
      Msg_Text = text, Msg_Encoding = DetectEncoding text, Msg_Route = [], Msg_Provider = [],
      Msg_SourceKind = [], Msg_SourceID = [], Msg_State = ''submitted'', Msg_ErrorCode = 0,
      Msg_Segments = [], Msg_Metadata = [], Msg_SubmittedAt = now, Msg_SentAt = 0, Msg_DoneAt = 0\<rparr>"

subsection \<open>Measuring and cutting a text\<close>

definition gsm7Size :: "rune \<Rightarrow> int" where
  "gsm7Size r = (if gsm7RuneToExt r \<noteq> None then 2 else 1)"

definition gsm7SeptetLen :: "string \<Rightarrow> int" where
  "gsm7SeptetLen text = sum_list (map gsm7Size (runes text))"

text \<open>\<open>utf16.RuneLen\<close>\<close>

definition utf16RuneLen :: "rune \<Rightarrow> int" where
  "utf16RuneLen r = (if r < 0xD800 \<or> (0xE000 \<le> r \<and> r < 0x10000) then 1
                     else if 0x10000 \<le> r \<and> r \<le> 0x10FFFF then 2 else -1)"

definition ucs2UnitLen :: "string \<Rightarrow> int" where
  "ucs2UnitLen text = sum_list (map utf16RuneLen (runes text))"

text \<open>
  The loop shared by \<open>chunkGSM7\<close> and \<open>chunkUCS2\<close>, over its variables \<open>chunks\<close>, \<open>b\<close> and
  \<open>used\<close>; the two differ in the size of a rune only.
\<close>

fun chunkLoop :: "(rune \<Rightarrow> int) \<Rightarrow> int \<Rightarrow> rune list \<Rightarrow> string list \<Rightarrow> string \<Rightarrow> int \<Rightarrow> string list" where
  "chunkLoop sz limit [] chunks b used = (if length b > 0 then chunks @ [b] else chunks)"
| "chunkLoop sz limit (r # rs) chunks b used =
     (if used > 0 \<and> used + sz r > limit
      then chunkLoop sz limit rs (chunks @ [b]) (string_of_rune r) (sz r)
      else chunkLoop sz limit rs chunks (b @ string_of_rune r) (used + sz r))"

definition chunkGSM7 :: "string \<Rightarrow> int \<Rightarrow> string list" where
  "chunkGSM7 text limit = chunkLoop gsm7Size limit (runes text) [] [] 0"

definition chunkUCS2 :: "string \<Rightarrow> int \<Rightarrow> string list" where
  "chunkUCS2 text limit = chunkLoop utf16RuneLen limit (runes text) [] [] 0"

text \<open>
  \<open>chunkRunes\<close> is called with the two positive concatenation limits only; at limit 0 the code
  divides by zero, and the model stops.
\<close>

function chunkRunesLoop :: "nat \<Rightarrow> rune list \<Rightarrow> string list" where
  "chunkRunesLoop limit rs =
     (if rs = [] \<or> limit = 0 then []
      else string_of_runes (take limit rs) # chunkRunesLoop limit (drop limit rs))"
  by pat_completeness auto
termination by (relation "measure (\<lambda>(limit, rs). length rs)") auto

declare chunkRunesLoop.simps [simp del]

definition chunkRunes :: "string \<Rightarrow> int \<Rightarrow> string list" where
  "chunkRunes text limit = chunkRunesLoop (nat limit) (runes text)"

definition concatUDH :: "16 word \<Rightarrow> int \<Rightarrow> int \<Rightarrow> bytes" where
  "concatUDH ref part tot = [0x05, 0x00, 0x03, ucast ref, of_int tot, of_int part]"

subsection \<open>Split and Join\<close>

definition singleLimitFor :: "string \<Rightarrow> int" where
  "singleLimitFor encoding =
     (if EqualFold encoding ''8bit'' then Default8BitSingleLimit
      else if EqualFold encoding ''ucs2'' then DefaultUCS2SingleLimit
      else DefaultGSM7SingleLimit)"

definition concatLimitFor :: "string \<Rightarrow> int" where
  "concatLimitFor encoding =
     (if EqualFold encoding ''8bit'' then Default8BitConcatLimit
      else if EqualFold encoding ''ucs2'' then DefaultUCS2ConcatLimit
      else DefaultGSM7ConcatLimit)"

definition textLenFor :: "string \<Rightarrow> string \<Rightarrow> int" where
  "textLenFor encoding text =
     (if EqualFold encoding ''gsm7'' then gsm7SeptetLen text
      else if EqualFold encoding ''ucs2'' then ucs2UnitLen text
      else int (length (runes text)))"

definition chunksFor :: "string \<Rightarrow> string \<Rightarrow> string list" where
  "chunksFor encoding text =
     (if EqualFold encoding ''gsm7'' then chunkGSM7 text (concatLimitFor encoding)
      else if EqualFold encoding ''ucs2'' then chunkUCS2 text (concatLimitFor encoding)
      else chunkRunes text (concatLimitFor encoding))"

text \<open>\<open>Split\<close>, with the result of \<open>randomReference()\<close> as the argument \<open>ref\<close>.\<close>

definition splitEncoding :: "string \<Rightarrow> string \<Rightarrow> string" where
  "splitEncoding text force =
     (if force = [] \<or> force = ''auto'' then DetectEncoding text else force)"

definition Split :: "16 word \<Rightarrow> string \<Rightarrow> string \<Rightarrow> Segment list" where
  "Split ref text force =
     (let encoding = splitEncoding text force in
      if textLenFor encoding text \<le> singleLimitFor encoding
      then [\<lparr>Seg_Reference = 0, Seg_Part = 1, Seg_Total = 1, Seg_Text = text, Seg_UDH = []\<rparr>]
      else let chunks = chunksFor encoding text; n = int (length chunks) in
        map (\<lambda>(i, chunk).
               \<lparr>Seg_Reference = ref, Seg_Part = int i + 1, Seg_Total = n, Seg_Text = chunk,
                Seg_UDH = concatUDH ref (int i + 1) n\<rparr>)
            (enumerate 0 chunks))"

text \<open>
  \<open>Join\<close> sorts a copy by part number with an insertion sort: the element at \<open>i\<close> moves towards
  the front while its predecessor is larger. \<open>insertBack\<close> is that inner loop on the reversed
  prefix, whose head is the last element before \<open>i\<close>.
\<close>

fun insertBack :: "Segment \<Rightarrow> Segment list \<Rightarrow> Segment list" where
  "insertBack x [] = [x]"
| "insertBack x (y # ys) = (if Seg_Part y > Seg_Part x then y # insertBack x ys else x # y # ys)"

definition sortByPart :: "Segment list \<Rightarrow> Segment list" where
  "sortByPart segs = rev (fold insertBack segs [])"

definition Join :: "Segment list \<Rightarrow> string" where
  "Join segs = concat (map Seg_Text (sortByPart segs))"

subsection \<open>Codecs\<close>

text \<open>\<open>utf16.Encode\<close> and \<open>utf16.Decode\<close>; code units are 16-bit words.\<close>

definition utf16EncodeRune :: "rune \<Rightarrow> 16 word list" where
  "utf16EncodeRune r =
     (if r < 0xD800 \<or> (0xE000 \<le> r \<and> r < 0x10000) then [of_nat r]
      else if 0x10000 \<le> r \<and> r \<le> 0x10FFFF
      then [of_nat (0xD800 + (r - 0x10000) div 1024), of_nat (0xDC00 + (r - 0x10000) mod 1024)]
      else [of_nat RuneError])"

definition utf16Encode :: "rune list \<Rightarrow> 16 word list" where
  "utf16Encode rs = concat (map utf16EncodeRune rs)"

fun utf16Decode :: "16 word list \<Rightarrow> rune list" where
  "utf16Decode [] = []"
| "utf16Decode [u] =
     [if 0xD800 \<le> unat u \<and> unat u < 0xE000 then RuneError else unat u]"
| "utf16Decode (u # v # us) =
     (if 0xD800 \<le> unat u \<and> unat u < 0xDC00 \<and> 0xDC00 \<le> unat v \<and> unat v < 0xE000
      then ((unat u - 0xD800) * 1024 + (unat v - 0xDC00) + 0x10000) # utf16Decode us
      else if 0xD800 \<le> unat u \<and> unat u < 0xE000 then RuneError # utf16Decode (v # us)
      else unat u # utf16Decode (v # us))"

text \<open>The code units of a body of even length.\<close>

fun bytePairs :: "bytes \<Rightarrow> 16 word list" where
  "bytePairs (a # b # bs) = be_get16 a b # bytePairs bs"
| "bytePairs _ = []"

text \<open>The septet that starts at bit \<open>7 * i\<close> of the packed body.\<close>

definition septetAt :: "bytes \<Rightarrow> nat \<Rightarrow> byte" where
  "septetAt body i =
     (let bitpos = i * 7; byteIndex = bitpos div 8; shift = bitpos mod 8;
          value = drop_bit shift (body ! byteIndex) AND 0x7F
      in if shift > 1 \<and> byteIndex + 1 < length body
         then value OR (push_bit (8 - shift) (body ! (byteIndex + 1)) AND 0x7F)
         else value)"

definition unpackSeptets :: "bytes \<Rightarrow> bytes" where
  "unpackSeptets body =
     (let septets = map (septetAt body)
            (takeWhile (\<lambda>i. i * 7 div 8 < length body) [0..<length body * 8 div 7])
      in if length body mod 7 = 0 \<and> length septets > 0 \<and> last septets = 0
         then butlast septets else septets)"

fun septetRunes :: "bytes \<Rightarrow> rune list" where
  "septetRunes [] = []"
| "septetRunes [c] =
     (if unat c < length gsm7DefaultRunes \<and> gsm7DefaultRunes ! unat c \<noteq> 0
      then [gsm7DefaultRunes ! unat c] else [])"
| "septetRunes (c # d # cs) =
     (if c = 0x1B
      then (case gsm7ExtToRune d of Some r \<Rightarrow> r # septetRunes cs | None \<Rightarrow> septetRunes cs)
      else if unat c < length gsm7DefaultRunes \<and> gsm7DefaultRunes ! unat c \<noteq> 0
      then gsm7DefaultRunes ! unat c # septetRunes (d # cs)
      else septetRunes (d # cs))"

definition decodeGSM7Packed :: "bytes \<Rightarrow> string" where
  "decodeGSM7Packed body =
     (if length body = 0 then [] else string_of_runes (septetRunes (unpackSeptets body)))"

text \<open>The septets of one rune; a rune outside the alphabet is sent as a question mark.\<close>

definition runeSeptets :: "rune \<Rightarrow> bytes" where
  "runeSeptets r =
     (case gsm7DefaultCodes r of
        Some code \<Rightarrow> [code]
      | None \<Rightarrow> (case gsm7RuneToExt r of
                   Some code \<Rightarrow> [0x1B, code]
                 | None \<Rightarrow> [case gsm7DefaultCodes 63 of Some code \<Rightarrow> code | None \<Rightarrow> 0]))"

definition EncodeGSM7Unpacked :: "string \<Rightarrow> bytes" where
  "EncodeGSM7Unpacked text = concat (map runeSeptets (runes text))"

definition packStep :: "bytes \<Rightarrow> nat \<times> byte \<Rightarrow> bytes" where
  "packStep out p =
     (let (i, septet) = p; bitpos = i * 7; byteIndex = bitpos div 8; shift = bitpos mod 8;
          out1 = out[byteIndex := out ! byteIndex OR push_bit shift septet]
      in if shift > 1 \<and> byteIndex + 1 < length out1
         then out1[byteIndex + 1 := out1 ! (byteIndex + 1) OR drop_bit (8 - shift) septet]
         else out1)"

definition packSeptets :: "bytes \<Rightarrow> bytes" where
  "packSeptets septets =
     foldl packStep (replicate ((length septets * 7 + 7) div 8) 0) (enumerate 0 septets)"

definition encodeGSM7Packed :: "string \<Rightarrow> bytes" where
  "encodeGSM7Packed text = packSeptets (concat (map runeSeptets (runes text)))"

definition DecodeText :: "bytes \<Rightarrow> byte \<Rightarrow> string" where
  "DecodeText body dataCoding =
     (if dataCoding = 0x08 then
        (if length body mod 2 \<noteq> 0 then string_of body
         else string_of_runes (utf16Decode (bytePairs body)))
      else if dataCoding = 0x03 then string_of_runes (map unat body)
      else decodeGSM7Packed body)"

definition EncodeText :: "string \<Rightarrow> byte \<Rightarrow> bytes" where
  "EncodeText text dataCoding =
     (if dataCoding = 0x08 then concat (map be_put16 (utf16Encode (runes text)))
      else if dataCoding = 0x03
      then map (\<lambda>r. if r > 0xff then 0x3F else of_nat r) (runes text)
      else encodeGSM7Packed text)"

subsection \<open>Guessing unpacked bodies\<close>

definition isLikelyUnpackedASCII :: "bytes \<Rightarrow> bool" where
  "isLikelyUnpackedASCII body \<longleftrightarrow>
     length body \<noteq> 0 \<and>
     list_all (\<lambda>b. b = 13 \<or> b = 10 \<or> b = 9 \<or> \<not> (b < 0x20 \<or> b > 0x7E)) body"

definition isMostlyPrintableASCII :: "string \<Rightarrow> bool" where
  "isMostlyPrintableASCII text \<longleftrightarrow>
     (if text = [] then True
      else let rs = runes text;
               printable = length (filter (\<lambda>r. r = 13 \<or> r = 10 \<or> r = 9 \<or> (r \<ge> 0x20 \<and> r \<le> 0x7E)) rs)
           in printable * 100 div length rs \<ge> 90)"

definition containsASCIIControl :: "string \<Rightarrow> bool" where
  "containsASCIIControl text \<longleftrightarrow> list_ex (\<lambda>r. r = 13 \<or> r = 10 \<or> r = 9) (runes text)"

definition runeScore :: "rune \<Rightarrow> int" where
  "runeScore r =
     (if 97 \<le> r \<and> r \<le> 122 then 4
      else if 65 \<le> r \<and> r \<le> 90 then 3
      else if 48 \<le> r \<and> r \<le> 57 then 2
      else if r = 32 then 4
      else if r = 46 \<or> r = 44 \<or> r = 33 \<or> r = 63 \<or> r = 45 \<or> r = 95 \<or> r = 58 \<or> r = 59 \<or> r = 39 \<or> r = 34
      then 1
      else if r = 13 \<or> r = 10 \<or> r = 9 then -8
      else if r \<ge> 0x20 \<and> r \<le> 0x7E then -1
      else -4)"

definition textScore :: "string \<Rightarrow> int" where
  "textScore text =
     (if text = [] then 0
      else godiv (sum_list (map runeScore (runes text)) * 100) (int (length (runes text))))"

definition isLikelyUnpackedSubmit :: "bytes \<Rightarrow> string \<Rightarrow> bool" where
  "isLikelyUnpackedSubmit body packedDecoded \<longleftrightarrow>
     (if \<not> isMostlyPrintableASCII packedDecoded then True
      else let raw = string_of body in
        if \<not> containsASCIIControl raw \<and> containsASCIIControl packedDecoded then True
        else textScore raw > textScore packedDecoded + 20)"

definition DecodeSubmitText :: "bytes \<Rightarrow> byte \<Rightarrow> string" where
  "DecodeSubmitText body dataCoding =
     (let decoded = DecodeText body dataCoding in
      if dataCoding = 0x00 \<and> isLikelyUnpackedASCII body \<and> isLikelyUnpackedSubmit body decoded
      then string_of body else decoded)"

subsection \<open>Facts on the alphabet tables\<close>

lemma length_gsm7DefaultRunes [simp]: "length gsm7DefaultRunes = 128"
  by (simp add: gsm7DefaultRunes_def)

lemma gsm7DefaultRunes_valid: "\<forall>r \<in> set gsm7DefaultRunes. validRune r"
  by (simp add: gsm7DefaultRunes_def validRune_def)

lemma gsm7DefaultCodes_SomeD:
  assumes "gsm7DefaultCodes r = Some c"
  shows "unat c < 128" "gsm7DefaultRunes ! unat c = r" "r \<noteq> 0" "c \<noteq> 0x1B" "validRune r"
proof -
  from assms obtain i where i: "i < 128" "gsm7DefaultRunes ! i = r" "c = of_nat i" and r: "r \<noteq> 0"
    unfolding gsm7DefaultCodes_def
    by (auto dest!: map_of_SomeD simp: in_set_enumerate_eq split: if_split_asm)
  from i have u: "unat c = i" by (simp add: unat_of_nat)
  with i r show "unat c < 128" "gsm7DefaultRunes ! unat c = r" "r \<noteq> 0" by simp_all
  show "c \<noteq> 0x1B"
  proof
    assume "c = 0x1B"
    with i u r show False by (simp add: gsm7DefaultRunes_def)
  qed
  from i have "r \<in> set gsm7DefaultRunes" by (metis length_gsm7DefaultRunes nth_mem)
  then show "validRune r" using gsm7DefaultRunes_valid by blast
qed

lemma gsm7RuneToExt_SomeD:
  assumes "gsm7RuneToExt r = Some c"
  shows "gsm7ExtToRune c = Some r" "unat c < 128" "c \<noteq> 0" "validRune r"
  using assms unfolding gsm7RuneToExt_def gsm7ExtToRune_def gsm7ExtTable_def
  by (auto simp: validRune_def split: if_split_asm)

subsection \<open>Cutting into chunks\<close>

text \<open>The loop on lists of runes, without the string builder.\<close>

fun cuts :: "(rune \<Rightarrow> int) \<Rightarrow> int \<Rightarrow> rune list \<Rightarrow> rune list \<Rightarrow> int \<Rightarrow> rune list list" where
  "cuts sz limit [] cur used = (if cur = [] then [] else [cur])"
| "cuts sz limit (r # rs) cur used =
     (if used > 0 \<and> used + sz r > limit
      then cur # cuts sz limit rs [r] (sz r)
      else cuts sz limit rs (cur @ [r]) (used + sz r))"

lemma string_of_runes_eq_Nil [simp]: "string_of_runes rs = [] \<longleftrightarrow> rs = []"
  by (cases rs) simp_all

lemma chunkLoop_cuts:
  "chunkLoop sz limit rs chunks (string_of_runes cur) used
     = chunks @ map string_of_runes (cuts sz limit rs cur used)"
proof (induction rs arbitrary: chunks cur used)
  case (Cons r rs)
  have "string_of_rune r = string_of_runes [r]" by simp
  moreover have "string_of_runes cur @ string_of_rune r = string_of_runes (cur @ [r])" by simp
  ultimately show ?case using Cons by (simp only: chunkLoop.simps cuts.simps split: if_split) auto
qed simp

lemma concat_cuts: "concat (cuts sz limit rs cur used) = cur @ rs"
  by (induction rs arbitrary: cur used) auto

lemma cuts_bounded:
  assumes "\<forall>r \<in> set rs. 0 < sz r \<and> sz r \<le> limit" and "used = sum_list (map sz cur)"
    and "used \<le> limit" and "used = 0 \<longrightarrow> cur = []" and "0 \<le> used"
  shows "\<forall>c \<in> set (cuts sz limit rs cur used). sum_list (map sz c) \<le> limit \<and> c \<noteq> []"
  using assms
proof (induction rs arbitrary: cur used)
  case (Cons r rs)
  show ?case
  proof (cases "used > 0 \<and> used + sz r > limit")
    case True
    with Cons.prems Cons.IH [of "sz r" "[r]"] show ?thesis by auto
  next
    case False
    with Cons.prems have "used + sz r \<le> limit" by (cases "used = 0") auto
    moreover have "0 < sz r" using Cons.prems by simp
    ultimately have "\<forall>c \<in> set (cuts sz limit rs (cur @ [r]) (used + sz r)).
        sum_list (map sz c) \<le> limit \<and> c \<noteq> []"
      using Cons.prems by (intro Cons.IH) auto
    with False show ?thesis by auto
  qed
qed auto

text \<open>The number of further chunks the loop starts from \<open>used\<close> units on.\<close>

fun breaks :: "(rune \<Rightarrow> int) \<Rightarrow> int \<Rightarrow> int \<Rightarrow> rune list \<Rightarrow> nat" where
  "breaks sz limit used [] = 0"
| "breaks sz limit used (r # rs) =
     (if used > 0 \<and> used + sz r > limit then Suc (breaks sz limit (sz r) rs)
      else breaks sz limit (used + sz r) rs)"

lemma length_cuts:
  "cur \<noteq> [] \<Longrightarrow> length (cuts sz limit rs cur used) = Suc (breaks sz limit used rs)"
  by (induction rs arbitrary: cur used) auto

lemma breaks_mono:
  assumes "\<forall>r \<in> set rs. 0 < sz r \<and> sz r \<le> limit" and "0 \<le> u" "u \<le> v"
  shows "breaks sz limit u rs \<le> breaks sz limit v rs \<and> breaks sz limit v rs \<le> Suc (breaks sz limit u rs)"
  using assms
proof (induction rs arbitrary: u v)
  case (Cons r rs)
  then have r: "0 < sz r" "sz r \<le> limit" by simp_all
  have rs: "\<forall>r \<in> set rs. 0 < sz r \<and> sz r \<le> limit" using Cons.prems by simp
  have a: "breaks sz limit (u + sz r) rs \<le> breaks sz limit (v + sz r) rs
      \<and> breaks sz limit (v + sz r) rs \<le> Suc (breaks sz limit (u + sz r) rs)"
    using Cons.prems r by (intro Cons.IH [OF rs]) auto
  have b: "breaks sz limit (sz r) rs \<le> breaks sz limit (u + sz r) rs
      \<and> breaks sz limit (u + sz r) rs \<le> Suc (breaks sz limit (sz r) rs)"
    using Cons.prems r by (intro Cons.IH [OF rs]) auto
  show ?case using a b Cons.prems r by auto
qed simp

lemma breaks_append:
  assumes "\<forall>r \<in> set p. 0 < sz r" and "0 \<le> u" and "u + sum_list (map sz p) \<le> limit"
  shows "breaks sz limit u (p @ rs) = breaks sz limit (u + sum_list (map sz p)) rs"
  using assms
proof (induction p arbitrary: u)
  case (Cons r p)
  have "0 \<le> sum_list (map sz p)" using Cons.prems(1) by (intro sum_list_nonneg) auto
  with Cons show ?case by (auto simp: add.assoc)
qed simp

lemma breaks_partition:
  assumes "\<forall>p \<in> set ps. \<forall>r \<in> set p. 0 < sz r \<and> sz r \<le> limit"
    and "\<forall>p \<in> set ps. sum_list (map sz p) \<le> limit" and "0 \<le> limit"
  shows "breaks sz limit 0 (concat ps) \<le> length ps - 1"
  using assms
proof (induction ps)
  case (Cons p ps)
  have p: "0 \<le> sum_list (map sz p)" using Cons.prems(1) by (intro sum_list_nonneg) auto
  have eq: "breaks sz limit 0 (p @ concat ps) = breaks sz limit (sum_list (map sz p)) (concat ps)"
    using breaks_append [of p sz 0 limit "concat ps"] Cons.prems by auto
  have rs: "\<forall>r \<in> set (concat ps). 0 < sz r \<and> sz r \<le> limit" using Cons.prems by auto
  show ?case
  proof (cases "ps = []")
    case True
    with eq show ?thesis by simp
  next
    case False
    have "breaks sz limit (sum_list (map sz p)) (concat ps) \<le> Suc (breaks sz limit 0 (concat ps))"
      using breaks_mono [OF rs order_refl p] by simp
    also have "\<dots> \<le> Suc (length ps - 1)" using Cons by simp
    finally show ?thesis using eq False by (cases ps) simp_all
  qed
qed simp

lemma cuts_minimal:
  assumes "concat ps = rs" and "rs \<noteq> []" and "0 \<le> limit"
    and "\<forall>r \<in> set rs. 0 < sz r \<and> sz r \<le> limit"
    and "\<forall>p \<in> set ps. sum_list (map sz p) \<le> limit"
  shows "length (cuts sz limit rs [] 0) \<le> length ps"
proof -
  from assms(2) obtain r rs' where rs: "rs = r # rs'" by (cases rs) auto
  then have "length (cuts sz limit rs [] 0) = Suc (breaks sz limit 0 rs)"
    using length_cuts [of "[r]" sz limit rs' "sz r"] by simp
  moreover have "breaks sz limit 0 rs \<le> length ps - 1"
    using breaks_partition [of ps sz limit] assms by auto
  moreover have "ps \<noteq> []" using assms by auto
  ultimately show ?thesis by (cases ps) auto
qed


lemma chunkRunesLoop_cuts:
  assumes "0 < limit"
  shows "chunkRunesLoop limit rs = map string_of_runes (cuts (\<lambda>_. 1) (int limit) rs [] 0)"
proof -
  have aux: "cuts (\<lambda>_. 1) (int limit) rs cur (int (length cur))
      = (if rs = [] then (if cur = [] then [] else [cur])
         else if limit < length cur + length rs \<and> True
         then (cur @ take (limit - length cur) rs)
                # cuts (\<lambda>_. 1) (int limit) (drop (limit - length cur) rs) [] 0
         else [cur @ rs])"
    if "length cur \<le> limit" for cur rs
    using that
  proof (induction rs arbitrary: cur)
    case (Cons r rs)
    show ?case
    proof (cases "length cur = limit")
      case True
      with assms have "cur \<noteq> []" by auto
      with True assms show ?thesis by simp
    next
      case False
      with Cons.prems have l: "length (cur @ [r]) \<le> limit" by simp
      have eq: "int (length cur) + 1 = int (length (cur @ [r]))" by simp
      have d: "limit - length cur = Suc (limit - length (cur @ [r]))" using l by simp
      show ?thesis using False Cons.prems Cons.IH [OF l]
        by (simp only: cuts.simps eq d) (auto simp: not_less)
    qed
  qed simp
  show ?thesis
  proof (induction rs rule: length_induct)
    case (1 rs)
    show ?case
    proof (cases "rs = []")
      case False
      with assms have "length (drop limit rs) < length rs" by simp
      with 1 have IH: "chunkRunesLoop limit (drop limit rs)
          = map string_of_runes (cuts (\<lambda>_. 1) (int limit) (drop limit rs) [] 0)" by blast
      show ?thesis using aux [of "[]" rs] False assms IH
        by (auto simp: chunkRunesLoop.simps [of limit rs] chunkRunesLoop.simps [of limit "[]"])
    qed (simp add: chunkRunesLoop.simps)
  qed
qed

lemma string_of_runes_concat: "string_of_runes (concat xss) = concat (map string_of_runes xss)"
  by (induction xss) simp_all

subsection \<open>Split, uniformly in the encoding\<close>

text \<open>The size of one rune in an encoding, in the unit its limits count.\<close>

definition sizeFor :: "string \<Rightarrow> rune \<Rightarrow> int" where
  "sizeFor encoding =
     (if EqualFold encoding ''gsm7'' then gsm7Size
      else if EqualFold encoding ''ucs2'' then utf16RuneLen else (\<lambda>_. 1))"

lemma sizeFor_bounds: "validRune r \<Longrightarrow> 0 < sizeFor encoding r \<and> sizeFor encoding r \<le> 2"
  by (auto simp: sizeFor_def gsm7Size_def utf16RuneLen_def validRune_def)

lemma concatLimitFor_bounds: "67 \<le> concatLimitFor encoding"
  by (simp add: concatLimitFor_def limit_defs)

lemma textLenFor_sum: "textLenFor encoding text = sum_list (map (sizeFor encoding) (runes text))"
  by (simp add: textLenFor_def sizeFor_def gsm7SeptetLen_def ucs2UnitLen_def sum_list_triv)

lemma chunksFor_cuts:
  "chunksFor encoding text
     = map string_of_runes (cuts (sizeFor encoding) (concatLimitFor encoding) (runes text) [] 0)"
  using concatLimitFor_bounds [of encoding] chunkLoop_cuts [where cur = "[]" and chunks = "[]"]
  by (simp add: chunksFor_def sizeFor_def chunkGSM7_def chunkUCS2_def chunkRunes_def
      chunkRunesLoop_cuts)

lemma runes_sizes:
  "\<forall>r \<in> set (runes text). 0 < sizeFor encoding r \<and> sizeFor encoding r \<le> concatLimitFor encoding"
proof
  fix r assume "r \<in> set (runes text)"
  from sizeFor_bounds [OF validRune_runes [OF this], of encoding]
  show "0 < sizeFor encoding r \<and> sizeFor encoding r \<le> concatLimitFor encoding"
    using concatLimitFor_bounds [of encoding] by simp
qed

lemma textLenFor_cut:
  assumes "set c \<subseteq> set (runes text)"
  shows "textLenFor encoding (string_of_runes c) = sum_list (map (sizeFor encoding) c)"
  using assms validRune_runes by (subst textLenFor_sum, subst runes_string_of_runes) auto

abbreviation splitCuts :: "string \<Rightarrow> string \<Rightarrow> rune list list" where
  "splitCuts encoding text \<equiv>
     cuts (sizeFor encoding) (concatLimitFor encoding) (runes text) [] 0"

lemma concat_splitCuts: "concat (splitCuts encoding text) = runes text"
  by (simp add: concat_cuts)

lemma set_splitCuts: "c \<in> set (splitCuts encoding text) \<Longrightarrow> set c \<subseteq> set (runes text)"
  using concat_splitCuts [of encoding "text"] by (metis UN_upper set_concat)

lemma splitCuts_fit:
  assumes "c \<in> set (splitCuts encoding text)"
  shows "sum_list (map (sizeFor encoding) c) \<le> concatLimitFor encoding" "c \<noteq> []"
  using cuts_bounded [OF runes_sizes [of "text" encoding], of 0 "[]"] assms
    concatLimitFor_bounds [of encoding] by auto

subsection \<open>The insertion sort of Join\<close>

lemma mset_insertBack: "mset (insertBack x ys) = add_mset x (mset ys)"
  by (induction ys) auto

lemma mset_sortByPart: "mset (sortByPart segs) = mset segs"
proof -
  have "mset (fold insertBack segs acc) = mset segs + mset acc" for acc
    by (induction segs arbitrary: acc) (auto simp: mset_insertBack)
  then show ?thesis by (simp add: sortByPart_def)
qed

lemma sorted_insertBack:
  "sorted_wrt (\<lambda>a b. Seg_Part a \<ge> Seg_Part b) ys \<Longrightarrow>
   sorted_wrt (\<lambda>a b. Seg_Part a \<ge> Seg_Part b) (insertBack x ys)"
proof (induction ys)
  case (Cons y ys)
  have "set (insertBack x ys) = insert x (set ys)"
    using mset_insertBack [of x ys] by (metis set_mset_add_mset_insert set_mset_mset)
  with Cons show ?case by auto
qed simp

lemma sorted_sortByPart: "sorted (map Seg_Part (sortByPart segs))"
proof -
  have "sorted_wrt (\<lambda>a b. Seg_Part a \<ge> Seg_Part b) (fold insertBack segs acc)"
    if "sorted_wrt (\<lambda>a b. Seg_Part a \<ge> Seg_Part b) acc" for acc
    using that by (induction segs arbitrary: acc) (auto simp: sorted_insertBack)
  from this [of "[]"] show ?thesis
    by (simp add: sortByPart_def sorted_wrt_rev sorted_wrt_map)
qed

lemma sortByPart_unique:
  assumes "mset segs = mset ys" and "sorted (map Seg_Part ys)" and "distinct (map Seg_Part ys)"
  shows "sortByPart segs = ys"
proof (rule map_sorted_distinct_set_unique)
  have m: "mset (sortByPart segs) = mset ys" using assms by (simp add: mset_sortByPart)
  then have s: "set (sortByPart segs) = set ys" by (rule mset_eq_setD)
  then show "set (sortByPart segs) = set ys" .
  show "inj_on Seg_Part (set (sortByPart segs) \<union> set ys)"
    using assms(3) s by (simp add: distinct_map)
  have "mset (map Seg_Part (sortByPart segs)) = mset (map Seg_Part ys)" using m by simp
  then show "distinct (map Seg_Part (sortByPart segs))"
    using assms(3) mset_eq_imp_distinct_iff by blast
qed (use assms sorted_sortByPart in auto)

lemma Split_cases:
  obtains (single) "textLenFor (splitEncoding text force) text \<le> singleLimitFor (splitEncoding text force)"
      "Split ref text force
        = [\<lparr>Seg_Reference = 0, Seg_Part = 1, Seg_Total = 1, Seg_Text = text, Seg_UDH = []\<rparr>]"
    | (many) "textLenFor (splitEncoding text force) text > singleLimitFor (splitEncoding text force)"
      "Split ref text force
        = map (\<lambda>(i, c). \<lparr>Seg_Reference = ref, Seg_Part = int i + 1,
                  Seg_Total = int (length (splitCuts (splitEncoding text force) text)),
                  Seg_Text = string_of_runes c,
                  Seg_UDH = concatUDH ref (int i + 1)
                     (int (length (splitCuts (splitEncoding text force) text)))\<rparr>)
              (enumerate 0 (splitCuts (splitEncoding text force) text))"
proof (cases "textLenFor (splitEncoding text force) text \<le> singleLimitFor (splitEncoding text force)")
  case True
  then show ?thesis using single by (simp add: Split_def)
next
  case False
  have "enumerate 0 (map f xs) = map (\<lambda>(i, x). (i, f x)) (enumerate 0 xs)" for f :: "rune list \<Rightarrow> string" and xs
    by (simp add: enumerate_eq_zip zip_map2)
  with False show ?thesis
    by (intro many) (simp_all add: Split_def chunksFor_cuts Let_def o_def split_def)
qed

lemma Split_nth:
  assumes "i < length (Split ref text force)"
  shows "Seg_Part (Split ref text force ! i) = int i + 1"
    "Seg_Total (Split ref text force ! i) = int (length (Split ref text force))"
  using assms
  by (cases rule: Split_cases [of "text" force ref]; simp add: nth_enumerate_eq)+

lemma Split_parts:
  "map Seg_Part (Split ref text force) = map (\<lambda>i. int i + 1) [0..<length (Split ref text force)]"
  by (rule nth_equalityI) (simp_all add: Split_nth)

lemma Split_parts_sorted_distinct:
  "sorted (map Seg_Part (Split ref text force))" "distinct (map Seg_Part (Split ref text force))"
  unfolding Split_parts by (simp_all add: sorted_iff_nth_mono distinct_map inj_on_def)

lemma concat_Split_text:
  assumes "valid_utf8 text"
  shows "concat (map Seg_Text (Split ref text force)) = text"
proof (cases rule: Split_cases [of "text" force ref])
  case many
  let ?cs = "splitCuts (splitEncoding text force) text"
  have "map (\<lambda>x. string_of_runes (snd x)) (enumerate 0 ?cs) = map string_of_runes (map snd (enumerate 0 ?cs))"
    by (simp only: map_map o_def)
  then have "concat (map Seg_Text (Split ref text force)) = concat (map string_of_runes ?cs)"
    by (simp add: many o_def split_def)
  also have "\<dots> = string_of_runes (concat ?cs)"
    by (simp add: string_of_runes_concat)
  also have "\<dots> = text" using assms by (simp add: concat_splitCuts valid_utf8_def)
  finally show ?thesis .
qed simp

subsection \<open>UTF-16\<close>

lemma bytePairs_put16 [simp]: "bytePairs (concat (map be_put16 us)) = us"
  by (induction us) (simp_all add: be_put16_def be_get_put16)

lemma utf16Decode_rune:
  assumes "validRune r"
  shows "utf16Decode (utf16EncodeRune r @ us) = r # utf16Decode us"
proof (cases "r < 0x10000")
  case True
  with assms have r: "r < 0xD800 \<or> 0xE000 \<le> r" by (auto simp: validRune_def)
  with True show ?thesis
    by (cases us) (auto simp: utf16EncodeRune_def unat_of_nat16)
next
  case False
  define q where "q = r - 0x10000"
  with False assms have q: "r = q + 0x10000" "q < 0x100000" by (auto simp: validRune_def)
  then have "q div 1024 < 1024" by (intro div_lt) simp_all
  then have "unat (of_nat (0xD800 + q div 1024) :: 16 word) = 0xD800 + q div 1024"
    "unat (of_nat (0xDC00 + q mod 1024) :: 16 word) = 0xDC00 + q mod 1024"
    "q div 1024 < 1024" "q mod 1024 < 1024"
    by (simp_all add: unat_of_nat16 del: of_nat_add) 
  moreover have "utf16EncodeRune r = [of_nat (0xD800 + q div 1024), of_nat (0xDC00 + q mod 1024)]"
    using q by (simp add: utf16EncodeRune_def)
  ultimately show ?thesis using q by (simp del: of_nat_add)
qed

lemma utf16_roundtrip: "\<forall>r \<in> set rs. validRune r \<Longrightarrow> utf16Decode (utf16Encode rs) = rs"
  by (induction rs) (simp_all add: utf16Encode_def utf16Decode_rune)

lemma length_concat_put16 [simp]: "length (concat (map be_put16 us)) = 2 * length us"
  by (induction us) simp_all

lemma latin1_roundtrip:
  assumes "valid_utf8 t" and "\<forall>r \<in> set (runes t). r \<le> 0xff"
  shows "DecodeText (EncodeText t 0x03) 0x03 = t"
proof -
  have "map (unat \<circ> (\<lambda>r. if r > 0xff then 0x3F else of_nat r :: byte)) (runes t) = runes t"
    using assms(2) by (intro map_idI) (auto simp: unat_of_nat)
  then show ?thesis using assms(1) by (simp add: DecodeText_def EncodeText_def valid_utf8_def)
qed

subsection \<open>Septet packing, bit by bit\<close>

lemma length_packStep [simp]: "length (packStep out p) = length out"
  by (simp add: packStep_def split_def Let_def)

lemma length_foldl_packStep [simp]: "length (foldl packStep out ps) = length out"
  by (induction ps arbitrary: out) simp_all

lemma bit_packStep:
  assumes s: "\<And>n. 7 \<le> n \<Longrightarrow> \<not> bit s n" and fits: "7 * k + 7 \<le> 8 * length out"
    and p: "p < 8 * length out"
  shows "bit (packStep out (k, s) ! (p div 8)) (p mod 8) \<longleftrightarrow>
     bit (out ! (p div 8)) (p mod 8) \<or> (7 * k \<le> p \<and> bit s (p - 7 * k))"
proof -
  define bi sh where "bi = k * 7 div 8" and "sh = k * 7 mod 8"
  define j b where "j = p div 8" and "b = p mod 8"
  have k: "7 * k = 8 * bi + sh" "sh < 8" by (simp_all add: bi_def sh_def)
  have pj: "p = 8 * j + b" "b < 8" by (simp_all add: j_def b_def)
  have bi: "bi < length out" "sh > 1 \<Longrightarrow> bi + 1 < length out" using k fits by linarith+
  have jl: "j < length out" using p pj by linarith
  have "bit (packStep out (k, s) ! j) b \<longleftrightarrow>
     bit (out ! j) b \<or> (8 * bi + sh \<le> p \<and> bit s (p - (8 * bi + sh)))"
  proof -
    consider (eq) "j = bi" | (nxt) "j = bi + 1" | (lt) "j < bi" | (gt) "bi + 1 < j" by linarith
    then show ?thesis
    proof cases
      case eq
      then have "p - (8 * bi + sh) = b - sh" "8 * bi + sh \<le> p \<longleftrightarrow> sh \<le> b" using pj by auto
      then show ?thesis using eq bi pj
        by (auto simp: packStep_def Let_def bi_def [symmetric] sh_def [symmetric] bit_simps)
    next
      case nxt
      then have "p - (8 * bi + sh) = 8 - sh + b" "8 * bi + sh \<le> p" using pj k by auto
      then show ?thesis using nxt bi jl s [of "8 - sh + b"] k
        by (auto simp: packStep_def Let_def bi_def [symmetric] sh_def [symmetric] bit_simps not_less)
    next
      case lt
      then have "\<not> 8 * bi + sh \<le> p" using pj k by auto
      then show ?thesis using lt
        by (auto simp: packStep_def Let_def bi_def [symmetric] sh_def [symmetric])
    next
      case gt
      then have "7 \<le> p - (8 * bi + sh)" using pj k by auto
      then show ?thesis using gt s
        by (auto simp: packStep_def Let_def bi_def [symmetric] sh_def [symmetric])
    qed
  qed
  then show ?thesis by (simp add: k j_def b_def)
qed

lemma septet_bits:
  assumes "unat (s :: byte) < 128" and "7 \<le> n"
  shows "\<not> bit s n"
proof
  assume b: "bit s n"
  then have "bit (unat s) n" by (simp add: bit_unsigned_iff)
  then have "unat s div 2 ^ n \<noteq> 0" by (simp add: bit_iff_odd) (use odd_pos in fastforce)
  moreover have "unat s < 2 ^ n" using assms power_increasing [of 7 n "2 :: nat"] by simp
  ultimately show False by simp
qed

lemma bit_mask7: "bit (0x7F :: byte) n \<longleftrightarrow> n < 7"
proof -
  have "(0x7F :: byte) = mask 7" by (simp add: mask_eq_exp_minus_1)
  then have "bit (0x7F :: byte) n \<longleftrightarrow> possible_bit TYPE(byte) n \<and> n < 7"
    by (simp only: bit_mask_iff)
  then show ?thesis by (auto simp: possible_bit_word)
qed

lemma bit_foldl_packStep:
  assumes "\<forall>s \<in> set ss. unat s < 128" and "7 * length ss \<le> 8 * length out"
    and "p < 8 * length out" and "\<forall>b \<in> set out. b = 0"
  shows "bit (foldl packStep out (enumerate 0 ss) ! (p div 8)) (p mod 8) \<longleftrightarrow>
     p div 7 < length ss \<and> bit (ss ! (p div 7)) (p mod 7)"
  using assms(1,2)
proof (induction ss rule: rev_induct)
  case Nil
  have "out ! (p div 8) = 0" using assms(3,4) by (simp add: div_lt)
  then show ?case by simp
next
  case (snoc x xs)
  have fold: "foldl packStep out (enumerate 0 (xs @ [x]))
      = packStep (foldl packStep out (enumerate 0 xs)) (length xs, x)"
    by (simp add: enumerate_append_eq)
  have x: "\<And>n. 7 \<le> n \<Longrightarrow> \<not> bit x n" using snoc.prems septet_bits [of x] by simp
  have IH: "bit (foldl packStep out (enumerate 0 xs) ! (p div 8)) (p mod 8) \<longleftrightarrow>
     p div 7 < length xs \<and> bit (xs ! (p div 7)) (p mod 7)"
    using snoc by simp
  have "bit (foldl packStep out (enumerate 0 (xs @ [x])) ! (p div 8)) (p mod 8) \<longleftrightarrow>
     (p div 7 < length xs \<and> bit (xs ! (p div 7)) (p mod 7))
     \<or> (7 * length xs \<le> p \<and> bit x (p - 7 * length xs))"
    unfolding fold
    by (subst bit_packStep) (use x snoc.prems assms(3) IH in simp_all)
  also have "\<dots> \<longleftrightarrow> p div 7 < length (xs @ [x]) \<and> bit ((xs @ [x]) ! (p div 7)) (p mod 7)"
  proof -
    consider "p div 7 < length xs" | "p div 7 = length xs" | "length xs < p div 7" by linarith
    then show ?thesis
    proof cases
      case 1
      then have "\<not> 7 * length xs \<le> p" by linarith
      with 1 show ?thesis by (simp add: nth_append)
    next
      case 2
      then have "p - 7 * length xs = p mod 7" "7 * length xs \<le> p"
        using minus_mult_div_eq_mod [of p 7] by auto
      with 2 show ?thesis by simp
    next
      case 3
      then have "7 \<le> p - 7 * length xs" by linarith
      with 3 x show ?thesis by simp
    qed
  qed
  finally show ?case .
qed

lemma length_packSeptets: "length (packSeptets ss) = (length ss * 7 + 7) div 8"
  by (simp add: packSeptets_def)

lemma bit_packSeptets:
  assumes "\<forall>s \<in> set ss. unat s < 128" and "p < 8 * length (packSeptets ss)"
  shows "bit (packSeptets ss ! (p div 8)) (p mod 8) \<longleftrightarrow>
     p div 7 < length ss \<and> bit (ss ! (p div 7)) (p mod 7)"
  using assms unfolding packSeptets_def
  by (intro bit_foldl_packStep) auto

lemma bit_and_mask7: "bit ((x :: byte) AND 0x7F) n \<longleftrightarrow> n < 7 \<and> bit x n"
  using bit_mask7 by (auto simp only: bit_and_iff)

lemma bit_septetAt:
  assumes "7 * i + 7 \<le> 8 * length body"
  shows "bit (septetAt body i) n \<longleftrightarrow> n < 7 \<and> bit (body ! ((7 * i + n) div 8)) ((7 * i + n) mod 8)"
proof -
  define bi sh where "bi = i * 7 div 8" and "sh = i * 7 mod 8"
  have k: "7 * i = 8 * bi + sh" "sh < 8" by (simp_all add: bi_def sh_def)
  have bi: "bi < length body" "sh > 1 \<Longrightarrow> bi + 1 < length body" using k assms by linarith+
  have eq: "bit (septetAt body i) n \<longleftrightarrow> n < 7 \<and> (bit (body ! bi) (sh + n) \<or>
      (sh > 1 \<and> 8 - sh \<le> n \<and> n < 8 \<and> bit (body ! (bi + 1)) (n - (8 - sh))))"
    unfolding septetAt_def Let_def bi_def [symmetric] sh_def [symmetric]
    using bi(2) by (cases "sh > 1") (auto simp del: bit_and_iff simp: bit_or_iff bit_and_mask7 bit_drop_bit_eq bit_push_bit_iff)
  show ?thesis
  proof (cases "n < 7 \<and> \<not> sh + n < 8")
    case False
    then have "n < 7 \<Longrightarrow> (7 * i + n) div 8 = bi" "n < 7 \<Longrightarrow> (7 * i + n) mod 8 = sh + n"
      using k by (simp_all add: add.assoc)
    with False show ?thesis by (auto simp: eq)
  next
    case True
    with k have e: "7 * i + n = 8 * (bi + 1) + (n - (8 - sh))" "n - (8 - sh) < 8" "1 < sh" by auto
    have d: "(7 * i + n) div 8 = bi + 1" "(7 * i + n) mod 8 = n - (8 - sh)"
      unfolding e(1) using e(2) by (simp, simp only: mod_mult_self4 mod_less)
    have "\<not> bit (body ! bi) (sh + n)" using True bit_imp_le_length [of "body ! bi" "sh + n"] by auto
    with True d e(3) show ?thesis by (auto simp: eq)
  qed
qed

lemma septetAt_pack:
  assumes "\<forall>s \<in> set ss. unat s < 128" and "7 * i + 7 \<le> 8 * length (packSeptets ss)"
  shows "septetAt (packSeptets ss) i = (if i < length ss then ss ! i else 0)"
proof (rule bit_word_eqI)
  fix n assume "n < LENGTH(8)"
  show "bit (septetAt (packSeptets ss) i) n = bit (if i < length ss then ss ! i else 0) n"
  proof (cases "n < 7")
    case True
    then have "(7 * i + n) div 7 = i" "(7 * i + n) mod 7 = n" by auto
    with True assms bit_packSeptets [OF assms(1), of "7 * i + n"] show ?thesis
      by (simp add: bit_septetAt)
  next
    case False
    then have "\<not> bit (if i < length ss then ss ! i else 0) n"
      using assms(1) septet_bits [of "ss ! i" n] by simp
    with False assms(2) show ?thesis by (simp add: bit_septetAt)
  qed
qed

lemma takeWhile_septets:
  "takeWhile (\<lambda>i. i * 7 div 8 < length (body :: bytes)) [0..<length body * 8 div 7]
     = [0..<length body * 8 div 7]"
proof -
  have "i * 7 div 8 < length body" if "i < length body * 8 div 7" for i
  proof (rule div_lt)
    have "i * 7 < (length body * 8 div 7) * 7" using that by simp
    also have "\<dots> \<le> length body * 8" by (rule div_times_less_eq_dividend)
    finally show "i * 7 < 8 * length body" by simp
  qed simp
  then show ?thesis by (simp add: takeWhile_eq_all_conv)
qed

lemma map_septetAt_pack:
  assumes "\<forall>s \<in> set ss. unat s < 128" and "7 * n \<le> 8 * length (packSeptets ss)" "length ss \<le> n"
  shows "map (septetAt (packSeptets ss)) [0..<n] = ss @ replicate (n - length ss) 0"
proof (rule nth_equalityI)
  fix i assume i: "i < length (map (septetAt (packSeptets ss)) [0..<n])"
  then have "7 * i + 7 \<le> 8 * length (packSeptets ss)" using assms(2) by simp
  with i assms(1) show "map (septetAt (packSeptets ss)) [0..<n] ! i
      = (ss @ replicate (n - length ss) 0) ! i"
    by (auto simp: septetAt_pack nth_append)
qed (use assms in simp)

lemma unpack_pack:
  assumes "\<forall>s \<in> set ss. unat s < 128"
  shows "unpackSeptets (packSeptets ss)
      = (if length ss mod 8 = 0 \<and> ss \<noteq> [] \<and> last ss = 0 then butlast ss else ss)"
proof -
  define n L where "n = length ss" and "L = length (packSeptets ss)"
  define q m where "q = n div 8" and "m = n mod 8"
  have n: "n = 8 * q + m" "m < 8" by (simp_all add: q_def m_def)
  have m8: "m = 0 \<or> m = 1 \<or> m = 2 \<or> m = 3 \<or> m = 4 \<or> m = 5 \<or> m = 6 \<or> m = 7" using n(2) by linarith
  have L: "L = 7 * q + m"
  proof -
    have "L = (8 * (7 * q) + (7 * m + 7)) div 8" by (simp add: L_def length_packSeptets n_def [symmetric] n)
    also have "\<dots> = 7 * q + (7 * m + 7) div 8" by simp
    also have "(7 * m + 7) div 8 = m" using m8 by (elim disjE) simp_all
    finally show ?thesis .
  qed
  have cnt: "L * 8 div 7 = n + (if m = 7 then 1 else 0)"
  proof -
    have "L * 8 div 7 = (7 * (8 * q) + 8 * m) div 7" by (simp add: L)
    also have "\<dots> = 8 * q + 8 * m div 7" by simp
    also have "8 * m div 7 = m + (if m = 7 then 1 else 0)" using m8 by (elim disjE) simp_all
    finally show ?thesis using n by simp
  qed
  have le: "7 * (L * 8 div 7) \<le> 8 * L" using div_times_less_eq_dividend [of "L * 8" 7] by linarith
  have all: "map (septetAt (packSeptets ss)) [0..<L * 8 div 7] = ss @ replicate (if m = 7 then 1 else 0) 0"
    using map_septetAt_pack [OF assms(1), of "L * 8 div 7"] le cnt by (simp add: L_def n_def)
  have tw: "takeWhile (\<lambda>i. i * 7 div 8 < length (packSeptets ss)) [0..<length (packSeptets ss) * 8 div 7]
      = [0..<L * 8 div 7]"
    using takeWhile_septets [of "packSeptets ss"] by (simp add: L_def)
  have "L mod 7 = m mod 7" unfolding L by simp
  then have mod: "L mod 7 = 0 \<longleftrightarrow> m = 0 \<or> m = 7" using m8 by (elim disjE) simp_all
  show ?thesis
    using mod unfolding unpackSeptets_def Let_def tw all
    by (auto simp: L_def [symmetric] m_def n_def butlast_append)
qed

lemma runeSeptets_unat: "\<forall>s \<in> set (runeSeptets r). unat s < 128"
proof -
  have "gsm7DefaultCodes 63 = Some 63" by (simp add: gsm7DefaultCodes_def gsm7DefaultRunes_def)
  then show ?thesis
    by (auto simp: runeSeptets_def gsm7DefaultCodes_SomeD gsm7RuneToExt_SomeD split: option.splits)
qed

lemma septetRunes_runeSeptets:
  assumes "isGSM7Basic r"
  shows "septetRunes (runeSeptets r @ ss) = r # septetRunes ss"
proof (cases "gsm7DefaultCodes r")
  case (Some c)
  then show ?thesis
    by (cases ss) (simp_all add: runeSeptets_def gsm7DefaultCodes_SomeD [OF Some])
next
  case None
  with assms obtain c where c: "gsm7RuneToExt r = Some c" by (auto simp: isGSM7Basic_def)
  with None show ?thesis by (simp add: runeSeptets_def gsm7RuneToExt_SomeD [OF c])
qed

lemma septetRunes_concat:
  "list_all isGSM7Basic rs \<Longrightarrow> septetRunes (concat (map runeSeptets rs)) = rs"
  by (induction rs) (simp_all add: septetRunes_runeSeptets)

lemma runeSeptets_at: "isGSM7Basic r \<Longrightarrow> last (runeSeptets r) = 0 \<longleftrightarrow> r = 64"
proof -
  assume r: "isGSM7Basic r"
  have at: "gsm7DefaultCodes 64 = Some 0" by (simp add: gsm7DefaultCodes_def gsm7DefaultRunes_def)
  show ?thesis
  proof (cases "gsm7DefaultCodes r")
    case (Some c)
    then show ?thesis
      using at gsm7DefaultCodes_SomeD(2) [OF Some] by (auto simp: runeSeptets_def gsm7DefaultRunes_def)
  next
    case None
    with r at show ?thesis
      by (auto simp: runeSeptets_def isGSM7Basic_def gsm7RuneToExt_SomeD split: option.splits)
  qed
qed

lemma runeSeptets_64: "runeSeptets 64 = [0]"
  by (simp add: runeSeptets_def gsm7DefaultCodes_def gsm7DefaultRunes_def)

lemma runeSeptets_not_Nil [simp]: "runeSeptets r \<noteq> []"
  by (simp add: runeSeptets_def split: option.splits)

subsection \<open>A text of two segments\<close>

lemma runes_replicate_a: "runes (replicate n CHR ''a'') = replicate n 97" 
  by (simp add: runes_ascii codes_def)

lemma EqualFold_ucs2: "EqualFold ''ucs2'' ''gsm7'' = False" "EqualFold ''ucs2'' ''ucs2'' = True" "EqualFold ''ucs2'' ''8bit'' = False"
  by (simp_all add: EqualFold_def runes_ascii codes_def foldRune_def toLowerRune_def)

lemma Split_71: "Split 7 (replicate 71 CHR ''a'') ''ucs2'' =
  [\<lparr>Seg_Reference = 7, Seg_Part = 1, Seg_Total = 2, Seg_Text = replicate 67 CHR ''a'', Seg_UDH = [5,0,3,7,2,1]\<rparr>,
   \<lparr>Seg_Reference = 7, Seg_Part = 2, Seg_Total = 2, Seg_Text = replicate 4 CHR ''a'', Seg_UDH = [5,0,3,7,2,2]\<rparr>]"
proof -
  have a: "utf16RuneLen 97 = 1" "string_of_rune 97 = ''a''" by (simp_all add: utf16RuneLen_def string_of_rune_def encodeRune_def char_of_def bit_0)
  have len: "ucs2UnitLen (replicate 71 CHR ''a'') = 71"
     by (simp only: ucs2UnitLen_def runes_replicate_a) (simp add: a sum_list_replicate)
  have ch: "chunkUCS2 (replicate 71 CHR ''a'') 67 = [replicate 67 CHR ''a'', replicate 4 CHR ''a'']"
     by (simp only: chunkUCS2_def runes_replicate_a) (simp add: a replicate_num)
  have e: "splitEncoding (replicate 71 CHR ''a'') ''ucs2'' = ''ucs2''"
    "singleLimitFor ''ucs2'' = 70" "concatLimitFor ''ucs2'' = 67"
    by (simp_all add: splitEncoding_def singleLimitFor_def concatLimitFor_def limit_defs EqualFold_ucs2)
  show ?thesis
    unfolding Split_def e Let_def textLenFor_def chunksFor_def EqualFold_ucs2 if_True if_False len ch
    by (simp add: concatUDH_def)
qed

lemma valid_utf8_replicate_a: "valid_utf8 (replicate n CHR ''a'')"
  by (rule valid_utf8_ascii) simp

subsection \<open>Properties\<close>

text \<open>
  C8: a well-formed text that is split is reassembled by \<open>Join\<close> from its segments in any
  order of arrival, for every reference number and every requested encoding.
\<close>

theorem split_join_any_order:
  assumes "valid_utf8 text" and "mset segs = mset (Split ref text force)"
  shows "Join segs = text"
proof -
  have "sortByPart segs = Split ref text force"
    using assms(2) Split_parts_sorted_distinct by (rule sortByPart_unique)
  then show ?thesis by (simp add: Join_def concat_Split_text [OF assms(1)])
qed

theorem split_join_any_order_witness:
  "Join (rev (Split 7 (replicate 71 CHR ''a'') ''ucs2'')) = replicate 71 CHR ''a''
   \<and> length (Split 7 (replicate 71 CHR ''a'') ''ucs2'') = 2"
  using split_join_any_order
    [of "replicate 71 CHR ''a''" "rev (Split 7 (replicate 71 CHR ''a'') ''ucs2'')" 7 "''ucs2''"]
    valid_utf8_replicate_a [of 71] by (simp add: Split_71)

text \<open>
  C31: every segment of a split text fits its short message: the single-message limit when it
  is the only one, the limit that leaves room for the concatenation header otherwise.
\<close>

theorem split_segments_fit:
  assumes "s \<in> set (Split ref t force)"
  shows "textLenFor (splitEncoding t force) (Seg_Text s)
     \<le> (if length (Split ref t force) = 1 then singleLimitFor (splitEncoding t force)
        else concatLimitFor (splitEncoding t force))"
proof (cases rule: Split_cases [of t force ref])
  case single
  with assms show ?thesis by simp
next
  case many
  let ?e = "splitEncoding t force"
  from many(2) assms obtain i where i: "i < length (splitCuts ?e t)"
      "Seg_Text s = string_of_runes (splitCuts ?e t ! i)"
    by (auto simp: in_set_enumerate_eq)
  then obtain c where c: "c \<in> set (splitCuts ?e t)" "Seg_Text s = string_of_runes c"
    using nth_mem by blast
  then have "textLenFor ?e (Seg_Text s) \<le> concatLimitFor ?e"
    using splitCuts_fit(1) [OF c(1)] textLenFor_cut [OF set_splitCuts [OF c(1)]] by simp
  moreover have "concatLimitFor ?e \<le> singleLimitFor ?e"
    by (simp add: concatLimitFor_def singleLimitFor_def limit_defs)
  ultimately show ?thesis by simp
qed

theorem split_segments_fit_witness:
  "textLenFor (splitEncoding (replicate 71 CHR ''a'') ''ucs2'')
     (Seg_Text (hd (Split 7 (replicate 71 CHR ''a'') ''ucs2'')))
   \<le> (if length (Split 7 (replicate 71 CHR ''a'') ''ucs2'') = 1
       then singleLimitFor (splitEncoding (replicate 71 CHR ''a'') ''ucs2'')
       else concatLimitFor (splitEncoding (replicate 71 CHR ''a'') ''ucs2''))"
proof (rule split_segments_fit)
  show "hd (Split 7 (replicate 71 CHR ''a'') ''ucs2'') \<in> set (Split 7 (replicate 71 CHR ''a'') ''ucs2'')"
    by (simp add: Split_71)
qed

text \<open>
  C30: when \<open>Split\<close> cuts a text, no other cut of the text into parts that fit the concatenated
  limit has fewer parts: the greedy loop is optimal.
\<close>

theorem split_fewest_segments:
  assumes "concat ps = runes t"
    and "\<forall>p \<in> set ps. textLenFor (splitEncoding t force) (string_of_runes p)
           \<le> concatLimitFor (splitEncoding t force)"
    and "1 < length (Split ref t force)"
  shows "length (Split ref t force) \<le> length ps"
proof (cases rule: Split_cases [of t force ref])
  case single
  with assms show ?thesis by simp
next
  case many
  let ?e = "splitEncoding t force"
  have "sum_list (map (sizeFor ?e) p) \<le> concatLimitFor ?e" if "p \<in> set ps" for p
  proof -
    have "set p \<subseteq> set (runes t)" using that by (auto simp flip: assms(1))
    then show ?thesis using bspec [OF assms(2) that] textLenFor_cut [of p t ?e] by simp
  qed
  moreover have "length (Split ref t force) = length (splitCuts ?e t)"
    by (simp add: many(2))
  moreover have "runes t \<noteq> []" using assms(3) many(2) by auto
  moreover have "0 \<le> concatLimitFor ?e" using concatLimitFor_bounds [of ?e] by simp
  ultimately show ?thesis
    using cuts_minimal [OF assms(1) _ _ runes_sizes [of t ?e]] by (simp only:) blast
qed

theorem split_fewest_segments_witness:
  "length (Split 7 (replicate 71 CHR ''a'') ''ucs2'') \<le> length [replicate 67 97, replicate 4 (97 :: nat)]"
proof (rule split_fewest_segments)
  show "concat [replicate 67 97, replicate 4 97] = runes (replicate 71 CHR ''a'')"
    by (simp only: runes_replicate_a) (simp add: replicate_num)
  show "1 < length (Split 7 (replicate 71 CHR ''a'') ''ucs2'')" by (simp add: Split_71)
  have "string_of_rune 97 = ''a''" by (simp add: string_of_rune_def encodeRune_def char_of_def bit_0)
  then have s: "string_of_runes (replicate n 97) = replicate n CHR ''a''" for n
    by (induction n) simp_all
  have l: "ucs2UnitLen (replicate n CHR ''a'') = int n" for n
    by (simp only: ucs2UnitLen_def runes_replicate_a) (simp add: utf16RuneLen_def sum_list_replicate)
  show "\<forall>p \<in> set [replicate 67 97, replicate 4 97].
      textLenFor (splitEncoding (replicate 71 CHR ''a'') ''ucs2'') (string_of_runes p)
        \<le> concatLimitFor (splitEncoding (replicate 71 CHR ''a'') ''ucs2'')"
    by (simp only: list.set ball_simps s)
      (simp add: splitEncoding_def textLenFor_def concatLimitFor_def limit_defs EqualFold_ucs2 l)
qed

text \<open>
  Encoding a well-formed text for data coding 8 and decoding the bytes gives the text,
  surrogate pairs included.
\<close>

lemma ucs2_roundtrip:
  assumes "valid_utf8 t"
  shows "DecodeText (EncodeText t 0x08) 0x08 = t"
  using assms utf16_roundtrip [of "runes t"] validRune_runes
  by (simp add: DecodeText_def EncodeText_def valid_utf8_def)

text \<open>
  C32: what a text of the GSM 7-bit alphabet becomes after packing and unpacking: itself, except
  that a commercial at which ends a text of a multiple of eight septets is lost, since the decoder
  takes its septet 0 for padding.
\<close>

theorem gsm7_packed_roundtrip:
  assumes "valid_utf8 t" and "list_all isGSM7Basic (runes t)"
  shows "DecodeText (EncodeText t 0) 0 =
     (if length (EncodeGSM7Unpacked t) mod 8 = 0 \<and> t \<noteq> [] \<and> last (runes t) = 64
      then string_of_runes (butlast (runes t)) else t)"
proof (cases "t = []")
  case True
  then show ?thesis
    by (simp add: EncodeText_def DecodeText_def encodeGSM7Packed_def packSeptets_def decodeGSM7Packed_def
        runes_eq_Nil)
next
  case False
  define ss where "ss = concat (map runeSeptets (runes t))"
  obtain rs r where rs: "runes t = rs @ [r]" using False runes_eq_Nil [of t] by (metis rev_exhaust)
  have r: "isGSM7Basic r" and brs: "list_all isGSM7Basic rs" using assms(2) rs by simp_all
  have ss: "ss \<noteq> []" "last ss = last (runeSeptets r)" by (simp_all add: ss_def rs)
  have un: "unpackSeptets (packSeptets ss)
      = (if length ss mod 8 = 0 \<and> last ss = 0 then butlast ss else ss)"
    using unpack_pack [of ss] runeSeptets_unat ss(1) by (auto simp: ss_def)
  have pos: "length (packSeptets ss) \<noteq> 0" using ss(1) by (cases ss) (simp_all add: length_packSeptets)
  have "butlast ss = concat (map runeSeptets rs)" if "r = 64"
    using that by (simp add: ss_def rs runeSeptets_64)
  then have bl: "r = 64 \<Longrightarrow> septetRunes (butlast ss) = rs" using septetRunes_concat [OF brs] by simp
  have rt: "septetRunes ss = runes t" "string_of_runes (runes t) = t"
    using septetRunes_concat [OF assms(2)] assms(1) by (simp_all add: ss_def valid_utf8_def)
  have dec: "DecodeText (EncodeText t 0) 0 = string_of_runes (septetRunes (unpackSeptets (packSeptets ss)))"
    using pos by (simp add: EncodeText_def DecodeText_def encodeGSM7Packed_def decodeGSM7Packed_def ss_def)
  have len: "EncodeGSM7Unpacked t = ss" by (simp add: EncodeGSM7Unpacked_def ss_def)
  have lst: "last ss = 0 \<longleftrightarrow> r = 64" "last (runes t) = r" "butlast (runes t) = rs"
    using ss(2) runeSeptets_at [OF r] by (simp_all add: rs)
  show ?thesis unfolding dec un len using False lst bl rt by auto
qed

theorem gsm7_packed_roundtrip_witness:
  "DecodeText (EncodeText ''aaaaaaa@'' 0) 0 = ''aaaaaaa'' \<and> DecodeText (EncodeText ''aaaaaa@'' 0) 0 = ''aaaaaa@''"
proof -
  have r: "runes ''aaaaaaa@'' = [97, 97, 97, 97, 97, 97, 97, 64]" "runes ''aaaaaa@'' = [97, 97, 97, 97, 97, 97, 64]"
    by (simp_all add: runes_ascii codes_def)
  have c: "gsm7DefaultCodes 97 = Some 97" "gsm7DefaultCodes 64 = Some 0"
    by (simp_all add: gsm7DefaultCodes_def gsm7DefaultRunes_def)
  have s: "string_of_rune 97 = ''a''" by (simp add: string_of_rune_def encodeRune_def char_of_def bit_0)
  show ?thesis
    using gsm7_packed_roundtrip [of "''aaaaaaa@''"] gsm7_packed_roundtrip [of "''aaaaaa@''"]
      valid_utf8_ascii [of "''aaaaaaa@''"] valid_utf8_ascii [of "''aaaaaa@''"]
    by (simp add: r c s isGSM7Basic_def EncodeGSM7Unpacked_def runeSeptets_def)
qed

end
