(* ===== verification/Go_Strconv.thy ===== *)
theory Go_Strconv
  imports Go_Prelude
begin

text \<open>
  The parts of \<open>strconv\<close>, \<open>fmt\<close> and \<open>time\<close> the gateway uses: number formatting and parsing in a
  base up to 36, zero padding, and the calendar fields of a UTC time. The error monad
  of the parsers is here as well.
\<close>

subsection \<open>Results that may be errors\<close>

definition bindE :: "'e + 'a \<Rightarrow> ('a \<Rightarrow> 'e + 'b) \<Rightarrow> 'e + 'b" where
  "bindE r f = (case r of Inl e \<Rightarrow> Inl e | Inr x \<Rightarrow> f x)"

lemma bindE_simps [simp]: "bindE (Inl e) f = Inl e" "bindE (Inr x) f = f x"
  by (simp_all add: bindE_def)

lemma bindE_Inr_iff: "bindE r f = Inr y \<longleftrightarrow> (\<exists>x. r = Inr x \<and> f x = Inr y)"
  by (cases r) simp_all

definition guardE :: "bool \<Rightarrow> 'e \<Rightarrow> 'e + unit" where
  "guardE bad e = (if bad then Inl e else Inr ())"

lemma guardE_Inr_iff [simp]: "guardE bad e = Inr u \<longleftrightarrow> \<not> bad"
  by (simp add: guardE_def)

lemma guardE_False [simp]: "\<not> bad \<Longrightarrow> guardE bad e = Inr ()"
  by simp

lemma guardE_True [simp]: "bad \<Longrightarrow> guardE bad e = Inl e"
  by (simp add: guardE_def)

subsection \<open>Formatting numbers\<close>

definition digitChar :: "nat \<Rightarrow> char" where
  "digitChar d = char_of (if d < 10 then 48 + d else 87 + d)"

text \<open>\<open>strconv.FormatUint\<close>, for the bases 10, 16 and 36.\<close>

function FormatUint :: "nat \<Rightarrow> nat \<Rightarrow> string" where
  "FormatUint n base =
     (if base < 2 \<or> n < base then [digitChar n]
      else FormatUint (n div base) base @ [digitChar (n mod base)])"
  by pat_completeness auto
termination by (relation "measure fst") auto

declare FormatUint.simps [simp del]

definition padLeft :: "char \<Rightarrow> nat \<Rightarrow> string \<Rightarrow> string" where
  "padLeft c w s = replicate (w - length s) c @ s"

definition Itoa :: "int \<Rightarrow> string" where
  "Itoa n = (if n < 0 then CHR ''-'' # FormatUint (nat (- n)) 10 else FormatUint (nat n) 10)"

text \<open>The verb \<open>%0wd\<close>: the sign counts towards the width and stays in front of the zeros.\<close>

definition fmtPadInt :: "nat \<Rightarrow> int \<Rightarrow> string" where
  "fmtPadInt w n =
     (if n < 0 then CHR ''-'' # padLeft CHR ''0'' (w - 1) (FormatUint (nat (- n)) 10)
      else padLeft CHR ''0'' w (FormatUint (nat n) 10))"

text \<open>The verb \<open>%0wx\<close> for an unsigned number.\<close>

definition fmtPadHex :: "nat \<Rightarrow> nat \<Rightarrow> string" where
  "fmtPadHex w n = padLeft CHR ''0'' w (FormatUint n 16)"

subsection \<open>Parsing numbers\<close>

datatype NumError = ErrSyntax | ErrRange

definition digitVal :: "char \<Rightarrow> nat option" where
  "digitVal c =
     (let n = (of_char c :: nat) in
      if 48 \<le> n \<and> n \<le> 57 then Some (n - 48)
      else if 97 \<le> n \<and> n \<le> 122 then Some (n - 87)
      else if 65 \<le> n \<and> n \<le> 90 then Some (n - 55)
      else None)"

fun parseDigits :: "nat \<Rightarrow> nat \<Rightarrow> string \<Rightarrow> NumError + nat" where
  "parseDigits base acc [] = Inr acc"
| "parseDigits base acc (c # cs) =
     (case digitVal c of
        None \<Rightarrow> Inl ErrSyntax
      | Some d \<Rightarrow>
          if base \<le> d then Inl ErrSyntax
          else if 2 ^ 64 \<le> acc * base + d then Inl ErrRange
          else parseDigits base (acc * base + d) cs)"

definition ParseUint :: "string \<Rightarrow> nat \<Rightarrow> NumError + nat" where
  "ParseUint s base = (if s = [] then Inl ErrSyntax else parseDigits base 0 s)"

text \<open>
  \<open>strconv.Atoi\<close> returns a value beside its error: 0 for a syntax error and the nearest bound
  of the 64-bit \<open>int\<close> for a number out of range. The flag is true when there is no error.
\<close>

definition Atoi :: "string \<Rightarrow> int \<times> bool" where
  "Atoi s =
     (let neg = (s \<noteq> [] \<and> hd s = CHR ''-'');
          digits = (if s \<noteq> [] \<and> (hd s = CHR ''-'' \<or> hd s = CHR ''+'') then tl s else s)
      in case ParseUint digits 10 of
           Inl ErrSyntax \<Rightarrow> (0, False)
         | Inl ErrRange \<Rightarrow> (if neg then - (2 ^ 63) else 2 ^ 63 - 1, False)
         | Inr n \<Rightarrow> if \<not> neg \<and> 2 ^ 63 \<le> n then (2 ^ 63 - 1, False)
                    else if neg \<and> 2 ^ 63 < n then (- (2 ^ 63), False)
                    else (if neg then - int n else int n, True))"

subsection \<open>Calendar fields\<close>

text \<open>
  Time zero is midnight of 1 January of year 1. The year and the day of the year are found by
  taking off 400-, 100-, 4- and 1-year cycles, as the \<open>time\<close> package does.
\<close>

definition dateYear :: "gotime \<Rightarrow> int \<times> int" where
  "dateYear t =
     (let d0 = t div (24 * Hour);
          n400 = d0 div 146097; d1 = d0 mod 146097;
          n100 = (let n = d1 div 36524 in n - n div 4); d2 = d1 - 36524 * n100;
          n4 = d2 div 1461; d3 = d2 mod 1461;
          n1 = (let n = d3 div 365 in n - n div 4)
      in (400 * n400 + 100 * n100 + 4 * n4 + n1 + 1, d3 - 365 * n1))"

definition isLeap :: "int \<Rightarrow> bool" where
  "isLeap y \<longleftrightarrow> y mod 4 = 0 \<and> (y mod 100 \<noteq> 0 \<or> y mod 400 = 0)"

definition monthLengths :: "int \<Rightarrow> int list" where
  "monthLengths y = [31, if isLeap y then 29 else 28, 31, 30, 31, 30, 31, 31, 30, 31, 30, 31]"

fun monthDay :: "int list \<Rightarrow> int \<Rightarrow> int \<Rightarrow> int \<times> int" where
  "monthDay [] m d = (m, d + 1)"
| "monthDay (l # ls) m d = (if d < l \<or> ls = [] then (m, d + 1) else monthDay ls (m + 1) (d - l))"

definition dec2 :: "int \<Rightarrow> string" where
  "dec2 n = [digitChar (nat (n div 10 mod 10)), digitChar (nat (n mod 10))]"

text \<open>The layout \<open>0601021504\<close>: two digits each of year, month, day, hour and minute, in UTC.\<close>

definition formatYYMMDDhhmm :: "gotime \<Rightarrow> string" where
  "formatYYMMDDhhmm t =
     (let (y, yday) = dateYear t; (m, d) = monthDay (monthLengths y) 1 yday;
          secs = t div Second mod 86400
      in dec2 (y mod 100) @ dec2 m @ dec2 d @ dec2 (secs div 3600) @ dec2 (secs mod 3600 div 60))"

lemma length_dec2: "length (dec2 n) = 2"
  by (simp add: dec2_def)

lemma length_formatYYMMDDhhmm [simp]: "length (formatYYMMDDhhmm t) = 10"
  unfolding formatYYMMDDhhmm_def Let_def split_def length_append length_dec2 by simp

lemma date_example:
  "dateYear (63917638980 * Second) = (2026, 171)" "monthDay (monthLengths 2026) 1 171 = (6, 21)"
  unfolding dateYear_def Let_def monthLengths_def isLeap_def by simp_all

subsection \<open>Round trips\<close>

lemma digitVal_digitChar [simp]: "d < 36 \<Longrightarrow> digitVal (digitChar d) = Some d"
  by (simp add: digitVal_def digitChar_def)

lemma FormatUint_not_Nil [simp]: "FormatUint n base \<noteq> []"
  by (subst FormatUint.simps) simp

lemma parseDigits_append:
  "parseDigits base acc (xs @ ys) = bindE (parseDigits base acc xs) (\<lambda>a. parseDigits base a ys)"
  by (induction xs arbitrary: acc) (simp_all split: option.splits)

lemma parseDigits_FormatUint:
  assumes "2 \<le> base" "base \<le> 36" "n < 2 ^ 64"
  shows "parseDigits base 0 (FormatUint n base) = Inr n"
  using assms
proof (induction n base rule: FormatUint.induct)
  case (1 n base)
  show ?case
  proof (cases "n < base")
    case True
    with 1 show ?thesis by (subst FormatUint.simps) simp
  next
    case False
    have "n div base < 2 ^ 64" using "1.prems"(3) by (rule order.strict_trans1 [OF div_le_dividend])
    with False 1 have IH: "parseDigits base 0 (FormatUint (n div base) base) = Inr (n div base)" by simp
    have pos: "0 < base" using "1.prems"(1) by simp
    then have "n mod base < base" by (rule mod_less_divisor)
    with "1.prems"(2) have "digitVal (digitChar (n mod base)) = Some (n mod base)"
      by (intro digitVal_digitChar) linarith
    moreover have "\<not> base < 2" "\<not> base \<le> n mod base" "\<not> 2 ^ 64 \<le> n div base * base + n mod base"
      using "1.prems" \<open>n mod base < base\<close> by (simp_all only: not_le not_less div_mult_mod_eq)
    ultimately show ?thesis
      by (subst FormatUint.simps) (simp only: False IH parseDigits_append bindE_simps parseDigits.simps
          option.case if_False simp_thms div_mult_mod_eq)
  qed
qed

lemma ParseUint_FormatUint:
  "2 \<le> base \<Longrightarrow> base \<le> 36 \<Longrightarrow> n < 2 ^ 64 \<Longrightarrow> ParseUint (FormatUint n base) base = Inr n"
  by (simp add: ParseUint_def parseDigits_FormatUint)

lemma parseDigits_zeros [simp]:
  "0 < base \<Longrightarrow> parseDigits base 0 (replicate k CHR ''0'' @ s) = parseDigits base 0 s"
  by (induction k) (simp_all add: digitVal_def)

lemma ParseUint_padLeft:
  assumes "2 \<le> base" "base \<le> 36" "n < 2 ^ 64"
  shows "ParseUint (padLeft CHR ''0'' w (FormatUint n base)) base = Inr n"
  using assms by (simp add: ParseUint_def padLeft_def parseDigits_FormatUint)

lemma FormatUint_inj:
  assumes "2 \<le> base" "base \<le> 36" "n < 2 ^ 64" "m < 2 ^ 64" "FormatUint n base = FormatUint m base"
  shows "n = m"
proof -
  have "Inr n = ParseUint (FormatUint n base) base" using assms(1-3) by (rule ParseUint_FormatUint [symmetric])
  also have "\<dots> = ParseUint (FormatUint m base) base" by (simp only: assms(5))
  also have "\<dots> = Inr m" using assms(1,2,4) by (rule ParseUint_FormatUint)
  finally show ?thesis by (rule sum.inject(2) [THEN iffD1])
qed

end
