(* ===== verification/Smpp_Pdu.thy ===== *)
theory Smpp_Pdu
  imports Sms_Text Go_Strconv "HOL-Library.Sublist"
begin

text \<open>
  The SMPP wire format of the smpp package: PDU framing and C-octet strings (\<open>pdu.go\<close>), optional
  parameters (\<open>tlv.go\<close>), user data headers and concatenation information (\<open>udh.go\<close>), the
  submit_sm parser (\<open>submit.go\<close>) and delivery receipts (\<open>dlr.go\<close>).

  A reader is the list of the bytes it still has; reading returns the rest. The parsers keep the
  source's offset into the body as a \<open>nat\<close>.
\<close>

subsection \<open>Command and status codes\<close>

definition commandBindReceiver :: "32 word" where "commandBindReceiver = 0x00000001"
definition commandBindTransmitter :: "32 word" where "commandBindTransmitter = 0x00000002"
definition commandQuerySM :: "32 word" where "commandQuerySM = 0x00000003"
definition commandSubmitSM :: "32 word" where "commandSubmitSM = 0x00000004"
definition commandDeliverSM :: "32 word" where "commandDeliverSM = 0x00000005"
definition commandUnbind :: "32 word" where "commandUnbind = 0x00000006"
definition commandBindTransceiver :: "32 word" where "commandBindTransceiver = 0x00000009"
definition commandEnquireLink :: "32 word" where "commandEnquireLink = 0x00000015"
definition commandGenericNack :: "32 word" where "commandGenericNack = 0x80000000"
definition commandBindReceiverResp :: "32 word" where "commandBindReceiverResp = 0x80000001"
definition commandBindTransmitterResp :: "32 word" where "commandBindTransmitterResp = 0x80000002"
definition commandQuerySMResp :: "32 word" where "commandQuerySMResp = 0x80000003"
definition commandSubmitSMResp :: "32 word" where "commandSubmitSMResp = 0x80000004"
definition commandDeliverSMResp :: "32 word" where "commandDeliverSMResp = 0x80000005"
definition commandUnbindResp :: "32 word" where "commandUnbindResp = 0x80000006"
definition commandBindTransceiverResp :: "32 word" where "commandBindTransceiverResp = 0x80000009"
definition commandEnquireLinkResp :: "32 word" where "commandEnquireLinkResp = 0x80000015"

definition statusOK :: "32 word" where "statusOK = 0x00000000"
definition statusInvalidCmd :: "32 word" where "statusInvalidCmd = 0x00000003"
definition statusInvalidBind :: "32 word" where "statusInvalidBind = 0x00000004"
definition statusAlreadyBound :: "32 word" where "statusAlreadyBound = 0x00000005"
definition statusBindFailed :: "32 word" where "statusBindFailed = 0x0000000D"
definition statusThrottled :: "32 word" where "statusThrottled = 0x00000058"

lemmas command_defs = commandBindReceiver_def commandBindTransmitter_def commandQuerySM_def
  commandSubmitSM_def commandDeliverSM_def commandUnbind_def commandBindTransceiver_def
  commandEnquireLink_def commandGenericNack_def commandBindReceiverResp_def
  commandBindTransmitterResp_def commandQuerySMResp_def commandSubmitSMResp_def
  commandDeliverSMResp_def commandUnbindResp_def commandBindTransceiverResp_def
  commandEnquireLinkResp_def

lemmas status_defs = statusOK_def statusInvalidCmd_def statusInvalidBind_def
  statusAlreadyBound_def statusBindFailed_def statusThrottled_def

definition commandName :: "32 word \<Rightarrow> string" where
  "commandName c =
     (if c = commandBindReceiver then ''bind_receiver''
      else if c = commandBindTransmitter then ''bind_transmitter''
      else if c = commandBindTransceiver then ''bind_transceiver''
      else if c = commandSubmitSM then ''submit_sm''
      else if c = commandDeliverSM then ''deliver_sm''
      else if c = commandUnbind then ''unbind''
      else if c = commandEnquireLink then ''enquire_link''
      else ''0x'' @ fmtPadHex 8 (unat c))"

subsection \<open>PDU framing\<close>

datatype SmppError =
    ErrEOF | ErrUnexpectedEOF
  | ErrInvalidPduLength | ErrPduTooLarge
  | ErrCStringTooLong | ErrCStringUnterminated
  | ErrShortTLVHeader | ErrShortTLVValue
  | ErrUDHEmpty | ErrUDHLength | ErrMalformedIE | ErrMalformedConcatIE
  | ErrShortSubmit | ErrMissingDestination | ErrMissingFixedFields | ErrMissingDeliveryFields
  | ErrMissingSmLength | ErrShortMessage | ErrDuplicateSAR | ErrPayloadAndMessage
  | ErrMalformedSAR | ErrUDHAndSAR

record PDU =
  Pdu_Length :: "32 word"
  Pdu_CommandID :: "32 word"
  Pdu_Status :: "32 word"
  Pdu_SequenceID :: "32 word"
  Pdu_Body :: bytes

text \<open>\<open>io.ReadFull\<close>: all \<open>n\<close> bytes, or an error after the reader is drained.\<close>

definition ReadFull :: "nat \<Rightarrow> bytes \<Rightarrow> (SmppError + bytes) \<times> bytes" where
  "ReadFull n r =
     (if n \<le> length r then (Inr (take n r), drop n r)
      else (Inl (if r = [] then ErrEOF else ErrUnexpectedEOF), []))"

definition be32At :: "bytes \<Rightarrow> nat \<Rightarrow> 32 word" where
  "be32At bs i = be_get32 (bs ! i) (bs ! (i + 1)) (bs ! (i + 2)) (bs ! (i + 3))"

definition be16At :: "bytes \<Rightarrow> nat \<Rightarrow> 16 word" where
  "be16At bs i = be_get16 (bs ! i) (bs ! (i + 1))"

definition ReadPDU :: "bytes \<Rightarrow> (SmppError + PDU) \<times> bytes" where
  "ReadPDU r =
     (case ReadFull 16 r of
        (Inl e, r1) \<Rightarrow> (Inl e, r1)
      | (Inr header, r1) \<Rightarrow>
          let len = be32At header 0 in
          if len < 16 then (Inl ErrInvalidPduLength, r1)
          else if len > 1024 * 1024 then (Inl ErrPduTooLarge, r1)
          else case ReadFull (unat (len - 16)) r1 of
                 (Inl e, r2) \<Rightarrow> (Inl e, r2)
               | (Inr body, r2) \<Rightarrow>
                   (Inr \<lparr>Pdu_Length = len, Pdu_CommandID = be32At header 4,
                         Pdu_Status = be32At header 8, Pdu_SequenceID = be32At header 12,
                         Pdu_Body = body\<rparr>, r2))"

text \<open>The bytes that \<open>WritePDU\<close> hands to the writer in one call.\<close>

definition WritePDU :: "PDU \<Rightarrow> bytes" where
  "WritePDU p =
     be_put32 (of_nat (16 + length (Pdu_Body p))) @ be_put32 (Pdu_CommandID p)
       @ be_put32 (Pdu_Status p) @ be_put32 (Pdu_SequenceID p) @ Pdu_Body p"

subsection \<open>C-octet strings\<close>

definition CString :: "string \<Rightarrow> bytes" where
  "CString s = bytes_of s @ [0]"

function skipToNul :: "bytes \<Rightarrow> nat \<Rightarrow> nat" where
  "skipToNul body offset =
     (if offset < length body \<and> body ! offset \<noteq> 0 then skipToNul body (offset + 1) else offset)"
  by pat_completeness auto
termination by (relation "measure (\<lambda>(body, offset). length body - offset)") auto

definition readCString :: "bytes \<Rightarrow> nat \<Rightarrow> string \<times> nat" where
  "readCString body start =
     (let offset = skipToNul body start;
          value = string_of (take (offset - start) (drop start body))
      in (value, if offset < length body then offset + 1 else offset))"

function skipToNulMax :: "bytes \<Rightarrow> nat \<Rightarrow> nat \<Rightarrow> nat \<Rightarrow> SmppError + nat" where
  "skipToNulMax body start mx offset =
     (if offset < length body \<and> body ! offset \<noteq> 0
      then if mx \<le> offset - start then Inl ErrCStringTooLong
           else skipToNulMax body start mx (offset + 1)
      else Inr offset)"
  by pat_completeness auto
termination by (relation "measure (\<lambda>(body, start, mx, offset). length body - offset)") auto

declare skipToNul.simps [simp del] skipToNulMax.simps [simp del]

definition readCStringMax :: "bytes \<Rightarrow> nat \<Rightarrow> nat \<Rightarrow> SmppError + (string \<times> nat)" where
  "readCStringMax body start mx =
     bindE (skipToNulMax body start mx start) (\<lambda>offset.
     bindE (guardE (length body \<le> offset) ErrCStringUnterminated) (\<lambda>_.
     Inr (string_of (take (offset - start) (drop start body)), offset + 1)))"

subsection \<open>Optional parameters\<close>

definition TagSourcePort :: "16 word" where "TagSourcePort = 0x020A"
definition TagDestPort :: "16 word" where "TagDestPort = 0x020B"
definition TagSARMsgRefNum :: "16 word" where "TagSARMsgRefNum = 0x020C"
definition TagSARTotalSegments :: "16 word" where "TagSARTotalSegments = 0x020E"
definition TagSARSegmentSeqnum :: "16 word" where "TagSARSegmentSeqnum = 0x020F"
definition TagMessagePayload :: "16 word" where "TagMessagePayload = 0x0424"
definition TagReceiptedMessageID :: "16 word" where "TagReceiptedMessageID = 0x001E"
definition TagMessageState :: "16 word" where "TagMessageState = 0x0427"

lemmas tag_defs = TagSourcePort_def TagDestPort_def TagSARMsgRefNum_def TagSARTotalSegments_def
  TagSARSegmentSeqnum_def TagMessagePayload_def TagReceiptedMessageID_def TagMessageState_def

record TLV =
  Tlv_Tag :: "16 word"
  Tlv_Value :: bytes

function ParseTLVsStrict :: "bytes \<Rightarrow> SmppError + TLV list" where
  "ParseTLVsStrict body =
     (if body = [] then Inr []
      else if length body < 4 then Inl ErrShortTLVHeader
      else let n = unat (be16At body 2) in
        if length body < 4 + n then Inl ErrShortTLVValue
        else bindE (ParseTLVsStrict (drop (4 + n) body)) (\<lambda>out.
               Inr (\<lparr>Tlv_Tag = be16At body 0, Tlv_Value = take n (drop 4 body)\<rparr> # out)))"
  by pat_completeness auto
termination by (relation "measure length") auto

declare ParseTLVsStrict.simps [simp del]

definition ParseTLVs :: "bytes \<Rightarrow> TLV list" where
  "ParseTLVs body = (case ParseTLVsStrict body of Inl _ \<Rightarrow> [] | Inr out \<Rightarrow> out)"

fun FindTLV :: "TLV list \<Rightarrow> 16 word \<Rightarrow> bytes option" where
  "FindTLV [] tag = None"
| "FindTLV (tlv # tlvs) tag = (if Tlv_Tag tlv = tag then Some (Tlv_Value tlv) else FindTLV tlvs tag)"

definition appendTLVBytes :: "bytes \<Rightarrow> 16 word \<Rightarrow> bytes \<Rightarrow> bytes" where
  "appendTLVBytes body tag value = body @ be_put16 tag @ be_put16 (of_nat (length value)) @ value"

definition appendTLVCString :: "bytes \<Rightarrow> 16 word \<Rightarrow> string \<Rightarrow> bytes" where
  "appendTLVCString body tag value = appendTLVBytes body tag (CString value)"

subsection \<open>User data headers and concatenation\<close>

record ConcatInfo =
  Cc_Reference :: "16 word"
  Cc_Total :: byte
  Cc_Part :: byte

definition validConcatPart :: "byte \<Rightarrow> byte \<Rightarrow> bool" where
  "validConcatPart tot part \<longleftrightarrow> tot > 0 \<and> part > 0 \<and> part \<le> tot"

definition newConcatInfo :: "16 word \<Rightarrow> byte \<Rightarrow> byte \<Rightarrow> ConcatInfo option" where
  "newConcatInfo reference tot part =
     (if validConcatPart tot part
      then Some \<lparr>Cc_Reference = reference, Cc_Total = tot, Cc_Part = part\<rparr> else None)"

text \<open>The loop of \<open>SplitUDH\<close> over the information elements; the result is the error it stops with.\<close>

function checkIEs :: "bytes \<Rightarrow> SmppError option" where
  "checkIEs ies =
     (if ies = [] then None
      else if length ies < 2 then Some ErrMalformedIE
      else let len = unat (ies ! 1); data = take len (drop 2 ies) in
        if length ies - 2 < len then Some ErrMalformedIE
        else if ies ! 0 = 0x00 \<and> (length data \<noteq> 3 \<or> \<not> validConcatPart (data ! 1) (data ! 2))
        then Some ErrMalformedConcatIE
        else if ies ! 0 = 0x08 \<and> (length data \<noteq> 4 \<or> \<not> validConcatPart (data ! 2) (data ! 3))
        then Some ErrMalformedConcatIE
        else checkIEs (drop (2 + len) ies))"
  by pat_completeness auto
termination by (relation "measure length") auto

text \<open>\<open>SplitUDH\<close>; a nil header is the empty list, and a header that is present is never empty.\<close>

definition SplitUDH :: "bytes \<Rightarrow> byte \<Rightarrow> SmppError + (bytes \<times> bytes)" where
  "SplitUDH raw esmClass =
     (if esmClass AND 0x40 = 0 then Inr ([], raw)
      else if raw = [] then Inl ErrUDHEmpty
      else let udhLen = unat (raw ! 0) + 1 in
        if udhLen \<le> 1 \<or> length raw < udhLen then Inl ErrUDHLength
        else case checkIEs (drop 1 (take udhLen raw)) of
               Some e \<Rightarrow> Inl e
             | None \<Rightarrow> Inr (take udhLen raw, drop udhLen raw))"

function findConcatIE :: "bytes \<Rightarrow> ConcatInfo option" where
  "findConcatIE ies =
     (if length ies < 2 then None
      else let iei = ies ! 0; iedl = unat (ies ! 1); data = take iedl (drop 2 ies) in
        if length ies < 2 + iedl then None
        else if iei = 0x00 \<and> length data = 3
        then newConcatInfo (ucast (data ! 0)) (data ! 1) (data ! 2)
        else if iei = 0x08 \<and> length data = 4
        then newConcatInfo (be_get16 (data ! 0) (data ! 1)) (data ! 2) (data ! 3)
        else findConcatIE (drop (2 + iedl) ies))"
  by pat_completeness auto
termination by (relation "measure length") auto

declare checkIEs.simps [simp del] findConcatIE.simps [simp del]

definition ParseConcat :: "bytes \<Rightarrow> ConcatInfo option" where
  "ParseConcat udh =
     (if udh = [] then None
      else let udhLen = unat (udh ! 0) in
        if length udh < 1 + udhLen then None
        else findConcatIE (drop 1 (take (1 + udhLen) udh)))"

definition ParseSAR :: "TLV list \<Rightarrow> ConcatInfo option" where
  "ParseSAR tlvs =
     (case (FindTLV tlvs TagSARMsgRefNum, FindTLV tlvs TagSARTotalSegments,
            FindTLV tlvs TagSARSegmentSeqnum) of
        (Some ref, Some tot, Some part) \<Rightarrow>
          if (length ref \<noteq> 1 \<and> length ref \<noteq> 2) \<or> length tot \<noteq> 1 \<or> length part \<noteq> 1 then None
          else newConcatInfo
                 (if length ref = 1 then ucast (ref ! 0) else be_get16 (ref ! 0) (ref ! 1))
                 (tot ! 0) (part ! 0)
      | _ \<Rightarrow> None)"

definition isSARTag :: "16 word \<Rightarrow> bool" where
  "isSARTag tag \<longleftrightarrow>
     tag = TagSARMsgRefNum \<or> tag = TagSARTotalSegments \<or> tag = TagSARSegmentSeqnum"

definition HasSAR :: "TLV list \<Rightarrow> bool" where
  "HasSAR tlvs \<longleftrightarrow> list_ex (\<lambda>tlv. isSARTag (Tlv_Tag tlv)) tlvs"

subsection \<open>submit_sm\<close>

definition smppMaxServiceType :: nat where "smppMaxServiceType = 6"
definition SMPPMaxSystemID :: nat where "SMPPMaxSystemID = 15"
definition SMPPMaxPassword :: nat where "SMPPMaxPassword = 8"
definition SMPPMaxSystemType :: nat where "SMPPMaxSystemType = 12"
definition SMPPMaxAddress :: nat where "SMPPMaxAddress = 20"

lemmas smpp_max_defs = smppMaxServiceType_def SMPPMaxSystemID_def SMPPMaxPassword_def
  SMPPMaxSystemType_def SMPPMaxAddress_def

record SubmitSM =
  Sub_SequenceID :: "32 word"
  Sub_From :: string
  Sub_To :: string
  Sub_Text :: string
  Sub_DataCoding :: byte
  Sub_RegisteredDelivery :: byte
  Sub_ESMClass :: byte
  Sub_ProtocolID :: byte
  Sub_PriorityFlag :: byte
  Sub_ReplaceIfPresent :: byte
  Sub_SMDefaultMsgID :: byte
  Sub_OptionalParamsOffset :: nat
  Sub_Payload :: bytes
  Sub_UDH :: bytes
  Sub_Concat :: "ConcatInfo option"
  Sub_TLVs :: "TLV list"

fun duplicateSARLoop :: "16 word list \<Rightarrow> TLV list \<Rightarrow> bool" where
  "duplicateSARLoop seen [] = False"
| "duplicateSARLoop seen (tlv # tlvs) =
     (if isSARTag (Tlv_Tag tlv)
      then if Tlv_Tag tlv \<in> set seen then True
           else duplicateSARLoop (Tlv_Tag tlv # seen) tlvs
      else duplicateSARLoop seen tlvs)"

definition hasDuplicateSARTag :: "TLV list \<Rightarrow> bool" where
  "hasDuplicateSARTag tlvs = duplicateSARLoop [] tlvs"

text \<open>The choice between the header's and the optional parameters' concatenation information.\<close>

definition submitConcat :: "bytes \<Rightarrow> TLV list \<Rightarrow> SmppError + ConcatInfo option" where
  "submitConcat udh tlvs =
     (case (if udh \<noteq> [] then ParseConcat udh else None) of
        Some parsed \<Rightarrow> Inr (Some parsed)
      | None \<Rightarrow> (case ParseSAR tlvs of
                   Some parsed \<Rightarrow> Inr (Some parsed)
                 | None \<Rightarrow> if HasSAR tlvs then Inl ErrMalformedSAR else Inr None))"

text \<open>
  The second half of \<open>ParseSubmitSM\<close>: from the short message and the optional parameters to the
  header, the user data and the concatenation information.
\<close>

definition submitContent ::
  "bytes \<Rightarrow> nat \<Rightarrow> byte \<Rightarrow> TLV list \<Rightarrow> SmppError + (bytes \<times> bytes \<times> ConcatInfo option)" where
  "submitContent raw smLen esmClass tlvs =
     bindE (guardE (hasDuplicateSARTag tlvs) ErrDuplicateSAR) (\<lambda>_.
     bindE (case FindTLV tlvs TagMessagePayload of
              Some payload \<Rightarrow> if smLen > 0 then Inl ErrPayloadAndMessage else Inr payload
            | None \<Rightarrow> Inr raw) (\<lambda>raw'.
     bindE (SplitUDH raw' esmClass) (\<lambda>(udh, sm).
     bindE (submitConcat udh tlvs) (\<lambda>concat.
     bindE (guardE (udh \<noteq> [] \<and> HasSAR tlvs) ErrUDHAndSAR) (\<lambda>_.
     Inr (udh, sm, concat))))))"

definition ParseSubmitSM :: "PDU \<Rightarrow> SmppError + SubmitSM" where
  "ParseSubmitSM pdu =
     (let body = Pdu_Body pdu in
      bindE (readCStringMax body 0 smppMaxServiceType) (\<lambda>(_, o1).
      bindE (guardE (length body < o1 + 2) ErrShortSubmit) (\<lambda>_.
      bindE (readCStringMax body (o1 + 2) SMPPMaxAddress) (\<lambda>(from, o2).
      bindE (guardE (length body < o2 + 2) ErrMissingDestination) (\<lambda>_.
      bindE (readCStringMax body (o2 + 2) SMPPMaxAddress) (\<lambda>(to, o3).
      bindE (guardE (length body < o3 + 3) ErrMissingFixedFields) (\<lambda>_.
      let esmClass = body ! o3; protocolID = body ! (o3 + 1); priorityFlag = body ! (o3 + 2) in
      bindE (readCStringMax body (o3 + 3) 16) (\<lambda>(_, o4).
      bindE (readCStringMax body o4 16) (\<lambda>(_, o5).
      bindE (guardE (length body < o5 + 5) ErrMissingDeliveryFields) (\<lambda>_.
      let registeredDelivery = body ! o5; replaceIfPresent = body ! (o5 + 1);
          dataCoding = body ! (o5 + 2); smDefaultMsgID = body ! (o5 + 3) in
      bindE (guardE (length body \<le> o5 + 4) ErrMissingSmLength) (\<lambda>_.
      let smLen = unat (body ! (o5 + 4)); o6 = o5 + 5 in
      bindE (guardE (length body < o6 + smLen) ErrShortMessage) (\<lambda>_.
      let raw = take smLen (drop o6 body); o7 = o6 + smLen in
      bindE (ParseTLVsStrict (drop o7 body)) (\<lambda>tlvs.
      bindE (submitContent raw smLen esmClass tlvs) (\<lambda>(udh, sm, concat).
      Inr \<lparr>Sub_SequenceID = Pdu_SequenceID pdu, Sub_From = from, Sub_To = to,
           Sub_Text = DecodeSubmitText sm dataCoding, Sub_DataCoding = dataCoding,
           Sub_RegisteredDelivery = registeredDelivery, Sub_ESMClass = esmClass,
           Sub_ProtocolID = protocolID, Sub_PriorityFlag = priorityFlag,
           Sub_ReplaceIfPresent = replaceIfPresent, Sub_SMDefaultMsgID = smDefaultMsgID,
           Sub_OptionalParamsOffset = o7, Sub_Payload = sm, Sub_UDH = udh, Sub_Concat = concat,
           Sub_TLVs = tlvs\<rparr>))))))))))))))"

definition parseSubmitSM :: "gotime \<Rightarrow> PDU \<Rightarrow> SmppError + Message" where
  "parseSubmitSM now pdu =
     bindE (ParseSubmitSM pdu) (\<lambda>submit.
       let msg = Message_New now [] DirectionMO (Sub_From submit) (Sub_To submit) (Sub_Text submit) in
       Inr (if Sub_DataCoding submit = 0x08 then msg\<lparr>Msg_Encoding := ''ucs2''\<rparr> else msg))"

subsection \<open>Delivery receipts\<close>

record DLRParams =
  Dlr_GatewayID :: string
  Dlr_SourceAddr :: string
  Dlr_DestAddr :: string
  Dlr_SubmittedAt :: gotime
  Dlr_DoneAt :: gotime
  Dlr_State :: string
  Dlr_ErrorCode :: int
  Dlr_OriginalText :: string

definition normalizeState :: "string \<Rightarrow> string" where
  "normalizeState state =
     (if state \<in> {''DELIVRD'', ''EXPIRED'', ''DELETED'', ''UNDELIV'', ''ACCEPTD'', ''UNKNOWN'', ''REJECTD''}
      then state else ''UNKNOWN'')"

definition stateToCode :: "string \<Rightarrow> byte" where
  "stateToCode state =
     (if state = ''ENROUTE'' then 1
      else if state = ''DELIVRD'' then 2
      else if state = ''EXPIRED'' then 3
      else if state = ''DELETED'' then 4
      else if state = ''UNDELIV'' then 5
      else if state = ''ACCEPTD'' then 6
      else if state = ''REJECTD'' then 8
      else 7)"

definition truncateRunes :: "string \<Rightarrow> nat \<Rightarrow> string" where
  "truncateRunes value limit =
     (let rs = runes value in if length rs \<le> limit then value else string_of_runes (take limit rs))"

definition FormatReceiptText :: "DLRParams \<Rightarrow> string" where
  "FormatReceiptText params =
     (let state = normalizeState (Dlr_State params);
          delivered = (if state = ''DELIVRD'' then 1 else 0)
      in ''id:'' @ Dlr_GatewayID params @ '' sub:001 dlvrd:'' @ fmtPadInt 3 delivered
         @ '' submit date:'' @ formatYYMMDDhhmm (Dlr_SubmittedAt params)
         @ '' done date:'' @ formatYYMMDDhhmm (Dlr_DoneAt params)
         @ '' stat:'' @ state @ '' err:'' @ fmtPadInt 3 (Dlr_ErrorCode params)
         @ '' text:'' @ truncateRunes (Dlr_OriginalText params) 20)"

definition buildDeliverSMBody :: "DLRParams \<Rightarrow> bytes" where
  "buildDeliverSMBody params =
     (let receipt = bytes_of (FormatReceiptText params) in
      CString [] @ [0x00, 0x00] @ CString (Dlr_SourceAddr params)
        @ [0x00, 0x00] @ CString (Dlr_DestAddr params) @ [0x04, 0x00, 0x00]
        @ CString [] @ CString [] @ [0x00, 0x00, 0x00, 0x00]
        @ [of_nat (length receipt)] @ receipt)"

definition BuildDLR :: "DLRParams \<Rightarrow> PDU" where
  "BuildDLR params =
     (let body = buildDeliverSMBody params;
          body1 = appendTLVCString body TagReceiptedMessageID (Dlr_GatewayID params);
          body2 = appendTLVBytes body1 TagMessageState [stateToCode (Dlr_State params)]
      in \<lparr>Pdu_Length = 0, Pdu_CommandID = commandDeliverSM, Pdu_Status = statusOK,
          Pdu_SequenceID = 0, Pdu_Body = body2\<rparr>)"

subsection \<open>The layout of a submit_sm body\<close>

text \<open>
  The wire format that \<open>ParseSubmitSM\<close> reads, written as an encoder of its fields, with the
  conditions under which the fields are encodable.
\<close>

definition tlvBytes :: "TLV \<Rightarrow> bytes" where
  "tlvBytes t = appendTLVBytes [] (Tlv_Tag t) (Tlv_Value t)"

definition encodeTLVs :: "TLV list \<Rightarrow> bytes" where
  "encodeTLVs ts = concat (map tlvBytes ts)"

record SubmitFrame =
  Fr_ServiceType :: string
  Fr_SrcTonNpi :: "byte \<times> byte"
  Fr_Src :: string
  Fr_DstTonNpi :: "byte \<times> byte"
  Fr_Dst :: string
  Fr_Fixed :: "byte \<times> byte \<times> byte"
  Fr_Schedule :: string
  Fr_Validity :: string
  Fr_Delivery :: "byte \<times> byte \<times> byte \<times> byte"
  Fr_ShortMessage :: bytes
  Fr_TLVs :: "TLV list"

definition frameBytes :: "SubmitFrame \<Rightarrow> bytes" where
  "frameBytes f =
     CString (Fr_ServiceType f) @ [fst (Fr_SrcTonNpi f), snd (Fr_SrcTonNpi f)]
       @ CString (Fr_Src f) @ [fst (Fr_DstTonNpi f), snd (Fr_DstTonNpi f)]
       @ CString (Fr_Dst f)
       @ (case Fr_Fixed f of (e, p, q) \<Rightarrow> [e, p, q])
       @ CString (Fr_Schedule f) @ CString (Fr_Validity f)
       @ (case Fr_Delivery f of (r, p, d, m) \<Rightarrow> [r, p, d, m])
       @ [of_nat (length (Fr_ShortMessage f))] @ Fr_ShortMessage f @ encodeTLVs (Fr_TLVs f)"

definition cstrOK :: "string \<Rightarrow> nat \<Rightarrow> bool" where
  "cstrOK s mx \<longleftrightarrow> CHR 0x00 \<notin> set s \<and> length s \<le> mx"

definition frameOK :: "SubmitFrame \<Rightarrow> bool" where
  "frameOK f \<longleftrightarrow> cstrOK (Fr_ServiceType f) smppMaxServiceType \<and> cstrOK (Fr_Src f) SMPPMaxAddress
     \<and> cstrOK (Fr_Dst f) SMPPMaxAddress \<and> cstrOK (Fr_Schedule f) 16 \<and> cstrOK (Fr_Validity f) 16
     \<and> length (Fr_ShortMessage f) < 256 \<and> (\<forall>t \<in> set (Fr_TLVs f). length (Tlv_Value t) < 65536)"

definition frameResult :: "PDU \<Rightarrow> SubmitFrame \<Rightarrow> bytes \<times> bytes \<times> ConcatInfo option \<Rightarrow> SubmitSM" where
  "frameResult pdu f c =
     (case c of (udh, sm, conc) \<Rightarrow> case Fr_Fixed f of (e, p, q) \<Rightarrow> case Fr_Delivery f of (r, rp, d, m) \<Rightarrow>
      \<lparr>Sub_SequenceID = Pdu_SequenceID pdu, Sub_From = Fr_Src f, Sub_To = Fr_Dst f,
           Sub_Text = DecodeSubmitText sm d, Sub_DataCoding = d,
           Sub_RegisteredDelivery = r, Sub_ESMClass = e,
           Sub_ProtocolID = p, Sub_PriorityFlag = q,
           Sub_ReplaceIfPresent = rp, Sub_SMDefaultMsgID = m,
           Sub_OptionalParamsOffset = length (frameBytes f) - length (encodeTLVs (Fr_TLVs f)),
           Sub_Payload = sm, Sub_UDH = udh, Sub_Concat = conc, Sub_TLVs = Fr_TLVs f\<rparr>)"

subsection \<open>Reading C-octet strings\<close>

abbreviation cstrLen :: "bytes \<Rightarrow> nat \<Rightarrow> nat" where
  "cstrLen body start \<equiv> length (takeWhile (\<lambda>b. b \<noteq> 0) (drop start body))"

lemma cstrLen_step:
  assumes "start + k < length body" "body ! (start + k) \<noteq> 0" "k \<le> cstrLen body start"
  shows "Suc k \<le> cstrLen body start"
proof (rule ccontr)
  assume "\<not> Suc k \<le> cstrLen body start"
  with assms(3) have k: "k = cstrLen body start" by simp
  have "k < length (drop start body)" using assms(1) by simp
  then have "drop start body ! k = 0" unfolding k using nth_length_takeWhile by blast
  with assms(1,2) show False by (simp add: add.commute)
qed

lemma cstrLen_stop:
  assumes "k < cstrLen body start"
  shows "start + k < length body" "body ! (start + k) \<noteq> 0"
proof -
  have "cstrLen body start \<le> length (drop start body)" by (rule length_takeWhile_le)
  with assms show lt: "start + k < length body" by simp
  have "takeWhile (\<lambda>b. b \<noteq> 0) (drop start body) ! k = drop start body ! k"
    using assms by (rule takeWhile_nth)
  moreover have "takeWhile (\<lambda>b. b \<noteq> 0) (drop start body) ! k \<noteq> 0"
    using nth_mem [OF assms] by (auto dest: set_takeWhileD)
  ultimately show "body ! (start + k) \<noteq> 0" using lt by simp
qed

lemma skipToNul_eq: "k \<le> cstrLen body start \<Longrightarrow> skipToNul body (start + k) = start + cstrLen body start"
proof (induction "cstrLen body start - k" arbitrary: k)
  case 0
  then have k: "k = cstrLen body start" by simp
  show ?case using cstrLen_step [where start = start and k = k and body = body] k by (subst skipToNul.simps) auto
next
  case (Suc d)
  then have "skipToNul body (start + Suc k) = start + cstrLen body start" by (intro Suc.hyps(1)) auto
  then show ?case using cstrLen_stop [where start = start and k = k and body = body] Suc.hyps(2) by (subst skipToNul.simps) auto
qed

lemma skipToNulMax_eq:
  "k \<le> cstrLen body start \<Longrightarrow> k \<le> mx \<Longrightarrow> skipToNulMax body start mx (start + k) =
     (if cstrLen body start \<le> mx then Inr (start + cstrLen body start) else Inl ErrCStringTooLong)"
proof (induction "cstrLen body start - k" arbitrary: k)
  case 0
  then have k: "k = cstrLen body start" by simp
  show ?case using cstrLen_step [where start = start and k = k and body = body] k 0 by (subst skipToNulMax.simps) auto
next
  case (Suc d)
  have IH: "skipToNulMax body start mx (start + Suc k) =
      (if cstrLen body start \<le> mx then Inr (start + cstrLen body start) else Inl ErrCStringTooLong)"
    if "Suc k \<le> mx" using Suc that by (intro Suc.hyps(1)) auto
  show ?case using cstrLen_stop [where start = start and k = k and body = body] Suc.hyps(2) Suc.prems IH
    by (subst skipToNulMax.simps) auto
qed

lemma readCStringMax_eq:
  "readCStringMax body start mx =
     (let n = cstrLen body start in
      if mx < n then Inl ErrCStringTooLong
      else if length body \<le> start + n then Inl ErrCStringUnterminated
      else Inr (string_of (take n (drop start body)), start + n + 1))"
  using skipToNulMax_eq [where k = 0 and body = body and start = start and mx = mx] by (simp add: readCStringMax_def Let_def)

lemma readCString_eq:
  "readCString body start =
     (let n = cstrLen body start in
      (string_of (take n (drop start body)), if start + n < length body then start + n + 1 else start + n))"
  using skipToNul_eq [where k = 0 and body = body and start = start] by (simp add: readCString_def Let_def)

lemma bytes_of_no_nul: "CHR 0x00 \<notin> set s \<longleftrightarrow> (0 :: byte) \<notin> set (bytes_of s)"
proof -
  have "of_char c = (0 :: byte) \<longleftrightarrow> c = CHR 0x00" for c
  proof
    assume "of_char c = (0 :: byte)"
    then have "bytes_of [c] = bytes_of [CHR 0x00]" by (simp add: bytes_of_def)
    then have "[c] = [CHR 0x00]" by (metis string_of_bytes_of)
    then show "c = CHR 0x00" by simp
  qed simp
  then show ?thesis by (auto simp: bytes_of_def image_iff)
qed

lemma readCStringMax_iff:
  "readCStringMax body start mx = Inr (s, off) \<longleftrightarrow>
     (\<exists>rest. drop start body = bytes_of s @ 0 # rest) \<and> CHR 0x00 \<notin> set s \<and> length s \<le> mx
     \<and> off = start + length s + 1"
proof
  assume r: "readCStringMax body start mx = Inr (s, off)"
  let ?n = "cstrLen body start"
  from r have n: "?n \<le> mx" "start + ?n < length body" "s = string_of (take ?n (drop start body))"
      "off = start + ?n + 1"
    by (auto simp: readCStringMax_eq Let_def split: if_splits)
  have tw: "take ?n (drop start body) = takeWhile (\<lambda>b. b \<noteq> 0) (drop start body)"
    by (rule takeWhile_eq_take [symmetric])
  have s: "bytes_of s = takeWhile (\<lambda>b. b \<noteq> 0) (drop start body)" by (simp add: n(3) tw)
  then have len: "length s = ?n" by (metis length_bytes_of)
  have l: "?n < length (drop start body)" using n(2) by simp
  then have "drop start body ! ?n = 0" using nth_length_takeWhile by blast
  then have "drop ?n (drop start body) = 0 # drop (Suc ?n) (drop start body)"
    using Cons_nth_drop_Suc [OF l] by (simp only:)
  then have "drop start body = bytes_of s @ 0 # drop (Suc ?n) (drop start body)"
    using append_take_drop_id [of ?n "drop start body"] s tw by (simp only:)
  moreover have "CHR 0x00 \<notin> set s" unfolding bytes_of_no_nul s by (auto dest: set_takeWhileD)
  ultimately show "(\<exists>rest. drop start body = bytes_of s @ 0 # rest) \<and> CHR 0x00 \<notin> set s
      \<and> length s \<le> mx \<and> off = start + length s + 1"
    using n len by auto
next
  assume "(\<exists>rest. drop start body = bytes_of s @ 0 # rest) \<and> CHR 0x00 \<notin> set s
      \<and> length s \<le> mx \<and> off = start + length s + 1"
  then obtain rest where d: "drop start body = bytes_of s @ 0 # rest" and s: "CHR 0x00 \<notin> set s"
      "length s \<le> mx" "off = start + length s + 1" by blast
  have "takeWhile (\<lambda>b. b \<noteq> 0) (drop start body) = bytes_of s"
    using s(1) unfolding d bytes_of_no_nul by (subst takeWhile_append2) auto
  then have n: "cstrLen body start = length s" by simp
  have "length (drop start body) = length s + 1 + length rest" unfolding d by simp
  then have "\<not> length body \<le> start + length s" by simp
  then show "readCStringMax body start mx = Inr (s, off)"
    using s(2,3) unfolding readCStringMax_eq Let_def n by (simp add: d)
qed

subsection \<open>Reading and writing PDUs\<close>

lemma be32At_put [simp]: "be32At (be_put32 w @ bs) 0 = w"
  by (simp add: be32At_def be_put32_def be_get_put32)

lemma be32At_skip [simp]: "be32At (be_put32 w @ bs) (Suc (Suc (Suc (Suc i)))) = be32At bs i"
  by (simp add: be32At_def be_put32_def numeral_eq_Suc)

lemma list_of_4: "4 \<le> length bs \<Longrightarrow> bs = [bs ! 0, bs ! 1, bs ! 2, bs ! 3] @ drop 4 bs"
  by (auto simp: numeral_eq_Suc Suc_le_length_iff)

lemma put_be32At: "i + 4 \<le> length bs \<Longrightarrow> drop i bs = be_put32 (be32At bs i) @ drop (i + 4) bs"
  using list_of_4 [of "drop i bs"]
  by (simp add: be32At_def be_put_get32 add.commute)

lemma put_be16At: "i + 2 \<le> length bs \<Longrightarrow> drop i bs = be_put16 (be16At bs i) @ drop (i + 2) bs"
  by (simp add: be16At_def be_put_get16 Cons_nth_drop_Suc)

lemma read_WritePDU:
  assumes "length (Pdu_Body p) \<le> 1048560"
  shows "ReadPDU (WritePDU p @ rest)
    = (Inr (p\<lparr>Pdu_Length := of_nat (16 + length (Pdu_Body p))\<rparr>), rest)"
proof -
  define h where "h = be_put32 (of_nat (16 + length (Pdu_Body p))) @ be_put32 (Pdu_CommandID p)
       @ be_put32 (Pdu_Status p) @ be_put32 (Pdu_SequenceID p)"
  have len: "length h = 16" by (simp add: h_def)
  have w: "WritePDU p @ rest = h @ Pdu_Body p @ rest" by (simp add: WritePDU_def h_def)
  have "be32At (be_put32 a @ be_put32 b @ be_put32 c @ be_put32 d) 0 = a"
    "be32At (be_put32 a @ be_put32 b @ be_put32 c @ be_put32 d) 4 = b"
    "be32At (be_put32 a @ be_put32 b @ be_put32 c @ be_put32 d) 8 = c"
    "be32At (be_put32 a @ be_put32 b @ be_put32 c @ be_put32 d) 12 = d" for a b c d
    using be32At_put [of d "[]"] by (simp_all add: numeral_eq_Suc)
  then have f: "be32At h 0 = of_nat (16 + length (Pdu_Body p))" "be32At h 4 = Pdu_CommandID p"
    "be32At h 8 = Pdu_Status p" "be32At h 12 = Pdu_SequenceID p"
    unfolding h_def by blast+
  have u: "unat (of_nat (16 + length (Pdu_Body p)) :: 32 word) = 16 + length (Pdu_Body p)"
    using assms by (intro unat_of_nat32) simp
  have u': "unat ((of_nat (16 + length (Pdu_Body p)) :: 32 word) - 16) = length (Pdu_Body p)"
    using assms by (simp add: unat_of_nat)
  have c: "\<not> (of_nat (16 + length (Pdu_Body p)) :: 32 word) < 16"
    "\<not> (of_nat (16 + length (Pdu_Body p)) :: 32 word) > 1024 * 1024"
    using assms u by (simp_all only: word_less_nat_alt) simp_all
  show ?thesis
    unfolding w ReadPDU_def ReadFull_def
    using len c u' by (simp add: f Let_def del: of_nat_add)
qed

lemma read_PDU_D:
  assumes "ReadPDU s = (Inr p, rest)"
  shows "s = WritePDU p @ rest" "length (Pdu_Body p) \<le> 1048560"
    "Pdu_Length p = of_nat (16 + length (Pdu_Body p))"
proof -
  define len where "len = be32At (take 16 s) 0"
  from assms have r: "16 \<le> length s" "\<not> len < 16" "\<not> len > 1024 * 1024"
      "unat (len - 16) \<le> length s - 16" "rest = drop (unat (len - 16)) (drop 16 s)"
      and p: "p = \<lparr>Pdu_Length = len, Pdu_CommandID = be32At (take 16 s) 4, Pdu_Status = be32At (take 16 s) 8,
          Pdu_SequenceID = be32At (take 16 s) 12, Pdu_Body = take (unat (len - 16)) (drop 16 s)\<rparr>"
    by (auto simp: ReadPDU_def ReadFull_def Let_def len_def split: if_splits)
  have u: "unat (len - 16) = unat len - 16" "16 \<le> unat len" "unat len \<le> 1048576"
    using r(2,3) by (simp_all add: unat_sub word_le_nat_alt word_less_nat_alt)
  have lb: "length (Pdu_Body p) = unat len - 16" using r(4) u(1) by (simp add: p)
  then show "length (Pdu_Body p) \<le> 1048560" using u(3) by simp
  have l16: "16 + length (Pdu_Body p) = unat len" using lb u(2) by simp
  then show L: "Pdu_Length p = of_nat (16 + length (Pdu_Body p))" unfolding l16 by (simp add: p)
  have "take 16 s = be_put32 (be32At (take 16 s) 0) @ be_put32 (be32At (take 16 s) 4)
      @ be_put32 (be32At (take 16 s) 8) @ be_put32 (be32At (take 16 s) 12)"
    using put_be32At [of 0 "take 16 s"] put_be32At [of 4 "take 16 s"] put_be32At [of 8 "take 16 s"]
      put_be32At [of 12 "take 16 s"] r(1) by simp
  then have "WritePDU p = take 16 s @ Pdu_Body p"
    using l16 by (simp add: WritePDU_def p len_def [symmetric])
  then have "WritePDU p @ rest = take 16 s @ take (unat (len - 16)) (drop 16 s) @ drop (unat (len - 16)) (drop 16 s)"
    by (simp only: p PDU.simps r(5) append.assoc)
  then show "s = WritePDU p @ rest" by (simp only: append_take_drop_id)
qed

subsection \<open>Reading and writing optional parameters\<close>

lemma be16At_put [simp]: "be16At (be_put16 w @ bs) 0 = w"
  by (simp add: be16At_def be_put16_def be_get_put16)

lemma be16At_skip [simp]: "be16At (be_put16 w @ bs) (Suc (Suc i)) = be16At bs i"
  by (simp add: be16At_def be_put16_def)

lemma parse_tlv_step:
  assumes "length (Tlv_Value t) < 65536"
  shows "ParseTLVsStrict (tlvBytes t @ bs) = bindE (ParseTLVsStrict bs) (\<lambda>ts. Inr (t # ts))"
proof -
  have e: "tlvBytes t @ bs = be_put16 (Tlv_Tag t) @ be_put16 (of_nat (length (Tlv_Value t))) @ Tlv_Value t @ bs"
    by (simp add: tlvBytes_def appendTLVBytes_def)
  have "be16At (tlvBytes t @ bs) 0 = Tlv_Tag t" "be16At (tlvBytes t @ bs) 2 = of_nat (length (Tlv_Value t))"
    unfolding e by (simp_all add: numeral_2_eq_2)
  moreover have "drop (4 + n) (tlvBytes t @ bs) = drop n (Tlv_Value t @ bs)" for n
    unfolding e by simp
  moreover have "length (tlvBytes t @ bs) = 4 + length (Tlv_Value t) + length bs" unfolding e by simp
  moreover have "drop 4 (tlvBytes t @ bs) = Tlv_Value t @ bs" unfolding e by simp
  ultimately show ?thesis
    using unat_of_nat16 [OF assms] by (subst ParseTLVsStrict.simps) (cases t; auto simp: Let_def)
qed

lemma parse_encodeTLVs:
  "\<forall>t \<in> set ts. length (Tlv_Value t) < 65536 \<Longrightarrow> ParseTLVsStrict (encodeTLVs ts) = Inr ts"
proof (induction ts)
  case Nil
  show ?case by (simp add: encodeTLVs_def ParseTLVsStrict.simps)
next
  case (Cons t ts)
  have "encodeTLVs (t # ts) = tlvBytes t @ encodeTLVs ts" by (simp add: encodeTLVs_def)
  with Cons show ?case by (simp add: parse_tlv_step)
qed

lemma parse_TLVs_D:
  "ParseTLVsStrict body = Inr ts \<Longrightarrow> body = encodeTLVs ts \<and> (\<forall>t \<in> set ts. length (Tlv_Value t) < 65536)"
proof (induction body arbitrary: ts rule: ParseTLVsStrict.induct)
  case (1 body)
  show ?case
  proof (cases "body = []")
    case True
    with 1 show ?thesis by (simp add: encodeTLVs_def ParseTLVsStrict.simps)
  next
    case False
    let ?n = "unat (be16At body 2)"
    define t where "t = \<lparr>Tlv_Tag = be16At body 0, Tlv_Value = take ?n (drop 4 body)\<rparr>"
    from False "1.prems" obtain us where len: "4 + ?n \<le> length body"
        and us: "ParseTLVsStrict (drop (4 + ?n) body) = Inr us" "ts = t # us"
      unfolding ParseTLVsStrict.simps [of body]
      by (auto simp: Let_def bindE_Inr_iff t_def split: if_splits)
    with False "1.IH" have IH: "drop (4 + ?n) body = encodeTLVs us"
        "\<forall>t \<in> set us. length (Tlv_Value t) < 65536" by auto
    have lt: "length (Tlv_Value t) = ?n" using len by (simp add: t_def)
    have "body = be_put16 (be16At body 0) @ be_put16 (be16At body 2) @ drop 4 body"
      using put_be16At [of 0 body] put_be16At [of 2 body] len by (simp add: numeral_eq_Suc)
    then have "body = tlvBytes t @ drop (4 + ?n) body"
      using append_take_drop_id [of ?n "drop 4 body"] lt
      by (simp add: tlvBytes_def appendTLVBytes_def) (simp add: t_def add.commute)
    moreover have "?n < 65536" using unsigned_less [of "be16At body 2"] by simp
    ultimately show ?thesis using IH us lt by (simp add: encodeTLVs_def)
  qed
qed

subsection \<open>Parsing submit_sm\<close>

lemma cstr_step:
  assumes "drop off body = CString s @ R" "CHR 0x00 \<notin> set s" "length s \<le> mx"
  shows "readCStringMax body off mx = Inr (s, off + length s + 1)" "drop (off + length s + 1) body = R"
proof -
  show "readCStringMax body off mx = Inr (s, off + length s + 1)"
    using assms unfolding readCStringMax_iff by (auto simp: CString_def)
  have "drop (off + length s + 1) body = drop (length s + 1) (drop off body)" by (simp add: add.commute)
  then show "drop (off + length s + 1) body = R" by (simp add: assms(1) CString_def)
qed

lemma bytes_step:
  assumes "drop off body = bs @ R"
  shows "off + length bs \<le> length body \<or> bs = []" "\<forall>i < length bs. body ! (off + i) = bs ! i"
    "drop (off + length bs) body = R" "length body - off = length bs + length R"
proof -
  have l: "length body - off = length bs + length R" using arg_cong [OF assms, of length] by simp
  then show "length body - off = length bs + length R" "off + length bs \<le> length body \<or> bs = []"
    by (auto simp: length_0_conv [symmetric] simp del: length_0_conv)
  show "drop (off + length bs) body = R"
    using assms drop_drop [of "length bs" off body] by (simp add: add.commute)
  have "body ! (off + i) = drop off body ! i" if "i < length bs" for i
  proof -
    have "off + i < length body" using l that by simp
    then show ?thesis by simp
  qed
  then show "\<forall>i < length bs. body ! (off + i) = bs ! i" by (simp add: assms nth_append)
qed

lemma parse_frame:
  assumes "frameOK f" and "Pdu_Body pdu = frameBytes f"
  shows "ParseSubmitSM pdu =
     bindE (submitContent (Fr_ShortMessage f) (length (Fr_ShortMessage f)) (fst (Fr_Fixed f)) (Fr_TLVs f))
       (\<lambda>c. Inr (frameResult pdu f c))"
proof -
  obtain e p q where fx: "Fr_Fixed f = (e, p, q)" by (cases "Fr_Fixed f")
  obtain r rp d m where dl: "Fr_Delivery f = (r, rp, d, m)" by (cases "Fr_Delivery f")
  let ?B = "Pdu_Body pdu" and ?sm = "Fr_ShortMessage f"
  have ok: "cstrOK (Fr_ServiceType f) smppMaxServiceType" "cstrOK (Fr_Src f) SMPPMaxAddress"
    "cstrOK (Fr_Dst f) SMPPMaxAddress" "cstrOK (Fr_Schedule f) 16" "cstrOK (Fr_Validity f) 16"
    "length ?sm < 256" "\<forall>t \<in> set (Fr_TLVs f). length (Tlv_Value t) < 65536"
    using assms(1) by (simp_all add: frameOK_def)
  have d0: "drop 0 ?B = CString (Fr_ServiceType f) @ [fst (Fr_SrcTonNpi f), snd (Fr_SrcTonNpi f)]
       @ CString (Fr_Src f) @ [fst (Fr_DstTonNpi f), snd (Fr_DstTonNpi f)]
       @ CString (Fr_Dst f) @ [e, p, q] @ CString (Fr_Schedule f) @ CString (Fr_Validity f)
       @ [r, rp, d, m, of_nat (length ?sm)] @ ?sm @ encodeTLVs (Fr_TLVs f)"
    using assms(2) by (simp add: frameBytes_def fx dl)
  note s1 = cstr_step [OF d0 ok(1) [unfolded cstrOK_def, THEN conjunct1] ok(1) [unfolded cstrOK_def, THEN conjunct2]]
  define o1 where "o1 = 0 + length (Fr_ServiceType f) + 1"
  note s1 = s1 [folded o1_def]
  note t1 = bytes_step [OF s1(2)]
  note s2 = cstr_step [OF t1(3) ok(2) [unfolded cstrOK_def, THEN conjunct1] ok(2) [unfolded cstrOK_def, THEN conjunct2]]
  define o2 where "o2 = o1 + length [fst (Fr_SrcTonNpi f), snd (Fr_SrcTonNpi f)] + length (Fr_Src f) + 1"
  note s2 = s2 [folded o2_def]
  note t2 = bytes_step [OF s2(2)]
  note s3 = cstr_step [OF t2(3) ok(3) [unfolded cstrOK_def, THEN conjunct1] ok(3) [unfolded cstrOK_def, THEN conjunct2]]
  define o3 where "o3 = o2 + length [fst (Fr_DstTonNpi f), snd (Fr_DstTonNpi f)] + length (Fr_Dst f) + 1"
  note s3 = s3 [folded o3_def]
  note t3 = bytes_step [OF s3(2)]
  note s4 = cstr_step [OF t3(3) ok(4) [unfolded cstrOK_def, THEN conjunct1] ok(4) [unfolded cstrOK_def, THEN conjunct2]]
  define o4 where "o4 = o3 + length [e, p, q] + length (Fr_Schedule f) + 1"
  note s4 = s4 [folded o4_def]
  note s5 = cstr_step [OF s4(2) ok(5) [unfolded cstrOK_def, THEN conjunct1] ok(5) [unfolded cstrOK_def, THEN conjunct2]]
  define o5 where "o5 = o4 + length (Fr_Validity f) + 1"
  note s5 = s5 [folded o5_def]
  note t5 = bytes_step [OF s5(2)]
  note t6 = bytes_step [OF t5(3)]
  have sm: "unat (of_nat (length ?sm) :: byte) = length ?sm" using ok(6) by (simp add: unat_of_nat)
  have tlv: "ParseTLVsStrict (encodeTLVs (Fr_TLVs f)) = Inr (Fr_TLVs f)" using ok(7) by (rule parse_encodeTLVs)
  have nth: "?B ! o3 = e" "?B ! (o3 + 1) = p" "?B ! (o3 + 2) = q"
      "?B ! o5 = r" "?B ! (o5 + 1) = rp" "?B ! (o5 + 2) = d" "?B ! (o5 + 3) = m" "?B ! (o5 + 4) = of_nat (length ?sm)"
    using t3(2) [rule_format, of 0] t3(2) [rule_format, of 1] t3(2) [rule_format, of 2]
      t5(2) [rule_format, of 0] t5(2) [rule_format, of 1] t5(2) [rule_format, of 2]
      t5(2) [rule_format, of 3] t5(2) [rule_format, of 4] by simp_all
  have len: "\<not> length ?B < o1 + 2" "\<not> length ?B < o2 + 2" "\<not> length ?B < o3 + 3"
     "\<not> length ?B < o5 + 5" "\<not> length ?B \<le> o5 + 4" "\<not> length ?B < o5 + 5 + length ?sm"
    using t1(1) t2(1) t3(1) t5(1) t6(4) t5(4) by simp_all
  have raw: "take (length ?sm) (drop (o5 + 5) ?B) = ?sm"
    using t5(3) by (simp add: numeral_eq_Suc)
  have ofs: "o5 + 5 + length ?sm = length (frameBytes f) - length (encodeTLVs (Fr_TLVs f))"
    by (simp add: frameBytes_def fx dl o1_def o2_def o3_def o4_def o5_def CString_def)
  have R: "readCStringMax ?B (o1 + 2) SMPPMaxAddress = Inr (Fr_Src f, o2)"
      "readCStringMax ?B (o2 + 2) SMPPMaxAddress = Inr (Fr_Dst f, o3)"
      "readCStringMax ?B (o3 + 3) 16 = Inr (Fr_Schedule f, o4)"
      "drop (o5 + 5 + length ?sm) ?B = encodeTLVs (Fr_TLVs f)"
    using s2(1) s3(1) s4(1) t6(3) by (simp_all add: numeral_eq_Suc)
  have "ParseSubmitSM pdu = bindE (submitContent ?sm (length ?sm) e (Fr_TLVs f))
      (\<lambda>(udh, m', conc). Inr (frameResult pdu f (udh, m', conc)))"
    unfolding ParseSubmitSM_def Let_def
    by (simp only: s1(1) R s5(1) bindE_simps prod.case guardE_False [OF len(1)] guardE_False [OF len(2)]
        guardE_False [OF len(3)] guardE_False [OF len(4)] guardE_False [OF len(5)] guardE_False [OF len(6)]
        nth sm raw tlv ofs [symmetric] frameResult_def fx dl)
  moreover have "(\<lambda>(udh, m', conc). Inr (frameResult pdu f (udh, m', conc)) :: SmppError + SubmitSM)
      = (\<lambda>c. Inr (frameResult pdu f c))" by auto
  ultimately show ?thesis by (simp add: fx)
qed

lemma drop_cstr:
  assumes "readCStringMax body off mx = Inr (s, off')"
  shows "drop off body = CString s @ drop off' body" "cstrOK s mx"
proof -
  from assms obtain rest where r: "drop off body = bytes_of s @ 0 # rest" "off' = off + length s + 1"
      and ok: "cstrOK s mx"
    unfolding readCStringMax_iff cstrOK_def by blast
  show "cstrOK s mx" by (rule ok)
  have "drop off' body = drop (length s + 1) (drop off body)" by (simp add: r(2) add.commute)
  then show "drop off body = CString s @ drop off' body" by (simp add: r(1) CString_def)
qed

lemma drop_bytes:
  "off + 2 \<le> length body \<Longrightarrow> drop off body = [body ! off, body ! (off + 1)] @ drop (off + 2) body"
  "off + 3 \<le> length body \<Longrightarrow>
     drop off body = [body ! off, body ! (off + 1), body ! (off + 2)] @ drop (off + 3) body"
  "off + 5 \<le> length body \<Longrightarrow>
     drop off body = [body ! off, body ! (off + 1), body ! (off + 2), body ! (off + 3)] @ [body ! (off + 4)]
       @ drop (off + 5) body"
  by (simp_all add: Cons_nth_drop_Suc numeral_eq_Suc)

lemma parse_submit_frame:
  assumes "ParseSubmitSM pdu = Inr sub"
  obtains f c where "frameOK f" "Pdu_Body pdu = frameBytes f"
    "submitContent (Fr_ShortMessage f) (length (Fr_ShortMessage f)) (fst (Fr_Fixed f)) (Fr_TLVs f) = Inr c"
    "sub = frameResult pdu f c"
proof -
  let ?B = "Pdu_Body pdu"
  from assms obtain svc o1 from' o2 to' o3 sch o4 val o5 tlvs where
    r: "readCStringMax ?B 0 smppMaxServiceType = Inr (svc, o1)"
       "readCStringMax ?B (o1 + 2) SMPPMaxAddress = Inr (from', o2)"
       "readCStringMax ?B (o2 + 2) SMPPMaxAddress = Inr (to', o3)"
       "readCStringMax ?B (o3 + 3) 16 = Inr (sch, o4)"
       "readCStringMax ?B o4 16 = Inr (val, o5)"
    and l: "o1 + 2 \<le> length ?B" "o2 + 2 \<le> length ?B" "o3 + 3 \<le> length ?B" "o5 + 5 \<le> length ?B"
       "o5 + 5 + unat (?B ! (o5 + 4)) \<le> length ?B"
    and t: "ParseTLVsStrict (drop (o5 + 5 + unat (?B ! (o5 + 4))) ?B) = Inr tlvs"
    unfolding ParseSubmitSM_def Let_def
    by (auto simp: bindE_Inr_iff not_less not_le split: prod.splits)
  define n where "n = unat (?B ! (o5 + 4))"
  define f where "f = \<lparr>Fr_ServiceType = svc, Fr_SrcTonNpi = (?B ! o1, ?B ! (o1 + 1)), Fr_Src = from',
    Fr_DstTonNpi = (?B ! o2, ?B ! (o2 + 1)), Fr_Dst = to',
    Fr_Fixed = (?B ! o3, ?B ! (o3 + 1), ?B ! (o3 + 2)), Fr_Schedule = sch, Fr_Validity = val,
    Fr_Delivery = (?B ! o5, ?B ! (o5 + 1), ?B ! (o5 + 2), ?B ! (o5 + 3)),
    Fr_ShortMessage = take n (drop (o5 + 5) ?B), Fr_TLVs = tlvs\<rparr>"
  have n: "n < 256" "of_nat n = ?B ! (o5 + 4)" using unsigned_less [of "?B ! (o5 + 4)"] by (simp_all add: n_def)
  have len: "length (Fr_ShortMessage f) = n" using l(5) by (simp add: f_def n_def)
  have tl: "drop (o5 + 5 + n) ?B = encodeTLVs tlvs" "\<forall>t \<in> set tlvs. length (Tlv_Value t) < 65536"
    using parse_TLVs_D [OF t] by (simp_all add: n_def)
  have ok: "frameOK f"
    using r [THEN drop_cstr(2)] n(1) len tl(2) by (simp add: frameOK_def f_def)
  have tail: "drop (o5 + 5) ?B = take n (drop (o5 + 5) ?B) @ encodeTLVs tlvs"
    using append_take_drop_id [of n "drop (o5 + 5) ?B"] tl(1) by (simp add: add.commute)
  have "?B = drop 0 ?B" by simp
  also have "\<dots> = CString svc @ [?B ! o1, ?B ! (o1 + 1)] @ CString from' @ [?B ! o2, ?B ! (o2 + 1)]
      @ CString to' @ [?B ! o3, ?B ! (o3 + 1), ?B ! (o3 + 2)] @ CString sch @ CString val
      @ [?B ! o5, ?B ! (o5 + 1), ?B ! (o5 + 2), ?B ! (o5 + 3)] @ [?B ! (o5 + 4)] @ drop (o5 + 5) ?B"
    by (simp only: drop_cstr(1) [OF r(1)] drop_bytes(1) [OF l(1)] drop_cstr(1) [OF r(2)]
      drop_bytes(1) [OF l(2)] drop_cstr(1) [OF r(3)] drop_bytes(2) [OF l(3)] drop_cstr(1) [OF r(4)]
      drop_cstr(1) [OF r(5)] drop_bytes(3) [OF l(4)])
  also have "\<dots> = frameBytes f"
    using tail len n(2) by (simp add: frameBytes_def) (simp add: f_def)
  finally have B: "?B = frameBytes f" .
  show thesis
    using assms parse_frame [OF ok B] that [OF ok B] by (auto simp: bindE_Inr_iff)
qed

lemma newConcatInfo_valid: "newConcatInfo r t p = Some c \<Longrightarrow> validConcatPart (Cc_Total c) (Cc_Part c)"
  by (auto simp: newConcatInfo_def split: if_splits)

lemma findConcatIE_valid: "findConcatIE ies = Some c \<Longrightarrow> validConcatPart (Cc_Total c) (Cc_Part c)"
proof (induction ies rule: findConcatIE.induct)
  case (1 ies)
  then show ?case
    unfolding findConcatIE.simps [of ies]
    by (auto simp: Let_def split: if_splits dest: newConcatInfo_valid)
qed

lemma ParseConcat_valid: "ParseConcat udh = Some c \<Longrightarrow> validConcatPart (Cc_Total c) (Cc_Part c)"
  by (auto simp: ParseConcat_def Let_def split: if_splits dest: findConcatIE_valid)

lemma ParseSAR_valid: "ParseSAR tlvs = Some c \<Longrightarrow> validConcatPart (Cc_Total c) (Cc_Part c)"
  by (auto simp: ParseSAR_def split: option.splits if_splits dest: newConcatInfo_valid)

lemma SplitUDH_D:
  assumes "SplitUDH raw e = Inr (udh, sm)"
  shows "udh @ sm = raw" "udh \<noteq> [] \<longleftrightarrow> e AND 0x40 \<noteq> 0" "udh \<noteq> [] \<Longrightarrow> length udh = unat (hd udh) + 1"
  using assms by (auto simp: SplitUDH_def Let_def hd_conv_nth split: if_splits option.splits)

lemma submitContent_D:
  assumes "submitContent raw n e tlvs = Inr (udh, sm, cc)"
  shows "udh @ sm = (case FindTLV tlvs TagMessagePayload of Some p \<Rightarrow> p | None \<Rightarrow> raw)"
    "udh \<noteq> [] \<longleftrightarrow> e AND 0x40 \<noteq> 0" "udh \<noteq> [] \<Longrightarrow> length udh = unat (hd udh) + 1"
    "HasSAR tlvs \<Longrightarrow> udh = [] \<and> cc \<noteq> None" "cc = Some c \<Longrightarrow> validConcatPart (Cc_Total c) (Cc_Part c)"
  using assms
  by (auto simp: submitContent_def bindE_Inr_iff submitConcat_def
      split: option.splits if_splits dest: SplitUDH_D ParseConcat_valid ParseSAR_valid)

lemma drop_frame:
  "drop (length (frameBytes f) - length (encodeTLVs (Fr_TLVs f))) (frameBytes f) = encodeTLVs (Fr_TLVs f)"
proof -
  have "suffix (encodeTLVs (Fr_TLVs f)) (frameBytes f)"
    by (simp add: frameBytes_def suffix_appendI suffix_ConsI)
  then show ?thesis by (auto simp: suffix_def)
qed

lemma Split_UDH:
  assumes "1 < length (Split ref t force)" "i < length (Split ref t force)"
  shows "Seg_UDH (Split ref t force ! i) = concatUDH ref (int i + 1) (int (length (Split ref t force)))"
  using assms by (cases rule: Split_cases [of t force ref]) (simp_all add: nth_enumerate_eq)

definition exampleFrame :: SubmitFrame where
  "exampleFrame = \<lparr>Fr_ServiceType = [], Fr_SrcTonNpi = (5, 0), Fr_Src = ''INFO'', Fr_DstTonNpi = (1, 1),
     Fr_Dst = ''8613800138000'', Fr_Fixed = (0x40, 0, 0), Fr_Schedule = [], Fr_Validity = [],
     Fr_Delivery = (1, 0, 8, 0), Fr_ShortMessage = [5, 0, 3, 7, 2, 1, 0, 0x48],
     Fr_TLVs = [\<lparr>Tlv_Tag = TagDestPort, Tlv_Value = [0x0B, 0x84]\<rparr>]\<rparr>"

definition examplePdu :: PDU where
  "examplePdu = \<lparr>Pdu_Length = 0, Pdu_CommandID = commandSubmitSM, Pdu_Status = 0, Pdu_SequenceID = 9,
     Pdu_Body = frameBytes exampleFrame\<rparr>"

lemma example_submit:
  "ParseSubmitSM examplePdu = Inr (frameResult examplePdu exampleFrame
     ([5, 0, 3, 7, 2, 1], [0, 0x48], Some \<lparr>Cc_Reference = 7, Cc_Total = 2, Cc_Part = 1\<rparr>))"
proof -
  have ok: "frameOK exampleFrame"
    by (simp add: frameOK_def exampleFrame_def cstrOK_def smpp_max_defs)
  have c: "submitContent (Fr_ShortMessage exampleFrame) (length (Fr_ShortMessage exampleFrame))
      (fst (Fr_Fixed exampleFrame)) (Fr_TLVs exampleFrame)
    = Inr ([5, 0, 3, 7, 2, 1], [0, 0x48], Some \<lparr>Cc_Reference = 7, Cc_Total = 2, Cc_Part = 1\<rparr>)"
    by (simp add: exampleFrame_def submitContent_def SplitUDH_def submitConcat_def ParseConcat_def
        checkIEs.simps [of "_ # _"] checkIEs.simps [of "[]"] findConcatIE.simps [of "_ # _"] newConcatInfo_def
        validConcatPart_def hasDuplicateSARTag_def isSARTag_def HasSAR_def tag_defs Let_def)
  show ?thesis using parse_frame [OF ok, of examplePdu] by (simp add: examplePdu_def c)
qed

subsection \<open>Properties\<close>

text \<open>
  C19: \<open>ReadPDU\<close> accepts exactly the streams that begin with a PDU as \<open>WritePDU\<close> writes it, with
  a body within the limit and the length field of that body, and leaves the rest of the stream.
\<close>

theorem pdu_framing:
  "ReadPDU s = (Inr p, rest) \<longleftrightarrow>
     s = WritePDU p @ rest \<and> length (Pdu_Body p) \<le> 1048560
     \<and> Pdu_Length p = of_nat (16 + length (Pdu_Body p))"
  using read_PDU_D [of s p rest] read_WritePDU [of p rest] by auto

text \<open>
  \<open>ParseTLVsStrict\<close> accepts exactly the encodings of lists of optional parameters whose values
  fit the 16-bit length, and returns that list.
\<close>

lemma tlv_roundtrip:
  "ParseTLVsStrict body = Inr ts \<longleftrightarrow>
     body = encodeTLVs ts \<and> (\<forall>t \<in> set ts. length (Tlv_Value t) < 65536)"
  using parse_TLVs_D parse_encodeTLVs by blast


text \<open>
  What an accepted submit_sm guarantees to the gateway: bounded addresses without NUL, the
  text decoded from the payload, valid part numbers, no mix of header and optional-parameter
  concatenation, and the optional parameters starting at the recorded offset.
\<close>

lemma submit_accepted_wellformed:
  assumes "ParseSubmitSM pdu = Inr sub"
  shows "cstrOK (Sub_From sub) SMPPMaxAddress \<and> cstrOK (Sub_To sub) SMPPMaxAddress
    \<and> Sub_Text sub = DecodeSubmitText (Sub_Payload sub) (Sub_DataCoding sub)
    \<and> (\<forall>c. Sub_Concat sub = Some c \<longrightarrow> validConcatPart (Cc_Total c) (Cc_Part c))
    \<and> (HasSAR (Sub_TLVs sub) \<longrightarrow> Sub_UDH sub = [] \<and> Sub_Concat sub \<noteq> None)
    \<and> (Sub_UDH sub \<noteq> [] \<longleftrightarrow> Sub_ESMClass sub AND 0x40 \<noteq> 0)
    \<and> drop (Sub_OptionalParamsOffset sub) (Pdu_Body pdu) = encodeTLVs (Sub_TLVs sub)"
proof -
  obtain f udh sm cc where f: "frameOK f" "Pdu_Body pdu = frameBytes f"
      "submitContent (Fr_ShortMessage f) (length (Fr_ShortMessage f)) (fst (Fr_Fixed f)) (Fr_TLVs f) = Inr (udh, sm, cc)"
      "sub = frameResult pdu f (udh, sm, cc)"
    using assms by (metis parse_submit_frame prod_cases3)
  show ?thesis
    using f(1) submitContent_D [OF f(3)] drop_frame [of f]
    by (cases "Fr_Fixed f"; cases "Fr_Delivery f") (auto simp: f(2,4) frameResult_def frameOK_def)
qed

text \<open>
  The user data header that \<open>Split\<close> gives a segment is read back by the gateway: it is cut
  off the user data, and its concatenation information has the part and the total of the segment
  and the low byte of the reference, for up to 255 segments.
\<close>

lemma split_udh_parses:
  assumes "s \<in> set (Split ref t force)" "1 < length (Split ref t force)" "length (Split ref t force) \<le> 255"
    "e AND 0x40 \<noteq> 0"
  shows "SplitUDH (Seg_UDH s @ payload) e = Inr (Seg_UDH s, payload)
    \<and> (\<exists>c. ParseConcat (Seg_UDH s) = Some c \<and> uint (Cc_Part c) = Seg_Part s \<and> uint (Cc_Total c) = Seg_Total s
          \<and> Cc_Reference c = ucast (ucast ref :: byte))"
proof -
  define n where "n = int (length (Split ref t force))"
  from assms(1,2) obtain i where i: "i < length (Split ref t force)" "Seg_Part s = int i + 1" "Seg_Total s = n"
      "Seg_UDH s = concatUDH ref (int i + 1) n"
    by (auto simp: in_set_conv_nth Split_nth Split_UDH n_def)
  define p where "p = int i + 1"
  have b: "0 < p" "p \<le> n" "n \<le> 255" using i(1) assms(3) by (simp_all add: p_def n_def)
  have u: "uint (of_int p :: byte) = p" "uint (of_int n :: byte) = n" using b by (simp_all add: uint_word_of_int)
  have v: "validConcatPart (of_int n) (of_int p)"
    using b u by (simp add: validConcatPart_def word_less_def word_le_def)
  have udh: "Seg_UDH s = [5, 0, 3, ucast ref, of_int n, of_int p]" by (simp add: i(4) concatUDH_def p_def)
  have c: "checkIEs [0, 3, ucast ref, of_int n, of_int p] = None"
    using v by (simp add: checkIEs.simps [of "0 # _"] checkIEs.simps [of "[]"] Let_def)
  have f: "findConcatIE [0, 3, ucast ref, of_int n, of_int p]
      = Some \<lparr>Cc_Reference = ucast (ucast ref :: byte), Cc_Total = of_int n, Cc_Part = of_int p\<rparr>"
    using v by (simp add: findConcatIE.simps [of "0 # _"] Let_def newConcatInfo_def)
  show ?thesis
    using c f u assms(4) i(2,3) by (simp add: udh SplitUDH_def ParseConcat_def Let_def p_def [symmetric])
qed

end
