(* ===== verification/Mem_Store.thy ===== *)
theory Mem_Store
  imports Sms_Text Go_Strconv "HOL-Library.Product_Lexorder" "HOL-Library.List_Lexorder"
    "HOL-Library.Char_ord"
begin

text \<open>
  The in-memory store (\<open>store/memory.go\<close>) and the gateway-id parser (\<open>store/id.go\<close>): messages,
  pending delivery receipts, the outbox queue, idempotency records, daily quotas and the gateway-id
  sequence.

  Every operation holds the store's lock from its first access to its last, so an operation is a
  function from the store to a result and the new store. The values of \<open>time.Now()\<close> are arguments,
  one for each call. \<open>cloneMessage\<close>, \<open>cloneOutbox\<close> and \<open>cloneMap\<close> are the identity on values and do
  not appear. Where the result depends on the iteration order of a map (a \<open>range\<close> loop that
  stops at a limit) the order is an argument \<open>it\<close>, a rearrangement of the entries.
\<close>

subsection \<open>Records\<close>

record Pending =
  Pd_ProviderID :: string
  Pd_GatewayID :: string
  Pd_TenantID :: string
  Pd_AccountID :: string
  Pd_ClientMsgID :: string
  Pd_SegmentIndex :: int
  Pd_SegmentCount :: int
  Pd_SourceKind :: string
  Pd_SourceSession :: string
  Pd_SourceSystem :: string
  Pd_CallbackURL :: string
  Pd_CallbackRule :: string
  Pd_From :: string
  Pd_To :: string
  Pd_Text :: string
  Pd_DataCoding :: byte
  Pd_RegisteredDelivery :: byte
  Pd_Provider :: string
  Pd_Route :: string
  Pd_ReceivedAt :: gotime
  Pd_ExpiresAt :: gotime
  Pd_DLRReady :: bool
  Pd_DLRDelivered :: bool
  Pd_DLRState :: string
  Pd_DLRErrorCode :: int
  Pd_DLRDoneAt :: gotime

record OutboxPayload =
  Op_GatewayID :: string
  Op_TenantID :: string
  Op_AccountID :: string
  Op_ClientMsgID :: string
  Op_Provider :: string
  Op_Route :: string
  Op_From :: string
  Op_To :: string
  Op_Text :: string
  Op_DataCoding :: byte
  Op_RegisteredDelivery :: byte
  Op_Encoding :: string
  Op_Meta :: "(string, string) gomap"
  Op_SourceKind :: string
  Op_SourceSession :: string
  Op_SourceSystem :: string
  Op_CallbackURL :: string
  Op_CallbackRule :: string
  Op_ReceivedAt :: gotime
  Op_UDH :: bytes
  Op_RawPayload :: bytes
  Op_RawPayloadSet :: bool
  Op_SARRefNum :: bytes
  Op_SARTotalSegments :: bytes
  Op_SARSegmentSeqnum :: bytes
  Op_SARSet :: bool

record OutboxItem =
  Ob_ID :: int
  Ob_GatewayID :: string
  Ob_Provider :: string
  Ob_Payload :: OutboxPayload
  Ob_State :: string
  Ob_ClaimedBy :: string
  Ob_ClaimedAt :: gotime
  Ob_NextRetryAt :: gotime
  Ob_Attempt :: int
  Ob_MaxAttempts :: int
  Ob_LastError :: string
  Ob_CreatedAt :: gotime

datatype StoreError =
    ErrNotFound | ErrQuotaExceeded
  | ErrNotClaimed | ErrNotSending | ErrNotOwned | ErrCannotFail | ErrCannotRetry
  | ErrNoPending | ErrEmptyProviderID | ErrPendingMismatch
  | ErrInvalidQuotaDebit | ErrInvalidQuotaDate

record IdempotencyOptions =
  Io_ClientID :: string
  Io_Key :: string
  Io_TTL :: duration

record DailyQuotaDebit =
  Dq_TenantID :: string
  Dq_Date :: string
  Dq_Segments :: int
  Dq_Limit :: int

record SubmitOptions =
  So_Idempotency :: IdempotencyOptions
  So_Quota :: "DailyQuotaDebit option"

record ListOptions =
  Lo_Limit :: int
  Lo_Offset :: int
  Lo_ClientID :: string

text \<open>The keys \<open>idempotencyKey\<close> and \<open>quotaKey\<close> are pairs.\<close>

record idempotencyRecord =
  Ir_gatewayID :: string
  Ir_expiresAt :: gotime

record MemoryStore =
  st_messages :: "Message list"
  st_messageByID :: "(string, nat) gomap"
  st_pending :: "(string, Pending) gomap"
  st_outbox :: "(int, OutboxItem) gomap"
  st_nextOutbox :: int
  st_idempotency :: "(string \<times> string, idempotencyRecord) gomap"
  st_quotaUsage :: "(string \<times> string, int) gomap"
  st_gatewaySeq :: "64 word"
  st_lastSweep :: gotime
  st_maxMessages :: int

definition NewMemory :: MemoryStore where
  "NewMemory = \<lparr>st_messages = [], st_messageByID = [], st_pending = [], st_outbox = [],
     st_nextOutbox = 0, st_idempotency = [], st_quotaUsage = [], st_gatewaySeq = 0,
     st_lastSweep = 0, st_maxMessages = 10000\<rparr>"

subsection \<open>Messages\<close>

definition trimMessagesLocked :: "MemoryStore \<Rightarrow> MemoryStore" where
  "trimMessagesLocked s =
     (if st_maxMessages s \<le> 0 \<or> int (length (st_messages s)) \<le> st_maxMessages s then s
      else let kept = drop (length (st_messages s) - nat (st_maxMessages s)) (st_messages s) in
        s\<lparr>st_messages := kept,
          st_messageByID := fold (\<lambda>(i, msg). AList.update (Msg_ID msg) i) (enumerate 0 kept) []\<rparr>)"

text \<open>The body of \<open>SaveMessage\<close>, which \<open>SubmitAtomic\<close> repeats.\<close>

definition putMessage :: "Message \<Rightarrow> MemoryStore \<Rightarrow> MemoryStore" where
  "putMessage msg s =
     (case map_of (st_messageByID s) (Msg_ID msg) of
        Some idx \<Rightarrow> s\<lparr>st_messages := (st_messages s)[idx := msg]\<rparr>
      | None \<Rightarrow> trimMessagesLocked
          (s\<lparr>st_messageByID := AList.update (Msg_ID msg) (length (st_messages s)) (st_messageByID s),
             st_messages := st_messages s @ [msg]\<rparr>))"

definition SaveMessage :: "Message \<Rightarrow> MemoryStore \<Rightarrow> MemoryStore" where
  "SaveMessage msg s = putMessage msg s"

definition GetMessage :: "string \<Rightarrow> MemoryStore \<Rightarrow> Message option" where
  "GetMessage gatewayID s =
     (case map_of (st_messageByID s) gatewayID of
        None \<Rightarrow> None
      | Some idx \<Rightarrow> Some (st_messages s ! idx))"

text \<open>The read-modify-write of one message that the update operations share.\<close>

definition updateMessage ::
  "string \<Rightarrow> (Message \<Rightarrow> Message) \<Rightarrow> MemoryStore \<Rightarrow> (StoreError + unit) \<times> MemoryStore" where
  "updateMessage gatewayID f s =
     (case map_of (st_messageByID s) gatewayID of
        None \<Rightarrow> (Inl ErrNotFound, s)
      | Some idx \<Rightarrow> (Inr (), s\<lparr>st_messages := (st_messages s)[idx := f (st_messages s ! idx)]\<rparr>))"

definition UpdateMessageSent ::
  "gotime \<Rightarrow> string \<Rightarrow> string \<Rightarrow> MemoryStore \<Rightarrow> (StoreError + unit) \<times> MemoryStore" where
  "UpdateMessageSent now gatewayID providerID s =
     updateMessage gatewayID
       (\<lambda>msg. msg\<lparr>Msg_ProviderID := providerID, Msg_State := ''sent'', Msg_SentAt := now\<rparr>) s"

definition UpdateMessageState ::
  "gotime \<Rightarrow> string \<Rightarrow> string \<Rightarrow> int \<Rightarrow> MemoryStore \<Rightarrow> (StoreError + unit) \<times> MemoryStore" where
  "UpdateMessageState now gatewayID state errCode s =
     updateMessage gatewayID
       (\<lambda>msg. msg\<lparr>Msg_State := state, Msg_ErrorCode := errCode, Msg_DoneAt := now\<rparr>) s"

text \<open>Reading a missing key of a Go map gives the empty string.\<close>

definition metaGet :: "(string, string) gomap \<Rightarrow> string \<Rightarrow> string" where
  "metaGet m k = (case map_of m k of Some v \<Rightarrow> v | None \<Rightarrow> [])"

definition ListMessagesPage :: "ListOptions \<Rightarrow> MemoryStore \<Rightarrow> Message list" where
  "ListMessagesPage opts s =
     (let messages = (if Lo_ClientID opts = [] then st_messages s
                      else filter (\<lambda>msg. metaGet (Msg_Metadata msg) ''client_id'' = Lo_ClientID opts)
                             (st_messages s));
          n = int (length messages);
          offset0 = (if Lo_Offset opts < 0 then 0 else Lo_Offset opts);
          offset = (if offset0 > n then n else offset0);
          limit = (if Lo_Limit opts \<le> 0 \<or> Lo_Limit opts > 1000 then 100 else Lo_Limit opts);
          last = (if offset + limit > n then n else offset + limit)
      in take (nat (last - offset)) (drop (nat offset) messages))"

definition ListMessages :: "MemoryStore \<Rightarrow> Message list" where
  "ListMessages s =
     ListMessagesPage \<lparr>Lo_Limit = int (length (st_messages s)), Lo_Offset = 0, Lo_ClientID = []\<rparr> s"

subsection \<open>Pending delivery receipts\<close>

definition pendingKey :: "string \<Rightarrow> string \<Rightarrow> string" where
  "pendingKey provider providerID = provider @ CHR 0x00 # providerID"

definition normalizePending :: "Pending \<Rightarrow> Pending" where
  "normalizePending p =
     (let p1 = (if Pd_SegmentIndex p \<le> 0 then p\<lparr>Pd_SegmentIndex := 1\<rparr> else p)
      in if Pd_SegmentCount p1 \<le> 0 then p1\<lparr>Pd_SegmentCount := 1\<rparr> else p1)"

definition pendingExpired :: "gotime \<Rightarrow> Pending \<Rightarrow> bool" where
  "pendingExpired now p \<longleftrightarrow> \<not> Pd_DLRReady p \<and> Pd_ExpiresAt p \<noteq> 0 \<and> Pd_ExpiresAt p < now"

definition sweepLocked :: "gotime \<Rightarrow> MemoryStore \<Rightarrow> MemoryStore" where
  "sweepLocked now s =
     s\<lparr>st_pending := filter (\<lambda>(k, p). \<not> pendingExpired now p) (st_pending s),
       st_idempotency := filter (\<lambda>(k, rec). \<not> (Ir_expiresAt rec \<noteq> 0 \<and> Ir_expiresAt rec < now))
                           (st_idempotency s),
       st_lastSweep := now\<rparr>"

definition putPending :: "Pending \<Rightarrow> MemoryStore \<Rightarrow> MemoryStore" where
  "putPending p s =
     s\<lparr>st_pending := AList.update (pendingKey (Pd_Provider p) (Pd_ProviderID p)) p (st_pending s)\<rparr>"

definition SavePending :: "gotime \<Rightarrow> Pending \<Rightarrow> MemoryStore \<Rightarrow> MemoryStore" where
  "SavePending now p s = putPending (normalizePending p) (sweepLocked now s)"

text \<open>The read-modify-write of one record that the receipt operations share.\<close>

definition updatePending ::
  "string \<Rightarrow> string \<Rightarrow> (Pending \<Rightarrow> Pending) \<Rightarrow> MemoryStore \<Rightarrow> (StoreError + unit) \<times> MemoryStore" where
  "updatePending provider providerID f s =
     (let key = pendingKey provider providerID in
      case map_of (st_pending s) key of
        None \<Rightarrow> (Inl ErrNotFound, s)
      | Some p \<Rightarrow> (Inr (), s\<lparr>st_pending := AList.update key (f p) (st_pending s)\<rparr>))"

definition UpdatePendingDLR ::
  "string \<Rightarrow> string \<Rightarrow> string \<Rightarrow> int \<Rightarrow> gotime \<Rightarrow> MemoryStore \<Rightarrow> (StoreError + unit) \<times> MemoryStore" where
  "UpdatePendingDLR provider providerID state errCode doneAt =
     updatePending provider providerID
       (\<lambda>p. p\<lparr>Pd_DLRDelivered := False, Pd_DLRState := state, Pd_DLRErrorCode := errCode,
              Pd_DLRDoneAt := doneAt\<rparr>)"

definition MarkDLRReady ::
  "string \<Rightarrow> string \<Rightarrow> string \<Rightarrow> int \<Rightarrow> gotime \<Rightarrow> MemoryStore \<Rightarrow> (StoreError + unit) \<times> MemoryStore" where
  "MarkDLRReady provider providerID state errCode doneAt =
     updatePending provider providerID
       (\<lambda>p. p\<lparr>Pd_DLRReady := True, Pd_DLRDelivered := False, Pd_DLRState := state,
              Pd_DLRErrorCode := errCode, Pd_DLRDoneAt := doneAt\<rparr>)"

definition MarkDLRDelivered ::
  "string \<Rightarrow> string \<Rightarrow> MemoryStore \<Rightarrow> (StoreError + unit) \<times> MemoryStore" where
  "MarkDLRDelivered provider providerID =
     updatePending provider providerID (\<lambda>p. p\<lparr>Pd_DLRReady := False, Pd_DLRDelivered := True\<rparr>)"

definition ListReadyDLR ::
  "((string, Pending) gomap \<Rightarrow> (string, Pending) gomap) \<Rightarrow> gotime \<Rightarrow> string \<Rightarrow> int
     \<Rightarrow> MemoryStore \<Rightarrow> Pending list \<times> MemoryStore" where
  "ListReadyDLR it now systemID limit s =
     (let limit' = (if limit \<le> 0 then 100 else limit); s1 = sweepLocked now s in
      (take (nat limit')
         (filter (\<lambda>p. Pd_DLRReady p \<and> (systemID = [] \<or> Pd_SourceSystem p = systemID))
            (map snd (it (st_pending s1)))), s1))"

definition GetPending ::
  "gotime \<Rightarrow> string \<Rightarrow> string \<Rightarrow> MemoryStore \<Rightarrow> Pending option \<times> MemoryStore" where
  "GetPending now provider providerID s =
     (let s1 = sweepLocked now s; key = pendingKey provider providerID in
      case map_of (st_pending s1) key of
        Some p \<Rightarrow> if pendingExpired now p
                  then (None, s1\<lparr>st_pending := AList.delete key (st_pending s1)\<rparr>) else (Some p, s1)
      | None \<Rightarrow> (None, s1))"

definition ListPendingByGatewayID ::
  "gotime \<Rightarrow> string \<Rightarrow> MemoryStore \<Rightarrow> Pending list \<times> MemoryStore" where
  "ListPendingByGatewayID now gatewayID s =
     (let s1 = sweepLocked now s in
      (sort_key (\<lambda>p. (Pd_SegmentIndex p, Pd_Provider p, Pd_ProviderID p))
         (filter (\<lambda>p. Pd_GatewayID p = gatewayID) (map snd (st_pending s1))), s1))"

definition DeletePending :: "string \<Rightarrow> string \<Rightarrow> MemoryStore \<Rightarrow> MemoryStore" where
  "DeletePending provider providerID s =
     s\<lparr>st_pending := AList.delete (pendingKey provider providerID) (st_pending s)\<rparr>"

definition DeletePendingByGatewayID :: "string \<Rightarrow> MemoryStore \<Rightarrow> MemoryStore" where
  "DeletePendingByGatewayID gatewayID s =
     s\<lparr>st_pending := filter (\<lambda>(k, p). Pd_GatewayID p \<noteq> gatewayID) (st_pending s)\<rparr>"

text \<open>Unlike \<open>sweepLocked\<close>, this sweep also takes records without an expiry time.\<close>

definition SweepExpiredPending :: "gotime \<Rightarrow> MemoryStore \<Rightarrow> int \<times> MemoryStore" where
  "SweepExpiredPending before s =
     (let gone = (\<lambda>(k, p). \<not> Pd_DLRReady p \<and> Pd_ExpiresAt p < before) in
      (int (length (filter gone (st_pending s))),
       s\<lparr>st_pending := filter (\<lambda>e. \<not> gone e) (st_pending s)\<rparr>))"

definition PendingSize :: "gotime \<Rightarrow> MemoryStore \<Rightarrow> int \<times> MemoryStore" where
  "PendingSize now s = (let s1 = sweepLocked now s in (int (length (st_pending s1)), s1))"

subsection \<open>Gateway identifiers\<close>

definition ReserveGatewayIDRange :: "64 word \<Rightarrow> MemoryStore \<Rightarrow> (64 word \<times> 64 word) \<times> MemoryStore" where
  "ReserveGatewayIDRange span s =
     (let n = (if span = 0 then 1 else span); start = st_gatewaySeq s + 1; seq = st_gatewaySeq s + n
      in ((start, seq), s\<lparr>st_gatewaySeq := seq\<rparr>))"

definition parseGatewaySeq :: "string \<Rightarrow> nat option" where
  "parseGatewaySeq ident =
     (if length ident < 2 then None
      else if ident ! 0 \<noteq> CHR ''g'' \<and> ident ! 0 \<noteq> CHR ''m'' then None
      else case ParseUint (drop 1 ident) (if ident ! 0 = CHR ''m'' then 36 else 10) of
             Inr n \<Rightarrow> Some n | Inl _ \<Rightarrow> None)"

subsection \<open>Outbox\<close>

definition outboxDefaults :: "gotime \<Rightarrow> gotime \<Rightarrow> OutboxItem \<Rightarrow> OutboxItem" where
  "outboxDefaults now now' item =
     (let i1 = (if Ob_State item = [] then item\<lparr>Ob_State := ''pending''\<rparr> else item);
          i2 = (if Ob_NextRetryAt i1 = 0 then i1\<lparr>Ob_NextRetryAt := now\<rparr> else i1);
          i3 = (if Ob_CreatedAt i2 = 0 then i2\<lparr>Ob_CreatedAt := now'\<rparr> else i2)
      in if Ob_MaxAttempts i3 \<le> 0 then i3\<lparr>Ob_MaxAttempts := 5\<rparr> else i3)"

definition EnqueueOutbox :: "gotime \<Rightarrow> gotime \<Rightarrow> OutboxItem \<Rightarrow> MemoryStore \<Rightarrow> int \<times> MemoryStore" where
  "EnqueueOutbox now now' item s =
     (let n = st_nextOutbox s + 1; item' = outboxDefaults now now' (item\<lparr>Ob_ID := n\<rparr>) in
      (n, s\<lparr>st_nextOutbox := n, st_outbox := AList.update n item' (st_outbox s)\<rparr>))"

definition claimItem :: "string \<Rightarrow> gotime \<Rightarrow> OutboxItem \<Rightarrow> OutboxItem" where
  "claimItem workerID now item =
     item\<lparr>Ob_State := ''claimed'', Ob_ClaimedBy := workerID, Ob_ClaimedAt := now,
          Ob_Attempt := Ob_Attempt item + 1\<rparr>"

definition claimCandidates :: "gotime \<Rightarrow> int \<Rightarrow> MemoryStore \<Rightarrow> OutboxItem list" where
  "claimCandidates now limit s =
     take (nat (if limit \<le> 0 then 1 else limit))
       (sort_key (\<lambda>item. (Ob_NextRetryAt item, Ob_ID item))
          (filter (\<lambda>item. Ob_State item = ''pending'' \<and> \<not> Ob_NextRetryAt item > now)
             (map snd (st_outbox s))))"

definition ClaimOutbox ::
  "gotime \<Rightarrow> string \<Rightarrow> int \<Rightarrow> MemoryStore \<Rightarrow> OutboxItem list \<times> MemoryStore" where
  "ClaimOutbox now workerID limit s =
     (let out = map (claimItem workerID now) (claimCandidates now limit s) in
      (out, s\<lparr>st_outbox := fold (\<lambda>item. AList.update (Ob_ID item) item) out (st_outbox s)\<rparr>))"

definition putOutbox :: "int \<Rightarrow> OutboxItem \<Rightarrow> MemoryStore \<Rightarrow> MemoryStore" where
  "putOutbox ident item s = s\<lparr>st_outbox := AList.update ident item (st_outbox s)\<rparr>"

definition MarkOutboxSending ::
  "int \<Rightarrow> string \<Rightarrow> MemoryStore \<Rightarrow> (StoreError + unit) \<times> MemoryStore" where
  "MarkOutboxSending ident workerID s =
     (case map_of (st_outbox s) ident of
        None \<Rightarrow> (Inl ErrNotFound, s)
      | Some item \<Rightarrow>
          if Ob_State item = ''sending'' \<and> Ob_ClaimedBy item = workerID then (Inr (), s)
          else if Ob_State item \<noteq> ''claimed'' \<or> Ob_ClaimedBy item \<noteq> workerID then (Inl ErrNotClaimed, s)
          else (Inr (), putOutbox ident (item\<lparr>Ob_State := ''sending''\<rparr>) s))"

definition scrubOutboxPayload :: "OutboxPayload \<Rightarrow> OutboxPayload" where
  "scrubOutboxPayload payload =
     payload\<lparr>Op_UDH := [], Op_RawPayload := [], Op_RawPayloadSet := False, Op_SARRefNum := [],
             Op_SARTotalSegments := [], Op_SARSegmentSeqnum := [], Op_SARSet := False\<rparr>"

fun validatePendings :: "OutboxItem \<Rightarrow> Pending list \<Rightarrow> StoreError + Pending list" where
  "validatePendings item [] = Inr []"
| "validatePendings item (rec # recs) =
     (let rec' = normalizePending rec in
      if Pd_ProviderID rec' = [] then Inl ErrEmptyProviderID
      else if Pd_GatewayID rec' \<noteq> Ob_GatewayID item \<or> Pd_Provider rec' \<noteq> Ob_Provider item
      then Inl ErrPendingMismatch
      else bindE (validatePendings item recs) (\<lambda>out. Inr (rec' # out)))"

definition validateOutboxCompletion :: "OutboxItem \<Rightarrow> Pending list \<Rightarrow> StoreError + Pending list" where
  "validateOutboxCompletion item pending =
     (if pending = [] then Inl ErrNoPending else validatePendings item pending)"

definition CompleteOutboxSend ::
  "gotime \<Rightarrow> int \<Rightarrow> string \<Rightarrow> Pending list \<Rightarrow> MemoryStore \<Rightarrow> (StoreError + unit) \<times> MemoryStore" where
  "CompleteOutboxSend now ident workerID pending s =
     (case map_of (st_outbox s) ident of
        None \<Rightarrow> (Inl ErrNotFound, s)
      | Some item \<Rightarrow>
          if Ob_State item = ''done'' then (Inr (), s)
          else if Ob_State item \<noteq> ''sending'' \<or> Ob_ClaimedBy item \<noteq> workerID
          then (Inl ErrNotSending, s)
          else case validateOutboxCompletion item pending of
                 Inl e \<Rightarrow> (Inl e, s)
               | Inr recs \<Rightarrow>
                   (case map_of (st_messageByID s) (Ob_GatewayID item) of
                      None \<Rightarrow> (Inl ErrNotFound, s)
                    | Some idx \<Rightarrow>
                        let msg = (st_messages s ! idx)
                              \<lparr>Msg_ProviderID := Pd_ProviderID (hd recs), Msg_State := ''sent'',
                               Msg_SentAt := now\<rparr>;
                            s1 = s\<lparr>st_messages := (st_messages s)[idx := msg]\<rparr>;
                            s2 = fold putPending recs s1;
                            item' = item\<lparr>Ob_State := ''done'',
                                         Ob_Payload := scrubOutboxPayload (Ob_Payload item)\<rparr>
                        in (Inr (), putOutbox ident item' s2)))"

definition MarkOutboxUncertain ::
  "gotime \<Rightarrow> int \<Rightarrow> string \<Rightarrow> string \<Rightarrow> MemoryStore \<Rightarrow> (StoreError + unit) \<times> MemoryStore" where
  "MarkOutboxUncertain now ident workerID errMsg s =
     (case map_of (st_outbox s) ident of
        None \<Rightarrow> (Inl ErrNotFound, s)
      | Some item \<Rightarrow>
          if Ob_State item \<noteq> ''sending'' \<and> Ob_State item \<noteq> ''uncertain'' then (Inl ErrNotSending, s)
          else if Ob_ClaimedBy item \<noteq> workerID then (Inl ErrNotOwned, s)
          else let s1 = putOutbox ident (item\<lparr>Ob_State := ''uncertain'', Ob_LastError := errMsg\<rparr>) s in
               (Inr (), snd (updateMessage (Ob_GatewayID item)
                  (\<lambda>msg. msg\<lparr>Msg_State := ''UNKNOWN'', Msg_ErrorCode := 1, Msg_DoneAt := now\<rparr>) s1)))"

definition staleItem :: "gotime \<Rightarrow> OutboxItem \<Rightarrow> bool" where
  "staleItem before item \<longleftrightarrow>
     \<not> (Ob_State item \<noteq> ''claimed'' \<or> Ob_ClaimedAt item = 0 \<or> \<not> Ob_ClaimedAt item < before)"

definition requeueItem :: "gotime \<Rightarrow> OutboxItem \<Rightarrow> OutboxItem" where
  "requeueItem before item =
     (let i1 = item\<lparr>Ob_State := ''pending'', Ob_ClaimedBy := [], Ob_ClaimedAt := 0\<rparr> in
      if Ob_NextRetryAt i1 = 0 \<or> Ob_NextRetryAt i1 > before then i1\<lparr>Ob_NextRetryAt := before\<rparr> else i1)"

definition RequeueStaleOutbox ::
  "((int, OutboxItem) gomap \<Rightarrow> (int, OutboxItem) gomap) \<Rightarrow> gotime \<Rightarrow> int
     \<Rightarrow> MemoryStore \<Rightarrow> int \<times> MemoryStore" where
  "RequeueStaleOutbox it before limit s =
     (let limit' = (if limit \<le> 0 then 1000 else limit);
          stale = take (nat limit') (filter (\<lambda>(ident, item). staleItem before item) (it (st_outbox s)))
      in (int (length stale),
          fold (\<lambda>(ident, item). putOutbox ident (requeueItem before item)) stale s))"

definition AckOutbox :: "int \<Rightarrow> MemoryStore \<Rightarrow> (StoreError + unit) \<times> MemoryStore" where
  "AckOutbox ident s =
     (case map_of (st_outbox s) ident of
        None \<Rightarrow> (Inl ErrNotFound, s)
      | Some item \<Rightarrow>
          if Ob_State item \<noteq> ''claimed'' then (Inl ErrNotClaimed, s)
          else (Inr (), putOutbox ident (item\<lparr>Ob_State := ''done'',
                  Ob_Payload := scrubOutboxPayload (Ob_Payload item)\<rparr>) s))"

definition FailOutbox ::
  "int \<Rightarrow> string \<Rightarrow> gotime \<Rightarrow> MemoryStore \<Rightarrow> (StoreError + unit) \<times> MemoryStore" where
  "FailOutbox ident errMsg nextRetryAt s =
     (case map_of (st_outbox s) ident of
        None \<Rightarrow> (Inl ErrNotFound, s)
      | Some item0 \<Rightarrow>
          let item = item0\<lparr>Ob_LastError := errMsg\<rparr> in
          if nextRetryAt = 0 \<or> Ob_Attempt item \<ge> Ob_MaxAttempts item
          then if Ob_State item \<noteq> ''claimed'' \<and> Ob_State item \<noteq> ''sending'' then (Inl ErrCannotFail, s)
               else (Inr (), putOutbox ident (item\<lparr>Ob_State := ''failed''\<rparr>) s)
          else if Ob_State item \<noteq> ''claimed'' then (Inl ErrCannotRetry, s)
               else (Inr (), putOutbox ident (item\<lparr>Ob_State := ''pending'',
                       Ob_NextRetryAt := nextRetryAt, Ob_ClaimedBy := [], Ob_ClaimedAt := 0\<rparr>) s))"

definition OutboxDepth :: "string \<Rightarrow> MemoryStore \<Rightarrow> int" where
  "OutboxDepth state s =
     int (length (filter (\<lambda>(k, item). state = [] \<or> Ob_State item = state) (st_outbox s)))"

subsection \<open>Idempotency, quotas and submission\<close>

definition CheckIdempotency ::
  "gotime \<Rightarrow> string \<Rightarrow> string \<Rightarrow> MemoryStore \<Rightarrow> string option \<times> MemoryStore" where
  "CheckIdempotency now clientID key s =
     (if clientID = [] \<or> key = [] then (None, s)
      else let s1 = sweepLocked now s in
        case map_of (st_idempotency s1) (clientID, key) of
          None \<Rightarrow> (None, s1)
        | Some rec \<Rightarrow>
            if Ir_expiresAt rec < now
            then (None, s1\<lparr>st_idempotency := AList.delete (clientID, key) (st_idempotency s1)\<rparr>)
            else (Some (Ir_gatewayID rec), s1))"

definition defaultTTL :: "duration \<Rightarrow> duration" where
  "defaultTTL ttl = (if ttl \<le> 0 then 24 * Hour else ttl)"

definition SaveIdempotency ::
  "gotime \<Rightarrow> gotime \<Rightarrow> string \<Rightarrow> string \<Rightarrow> string \<Rightarrow> duration \<Rightarrow> MemoryStore \<Rightarrow> MemoryStore" where
  "SaveIdempotency now now' clientID key gatewayID ttl s =
     (if clientID = [] \<or> key = [] then s
      else let s1 = sweepLocked now s in
        s1\<lparr>st_idempotency := AList.update (clientID, key)
             \<lparr>Ir_gatewayID = gatewayID, Ir_expiresAt = now' + defaultTTL ttl\<rparr> (st_idempotency s1)\<rparr>)"

definition isDigit :: "char \<Rightarrow> bool" where
  "isDigit c \<longleftrightarrow> (48 :: nat) \<le> of_char c \<and> (of_char c :: nat) \<le> 57"

definition decVal :: "string \<Rightarrow> int" where
  "decVal s = foldl (\<lambda>a c. 10 * a + (of_char c - 48)) 0 s"

text \<open>What \<open>time.Parse(time.DateOnly, date)\<close> accepts: four, two and two digits that form a date.\<close>

definition validDateOnly :: "string \<Rightarrow> bool" where
  "validDateOnly d \<longleftrightarrow>
     length d = 10 \<and> d ! 4 = CHR ''-'' \<and> d ! 7 = CHR ''-''
     \<and> list_all isDigit (take 4 d @ take 2 (drop 5 d) @ drop 8 d)
     \<and> (let y = decVal (take 4 d); m = decVal (take 2 (drop 5 d)); day = decVal (drop 8 d) in
        1 \<le> m \<and> m \<le> 12 \<and> 1 \<le> day \<and> day \<le> monthLengths y ! nat (m - 1))"

definition validateDailyQuotaDebit :: "DailyQuotaDebit \<Rightarrow> StoreError + unit" where
  "validateDailyQuotaDebit quota =
     (if Dq_TenantID quota = [] \<or> Dq_Segments quota \<le> 0 \<or> Dq_Limit quota \<le> 0
      then Inl ErrInvalidQuotaDebit
      else if \<not> validDateOnly (Dq_Date quota) then Inl ErrInvalidQuotaDate else Inr ())"

definition quotaGet :: "MemoryStore \<Rightarrow> string \<times> string \<Rightarrow> int" where
  "quotaGet s k = (case map_of (st_quotaUsage s) k of Some n \<Rightarrow> n | None \<Rightarrow> 0)"

text \<open>The quota step of \<open>SubmitAtomic\<close>: the error it returns, or the store after the debit.\<close>

definition debitQuota :: "DailyQuotaDebit option \<Rightarrow> MemoryStore \<Rightarrow> StoreError + MemoryStore" where
  "debitQuota quota s =
     (case quota of
        None \<Rightarrow> Inr s
      | Some q \<Rightarrow>
          if \<not> Dq_Limit q > 0 then Inr s
          else bindE (validateDailyQuotaDebit q) (\<lambda>_.
            let k = (Dq_TenantID q, Dq_Date q) in
            if Dq_Segments q > Dq_Limit q \<or> quotaGet s k > Dq_Limit q - Dq_Segments q
            then Inl ErrQuotaExceeded
            else Inr (s\<lparr>st_quotaUsage := AList.update k (quotaGet s k + Dq_Segments q) (st_quotaUsage s)\<rparr>)))"

text \<open>The result is the outbox id, the gateway id and whether the submission was a duplicate.\<close>

definition SubmitAtomic ::
  "gotime \<Rightarrow> Message \<Rightarrow> OutboxItem \<Rightarrow> SubmitOptions \<Rightarrow> MemoryStore
     \<Rightarrow> (StoreError + int \<times> string \<times> bool) \<times> MemoryStore" where
  "SubmitAtomic now msg item opts s =
     (let clientID = Io_ClientID (So_Idempotency opts); key = Io_Key (So_Idempotency opts);
          ttl = defaultTTL (Io_TTL (So_Idempotency opts));
          keyed = (clientID \<noteq> [] \<and> key \<noteq> []);
          s1 = sweepLocked now s;
          live = (if keyed then
                    case map_of (st_idempotency s1) (clientID, key) of
                      Some rec \<Rightarrow> if Ir_expiresAt rec > now then Some rec else None
                    | None \<Rightarrow> None
                  else None)
      in case live of
           Some rec \<Rightarrow> (Inr (0, Ir_gatewayID rec, True), s1)
         | None \<Rightarrow>
             (case debitQuota (So_Quota opts) s1 of
                Inl e \<Rightarrow> (Inl e, s1)
              | Inr s2 \<Rightarrow>
                  let s3 = (if keyed
                            then s2\<lparr>st_idempotency := AList.update (clientID, key)
                                   \<lparr>Ir_gatewayID = Msg_ID msg, Ir_expiresAt = now + ttl\<rparr>
                                   (st_idempotency s2)\<rparr>
                            else s2);
                      s4 = putMessage msg s3;
                      (n, s5) = EnqueueOutbox now now item s4
                  in (Inr (n, Msg_ID msg, False), s5)))"

subsection \<open>The operations as a transition system\<close>

datatype StoreOp =
    OpSaveMessage Message
  | OpUpdateMessageSent gotime string string
  | OpUpdateMessageState gotime string string int
  | OpSavePending gotime Pending
  | OpUpdatePendingDLR string string string int gotime
  | OpMarkDLRReady string string string int gotime
  | OpMarkDLRDelivered string string
  | OpListReadyDLR "(string, Pending) gomap \<Rightarrow> (string, Pending) gomap" gotime string int
  | OpGetPending gotime string string
  | OpListPendingByGatewayID gotime string
  | OpDeletePending string string
  | OpDeletePendingByGatewayID string
  | OpSweepExpiredPending gotime
  | OpPendingSize gotime
  | OpReserveGatewayIDRange "64 word"
  | OpEnqueueOutbox gotime gotime OutboxItem
  | OpClaimOutbox gotime string int
  | OpMarkOutboxSending int string
  | OpCompleteOutboxSend gotime int string "Pending list"
  | OpMarkOutboxUncertain gotime int string string
  | OpRequeueStaleOutbox "(int, OutboxItem) gomap \<Rightarrow> (int, OutboxItem) gomap" gotime int
  | OpAckOutbox int
  | OpFailOutbox int string gotime
  | OpCheckIdempotency gotime string string
  | OpSaveIdempotency gotime gotime string string string duration
  | OpSubmitAtomic gotime Message OutboxItem SubmitOptions

fun storeStep :: "StoreOp \<Rightarrow> MemoryStore \<Rightarrow> MemoryStore" where
  "storeStep (OpSaveMessage msg) s = SaveMessage msg s"
| "storeStep (OpUpdateMessageSent now g p) s = snd (UpdateMessageSent now g p s)"
| "storeStep (OpUpdateMessageState now g st e) s = snd (UpdateMessageState now g st e s)"
| "storeStep (OpSavePending now p) s = SavePending now p s"
| "storeStep (OpUpdatePendingDLR pr pid st e d) s = snd (UpdatePendingDLR pr pid st e d s)"
| "storeStep (OpMarkDLRReady pr pid st e d) s = snd (MarkDLRReady pr pid st e d s)"
| "storeStep (OpMarkDLRDelivered pr pid) s = snd (MarkDLRDelivered pr pid s)"
| "storeStep (OpListReadyDLR it now sys l) s = snd (ListReadyDLR it now sys l s)"
| "storeStep (OpGetPending now pr pid) s = snd (GetPending now pr pid s)"
| "storeStep (OpListPendingByGatewayID now g) s = snd (ListPendingByGatewayID now g s)"
| "storeStep (OpDeletePending pr pid) s = DeletePending pr pid s"
| "storeStep (OpDeletePendingByGatewayID g) s = DeletePendingByGatewayID g s"
| "storeStep (OpSweepExpiredPending b) s = snd (SweepExpiredPending b s)"
| "storeStep (OpPendingSize now) s = snd (PendingSize now s)"
| "storeStep (OpReserveGatewayIDRange n) s = snd (ReserveGatewayIDRange n s)"
| "storeStep (OpEnqueueOutbox now now' item) s = snd (EnqueueOutbox now now' item s)"
| "storeStep (OpClaimOutbox now w l) s = snd (ClaimOutbox now w l s)"
| "storeStep (OpMarkOutboxSending i w) s = snd (MarkOutboxSending i w s)"
| "storeStep (OpCompleteOutboxSend now i w ps) s = snd (CompleteOutboxSend now i w ps s)"
| "storeStep (OpMarkOutboxUncertain now i w e) s = snd (MarkOutboxUncertain now i w e s)"
| "storeStep (OpRequeueStaleOutbox it b l) s = snd (RequeueStaleOutbox it b l s)"
| "storeStep (OpAckOutbox i) s = snd (AckOutbox i s)"
| "storeStep (OpFailOutbox i e r) s = snd (FailOutbox i e r s)"
| "storeStep (OpCheckIdempotency now c k) s = snd (CheckIdempotency now c k s)"
| "storeStep (OpSaveIdempotency now now' c k g ttl) s = SaveIdempotency now now' c k g ttl s"
| "storeStep (OpSubmitAtomic now msg item opts) s = snd (SubmitAtomic now msg item opts s)"

text \<open>The iteration orders that an operation may use are the rearrangements of the entries.\<close>

fun orderOK :: "StoreOp \<Rightarrow> bool" where
  "orderOK (OpListReadyDLR it now sys l) \<longleftrightarrow> (\<forall>xs. mset (it xs) = mset xs)"
| "orderOK (OpRequeueStaleOutbox it b l) \<longleftrightarrow> (\<forall>xs. mset (it xs) = mset xs)"
| "orderOK _ \<longleftrightarrow> True"

inductive store_reach :: "MemoryStore \<Rightarrow> bool" where
  init: "store_reach NewMemory"
| step: "store_reach s \<Longrightarrow> orderOK opr \<Longrightarrow> store_reach (storeStep opr s)"

subsection \<open>The store invariant\<close>

definition messages_ok :: "Message list \<Rightarrow> (string, nat) gomap \<Rightarrow> bool" where
  "messages_ok msgs idx \<longleftrightarrow>
     (\<forall>ident i. map_of idx ident = Some i \<longleftrightarrow> i < length msgs \<and> Msg_ID (msgs ! i) = ident)"

definition pending_ok :: "(string, Pending) gomap \<Rightarrow> bool" where
  "pending_ok pd \<longleftrightarrow> distinct (map fst pd) \<and>
     (\<forall>k p. map_of pd k = Some p \<longrightarrow> k = pendingKey (Pd_Provider p) (Pd_ProviderID p)
        \<and> 1 \<le> Pd_SegmentIndex p \<and> 1 \<le> Pd_SegmentCount p)"

definition outbox_ok :: "(int, OutboxItem) gomap \<Rightarrow> int \<Rightarrow> bool" where
  "outbox_ok ob n \<longleftrightarrow> distinct (map fst ob) \<and>
     (\<forall>k item. map_of ob k = Some item \<longrightarrow> Ob_ID item = k \<and> 0 < k \<and> k \<le> n)"

definition store_inv :: "MemoryStore \<Rightarrow> bool" where
  "store_inv s \<longleftrightarrow> messages_ok (st_messages s) (st_messageByID s)
     \<and> 0 < st_maxMessages s \<and> int (length (st_messages s)) \<le> st_maxMessages s
     \<and> pending_ok (st_pending s) \<and> outbox_ok (st_outbox s) (st_nextOutbox s)
     \<and> distinct (map fst (st_idempotency s)) \<and> distinct (map fst (st_quotaUsage s))
     \<and> 0 \<le> st_nextOutbox s"

lemma messages_ok_distinct: "messages_ok msgs idx \<Longrightarrow> distinct (map Msg_ID msgs)"
  unfolding messages_ok_def distinct_conv_nth
  by (metis length_map nth_map option.inject)

lemma messages_ok_lookup:
  "messages_ok msgs idx \<Longrightarrow> map_of idx ident = Some i \<Longrightarrow> i < length msgs \<and> Msg_ID (msgs ! i) = ident"
  by (simp add: messages_ok_def)

lemma messages_ok_update:
  assumes "messages_ok msgs idx" "map_of idx (Msg_ID m) = Some i"
  shows "messages_ok (msgs[i := m]) idx"
  using assms unfolding messages_ok_def
  by (auto simp: nth_list_update)

lemma messages_ok_append:
  assumes "messages_ok msgs idx" "map_of idx (Msg_ID m) = None"
  shows "messages_ok (msgs @ [m]) (AList.update (Msg_ID m) (length msgs) idx)"
  unfolding messages_ok_def
proof (intro allI)
  fix ident i
  have "ident \<noteq> Msg_ID m" if "i < length msgs" "Msg_ID (msgs ! i) = ident"
    using that assms unfolding messages_ok_def by (metis option.distinct(1))
  then show "map_of (AList.update (Msg_ID m) (length msgs) idx) ident = Some i \<longleftrightarrow>
      i < length (msgs @ [m]) \<and> Msg_ID ((msgs @ [m]) ! i) = ident"
    using assms(1) by (auto simp: messages_ok_def nth_append less_Suc_eq)
qed

abbreviation reindex :: "nat \<Rightarrow> Message list \<Rightarrow> (string, nat) gomap \<Rightarrow> (string, nat) gomap" where
  "reindex n msgs al \<equiv> fold (\<lambda>(i, msg). AList.update (Msg_ID msg) i) (enumerate n msgs) al"

lemma reindex_other: "ident \<notin> Msg_ID ` set msgs \<Longrightarrow> map_of (reindex n msgs al) ident = map_of al ident"
  by (induction msgs arbitrary: n al) auto

lemma reindex_nth:
  "distinct (map Msg_ID msgs) \<Longrightarrow> j < length msgs \<Longrightarrow> map_of (reindex n msgs al) (Msg_ID (msgs ! j)) = Some (n + j)"
proof (induction msgs arbitrary: n al j)
  case (Cons m ms)
  then show ?case by (cases j) (auto simp: reindex_other)
qed simp

lemma messages_ok_reindex:
  assumes "distinct (map Msg_ID msgs)"
  shows "messages_ok msgs (reindex 0 msgs [])"
  unfolding messages_ok_def
proof (intro allI iffI)
  fix ident i assume i: "map_of (reindex 0 msgs []) ident = Some i"
  then have "ident \<in> Msg_ID ` set msgs" using reindex_other [of ident msgs 0 "[]"] by force
  then obtain j where j: "j < length msgs" "ident = Msg_ID (msgs ! j)" by (auto simp: in_set_conv_nth)
  with i reindex_nth [OF assms, of j 0 "[]"] show "i < length msgs \<and> Msg_ID (msgs ! i) = ident" by simp
next
  fix ident i assume "i < length msgs \<and> Msg_ID (msgs ! i) = ident"
  then show "map_of (reindex 0 msgs []) ident = Some i" using reindex_nth [OF assms, of i 0 "[]"] by auto
qed

lemma trim_ok:
  assumes "messages_ok (st_messages s) (st_messageByID s)"
  shows "messages_ok (st_messages (trimMessagesLocked s)) (st_messageByID (trimMessagesLocked s))"
proof -
  have "distinct (map Msg_ID (drop n (st_messages s)))" for n
    using messages_ok_distinct [OF assms] by (simp add: drop_map [symmetric])
  with assms show ?thesis
    using messages_ok_reindex [of "drop (length (st_messages s) - nat (st_maxMessages s)) (st_messages s)"]
    by (simp add: trimMessagesLocked_def Let_def)
qed

lemma trim_size:
  "0 < st_maxMessages s \<Longrightarrow> int (length (st_messages (trimMessagesLocked s))) \<le> st_maxMessages s"
  by (auto simp: trimMessagesLocked_def Let_def)

lemma trim_frame [simp]:
  "st_pending (trimMessagesLocked s) = st_pending s" "st_outbox (trimMessagesLocked s) = st_outbox s"
  "st_nextOutbox (trimMessagesLocked s) = st_nextOutbox s"
  "st_idempotency (trimMessagesLocked s) = st_idempotency s"
  "st_quotaUsage (trimMessagesLocked s) = st_quotaUsage s" "st_gatewaySeq (trimMessagesLocked s) = st_gatewaySeq s"
  "st_maxMessages (trimMessagesLocked s) = st_maxMessages s"
  by (simp_all add: trimMessagesLocked_def Let_def)

lemma putMessage_frame [simp]:
  "st_pending (putMessage m s) = st_pending s" "st_outbox (putMessage m s) = st_outbox s"
  "st_nextOutbox (putMessage m s) = st_nextOutbox s" "st_idempotency (putMessage m s) = st_idempotency s"
  "st_quotaUsage (putMessage m s) = st_quotaUsage s" "st_gatewaySeq (putMessage m s) = st_gatewaySeq s"
  "st_maxMessages (putMessage m s) = st_maxMessages s"
  by (simp_all add: putMessage_def split: option.splits)

lemma store_inv_putMessage: "store_inv s \<Longrightarrow> store_inv (putMessage m s)"
proof -
  assume s: "store_inv s"
  show ?thesis
  proof (cases "map_of (st_messageByID s) (Msg_ID m)")
    case (Some i)
    with s show ?thesis by (simp add: store_inv_def putMessage_def messages_ok_update)
  next
    case None
    let ?s = "s\<lparr>st_messageByID := AList.update (Msg_ID m) (length (st_messages s)) (st_messageByID s),
             st_messages := st_messages s @ [m]\<rparr>"
    have "messages_ok (st_messages ?s) (st_messageByID ?s)"
      using s None messages_ok_append by (simp add: store_inv_def)
    from trim_ok [OF this] s None trim_size [of ?s] show ?thesis
      by (auto simp: store_inv_def putMessage_def)
  qed
qed

lemma store_inv_updateMessage:
  assumes "store_inv s" "\<And>m. Msg_ID (f m) = Msg_ID m"
  shows "store_inv (snd (updateMessage ident f s))"
proof (cases "map_of (st_messageByID s) ident")
  case None
  with assms show ?thesis by (simp add: updateMessage_def)
next
  case (Some i)
  with assms have "i < length (st_messages s)" "Msg_ID (st_messages s ! i) = ident"
    by (auto simp: store_inv_def dest: messages_ok_lookup)
  with Some assms messages_ok_update [of "st_messages s" "st_messageByID s" "f (st_messages s ! i)" i] show ?thesis
    by (simp add: updateMessage_def store_inv_def)
qed

lemma pending_ok_update:
  "pending_ok pd \<Longrightarrow> k = pendingKey (Pd_Provider p) (Pd_ProviderID p) \<Longrightarrow> 1 \<le> Pd_SegmentIndex p
     \<Longrightarrow> 1 \<le> Pd_SegmentCount p \<Longrightarrow> pending_ok (AList.update k p pd)"
  by (auto simp: pending_ok_def split: if_splits)

lemma pending_ok_filter: "pending_ok pd \<Longrightarrow> pending_ok (filter (\<lambda>(k, p). P p) pd)"
  by (auto simp: pending_ok_def map_of_filter_Some distinct_fst_filter)

lemma pending_ok_delete: "pending_ok pd \<Longrightarrow> pending_ok (AList.delete k pd)"
  by (auto simp: pending_ok_def split: if_splits)

lemma outbox_ok_update:
  "outbox_ok ob n \<Longrightarrow> Ob_ID item = k \<Longrightarrow> 0 < k \<Longrightarrow> k \<le> n \<Longrightarrow> outbox_ok (AList.update k item ob) n"
  by (auto simp: outbox_ok_def split: if_splits)

lemma outbox_ok_mono: "outbox_ok ob n \<Longrightarrow> n \<le> m \<Longrightarrow> outbox_ok ob m"
  by (fastforce simp: outbox_ok_def)

lemma normalizePending_ok [simp]:
  "1 \<le> Pd_SegmentIndex (normalizePending p)" "1 \<le> Pd_SegmentCount (normalizePending p)"
  "Pd_Provider (normalizePending p) = Pd_Provider p" "Pd_ProviderID (normalizePending p) = Pd_ProviderID p"
  "Pd_GatewayID (normalizePending p) = Pd_GatewayID p"
  by (simp_all add: normalizePending_def Let_def)

lemma store_inv_sweep: "store_inv s \<Longrightarrow> store_inv (sweepLocked now s)"
  by (simp add: store_inv_def sweepLocked_def pending_ok_filter distinct_fst_filter)

lemma store_inv_putPending:
  "store_inv s \<Longrightarrow> 1 \<le> Pd_SegmentIndex p \<Longrightarrow> 1 \<le> Pd_SegmentCount p \<Longrightarrow> store_inv (putPending p s)"
  by (simp add: store_inv_def putPending_def pending_ok_update)

lemma store_inv_updatePending:
  assumes "store_inv s"
    "\<And>p. Pd_Provider (f p) = Pd_Provider p \<and> Pd_ProviderID (f p) = Pd_ProviderID p
       \<and> Pd_SegmentIndex (f p) = Pd_SegmentIndex p \<and> Pd_SegmentCount (f p) = Pd_SegmentCount p"
  shows "store_inv (snd (updatePending pr pid f s))"
proof (cases "map_of (st_pending s) (pendingKey pr pid)")
  case None
  with assms show ?thesis by (simp add: updatePending_def Let_def)
next
  case (Some p)
  with assms have "pendingKey pr pid = pendingKey (Pd_Provider p) (Pd_ProviderID p)"
    "1 \<le> Pd_SegmentIndex p" "1 \<le> Pd_SegmentCount p"
    by (auto simp: store_inv_def pending_ok_def)
  with Some assms show ?thesis
    by (simp add: updatePending_def Let_def store_inv_def pending_ok_update)
qed

lemma store_inv_putOutbox:
  assumes "store_inv s" "map_of (st_outbox s) k = Some item" "Ob_ID item' = Ob_ID item"
  shows "store_inv (putOutbox k item' s)"
  using assms by (auto simp: store_inv_def putOutbox_def outbox_ok_def)

lemma sweep_frame [simp]:
  "st_messages (sweepLocked now s) = st_messages s" "st_messageByID (sweepLocked now s) = st_messageByID s"
  "st_outbox (sweepLocked now s) = st_outbox s" "st_nextOutbox (sweepLocked now s) = st_nextOutbox s"
  "st_quotaUsage (sweepLocked now s) = st_quotaUsage s" "st_gatewaySeq (sweepLocked now s) = st_gatewaySeq s"
  "st_maxMessages (sweepLocked now s) = st_maxMessages s"
  by (simp_all add: sweepLocked_def)

lemma putOutbox_frame [simp]:
  "st_messages (putOutbox k i s) = st_messages s" "st_messageByID (putOutbox k i s) = st_messageByID s"
  "st_pending (putOutbox k i s) = st_pending s" "st_nextOutbox (putOutbox k i s) = st_nextOutbox s"
  "st_quotaUsage (putOutbox k i s) = st_quotaUsage s" "st_gatewaySeq (putOutbox k i s) = st_gatewaySeq s"
  "st_maxMessages (putOutbox k i s) = st_maxMessages s" "st_idempotency (putOutbox k i s) = st_idempotency s"
  "st_outbox (putOutbox k i s) = AList.update k i (st_outbox s)"
  by (simp_all add: putOutbox_def)

lemma putPending_frame [simp]:
  "st_messages (putPending p s) = st_messages s" "st_messageByID (putPending p s) = st_messageByID s"
  "st_outbox (putPending p s) = st_outbox s" "st_nextOutbox (putPending p s) = st_nextOutbox s"
  "st_quotaUsage (putPending p s) = st_quotaUsage s" "st_gatewaySeq (putPending p s) = st_gatewaySeq s"
  "st_maxMessages (putPending p s) = st_maxMessages s" "st_idempotency (putPending p s) = st_idempotency s"
  by (simp_all add: putPending_def)

lemma fold_putPending_frame [simp]:
  "st_messages (fold putPending ps s) = st_messages s" "st_messageByID (fold putPending ps s) = st_messageByID s"
  "st_outbox (fold putPending ps s) = st_outbox s" "st_nextOutbox (fold putPending ps s) = st_nextOutbox s"
  "st_quotaUsage (fold putPending ps s) = st_quotaUsage s" "st_gatewaySeq (fold putPending ps s) = st_gatewaySeq s"
  "st_maxMessages (fold putPending ps s) = st_maxMessages s" "st_idempotency (fold putPending ps s) = st_idempotency s"
  by (induction ps arbitrary: s) simp_all

lemma updateMessage_frame [simp]:
  "st_pending (snd (updateMessage i f s)) = st_pending s" "st_outbox (snd (updateMessage i f s)) = st_outbox s"
  "st_nextOutbox (snd (updateMessage i f s)) = st_nextOutbox s"
  "st_idempotency (snd (updateMessage i f s)) = st_idempotency s"
  "st_quotaUsage (snd (updateMessage i f s)) = st_quotaUsage s"
  "st_gatewaySeq (snd (updateMessage i f s)) = st_gatewaySeq s"
  "st_messageByID (snd (updateMessage i f s)) = st_messageByID s"
  by (simp_all add: updateMessage_def split: option.splits)

lemma updatePending_frame [simp]:
  "st_messages (snd (updatePending p i f s)) = st_messages s" "st_outbox (snd (updatePending p i f s)) = st_outbox s"
  "st_nextOutbox (snd (updatePending p i f s)) = st_nextOutbox s"
  "st_idempotency (snd (updatePending p i f s)) = st_idempotency s"
  "st_quotaUsage (snd (updatePending p i f s)) = st_quotaUsage s"
  "st_gatewaySeq (snd (updatePending p i f s)) = st_gatewaySeq s"
  by (simp_all add: updatePending_def Let_def split: option.splits)

definition completes :: "OutboxItem \<Rightarrow> Pending \<Rightarrow> bool" where
  "completes item r \<longleftrightarrow> 1 \<le> Pd_SegmentIndex r \<and> 1 \<le> Pd_SegmentCount r \<and> Pd_ProviderID r \<noteq> []
     \<and> Pd_GatewayID r = Ob_GatewayID item \<and> Pd_Provider r = Ob_Provider item"

lemma validatePendings_D:
  "validatePendings item ps = Inr recs \<Longrightarrow> recs = map normalizePending ps \<and> list_all (completes item) recs"
proof (induction ps arbitrary: recs)
  case (Cons p ps)
  from Cons.prems obtain out where out: "validatePendings item ps = Inr out" "recs = normalizePending p # out"
    and p: "Pd_ProviderID p \<noteq> []" "Pd_GatewayID p = Ob_GatewayID item" "Pd_Provider p = Ob_Provider item"
    by (simp add: Let_def bindE_Inr_iff split: if_split_asm) blast
  from p have "completes item (normalizePending p)" by (simp add: completes_def)
  with Cons.IH [OF out(1)] out(2) show ?case by auto
qed simp

lemma validateOutboxCompletion_D:
  assumes "validateOutboxCompletion item ps = Inr recs"
  shows "recs \<noteq> []" "recs = map normalizePending ps" "list_all (completes item) recs"
proof -
  from assms have "ps \<noteq> []" "validatePendings item ps = Inr recs"
    by (simp_all add: validateOutboxCompletion_def split: if_split_asm)
  with validatePendings_D [of item ps recs] show "recs = map normalizePending ps" "list_all (completes item) recs"
    by blast+
  with \<open>ps \<noteq> []\<close> show "recs \<noteq> []" by simp
qed

lemma store_inv_fold_putPending:
  "store_inv s \<Longrightarrow> list_all (completes item) recs \<Longrightarrow> store_inv (fold putPending recs s)"
  by (induction recs arbitrary: s) (simp_all add: store_inv_putPending completes_def)

lemma store_inv_CompleteOutboxSend: "store_inv s \<Longrightarrow> store_inv (snd (CompleteOutboxSend now i w ps s))"
proof -
  assume s: "store_inv s"
  show ?thesis
  proof (cases "map_of (st_outbox s) i")
    case None
    with s show ?thesis by (simp add: CompleteOutboxSend_def)
  next
    case (Some item)
    show ?thesis
    proof (cases "Ob_State item \<noteq> ''done'' \<and> Ob_State item = ''sending'' \<and> Ob_ClaimedBy item = w")
      case False
      with s Some show ?thesis by (auto simp: CompleteOutboxSend_def)
    next
      case True
      show ?thesis
      proof (cases "validateOutboxCompletion item ps")
        case (Inl e)
        with s Some True show ?thesis by (simp add: CompleteOutboxSend_def)
      next
        case (Inr recs)
        note D = validateOutboxCompletion_D [OF Inr]
        show ?thesis
        proof (cases "map_of (st_messageByID s) (Ob_GatewayID item)")
          case None
          with s Some True Inr show ?thesis by (simp add: CompleteOutboxSend_def)
        next
          case (Some idx)
          define s1 where "s1 = s\<lparr>st_messages := (st_messages s)[idx := (st_messages s ! idx)
              \<lparr>Msg_ProviderID := Pd_ProviderID (hd recs), Msg_State := ''sent'', Msg_SentAt := now\<rparr>]\<rparr>"
          have "s1 = snd (updateMessage (Ob_GatewayID item) (\<lambda>m. m\<lparr>Msg_ProviderID := Pd_ProviderID (hd recs),
              Msg_State := ''sent'', Msg_SentAt := now\<rparr>) s)"
            by (simp add: s1_def updateMessage_def Some)
          then have "store_inv s1" using s by (simp add: store_inv_updateMessage)
          then have 2: "store_inv (fold putPending recs s1)" using D(3) by (rule store_inv_fold_putPending)
          have "map_of (st_outbox (fold putPending recs s1)) i = Some item"
            using \<open>map_of (st_outbox s) i = Some item\<close> by (simp add: s1_def)
          then have "store_inv (putOutbox i (item\<lparr>Ob_State := ''done'',
              Ob_Payload := scrubOutboxPayload (Ob_Payload item)\<rparr>) (fold putPending recs s1))"
            by (rule store_inv_putOutbox [OF 2]) simp
          moreover have "snd (CompleteOutboxSend now i w ps s) = putOutbox i (item\<lparr>Ob_State := ''done'',
              Ob_Payload := scrubOutboxPayload (Ob_Payload item)\<rparr>) (fold putPending recs s1)"
            using \<open>map_of (st_outbox s) i = Some item\<close> True Inr Some
            by (simp add: CompleteOutboxSend_def Let_def s1_def)
          ultimately show ?thesis by simp
        qed
      qed
    qed
  qed
qed

lemma store_inv_fold_putOutbox:
  assumes "store_inv s" "\<forall>(k, item) \<in> set es. map_of (st_outbox s) k = Some item"
    "distinct (map fst es)" "\<And>item. Ob_ID (f item) = Ob_ID item"
  shows "store_inv (fold (\<lambda>(k, item). putOutbox k (f item)) es s)"
  using assms
proof (induction es arbitrary: s)
  case (Cons e es)
  obtain k item where e: "e = (k, item)" by (cases e)
  have inv: "store_inv (putOutbox k (f item) s)"
    using Cons.prems e by (intro store_inv_putOutbox [of s k item]) auto
  have "map_of (st_outbox (putOutbox k (f item) s)) k' = Some item'" if "(k', item') \<in> set es" for k' item'
  proof -
    have "k' \<in> fst ` set es" using that by force
    then have "k' \<noteq> k" using Cons.prems(3) by (auto simp: e)
    then show ?thesis using Cons.prems(2) that by (auto simp: e)
  qed
  then have "\<forall>(k', item') \<in> set es. map_of (st_outbox (putOutbox k (f item) s)) k' = Some item'" by blast
  with Cons.IH [OF inv] Cons.prems(3,4) show ?case by (simp add: e)
qed simp

lemma perm_entries:
  assumes "mset ys = mset xs" "distinct (map fst xs)"
  shows "set ys = set xs" "distinct (map fst ys)"
proof -
  show "set ys = set xs" using assms(1) by (metis set_mset_mset)
  have "mset (map fst ys) = mset (map fst xs)" using assms(1) by simp
  then show "distinct (map fst ys)" using assms(2) by (metis mset_eq_imp_distinct_iff)
qed

lemma requeueItem_ID [simp]: "Ob_ID (requeueItem b item) = Ob_ID item"
  by (simp add: requeueItem_def Let_def)

lemma stale_entries:
  assumes "store_inv s" "mset ys = mset (st_outbox s)"
  shows "\<forall>(k, item) \<in> set (take n (filter P ys)). map_of (st_outbox s) k = Some item"
    "distinct (map fst (take n (filter P ys)))"
proof -
  have d: "distinct (map fst (st_outbox s))" using assms(1) by (simp add: store_inv_def outbox_ok_def)
  note p = perm_entries [OF assms(2) d]
  show "distinct (map fst (take n (filter P ys)))"
    unfolding take_map [symmetric] using p(2) by (intro distinct_take distinct_fst_filter)
  have "map_of (st_outbox s) k = Some item" if "(k, item) \<in> set (take n (filter P ys))" for k item
    using in_set_takeD [OF that] p(1) d by simp
  then show "\<forall>(k, item) \<in> set (take n (filter P ys)). map_of (st_outbox s) k = Some item" by blast
qed

lemma store_inv_Requeue:
  assumes "store_inv s" "\<forall>xs. mset (it xs) = mset xs"
  shows "store_inv (snd (RequeueStaleOutbox it b l s))"
  unfolding RequeueStaleOutbox_def Let_def snd_conv
  by (rule store_inv_fold_putOutbox [OF assms(1) stale_entries [OF assms(1)] requeueItem_ID]) (rule assms(2) [rule_format])+

lemma outbox_ok_fold_update:
  "outbox_ok ob n \<Longrightarrow> \<forall>item \<in> set items. 0 < Ob_ID item \<and> Ob_ID item \<le> n \<Longrightarrow>
     outbox_ok (fold (\<lambda>item. AList.update (Ob_ID item) item) items ob) n"
  by (induction items arbitrary: ob) (simp_all add: outbox_ok_update)

lemma candidates_D:
  assumes "store_inv s" "item \<in> set (claimCandidates now l s)"
  shows "map_of (st_outbox s) (Ob_ID item) = Some item" "0 < Ob_ID item" "Ob_ID item \<le> st_nextOutbox s"
    "Ob_State item = ''pending''" "Ob_NextRetryAt item \<le> now"
proof -
  from assms(2) have i: "item \<in> snd ` set (st_outbox s)" "Ob_State item = ''pending''" "Ob_NextRetryAt item \<le> now"
    by (auto simp: claimCandidates_def dest!: in_set_takeD)
  then obtain k where k: "(k, item) \<in> set (st_outbox s)" by force
  have ok: "outbox_ok (st_outbox s) (st_nextOutbox s)" using assms(1) by (simp add: store_inv_def)
  then have "map_of (st_outbox s) k = Some item" using k by (simp add: outbox_ok_def)
  with ok have "Ob_ID item = k \<and> 0 < k \<and> k \<le> st_nextOutbox s" by (simp add: outbox_ok_def)
  with \<open>map_of (st_outbox s) k = Some item\<close> show "map_of (st_outbox s) (Ob_ID item) = Some item"
    "0 < Ob_ID item" "Ob_ID item \<le> st_nextOutbox s" by simp_all
  show "Ob_State item = ''pending''" "Ob_NextRetryAt item \<le> now" by (fact i)+
qed

lemma claimItem_simps [simp]:
  "Ob_ID (claimItem w now i) = Ob_ID i" "Ob_State (claimItem w now i) = ''claimed''"
  "Ob_ClaimedBy (claimItem w now i) = w" "Ob_Attempt (claimItem w now i) = Ob_Attempt i + 1"
  by (simp_all add: claimItem_def)

lemma store_inv_Claim: "store_inv s \<Longrightarrow> store_inv (snd (ClaimOutbox now w l s))"
  using candidates_D(2,3) [of s _ now l]
  by (auto simp: ClaimOutbox_def Let_def store_inv_def intro!: outbox_ok_fold_update)

lemma outboxDefaults_ID [simp]: "Ob_ID (outboxDefaults a b i) = Ob_ID i"
  by (simp add: outboxDefaults_def Let_def)

lemma store_inv_Enqueue: "store_inv s \<Longrightarrow> store_inv (snd (EnqueueOutbox a b item s))"
  by (auto simp: EnqueueOutbox_def Let_def store_inv_def intro!: outbox_ok_update intro: outbox_ok_mono)

lemma debitQuota_D:
  "debitQuota q s = Inr s' \<Longrightarrow> \<exists>u. s' = s\<lparr>st_quotaUsage := u\<rparr> \<and> (distinct (map fst (st_quotaUsage s)) \<longrightarrow> distinct (map fst u))"
  by (auto simp: debitQuota_def bindE_Inr_iff Let_def split: option.splits if_splits intro: exI [of _ "st_quotaUsage s"])

lemma store_inv_Submit: "store_inv s \<Longrightarrow> store_inv (snd (SubmitAtomic now msg item opts s))"
proof -
  assume "store_inv s"
  then have s1: "store_inv (sweepLocked now s)" by (rule store_inv_sweep)
  have s2: "store_inv s2" if "debitQuota q (sweepLocked now s) = Inr s2" for q s2
    using s1 debitQuota_D [OF that] by (auto simp: store_inv_def)
  have s3: "store_inv (s2\<lparr>st_idempotency := AList.update k r (st_idempotency s2)\<rparr>)" if "store_inv s2" for s2 k r
    using that by (simp add: store_inv_def)
  show ?thesis
    unfolding SubmitAtomic_def Let_def
    by (auto simp: case_prod_beta s1 intro!: store_inv_Enqueue store_inv_putMessage s3 dest: s2
        split: option.split sum.split)
qed

lemma store_inv_storeStep: "store_inv s \<Longrightarrow> orderOK opr \<Longrightarrow> store_inv (storeStep opr s)"
proof (cases opr)
  case (OpCompleteOutboxSend now i w ps)
  then show "store_inv s \<Longrightarrow> ?thesis" by (simp add: store_inv_CompleteOutboxSend)
next
  case (OpSubmitAtomic now msg item opts)
  then show "store_inv s \<Longrightarrow> ?thesis" by (simp add: store_inv_Submit)
next
  case (OpRequeueStaleOutbox it b l)
  then show "store_inv s \<Longrightarrow> orderOK opr \<Longrightarrow> ?thesis" by (simp add: store_inv_Requeue)
next
  case (OpMarkOutboxUncertain now i w e)
  then show "store_inv s \<Longrightarrow> ?thesis"
    by (auto simp: MarkOutboxUncertain_def Let_def split: option.split
        intro!: store_inv_updateMessage store_inv_putOutbox)
next
  case (OpGetPending now pr pid)
  then show "store_inv s \<Longrightarrow> ?thesis"
    using store_inv_sweep [of s now]
    by (auto simp: GetPending_def Let_def store_inv_def pending_ok_delete split: option.split)
next
  case (OpSweepExpiredPending b)
  then show "store_inv s \<Longrightarrow> ?thesis"
    using pending_ok_filter [of "st_pending s" "\<lambda>p. \<not> (\<not> Pd_DLRReady p \<and> Pd_ExpiresAt p < b)"]
    by (simp add: SweepExpiredPending_def Let_def store_inv_def case_prod_beta')
next
  case (OpCheckIdempotency now c k)
  then show "store_inv s \<Longrightarrow> ?thesis"
    using store_inv_sweep [of s now]
    by (auto simp: CheckIdempotency_def Let_def store_inv_def split: option.split)
next
  case (OpSaveIdempotency now now' c k g ttl)
  then show "store_inv s \<Longrightarrow> ?thesis"
    using store_inv_sweep [of s now] by (auto simp: SaveIdempotency_def Let_def store_inv_def)
next
  case (OpReserveGatewayIDRange n)
  then show "store_inv s \<Longrightarrow> ?thesis" by (simp add: ReserveGatewayIDRange_def Let_def store_inv_def)
next
  case (OpDeletePending pr pid)
  then show "store_inv s \<Longrightarrow> ?thesis" by (simp add: DeletePending_def store_inv_def pending_ok_delete)
next
  case (OpDeletePendingByGatewayID g)
  then show "store_inv s \<Longrightarrow> ?thesis" by (simp add: DeletePendingByGatewayID_def store_inv_def pending_ok_filter)
qed (auto simp: SaveMessage_def UpdateMessageSent_def UpdateMessageState_def SavePending_def
    UpdatePendingDLR_def MarkDLRReady_def MarkDLRDelivered_def ListReadyDLR_def
    ListPendingByGatewayID_def PendingSize_def MarkOutboxSending_def AckOutbox_def FailOutbox_def Let_def store_inv_Claim store_inv_Enqueue
    store_inv_sweep
    intro!: store_inv_putMessage store_inv_updateMessage store_inv_putPending store_inv_updatePending
      store_inv_putOutbox split: option.splits)

lemma NewMemory_inv: "store_inv NewMemory"
  by (simp add: store_inv_def NewMemory_def messages_ok_def pending_ok_def outbox_ok_def)

lemma store_reach_inv: "store_reach s \<Longrightarrow> store_inv s"
  by (induction rule: store_reach.induct) (simp_all add: NewMemory_inv store_inv_storeStep)

definition runOps :: "StoreOp list \<Rightarrow> MemoryStore \<Rightarrow> MemoryStore" where
  "runOps ops s = fold storeStep ops s"

lemma runOps_simps [simp]: "runOps [] s = s" "runOps (opr # ops) s = runOps ops (storeStep opr s)"
  by (simp_all add: runOps_def)

lemma runOps_inv: "store_inv s \<Longrightarrow> list_all orderOK ops \<Longrightarrow> store_inv (runOps ops s)"
  by (induction ops arbitrary: s) (simp_all add: store_inv_storeStep)

lemma putMessage_get:
  assumes "store_inv s"
  shows "GetMessage (Msg_ID m) (putMessage m s) = Some m"
proof (cases "map_of (st_messageByID s) (Msg_ID m)")
  case (Some i)
  then have "i < length (st_messages s)" using assms messages_ok_lookup by (auto simp: store_inv_def)
  with Some show ?thesis by (simp add: GetMessage_def putMessage_def)
next
  case None
  let ?s = "s\<lparr>st_messageByID := AList.update (Msg_ID m) (length (st_messages s)) (st_messageByID s),
             st_messages := st_messages s @ [m]\<rparr>"
  have inv: "store_inv (putMessage m s)" using assms by (rule store_inv_putMessage)
  let ?ms = "st_messages (putMessage m s)"
  have "?ms \<noteq> [] \<and> last ?ms = m"
    using assms None by (auto simp: putMessage_def trimMessagesLocked_def Let_def store_inv_def last_drop)
  then have "length ?ms - 1 < length ?ms \<and> Msg_ID (?ms ! (length ?ms - 1)) = Msg_ID m" "?ms ! (length ?ms - 1) = m"
    by (auto simp: last_conv_nth)
  with inv have "map_of (st_messageByID (putMessage m s)) (Msg_ID m) = Some (length ?ms - 1)"
    by (simp add: store_inv_def messages_ok_def)
  with \<open>?ms ! (length ?ms - 1) = m\<close> show ?thesis by (simp add: GetMessage_def)
qed

lemma GetMessage_frame:
  "st_messages s' = st_messages s \<Longrightarrow> st_messageByID s' = st_messageByID s \<Longrightarrow> GetMessage g s' = GetMessage g s"
  unfolding GetMessage_def by (simp only:)

subsection \<open>Properties\<close>

text \<open>
  C15: every store that the operations can reach from \<open>NewMemory\<close> satisfies the store invariant: the
  index finds exactly the stored messages, the message list stays within its limit, records are
  filed under their own keys, and outbox ids never exceed the counter.
\<close>

theorem store_invariant:
  assumes "store_reach s"
  shows "store_inv s"
  using assms by (rule store_reach_inv)

theorem store_invariant_witness:
  "store_inv (storeStep (OpReserveGatewayIDRange 5) NewMemory)"
  by (rule store_invariant) (simp add: store_reach.init store_reach.step del: storeStep.simps)

text \<open>
  \<open>ListMessages\<close> returns every stored message while there are at most 1000 of them, and only the
  first 100 beyond that, since the page size it asks for is then out of range.
\<close>

lemma list_messages_result:
  "ListMessages s = (if length (st_messages s) \<le> 1000 then st_messages s else take 100 (st_messages s))"
  by (auto simp: ListMessages_def ListMessagesPage_def Let_def)

end
