(* ===== verification/Outbox_Cycle.thy ===== *)
theory Outbox_Cycle
  imports Mem_Store
begin

text \<open>
  What the store promises to the dispatcher and to the clients: the life cycle of an outbox item, the
  claims of the workers, the effect of a submission, idempotency and daily quotas.
\<close>

subsection \<open>The life cycle of an outbox item\<close>

inductive outbox_step :: "OutboxItem \<Rightarrow> OutboxItem \<Rightarrow> bool" where
  claim: "Ob_State i = ''pending'' \<Longrightarrow> Ob_State j = ''claimed'' \<Longrightarrow> Ob_Attempt j = Ob_Attempt i + 1 \<Longrightarrow> outbox_step i j"
| sending: "Ob_State i = ''claimed'' \<Longrightarrow> Ob_State j = ''sending'' \<Longrightarrow> Ob_ClaimedBy j = Ob_ClaimedBy i \<Longrightarrow> outbox_step i j"
| release: "Ob_State i = ''claimed'' \<Longrightarrow> Ob_State j = ''pending'' \<Longrightarrow> Ob_ClaimedBy j = [] \<Longrightarrow> outbox_step i j"
| ack: "Ob_State i = ''claimed'' \<Longrightarrow> Ob_State j = ''done'' \<Longrightarrow> outbox_step i j"
| complete: "Ob_State i = ''sending'' \<Longrightarrow> Ob_State j = ''done'' \<Longrightarrow> outbox_step i j"
| uncertain: "Ob_State i = ''sending'' \<or> Ob_State i = ''uncertain'' \<Longrightarrow> Ob_State j = ''uncertain'' \<Longrightarrow> outbox_step i j"
| fail: "Ob_State i = ''claimed'' \<or> Ob_State i = ''sending'' \<Longrightarrow> Ob_State j = ''failed'' \<Longrightarrow> outbox_step i j"

definition item_evolves :: "int \<Rightarrow> MemoryStore \<Rightarrow> MemoryStore \<Rightarrow> bool" where
  "item_evolves k s s' \<longleftrightarrow>
     (\<forall>i. map_of (st_outbox s) k = Some i \<longrightarrow>
        (\<exists>j. map_of (st_outbox s') k = Some j \<and> (j = i \<or> outbox_step i j)))"

lemma item_evolves_same: "st_outbox s' = st_outbox s \<Longrightarrow> item_evolves k s s'"
  by (simp add: item_evolves_def)

lemma item_evolves_put:
  "map_of (st_outbox s) k' = Some i \<Longrightarrow> outbox_step i j \<Longrightarrow> item_evolves k s (putOutbox k' j s)"
  by (auto simp: item_evolves_def)

lemma outbox_lookup:
  "store_inv s \<Longrightarrow> map_of (st_outbox s) k = Some i \<Longrightarrow> Ob_ID i = k \<and> 0 < k \<and> k \<le> st_nextOutbox s"
  unfolding store_inv_def outbox_ok_def by blast

lemma item_evolves_Enqueue:
  assumes "store_inv s" "st_outbox s' = st_outbox s" "st_nextOutbox s' = st_nextOutbox s"
  shows "item_evolves k s (snd (EnqueueOutbox a b item s'))"
proof -
  have "k \<noteq> st_nextOutbox s + 1" if "map_of (st_outbox s) k = Some i" for i
    using outbox_lookup [OF assms(1) that] by simp
  then show ?thesis using assms(2,3) by (auto simp: item_evolves_def EnqueueOutbox_def Let_def)
qed

lemma map_of_fold_putOutbox:
  "distinct (map fst es) \<Longrightarrow> map_of (st_outbox (fold (\<lambda>(k, item). putOutbox k (f item)) es s)) k
     = (case map_of es k of Some item \<Rightarrow> Some (f item) | None \<Rightarrow> map_of (st_outbox s) k)"
proof (induction es arbitrary: s)
  case (Cons e es)
  then have "map_of es (fst e) = None" by (simp add: map_of_eq_None_iff)
  with Cons show ?case by (cases e) (auto split: option.splits)
qed simp

lemma requeue_step: "staleItem b i \<Longrightarrow> outbox_step i (requeueItem b i)"
  by (auto simp: staleItem_def requeueItem_def Let_def intro: release)

lemma item_evolves_Requeue:
  assumes "store_inv s" "\<forall>xs. mset (it xs) = mset xs"
  shows "item_evolves k s (snd (RequeueStaleOutbox it b l s))"
  unfolding item_evolves_def
proof (intro allI impI)
  fix i assume i: "map_of (st_outbox s) k = Some i"
  let ?P = "\<lambda>(k :: int, item). staleItem b item"
  let ?es = "take (nat (if l \<le> 0 then 1000 else l)) (filter ?P (it (st_outbox s)))"
  note se = stale_entries [OF assms(1) assms(2) [rule_format, of "st_outbox s"], of "nat (if l \<le> 0 then 1000 else l)" ?P]
  have m: "map_of (st_outbox (snd (RequeueStaleOutbox it b l s))) k
      = (case map_of ?es k of Some item \<Rightarrow> Some (requeueItem b item) | None \<Rightarrow> map_of (st_outbox s) k)"
    unfolding RequeueStaleOutbox_def Let_def snd_conv by (rule map_of_fold_putOutbox [OF se(2)])
  show "\<exists>j. map_of (st_outbox (snd (RequeueStaleOutbox it b l s))) k = Some j \<and> (j = i \<or> outbox_step i j)"
  proof (cases "map_of ?es k")
    case None
    then show ?thesis using i by (simp only: m option.case) blast
  next
    case (Some j)
    then have "(k, j) \<in> set ?es" by (rule map_of_SomeD)
    with se(1) i have "j = i" by fastforce
    have "staleItem b j" using in_set_takeD [OF \<open>(k, j) \<in> set ?es\<close>] by simp
    with Some \<open>j = i\<close> show ?thesis using requeue_step by (simp only: m option.case) blast
  qed
qed

lemma map_of_fold_update:
  "distinct (map Ob_ID items) \<Longrightarrow> map_of (fold (\<lambda>item. AList.update (Ob_ID item) item) items ob) k
     = (case map_of (map (\<lambda>i. (Ob_ID i, i)) items) k of Some i \<Rightarrow> Some i | None \<Rightarrow> map_of ob k)"
proof (induction items arbitrary: ob)
  case (Cons i items)
  then have "map_of (map (\<lambda>i. (Ob_ID i, i)) items) (Ob_ID i) = None"
    by (auto simp: map_of_eq_None_iff image_iff)
  with Cons show ?case by (auto split: option.splits)
qed simp

lemma candidates_distinct:
  assumes "store_inv s"
  shows "distinct (map Ob_ID (claimCandidates now l s))"
proof -
  have ok: "outbox_ok (st_outbox s) (st_nextOutbox s)" using assms by (simp add: store_inv_def)
  have "map (Ob_ID \<circ> snd) (st_outbox s) = map fst (st_outbox s)"
    using ok by (intro map_cong) (auto simp: outbox_ok_def)
  then have "map Ob_ID (map snd (st_outbox s)) = map fst (st_outbox s)" by simp
  then have "distinct (map Ob_ID (map snd (st_outbox s)))" using ok by (simp only: outbox_ok_def)
  then have "distinct (map Ob_ID (filter P (map snd (st_outbox s))))" for P
    by (simp add: distinct_map_filter)
  then show ?thesis
    unfolding claimCandidates_def take_map [symmetric]
    by (intro distinct_take) (simp add: distinct_map inj_on_def)
qed

lemma claim_lookup:
  assumes "store_inv s"
  shows "map_of (st_outbox (snd (ClaimOutbox now w l s))) k
     = (case map_of (st_outbox s) k of
          Some i \<Rightarrow> Some (if i \<in> set (claimCandidates now l s) then claimItem w now i else i)
        | None \<Rightarrow> None)"
proof -
  let ?c = "claimCandidates now l s" and ?out = "map (claimItem w now) (claimCandidates now l s)"
  have d: "distinct (map Ob_ID ?out)" using candidates_distinct [OF assms] by (simp add: o_def)
  have e: "map_of (st_outbox (snd (ClaimOutbox now w l s))) k
      = (case map_of (map (\<lambda>i. (Ob_ID i, i)) ?out) k of Some i \<Rightarrow> Some i | None \<Rightarrow> map_of (st_outbox s) k)"
    using map_of_fold_update [OF d] by (simp add: ClaimOutbox_def Let_def)
  show ?thesis
  proof (cases "\<exists>i \<in> set ?c. Ob_ID i = k")
    case True
    then obtain i where i: "i \<in> set ?c" "Ob_ID i = k" by blast
    have "map_of (map (\<lambda>i. (Ob_ID i, i)) ?out) k = Some (claimItem w now i)"
      using d i by (intro map_of_is_SomeI) (auto simp: o_def image_iff)
    with e i candidates_D(1) [OF assms i(1)] show ?thesis by simp
  next
    case False
    then have "map_of (map (\<lambda>i. (Ob_ID i, i)) ?out) k = None" by (auto simp: map_of_eq_None_iff)
    moreover have "i \<notin> set ?c" if "map_of (st_outbox s) k = Some i" for i
      using False that assms by (auto simp: store_inv_def outbox_ok_def)
    ultimately show ?thesis using e by (auto split: option.splits)
  qed
qed

lemma item_evolves_Claim:
  assumes "store_inv s"
  shows "item_evolves k s (snd (ClaimOutbox now w l s))"
  using candidates_D(4) [OF assms, of _ now l]
  by (auto simp: item_evolves_def claim_lookup [OF assms] intro!: claim)

lemma item_evolves_Complete: "item_evolves k s (snd (CompleteOutboxSend now i w ps s))"
  by (auto simp: item_evolves_def CompleteOutboxSend_def Let_def intro!: complete split: option.splits sum.splits)

abbreviation keyed :: "SubmitOptions \<Rightarrow> bool" where
  "keyed opts \<equiv> Io_ClientID (So_Idempotency opts) \<noteq> [] \<and> Io_Key (So_Idempotency opts) \<noteq> []"

abbreviation idemKey :: "SubmitOptions \<Rightarrow> string \<times> string" where
  "idemKey opts \<equiv> (Io_ClientID (So_Idempotency opts), Io_Key (So_Idempotency opts))"

definition recordKey :: "gotime \<Rightarrow> Message \<Rightarrow> SubmitOptions \<Rightarrow> MemoryStore \<Rightarrow> MemoryStore" where
  "recordKey now msg opts s =
     (if keyed opts
      then s\<lparr>st_idempotency := AList.update (idemKey opts)
             \<lparr>Ir_gatewayID = Msg_ID msg, Ir_expiresAt = now + defaultTTL (Io_TTL (So_Idempotency opts))\<rparr>
             (st_idempotency s)\<rparr>
      else s)"

lemma recordKey_frame [simp]:
  "st_messages (recordKey now msg opts s) = st_messages s" "st_messageByID (recordKey now msg opts s) = st_messageByID s"
  "st_outbox (recordKey now msg opts s) = st_outbox s" "st_nextOutbox (recordKey now msg opts s) = st_nextOutbox s"
  "st_quotaUsage (recordKey now msg opts s) = st_quotaUsage s" "st_pending (recordKey now msg opts s) = st_pending s"
  "st_gatewaySeq (recordKey now msg opts s) = st_gatewaySeq s"
  by (simp_all add: recordKey_def)

lemma SubmitAtomic_cases:
  obtains (dup) rec where "keyed opts" "map_of (st_idempotency (sweepLocked now s)) (idemKey opts) = Some rec"
      "Ir_expiresAt rec > now"
      "SubmitAtomic now msg item opts s = (Inr (0, Ir_gatewayID rec, True), sweepLocked now s)"
    | (quota) e where "debitQuota (So_Quota opts) (sweepLocked now s) = Inl e"
      "SubmitAtomic now msg item opts s = (Inl e, sweepLocked now s)"
    | (new) s2 where "debitQuota (So_Quota opts) (sweepLocked now s) = Inr s2"
      "\<not> (keyed opts \<and> (\<exists>rec. map_of (st_idempotency (sweepLocked now s)) (idemKey opts) = Some rec \<and> Ir_expiresAt rec > now))"
      "SubmitAtomic now msg item opts s
        = (Inr (st_nextOutbox s + 1, Msg_ID msg, False),
           snd (EnqueueOutbox now now item (putMessage msg (recordKey now msg opts s2))))"
proof -
  let ?s1 = "sweepLocked now s"
  define live where "live = (if keyed opts then case map_of (st_idempotency ?s1) (idemKey opts) of
      Some rec \<Rightarrow> if Ir_expiresAt rec > now then Some rec else None | None \<Rightarrow> None else None)"
  have eq: "SubmitAtomic now msg item opts s = (case live of
      Some rec \<Rightarrow> (Inr (0, Ir_gatewayID rec, True), ?s1)
    | None \<Rightarrow> (case debitQuota (So_Quota opts) ?s1 of
         Inl e \<Rightarrow> (Inl e, ?s1)
       | Inr s2 \<Rightarrow> let (n, s5) = EnqueueOutbox now now item (putMessage msg (recordKey now msg opts s2)) in
              (Inr (n, Msg_ID msg, False), s5)))"
    unfolding SubmitAtomic_def live_def recordKey_def Let_def by (simp cong: if_cong)
  show thesis
  proof (cases live)
    case (Some rec)
    then show thesis using dup eq by (auto simp: live_def split: if_splits option.splits)
  next
    case None
    then have n: "\<not> (keyed opts \<and> (\<exists>rec. map_of (st_idempotency ?s1) (idemKey opts) = Some rec \<and> Ir_expiresAt rec > now))"
      by (auto simp: live_def split: if_splits option.splits)
    show thesis
    proof (cases "debitQuota (So_Quota opts) ?s1")
      case (Inl e)
      then show thesis using quota eq None by simp
    next
      case (Inr s2)
      have "st_nextOutbox s2 = st_nextOutbox s" using debitQuota_D [OF Inr] by auto
      then have "SubmitAtomic now msg item opts s = (Inr (st_nextOutbox s + 1, Msg_ID msg, False),
           snd (EnqueueOutbox now now item (putMessage msg (recordKey now msg opts s2))))"
        using eq None Inr by (simp add: EnqueueOutbox_def Let_def)
      then show thesis using new [OF Inr n] by blast
    qed
  qed
qed

lemma debitQuota_frame:
  assumes "debitQuota q s = Inr s2"
  shows "st_outbox s2 = st_outbox s" "st_nextOutbox s2 = st_nextOutbox s" "st_messages s2 = st_messages s"
    "st_messageByID s2 = st_messageByID s" "st_idempotency s2 = st_idempotency s" "st_pending s2 = st_pending s"
    "st_gatewaySeq s2 = st_gatewaySeq s" "st_maxMessages s2 = st_maxMessages s"
  using debitQuota_D [OF assms] by auto

lemma item_evolves_Submit:
  assumes "store_inv s"
  shows "item_evolves k s (snd (SubmitAtomic now msg item opts s))"
proof (cases rule: SubmitAtomic_cases [of opts now s msg item])
  case (new s2)
  then show ?thesis
    using debitQuota_frame [OF new(1)] by (simp add: item_evolves_Enqueue [OF assms])
qed (simp_all add: item_evolves_same)

lemma item_evolves_storeStep:
  assumes "store_inv s" "orderOK opr"
  shows "item_evolves k s (storeStep opr s)"
proof (cases opr)
  case (OpSubmitAtomic now msg item opts)
  then show ?thesis by (simp add: item_evolves_Submit [OF assms(1)])
next
  case (OpMarkOutboxUncertain now i w e)
  then show ?thesis
    by (auto simp: MarkOutboxUncertain_def item_evolves_def Let_def intro!: uncertain split: option.splits)
next
  case (OpMarkOutboxSending i w)
  then show ?thesis
    by (auto simp: MarkOutboxSending_def item_evolves_def intro!: sending split: option.splits)
next
  case (OpAckOutbox i)
  then show ?thesis by (auto simp: AckOutbox_def item_evolves_def intro!: ack split: option.splits)
next
  case (OpFailOutbox i e r)
  then show ?thesis
    by (auto simp: FailOutbox_def item_evolves_def Let_def intro: fail release split: option.splits)
qed (use assms in \<open>auto simp: item_evolves_Enqueue item_evolves_Claim item_evolves_Complete item_evolves_Requeue
      SaveMessage_def UpdateMessageSent_def UpdateMessageState_def SavePending_def
      UpdatePendingDLR_def MarkDLRReady_def MarkDLRDelivered_def ListReadyDLR_def GetPending_def
      ListPendingByGatewayID_def DeletePending_def DeletePendingByGatewayID_def SweepExpiredPending_def
      PendingSize_def ReserveGatewayIDRange_def CheckIdempotency_def SaveIdempotency_def Let_def
      intro!: item_evolves_same split: option.splits\<close>)

subsection \<open>Runs, claims and submissions\<close>

inductive_cases outbox_stepE: "outbox_step i j"

lemma runOps_stable:
  assumes "store_inv s" "list_all orderOK ops" "map_of (st_outbox s) k = Some i" "P i"
    "\<And>i j. P i \<Longrightarrow> outbox_step i j \<Longrightarrow> P j"
  shows "\<exists>j. map_of (st_outbox (runOps ops s)) k = Some j \<and> P j"
  using assms(1-4)
proof (induction ops arbitrary: s i)
  case (Cons opr ops)
  from Cons.prems have "item_evolves k s (storeStep opr s)" by (simp add: item_evolves_storeStep)
  with Cons.prems(3) obtain j where j: "map_of (st_outbox (storeStep opr s)) k = Some j" "j = i \<or> outbox_step i j"
    by (auto simp: item_evolves_def)
  with Cons.prems(4) assms(5) have "P j" by blast
  with Cons.IH [OF _ _ j(1)] Cons.prems show ?case by (simp add: store_inv_storeStep)
qed auto

definition handed_over :: "OutboxItem \<Rightarrow> bool" where
  "handed_over i \<longleftrightarrow> Ob_State i \<in> {''sending'', ''done'', ''failed'', ''uncertain''}"

lemma handed_over_step: "handed_over i \<Longrightarrow> outbox_step i j \<Longrightarrow> handed_over j"
  by (erule outbox_stepE) (auto simp: handed_over_def)

lemma handed_over_unclaimed:
  assumes "store_inv s" "list_all orderOK ops" "map_of (st_outbox s) k = Some i" "handed_over i"
  shows "k \<notin> Ob_ID ` set (fst (ClaimOutbox now w limit (runOps ops s)))"
proof
  let ?s = "runOps ops s"
  have inv: "store_inv ?s" using assms(1,2) by (rule runOps_inv)
  assume "k \<in> Ob_ID ` set (fst (ClaimOutbox now w limit ?s))"
  then obtain c where c: "c \<in> set (claimCandidates now limit ?s)" "Ob_ID c = k"
    by (auto simp: ClaimOutbox_def Let_def)
  have "\<exists>j. map_of (st_outbox ?s) k = Some j \<and> handed_over j"
    by (rule runOps_stable [where P = handed_over, OF assms handed_over_step])
  with candidates_D(1,4) [OF inv c(1)] c(2) show False by (auto simp: handed_over_def)
qed

definition sent_by :: "string \<Rightarrow> OutboxItem \<Rightarrow> bool" where
  "sent_by w i \<longleftrightarrow> (Ob_State i = ''sending'' \<and> Ob_ClaimedBy i = w)
     \<or> Ob_State i \<in> {''done'', ''failed'', ''uncertain''}"

lemma sent_by_step: "sent_by w i \<Longrightarrow> outbox_step i j \<Longrightarrow> sent_by w j"
  by (erule outbox_stepE) (auto simp: sent_by_def)

lemma MarkOutboxSending_Inr:
  assumes "MarkOutboxSending k w s = (Inr (), s')"
  shows "\<exists>i. map_of (st_outbox s') k = Some i \<and> Ob_State i = ''sending'' \<and> Ob_ClaimedBy i = w"
    "\<exists>i. map_of (st_outbox s) k = Some i \<and> Ob_ClaimedBy i = w \<and> (Ob_State i = ''sending'' \<or> Ob_State i = ''claimed'')"
  using assms by (auto simp: MarkOutboxSending_def split: option.splits if_splits)

lemma claim_out: "fst (ClaimOutbox now w l s) = map (claimItem w now) (claimCandidates now l s)"
  by (simp add: ClaimOutbox_def Let_def)

lemma sorted_take_rest:
  assumes "sorted_wrt R xs" "p \<in> set xs" "p \<notin> set (take n xs)"
  shows "length (take n xs) = n" "i \<in> set (take n xs) \<Longrightarrow> R i p"
proof -
  have "p \<in> set (drop n xs)" using assms(2,3) append_take_drop_id [of n xs] by (metis Un_iff set_append)
  then show "length (take n xs) = n" by (cases "n < length xs") auto
  show "R i p" if "i \<in> set (take n xs)"
    using assms(1) that \<open>p \<in> set (drop n xs)\<close> sorted_wrt_append [of R "take n xs" "drop n xs"] by auto
qed

abbreviation claimKey :: "OutboxItem \<Rightarrow> gotime \<times> int" where
  "claimKey i \<equiv> (Ob_NextRetryAt i, Ob_ID i)"

definition dueItems :: "gotime \<Rightarrow> MemoryStore \<Rightarrow> OutboxItem list" where
  "dueItems now s = sort_key claimKey
     (filter (\<lambda>item. Ob_State item = ''pending'' \<and> \<not> Ob_NextRetryAt item > now) (map snd (st_outbox s)))"

lemma candidates_due: "claimCandidates now l s = take (nat (max 1 l)) (dueItems now s)"
proof -
  have "nat (if l \<le> 0 then 1 else l) = nat (max 1 l)" by auto
  then show ?thesis unfolding claimCandidates_def dueItems_def by (simp only:)
qed

lemma dueItems_sorted:
  assumes "store_inv s"
  shows "sorted_wrt (\<lambda>i j. claimKey i < claimKey j) (dueItems now s)"
proof -
  let ?all = "dueItems now s"
  have "distinct (map Ob_ID (claimCandidates now (int (length ?all) + 1) s))" by (rule candidates_distinct [OF assms])
  then have "distinct (map Ob_ID ?all)" by (simp add: candidates_due)
  then have "distinct (map claimKey ?all)" by (auto simp: distinct_map inj_on_def)
  moreover have "sorted (map claimKey ?all)" unfolding dueItems_def by (rule sorted_sort_key)
  ultimately have "sorted_wrt (<) (map claimKey ?all)" by (simp only: strict_sorted_iff)
  then show ?thesis by (simp only: sorted_wrt_map)
qed

lemma dueItems_iff:
  assumes "store_inv s"
  shows "p \<in> set (dueItems now s) \<longleftrightarrow>
    map_of (st_outbox s) (Ob_ID p) = Some p \<and> Ob_State p = ''pending'' \<and> Ob_NextRetryAt p \<le> now"
proof -
  have d: "distinct (map fst (st_outbox s))" using assms by (simp add: store_inv_def outbox_ok_def)
  have "p \<in> snd ` set (st_outbox s) \<longleftrightarrow> map_of (st_outbox s) (Ob_ID p) = Some p"
  proof
    assume "p \<in> snd ` set (st_outbox s)"
    then obtain k where "(k, p) \<in> set (st_outbox s)" by force
    then have "map_of (st_outbox s) k = Some p" using d by (rule map_of_is_SomeI [rotated])
    then show "map_of (st_outbox s) (Ob_ID p) = Some p" using outbox_lookup [OF assms] by metis
  next
    assume "map_of (st_outbox s) (Ob_ID p) = Some p"
    then show "p \<in> snd ` set (st_outbox s)" using map_of_SomeD by force
  qed
  then show ?thesis by (auto simp: dueItems_def)
qed

lemma claim_length_sorted:
  assumes "store_inv s"
  shows "int (length (fst (ClaimOutbox now w limit s))) \<le> max 1 limit"
    "sorted_wrt (\<lambda>i j. claimKey i < claimKey j) (fst (ClaimOutbox now w limit s))"
proof -
  have "int (length (take (nat (max 1 limit)) xs)) \<le> max 1 limit" for xs :: "OutboxItem list" by auto
  then show "int (length (fst (ClaimOutbox now w limit s))) \<le> max 1 limit"
    unfolding claim_out length_map candidates_due .
  have "claimKey (claimItem w now i) = claimKey i" for i by (simp add: claimItem_def)
  then show "sorted_wrt (\<lambda>i j. claimKey i < claimKey j) (fst (ClaimOutbox now w limit s))"
    unfolding claim_out sorted_wrt_map candidates_due using sorted_wrt_take [OF dueItems_sorted [OF assms]] by simp
qed

lemma claim_ids: "Ob_ID ` set (fst (ClaimOutbox now w l s)) = Ob_ID ` set (claimCandidates now l s)"
  by (auto simp: claim_out image_iff)

lemma claim_items:
  assumes "store_inv s" "i \<in> set (fst (ClaimOutbox now w limit s))"
  shows "\<exists>p. map_of (st_outbox s) (Ob_ID i) = Some p \<and> Ob_State p = ''pending'' \<and> Ob_NextRetryAt p \<le> now
    \<and> i = claimItem w now p \<and> map_of (st_outbox (snd (ClaimOutbox now w limit s))) (Ob_ID i) = Some i"
proof -
  from assms(2) obtain p where p: "p \<in> set (claimCandidates now limit s)" "i = claimItem w now p"
    by (auto simp: claim_out)
  then show ?thesis using candidates_D [OF assms(1) p(1)] by (simp add: claim_lookup [OF assms(1)])
qed

lemma claim_others:
  assumes "store_inv s" "k \<notin> Ob_ID ` set (fst (ClaimOutbox now w limit s))"
  shows "map_of (st_outbox (snd (ClaimOutbox now w limit s))) k = map_of (st_outbox s) k"
proof (cases "map_of (st_outbox s) k")
  case None
  then show ?thesis by (simp add: claim_lookup [OF assms(1)])
next
  case (Some p)
  then have "p \<notin> set (claimCandidates now limit s)"
    using assms(2) outbox_lookup [OF assms(1) Some] unfolding claim_ids by blast
  with Some show ?thesis by (simp add: claim_lookup [OF assms(1)])
qed

lemma claim_rest:
  assumes "store_inv s" "map_of (st_outbox s) k = Some p" "Ob_State p = ''pending''" "Ob_NextRetryAt p \<le> now"
    "k \<notin> Ob_ID ` set (fst (ClaimOutbox now w limit s))"
  shows "int (length (fst (ClaimOutbox now w limit s))) = max 1 limit"
    "i \<in> set (fst (ClaimOutbox now w limit s)) \<Longrightarrow> claimKey i < (Ob_NextRetryAt p, k)"
proof -
  have k: "Ob_ID p = k" using outbox_lookup [OF assms(1,2)] by simp
  have "p \<in> set (dueItems now s)" using assms(2-4) by (simp add: dueItems_iff [OF assms(1)] k)
  moreover have "p \<notin> set (take (nat (max 1 limit)) (dueItems now s))"
    using assms(5) k unfolding claim_ids candidates_due by blast
  ultimately have r: "length (claimCandidates now limit s) = nat (max 1 limit)"
      "j \<in> set (claimCandidates now limit s) \<Longrightarrow> claimKey j < claimKey p" for j
    using sorted_take_rest [OF dueItems_sorted [OF assms(1)]] unfolding candidates_due by blast+
  show "int (length (fst (ClaimOutbox now w limit s))) = max 1 limit" unfolding claim_out length_map r(1) by simp
  assume "i \<in> set (fst (ClaimOutbox now w limit s))"
  then obtain j where j: "j \<in> set (claimCandidates now limit s)" "i = claimItem w now j" by (auto simp: claim_out)
  then have "claimKey i = claimKey j" by (simp add: claimItem_def)
  then show "claimKey i < (Ob_NextRetryAt p, k)" using r(2) [OF j(1)] by (simp only: k)
qed

lemma Enqueue_frame [simp]:
  "st_messages (snd (EnqueueOutbox a b i s)) = st_messages s"
  "st_messageByID (snd (EnqueueOutbox a b i s)) = st_messageByID s"
  "st_pending (snd (EnqueueOutbox a b i s)) = st_pending s"
  "st_idempotency (snd (EnqueueOutbox a b i s)) = st_idempotency s"
  "st_quotaUsage (snd (EnqueueOutbox a b i s)) = st_quotaUsage s"
  "st_gatewaySeq (snd (EnqueueOutbox a b i s)) = st_gatewaySeq s"
  "st_nextOutbox (snd (EnqueueOutbox a b i s)) = st_nextOutbox s + 1"
  "st_outbox (snd (EnqueueOutbox a b i s))
     = AList.update (st_nextOutbox s + 1) (outboxDefaults a b (i\<lparr>Ob_ID := st_nextOutbox s + 1\<rparr>)) (st_outbox s)"
  by (simp_all add: EnqueueOutbox_def Let_def)

fun sweepTime :: "StoreOp \<Rightarrow> gotime option" where
  "sweepTime (OpSavePending now p) = Some now"
| "sweepTime (OpListReadyDLR it now sys l) = Some now"
| "sweepTime (OpGetPending now pr pid) = Some now"
| "sweepTime (OpListPendingByGatewayID now g) = Some now"
| "sweepTime (OpPendingSize now) = Some now"
| "sweepTime (OpCheckIdempotency now c k) = Some now"
| "sweepTime (OpSaveIdempotency now now' c k g ttl) = Some now"
| "sweepTime (OpSubmitAtomic now msg item opts) = Some now"
| "sweepTime _ = None"

fun savesKey :: "string \<times> string \<Rightarrow> StoreOp \<Rightarrow> bool" where
  "savesKey key (OpSaveIdempotency now now' c k g ttl) \<longleftrightarrow> key = (c, k)"
| "savesKey key _ \<longleftrightarrow> False"

definition before_expiry :: "string \<times> string \<Rightarrow> gotime \<Rightarrow> StoreOp \<Rightarrow> bool" where
  "before_expiry key t opr \<longleftrightarrow> \<not> savesKey key opr
     \<and> (case sweepTime opr of Some now \<Rightarrow> now < t | None \<Rightarrow> True)"

lemma sweep_idem:
  assumes "store_inv s" "map_of (st_idempotency s) key = Some rec" "now < Ir_expiresAt rec"
  shows "map_of (st_idempotency (sweepLocked now s)) key = Some rec"
proof -
  have d: "distinct (map fst (st_idempotency s))" using assms(1) by (simp add: store_inv_def)
  show ?thesis
    using map_of_filter_distinct [OF d, of "\<lambda>rec. \<not> (Ir_expiresAt rec \<noteq> 0 \<and> Ir_expiresAt rec < now)" key] assms(2,3)
    by (simp add: sweepLocked_def)
qed

lemma fold_putOutbox_frame [simp]:
  "st_idempotency (fold (\<lambda>(k, item). putOutbox k (f item)) es s) = st_idempotency s"
  "st_quotaUsage (fold (\<lambda>(k, item). putOutbox k (f item)) es s) = st_quotaUsage s"
  by (induction es arbitrary: s) (auto simp: split_beta)

lemma idem_kept:
  assumes "store_inv s" "map_of (st_idempotency s) key = Some rec" "before_expiry key (Ir_expiresAt rec) opr"
  shows "map_of (st_idempotency (storeStep opr s)) key = Some rec"
proof (cases opr)
  case (OpSubmitAtomic now msg item opts)
  then have now: "now < Ir_expiresAt rec" using assms(3) by (simp add: before_expiry_def)
  note k = sweep_idem [OF assms(1,2) now]
  show ?thesis
  proof (cases rule: SubmitAtomic_cases [of opts now s msg item])
    case (new s2)
    then have "\<not> (keyed opts \<and> idemKey opts = key)" using k now by auto
    with new k debitQuota_frame(5) [OF new(1)] OpSubmitAtomic show ?thesis by (auto simp: recordKey_def)
  qed (use k OpSubmitAtomic in simp_all)
qed (use assms sweep_idem [OF assms(1,2)] in \<open>auto simp: before_expiry_def
      SaveMessage_def UpdateMessageSent_def UpdateMessageState_def SavePending_def
      UpdatePendingDLR_def MarkDLRReady_def MarkDLRDelivered_def ListReadyDLR_def GetPending_def
      ListPendingByGatewayID_def DeletePending_def DeletePendingByGatewayID_def SweepExpiredPending_def
      PendingSize_def ReserveGatewayIDRange_def CheckIdempotency_def SaveIdempotency_def Let_def
      MarkOutboxSending_def AckOutbox_def FailOutbox_def CompleteOutboxSend_def MarkOutboxUncertain_def
      RequeueStaleOutbox_def ClaimOutbox_def split: option.splits sum.splits\<close>)

fun quotaOf :: "StoreOp \<Rightarrow> DailyQuotaDebit option" where
  "quotaOf (OpSubmitAtomic now msg item opts) = So_Quota opts"
| "quotaOf _ = None"

definition within_limit :: "string \<times> string \<Rightarrow> int \<Rightarrow> StoreOp \<Rightarrow> bool" where
  "within_limit key L opr \<longleftrightarrow>
     (case quotaOf opr of Some q \<Rightarrow> (Dq_TenantID q, Dq_Date q) = key \<longrightarrow> Dq_Limit q \<le> L | None \<Rightarrow> True)"

lemma debitQuota_usage:
  assumes "debitQuota q s = Inr s2"
    "\<And>d. q = Some d \<Longrightarrow> (Dq_TenantID d, Dq_Date d) = key \<Longrightarrow> Dq_Limit d \<le> L" "quotaGet s key \<le> L"
  shows "quotaGet s2 key \<le> L"
proof (cases q)
  case None
  with assms show ?thesis by (simp add: debitQuota_def)
next
  case (Some d)
  with assms show ?thesis
    by (auto simp: debitQuota_def bindE_Inr_iff Let_def quotaGet_def split: if_splits option.splits)
qed

lemma quota_step:
  assumes "within_limit key L opr" "quotaGet s key \<le> L"
  shows "quotaGet (storeStep opr s) key \<le> L"
proof (cases opr)
  case (OpSubmitAtomic now msg item opts)
  have s1: "quotaGet (sweepLocked now s) key \<le> L" using assms(2) by (simp add: quotaGet_def)
  show ?thesis
  proof (cases rule: SubmitAtomic_cases [of opts now s msg item])
    case (new s2)
    have "quotaGet s2 key \<le> L"
      using assms(1) OpSubmitAtomic by (intro debitQuota_usage [OF new(1) _ s1]) (simp add: within_limit_def)
    with new OpSubmitAtomic show ?thesis by (simp add: quotaGet_def)
  qed (use s1 OpSubmitAtomic in simp_all)
qed (use assms in \<open>auto simp: quotaGet_def
      SaveMessage_def UpdateMessageSent_def UpdateMessageState_def SavePending_def
      UpdatePendingDLR_def MarkDLRReady_def MarkDLRDelivered_def ListReadyDLR_def GetPending_def
      ListPendingByGatewayID_def DeletePending_def DeletePendingByGatewayID_def SweepExpiredPending_def
      PendingSize_def ReserveGatewayIDRange_def CheckIdempotency_def SaveIdempotency_def Let_def
      MarkOutboxSending_def AckOutbox_def FailOutbox_def CompleteOutboxSend_def MarkOutboxUncertain_def
      RequeueStaleOutbox_def ClaimOutbox_def split: option.splits sum.splits\<close>)

lemma map_of_fold_putPending:
  assumes "distinct (map (\<lambda>p. pendingKey (Pd_Provider p) (Pd_ProviderID p)) recs)" "r \<in> set recs"
  shows "map_of (st_pending (fold putPending recs s)) (pendingKey (Pd_Provider r) (Pd_ProviderID r)) = Some r"
  using assms
proof (induction recs arbitrary: s)
  case (Cons p recs)
  have other: "map_of (st_pending (fold putPending recs s)) k = map_of (st_pending s) k"
    if "k \<notin> (\<lambda>p. pendingKey (Pd_Provider p) (Pd_ProviderID p)) ` set recs" for k s
    using that by (induction recs arbitrary: s) (simp_all add: putPending_def)
  show ?case
  proof (cases "r \<in> set recs")
    case True
    with Cons show ?thesis by simp
  next
    case False
    with Cons.prems have "r = p" by simp
    with Cons.prems show ?thesis by (simp add: other) (simp add: putPending_def)
  qed
qed simp

lemma CompleteOutboxSend_Inr:
  assumes "CompleteOutboxSend now ident w ps s = (Inr (), s')" "map_of (st_outbox s) ident = Some item"
    "Ob_State item \<noteq> ''done''"
  obtains idx where "Ob_State item = ''sending''" "Ob_ClaimedBy item = w"
    "validateOutboxCompletion item ps = Inr (map normalizePending ps)" "ps \<noteq> []"
    "map_of (st_messageByID s) (Ob_GatewayID item) = Some idx"
    "s' = putOutbox ident (item\<lparr>Ob_State := ''done'', Ob_Payload := scrubOutboxPayload (Ob_Payload item)\<rparr>)
       (fold putPending (map normalizePending ps) (s\<lparr>st_messages := (st_messages s)[idx := (st_messages s ! idx)
          \<lparr>Msg_ProviderID := Pd_ProviderID (hd ps), Msg_State := ''sent'', Msg_SentAt := now\<rparr>]\<rparr>))"
proof -
  from assms have st: "Ob_State item = ''sending''" "Ob_ClaimedBy item = w"
    by (auto simp: CompleteOutboxSend_def split: if_splits)
  with assms obtain recs where v: "validateOutboxCompletion item ps = Inr recs"
    by (auto simp: CompleteOutboxSend_def split: sum.splits)
  note D = validateOutboxCompletion_D [OF v]
  have "ps \<noteq> []" using D(1,2) by simp
  then have hd: "Pd_ProviderID (hd recs) = Pd_ProviderID (hd ps)" by (simp add: D(2) hd_map)
  from assms st v obtain idx where "map_of (st_messageByID s) (Ob_GatewayID item) = Some idx"
    by (auto simp: CompleteOutboxSend_def split: option.splits)
  with that assms st v hd \<open>ps \<noteq> []\<close> D(2) show thesis by (auto simp: CompleteOutboxSend_def Let_def)
qed

lemma SubmitAtomic_new:
  assumes inv: "store_inv s" and sub: "SubmitAtomic now msg item opts s = (Inr (n, g, False), s')"
  shows "g = Msg_ID msg \<and> GetMessage g s' = Some msg
    \<and> map_of (st_outbox s) n = None
    \<and> map_of (st_outbox s') n = Some (outboxDefaults now now (item\<lparr>Ob_ID := n\<rparr>))
    \<and> (\<forall>k. k \<noteq> n \<longrightarrow> map_of (st_outbox s') k = map_of (st_outbox s) k)"
proof (cases rule: SubmitAtomic_cases [of opts now s msg item])
  case (new s2)
  note f = debitQuota_frame [OF new(1)]
  have i2: "store_inv (recordKey now msg opts s2)"
    using store_inv_sweep [OF inv, of now] debitQuota_D [OF new(1)] by (auto simp: store_inv_def recordKey_def)
  have "map_of (st_outbox s) n = None" if "n = st_nextOutbox s + 1"
    using outbox_lookup [OF inv, of n] that by (cases "map_of (st_outbox s) n") auto
  with new(3) sub f putMessage_get [OF i2, of msg] show ?thesis
    by (auto simp: GetMessage_frame [OF Enqueue_frame(1,2)])
qed (use sub in auto)

lemma SubmitAtomic_other:
  assumes "SubmitAtomic now msg item opts s = (r, s')" "\<nexists>n g. r = Inr (n, g, False)"
  shows "s' = sweepLocked now s"
  using assms by (cases rule: SubmitAtomic_cases [of opts now s msg item]) auto

subsection \<open>A small store\<close>

definition examplePayload :: OutboxPayload where
  "examplePayload = \<lparr>Op_GatewayID = ''m1'', Op_TenantID = [], Op_AccountID = [], Op_ClientMsgID = [], Op_Provider = ''p'',
     Op_Route = [], Op_From = ''A'', Op_To = ''B'', Op_Text = ''hi'', Op_DataCoding = 0, Op_RegisteredDelivery = 1,
     Op_Encoding = [], Op_Meta = [], Op_SourceKind = [], Op_SourceSession = [], Op_SourceSystem = [],
     Op_CallbackURL = [], Op_CallbackRule = [], Op_ReceivedAt = 1, Op_UDH = [], Op_RawPayload = [],
     Op_RawPayloadSet = False, Op_SARRefNum = [], Op_SARTotalSegments = [], Op_SARSegmentSeqnum = [], Op_SARSet = False\<rparr>"

definition exampleItem :: "string \<Rightarrow> OutboxItem" where
  "exampleItem state = \<lparr>Ob_ID = 1, Ob_GatewayID = ''m1'', Ob_Provider = ''p'', Ob_Payload = examplePayload,
     Ob_State = state, Ob_ClaimedBy = ''w'', Ob_ClaimedAt = 2, Ob_NextRetryAt = 2, Ob_Attempt = 1,
     Ob_MaxAttempts = 5, Ob_LastError = [], Ob_CreatedAt = 1\<rparr>"

definition exampleStore :: "string \<Rightarrow> MemoryStore" where
  "exampleStore state = snd (EnqueueOutbox 1 1 (exampleItem state) NewMemory)"

definition exampleMessage :: Message where
  "exampleMessage = \<lparr>Msg_ID = ''m1'', Msg_ProviderID = [], Msg_TenantID = ''t'', Msg_AccountID = [],
     Msg_ClientMsgID = [], Msg_Direction = DirectionMT, Msg_From = ''A'', Msg_To = ''B'', Msg_Text = ''hi'',
     Msg_Encoding = ''gsm7'', Msg_Route = [], Msg_Provider = ''p'', Msg_SourceKind = [], Msg_SourceID = [],
     Msg_State = ''accepted'', Msg_ErrorCode = 0, Msg_Segments = [], Msg_Metadata = [], Msg_SubmittedAt = 1,
     Msg_SentAt = 0, Msg_DoneAt = 0\<rparr>"

definition exampleOptions :: SubmitOptions where
  "exampleOptions = \<lparr>So_Idempotency = \<lparr>Io_ClientID = ''c'', Io_Key = ''k'', Io_TTL = 100\<rparr>,
     So_Quota = Some \<lparr>Dq_TenantID = ''t'', Dq_Date = ''2026-06-21'', Dq_Segments = 1, Dq_Limit = 3\<rparr>\<rparr>"

definition examplePending :: Pending where
  "examplePending = \<lparr>Pd_ProviderID = ''x1'', Pd_GatewayID = ''m1'', Pd_TenantID = [], Pd_AccountID = [],
     Pd_ClientMsgID = [], Pd_SegmentIndex = 1, Pd_SegmentCount = 1, Pd_SourceKind = [], Pd_SourceSession = [],
     Pd_SourceSystem = [], Pd_CallbackURL = [], Pd_CallbackRule = [], Pd_From = ''A'', Pd_To = ''B'',
     Pd_Text = ''hi'', Pd_DataCoding = 0, Pd_RegisteredDelivery = 1, Pd_Provider = ''p'', Pd_Route = [],
     Pd_ReceivedAt = 1, Pd_ExpiresAt = 0, Pd_DLRReady = False, Pd_DLRDelivered = False, Pd_DLRState = [],
     Pd_DLRErrorCode = 0, Pd_DLRDoneAt = 0\<rparr>"

definition exampleSending :: MemoryStore where
  "exampleSending = snd (EnqueueOutbox 1 1 (exampleItem ''sending'') (SaveMessage exampleMessage NewMemory))"

lemma exampleStore_reach: "store_reach (exampleStore state)"
  using store_reach.step [OF store_reach.init, of "OpEnqueueOutbox 1 1 (exampleItem state)"]
  by (simp add: exampleStore_def)

lemma exampleStore_outbox: "state \<noteq> [] \<Longrightarrow> map_of (st_outbox (exampleStore state)) = [1 \<mapsto> exampleItem state]"
  by (simp add: exampleStore_def NewMemory_def outboxDefaults_def exampleItem_def)

lemma exampleSubmit:
  "SubmitAtomic 5 exampleMessage (exampleItem []) exampleOptions NewMemory
     = (Inr (1, ''m1'', False), snd (SubmitAtomic 5 exampleMessage (exampleItem []) exampleOptions NewMemory))"
proof (cases rule: SubmitAtomic_cases [of exampleOptions 5 NewMemory exampleMessage "exampleItem []"])
  case (dup rec)
  then show ?thesis by (simp add: sweepLocked_def NewMemory_def)
next
  case (quota e)
  then show ?thesis
    by (simp add: debitQuota_def exampleOptions_def validateDailyQuotaDebit_def validDateOnly_def isDigit_def decVal_def
        monthLengths_def isLeap_def quotaGet_def NewMemory_def Let_def)
next
  case (new s2)
  then show ?thesis by (simp add: NewMemory_def exampleMessage_def)
qed

subsection \<open>Properties\<close>

text \<open>
  C14: each operation moves each outbox item along at most one edge of the abstract life cycle
  (pending, claimed, sending, then done, failed or uncertain) and loses no item: the store refines
  the state machine \<open>outbox_step\<close>.
\<close>

theorem outbox_lifecycle:
  assumes "store_reach s" "orderOK opr" "map_of (st_outbox s) k = Some i"
  shows "\<exists>j. map_of (st_outbox (storeStep opr s)) k = Some j \<and> (j = i \<or> outbox_step i j)"
  using item_evolves_storeStep [OF store_reach_inv [OF assms(1)] assms(2), of k] assms(3)
  by (simp add: item_evolves_def)

theorem outbox_lifecycle_witness:
  "\<exists>j. map_of (st_outbox (storeStep (OpMarkOutboxSending 1 ''w'') (exampleStore ''claimed''))) 1 = Some j
     \<and> (j = exampleItem ''claimed'' \<or> outbox_step (exampleItem ''claimed'') j)"
  by (rule outbox_lifecycle) (simp_all add: exampleStore_reach exampleStore_outbox)

text \<open>
  Once an item is being sent, or done, failed or uncertain, no later claim by any worker ever
  returns it, whatever operations run in between: a message is not sent a second time.
\<close>

lemma outbox_at_most_once:
  assumes "store_reach s" "list_all orderOK ops" "map_of (st_outbox s) k = Some i"
    "Ob_State i \<in> {''sending'', ''done'', ''failed'', ''uncertain''}"
  shows "k \<notin> Ob_ID ` set (fst (ClaimOutbox now w limit (runOps ops s)))"
  using handed_over_unclaimed [OF store_reach_inv [OF assms(1)] assms(2,3)] assms(4) by (simp add: handed_over_def)

text \<open>
  C10: two workers with different names never both pass \<open>MarkOutboxSending\<close> for the same item,
  whatever operations run between the two calls.
\<close>

theorem send_exclusive:
  assumes "store_reach s" "MarkOutboxSending k w s = (Inr (), s1)" "list_all orderOK ops"
    "MarkOutboxSending k w' (runOps ops s1) = (Inr (), s2)"
  shows "w' = w"
proof -
  have s1: "s1 = storeStep (OpMarkOutboxSending k w) s" using assms(2) by simp
  have inv: "store_inv s1" unfolding s1 using assms(1) by (intro store_inv_storeStep store_reach_inv) auto
  from MarkOutboxSending_Inr(1) [OF assms(2)] obtain i where i: "map_of (st_outbox s1) k = Some i" "sent_by w i"
    by (auto simp: sent_by_def)
  have "\<exists>j. map_of (st_outbox (runOps ops s1)) k = Some j \<and> sent_by w j"
    by (rule runOps_stable [where P = "sent_by w", OF inv assms(3) i sent_by_step])
  with MarkOutboxSending_Inr(2) [OF assms(4)] show ?thesis by (auto simp: sent_by_def)
qed

theorem send_exclusive_witness:
  "\<exists>s1 s2. MarkOutboxSending 1 ''w'' (exampleStore ''claimed'') = (Inr (), s1)
     \<and> MarkOutboxSending 1 ''w'' (runOps [OpAckOutbox 7] s1) = (Inr (), s2) \<and> ''w'' = ''w''"
proof -
  define s1 where "s1 = snd (MarkOutboxSending 1 ''w'' (exampleStore ''claimed''))"
  have 1: "MarkOutboxSending 1 ''w'' (exampleStore ''claimed'') = (Inr (), s1)"
    by (simp add: s1_def MarkOutboxSending_def exampleStore_outbox exampleItem_def)
  have 2: "MarkOutboxSending 1 ''w'' (runOps [OpAckOutbox 7] s1) = (Inr (), s1)"
    by (simp add: s1_def MarkOutboxSending_def AckOutbox_def exampleStore_outbox exampleItem_def)
  have "''w'' = ''w''" by (rule send_exclusive [OF exampleStore_reach 1 _ 2]) simp
  with 1 2 show ?thesis by blast
qed

text \<open>
  C35: \<open>ClaimOutbox\<close> returns at most the requested number of items, in the order of due time and
  id, each of them pending and due before and claimed by the worker afterwards, and leaves the other
  items alone; a due item is left behind only when the limit is used up by items due before it.
\<close>

theorem claim_spec:
  assumes "store_reach s" "ClaimOutbox now w limit s = (out, s')"
  shows "int (length out) \<le> max 1 limit
    \<and> sorted_wrt (\<lambda>i j. claimKey i < claimKey j) out
    \<and> (\<forall>i \<in> set out. \<exists>p. map_of (st_outbox s) (Ob_ID i) = Some p \<and> Ob_State p = ''pending''
          \<and> Ob_NextRetryAt p \<le> now \<and> i = claimItem w now p \<and> map_of (st_outbox s') (Ob_ID i) = Some i)
    \<and> (\<forall>k. k \<notin> Ob_ID ` set out \<longrightarrow> map_of (st_outbox s') k = map_of (st_outbox s) k)
    \<and> (\<forall>k p. map_of (st_outbox s) k = Some p \<and> Ob_State p = ''pending'' \<and> Ob_NextRetryAt p \<le> now \<and> k \<notin> Ob_ID ` set out
         \<longrightarrow> int (length out) = max 1 limit \<and> (\<forall>i \<in> set out. claimKey i < (Ob_NextRetryAt p, k)))"
proof -
  have inv: "store_inv s" using assms(1) by (rule store_reach_inv)
  have o: "fst (ClaimOutbox now w limit s) = out" "snd (ClaimOutbox now w limit s) = s'" by (simp_all add: assms(2))
  note 1 = claim_length_sorted [OF inv, of now w limit, unfolded o]
  note 3 = claim_items [OF inv, of _ now w limit, unfolded o]
  note 4 = claim_others [OF inv, of _ now w limit, unfolded o]
  note 5 = claim_rest [OF inv, of _ _ now w limit, unfolded o]
  show ?thesis
    by (intro conjI 1 ballI allI impI; (erule 3 | erule 4 | (elim conjE, rule 5; assumption)))
qed

theorem claim_spec_witness:
  "let (out, s') = ClaimOutbox 9 ''w'' 1 (exampleStore ''pending'') in int (length out) \<le> max 1 1
     \<and> (\<forall>k. k \<notin> Ob_ID ` set out \<longrightarrow> map_of (st_outbox s') k = map_of (st_outbox (exampleStore ''pending'')) k)"
  using claim_spec [OF exampleStore_reach [of "''pending''"], of 9 "''w''" 1
      "fst (ClaimOutbox 9 ''w'' 1 (exampleStore ''pending''))" "snd (ClaimOutbox 9 ''w'' 1 (exampleStore ''pending''))"]
  by (simp add: case_prod_beta Let_def)

text \<open>
  C13: after a keyed submission was accepted, every further submission with the same client and key
  before the record expires is answered with the first gateway id and adds nothing, whatever
  operations run in between, provided the key is not saved again and the clock stays before the expiry.
\<close>

theorem submit_idempotent:
  assumes "store_reach s" "keyed opts"
    "SubmitAtomic now msg item opts s = (Inr (n, g, False), s1)"
    "list_all (\<lambda>opr. orderOK opr \<and> before_expiry (idemKey opts) (now + defaultTTL (Io_TTL (So_Idempotency opts))) opr) ops"
    "idemKey opts' = idemKey opts" "now' < now + defaultTTL (Io_TTL (So_Idempotency opts))"
  shows "SubmitAtomic now' msg' item' opts' (runOps ops s1)
     = (Inr (0, g, True), sweepLocked now' (runOps ops s1))"
proof -
  let ?key = "idemKey opts"
  define rec where "rec = \<lparr>Ir_gatewayID = Msg_ID msg, Ir_expiresAt = now + defaultTTL (Io_TTL (So_Idempotency opts))\<rparr>"
  have inv: "store_inv s" using assms(1) by (rule store_reach_inv)
  have inv1: "store_inv s1" using store_inv_Submit [OF inv, of now msg item opts] assms(3) by simp
  have g: "g = Msg_ID msg" and r1: "map_of (st_idempotency s1) ?key = Some rec"
  proof -
    have "g = Msg_ID msg \<and> map_of (st_idempotency s1) ?key = Some rec"
    proof (cases rule: SubmitAtomic_cases [of opts now s msg item])
      case (new s2)
      with assms(2,3) show ?thesis by (auto simp: recordKey_def rec_def)
    qed (use assms(3) in auto)
    then show "g = Msg_ID msg" "map_of (st_idempotency s1) ?key = Some rec" by simp_all
  qed
  have "store_inv (runOps ops s1) \<and> map_of (st_idempotency (runOps ops s1)) ?key = Some rec"
    using assms(4) inv1 r1
  proof (induction ops arbitrary: s1)
    case (Cons opr ops)
    then have "store_inv (storeStep opr s1)" by (simp add: store_inv_storeStep)
    moreover have "map_of (st_idempotency (storeStep opr s1)) ?key = Some rec"
      using Cons.prems by (intro idem_kept) (simp_all add: rec_def)
    ultimately show ?case using Cons.IH Cons.prems(1) by simp
  qed simp
  then have "map_of (st_idempotency (sweepLocked now' (runOps ops s1))) ?key = Some rec"
    using assms(6) by (intro sweep_idem) (simp_all add: rec_def)
  then show ?thesis
    using assms(2,5,6) g by (auto simp: SubmitAtomic_def Let_def rec_def)
qed

theorem submit_idempotent_witness:
  "let s1 = snd (SubmitAtomic 5 exampleMessage (exampleItem []) exampleOptions NewMemory) in
   SubmitAtomic 9 exampleMessage (exampleItem []) exampleOptions (runOps [OpPendingSize 7] s1)
     = (Inr (0, ''m1'', True), sweepLocked 9 (runOps [OpPendingSize 7] s1))"
proof -
  have k: "keyed exampleOptions" by (simp add: exampleOptions_def)
  show ?thesis
    unfolding Let_def
    by (rule submit_idempotent [OF store_reach.init k exampleSubmit])
      (simp_all add: before_expiry_def exampleOptions_def defaultTTL_def)
qed

text \<open>
  C20: the segments booked for a tenant on a day never exceed the limit under which they were
  submitted, for every sequence of operations on a fresh store.
\<close>

theorem quota_never_exceeded:
  assumes "0 \<le> L" "list_all (within_limit (tenant, date) L) ops"
  shows "quotaGet (runOps ops NewMemory) (tenant, date) \<le> L"
proof -
  have "quotaGet (runOps ops s) (tenant, date) \<le> L" if "quotaGet s (tenant, date) \<le> L" for s
    using assms(2) that by (induction ops arbitrary: s) (simp_all add: quota_step)
  then show ?thesis using assms(1) by (simp add: NewMemory_def quotaGet_def)
qed

theorem quota_never_exceeded_witness:
  "quotaGet (runOps [OpSubmitAtomic 5 exampleMessage (exampleItem []) exampleOptions] NewMemory) (''t'', ''2026-06-21'') \<le> 3"
  by (rule quota_never_exceeded) (simp_all add: within_limit_def exampleOptions_def)

text \<open>
  C40: an outbox operation that fails changes nothing, and a submission that fails does no more than
  sweep expired records: no message, outbox item, quota debit or idempotency record is left behind.
\<close>

theorem store_errors_keep_state:
  "(fst (MarkOutboxSending ident w s) = Inl e \<longrightarrow> snd (MarkOutboxSending ident w s) = s)
   \<and> (fst (CompleteOutboxSend now ident w ps s) = Inl e \<longrightarrow> snd (CompleteOutboxSend now ident w ps s) = s)
   \<and> (fst (MarkOutboxUncertain now ident w m s) = Inl e \<longrightarrow> snd (MarkOutboxUncertain now ident w m s) = s)
   \<and> (fst (AckOutbox ident s) = Inl e \<longrightarrow> snd (AckOutbox ident s) = s)
   \<and> (fst (FailOutbox ident m t s) = Inl e \<longrightarrow> snd (FailOutbox ident m t s) = s)
   \<and> (fst (SubmitAtomic now msg item opts s) = Inl e \<longrightarrow> snd (SubmitAtomic now msg item opts s) = sweepLocked now s)"
proof (intro conjI impI)
  assume "fst (SubmitAtomic now msg item opts s) = Inl e"
  then show "snd (SubmitAtomic now msg item opts s) = sweepLocked now s"
    by (cases rule: SubmitAtomic_cases [of opts now s msg item]) simp_all
qed (auto simp: MarkOutboxSending_def CompleteOutboxSend_def MarkOutboxUncertain_def AckOutbox_def FailOutbox_def
    Let_def split: option.splits sum.splits if_splits)

theorem store_errors_keep_state_witness:
  "fst (AckOutbox 7 NewMemory) = Inl ErrNotFound \<and> snd (AckOutbox 7 NewMemory) = NewMemory"
  using store_errors_keep_state [of 7 "''w''" NewMemory ErrNotFound] by (simp add: AckOutbox_def NewMemory_def)

text \<open>
  A completed send was in the sending state for this worker; it files one pending record per
  part under the provider and the part's id, marks the message as sent with the first part's id, and
  leaves the item done with its raw payload removed.
\<close>

lemma complete_send_effect:
  assumes "store_reach s" "CompleteOutboxSend now ident w ps s = (Inr (), s')"
    "map_of (st_outbox s) ident = Some item" "Ob_State item \<noteq> ''done''"
    "distinct (map Pd_ProviderID ps)"
  shows "Ob_State item = ''sending'' \<and> Ob_ClaimedBy item = w
    \<and> (\<forall>p \<in> set ps. map_of (st_pending s') (pendingKey (Ob_Provider item) (Pd_ProviderID p)) = Some (normalizePending p))
    \<and> (\<exists>m. GetMessage (Ob_GatewayID item) s = Some m \<and> GetMessage (Ob_GatewayID item) s'
         = Some (m\<lparr>Msg_ProviderID := Pd_ProviderID (hd ps), Msg_State := ''sent'', Msg_SentAt := now\<rparr>))
    \<and> map_of (st_outbox s') ident
         = Some (item\<lparr>Ob_State := ''done'', Ob_Payload := scrubOutboxPayload (Ob_Payload item)\<rparr>)"
proof -
  from CompleteOutboxSend_Inr [OF assms(2-4)] obtain idx where c: "Ob_State item = ''sending''" "Ob_ClaimedBy item = w"
    "validateOutboxCompletion item ps = Inr (map normalizePending ps)" "ps \<noteq> []"
    "map_of (st_messageByID s) (Ob_GatewayID item) = Some idx"
    and s': "s' = putOutbox ident (item\<lparr>Ob_State := ''done'', Ob_Payload := scrubOutboxPayload (Ob_Payload item)\<rparr>)
       (fold putPending (map normalizePending ps) (s\<lparr>st_messages := (st_messages s)[idx := (st_messages s ! idx)
          \<lparr>Msg_ProviderID := Pd_ProviderID (hd ps), Msg_State := ''sent'', Msg_SentAt := now\<rparr>]\<rparr>))"
    by blast
  have "idx < length (st_messages s)"
    using store_reach_inv [OF assms(1)] c(5) messages_ok_lookup by (auto simp: store_inv_def)
  have prov: "Pd_Provider p = Ob_Provider item" if "p \<in> set ps" for p
    using validateOutboxCompletion_D(3) [OF c(3)] that by (auto simp: completes_def list_all_iff)
  have "inj_on (\<lambda>p. pendingKey (Pd_Provider p) (Pd_ProviderID p)) (set ps)" "distinct ps"
    using assms(5) prov by (auto simp: distinct_map inj_on_def pendingKey_def)
  then have d: "distinct (map (\<lambda>p. pendingKey (Pd_Provider p) (Pd_ProviderID p)) (map normalizePending ps))"
    by (simp add: o_def distinct_map)
  have "map_of (st_pending s') (pendingKey (Ob_Provider item) (Pd_ProviderID p)) = Some (normalizePending p)"
    if "p \<in> set ps" for p
    using map_of_fold_putPending [OF d, of "normalizePending p"] that prov [OF that] by (simp add: s')
  with c \<open>idx < length (st_messages s)\<close> show ?thesis by (simp add: s' GetMessage_def)
qed

end
