(* ===== verification/File_Store.thy ===== *)
theory File_Store
  imports Outbox_Cycle
begin

text \<open>
  The store in a file (\<open>store/file.go\<close>): a memory store that writes a snapshot of itself after each change and reads it
  at the start.

  The file system is what the store sees of it: the contents of its file and of the backup. Writing a snapshot is a
  sequence of file-system calls; the model has the contents after each of them, so that the process can stop at any
  point. Which calls fail, the time, the order in which maps are walked and the JSON text of a snapshot are arguments.
\<close>

subsection \<open>Snapshots\<close>

record fileIdempotencyRecord =
  Fi_ClientID :: string
  Fi_Key :: string
  Fi_GatewayID :: string
  Fi_ExpiresAt :: gotime

record fileQuotaUsage =
  Fq_TenantID :: string
  Fq_Date :: string
  Fq_UsedSegments :: int

record fileSnapshot =
  Sh_Messages :: "Message list"
  Sh_Pending :: "(string, Pending) gomap"
  Sh_Outbox :: "(int, OutboxItem) gomap"
  Sh_NextOutbox :: int
  Sh_GatewaySeq :: "64 word"
  Sh_Idempotency :: "fileIdempotencyRecord list"
  Sh_QuotaUsage :: "fileQuotaUsage list"
  Sh_SavedAt :: gotime

text \<open>The file and its backup; \<open>None\<close> is a file that does not exist.\<close>

record Disk =
  Dk_path :: "bytes option"
  Dk_bak :: "bytes option"

record FileStore =
  Fs_mem :: MemoryStore
  Fs_disk :: Disk

text \<open>
  What happens during one snapshot: \<open>Pe_fail\<close> says which of the calls fail, in the order \<open>MkdirAll\<close>, \<open>CreateTemp\<close>, \<open>Write\<close>,
  \<open>Sync\<close>, \<open>Close\<close>, \<open>Stat\<close>, \<open>Remove\<close> of the backup, \<open>Rename\<close> to the backup, \<open>Rename\<close> of the temporary file.
\<close>

record PersistEnv =
  Pe_marshal :: "fileSnapshot \<Rightarrow> bytes option"
  Pe_now :: gotime
  Pe_idemOrder :: "(string \<times> string, idempotencyRecord) gomap \<Rightarrow> (string \<times> string, idempotencyRecord) gomap"
  Pe_quotaOrder :: "(string \<times> string, int) gomap \<Rightarrow> (string \<times> string, int) gomap"
  Pe_fail :: "nat \<Rightarrow> bool"

record LoadEnv =
  Ld_unmarshal :: "bytes \<Rightarrow> fileSnapshot option"
  Ld_pendingOrder :: "(string, Pending) gomap \<Rightarrow> (string, Pending) gomap"
  Ld_outboxOrder :: "(int, OutboxItem) gomap \<Rightarrow> (int, OutboxItem) gomap"
  Ld_readFails :: bool

datatype FileError = ErrMem StoreError | ErrMarshal | ErrUnmarshal | ErrIO

subsection \<open>Loading\<close>

definition unclaim :: "OutboxItem \<Rightarrow> OutboxItem" where
  "unclaim item =
     (if Ob_State item = ''claimed''
      then item\<lparr>Ob_State := ''pending'', Ob_ClaimedBy := [], Ob_ClaimedAt := 0\<rparr> else item)"

definition loadedGatewaySeq :: "64 word \<Rightarrow> Message list \<Rightarrow> 64 word" where
  "loadedGatewaySeq start messages =
     foldl (\<lambda>seq msg. case parseGatewaySeq (Msg_ID msg) of
              Some n \<Rightarrow> if n > unat seq then of_nat n else seq | None \<Rightarrow> seq) start messages"

definition recoverSnapshot :: "LoadEnv \<Rightarrow> fileSnapshot \<Rightarrow> MemoryStore" where
  "recoverSnapshot ld snap =
     (let outbox = Ld_outboxOrder ld (Sh_Outbox snap);
          next1 = foldl (\<lambda>n (ident, item). if ident > n then ident else n) 0 outbox
      in \<lparr>st_messages = Sh_Messages snap,
          st_messageByID = foldl (\<lambda>idx (i, msg). AList.update (Msg_ID msg) i idx) [] (enumerate 0 (Sh_Messages snap)),
          st_pending = foldl (\<lambda>m (k, v). let p = normalizePending v in
             AList.update (pendingKey (Pd_Provider p) (Pd_ProviderID p)) p m) [] (Ld_pendingOrder ld (Sh_Pending snap)),
          st_outbox = foldl (\<lambda>m (ident, item). AList.update ident (unclaim item) m) [] outbox,
          st_nextOutbox = (if Sh_NextOutbox snap > next1 then Sh_NextOutbox snap else next1),
          st_idempotency = foldl (\<lambda>m rec. AList.update (Fi_ClientID rec, Fi_Key rec)
             \<lparr>Ir_gatewayID = Fi_GatewayID rec, Ir_expiresAt = Fi_ExpiresAt rec\<rparr> m) [] (Sh_Idempotency snap),
          st_quotaUsage = foldl (\<lambda>m rec. AList.update (Fq_TenantID rec, Fq_Date rec) (Fq_UsedSegments rec) m)
             [] (Sh_QuotaUsage snap),
          st_gatewaySeq = loadedGatewaySeq (Sh_GatewaySeq snap) (Sh_Messages snap),
          st_lastSweep = 0, st_maxMessages = 10000\<rparr>)"

definition load :: "LoadEnv \<Rightarrow> Disk \<Rightarrow> FileError + MemoryStore" where
  "load ld disk =
     (case Dk_path disk of
        None \<Rightarrow> Inr NewMemory
      | Some data \<Rightarrow>
          if Ld_readFails ld then Inl ErrIO
          else case Ld_unmarshal ld data of None \<Rightarrow> Inl ErrUnmarshal | Some snap \<Rightarrow> Inr (recoverSnapshot ld snap))"

definition NewFile :: "LoadEnv \<Rightarrow> Disk \<Rightarrow> FileError + FileStore" where
  "NewFile ld disk = (case load ld disk of Inl e \<Rightarrow> Inl e | Inr m \<Rightarrow> Inr \<lparr>Fs_mem = m, Fs_disk = disk\<rparr>)"

subsection \<open>Writing\<close>

definition takeSnapshot :: "PersistEnv \<Rightarrow> MemoryStore \<Rightarrow> fileSnapshot" where
  "takeSnapshot pe s =
     \<lparr>Sh_Messages = st_messages s, Sh_Pending = st_pending s, Sh_Outbox = st_outbox s,
      Sh_NextOutbox = st_nextOutbox s, Sh_GatewaySeq = st_gatewaySeq s,
      Sh_Idempotency = map (\<lambda>((c, k), rec). \<lparr>Fi_ClientID = c, Fi_Key = k, Fi_GatewayID = Ir_gatewayID rec,
         Fi_ExpiresAt = Ir_expiresAt rec\<rparr>) (Pe_idemOrder pe (st_idempotency s)),
      Sh_QuotaUsage = map (\<lambda>((t, d), used). \<lparr>Fq_TenantID = t, Fq_Date = d, Fq_UsedSegments = used\<rparr>)
         (Pe_quotaOrder pe (st_quotaUsage s)),
      Sh_SavedAt = Pe_now pe\<rparr>"

text \<open>
  \<open>persist\<close>: the error, if any, and the contents of the disk at the start and after each call that changes them. The
  temporary file is not among them: nothing reads it before it is renamed.
\<close>

definition persistDisks :: "PersistEnv \<Rightarrow> MemoryStore \<Rightarrow> Disk \<Rightarrow> FileError option \<times> Disk list" where
  "persistDisks pe s d0 =
     (case Pe_marshal pe (takeSnapshot pe s) of
        None \<Rightarrow> (Some ErrMarshal, [d0])
      | Some json \<Rightarrow>
          let data = json @ [0x0A] in
          if Pe_fail pe 0 \<or> Pe_fail pe 1 \<or> Pe_fail pe 2 \<or> Pe_fail pe 3 \<or> Pe_fail pe 4 then (Some ErrIO, [d0])
          else let stat = (Dk_path d0 \<noteq> None \<and> \<not> Pe_fail pe 5);
                   d1 = (if stat \<and> \<not> Pe_fail pe 6 then d0\<lparr>Dk_bak := None\<rparr> else d0);
                   d2 = (if stat \<and> \<not> Pe_fail pe 7 then d1\<lparr>Dk_path := None, Dk_bak := Dk_path d1\<rparr> else d1)
               in if stat \<and> Pe_fail pe 7 then (Some ErrIO, [d0, d1])
                  else if Pe_fail pe 8 then (Some ErrIO, [d0, d1, d2])
                  else (None, [d0, d1, d2, d2\<lparr>Dk_path := Some data\<rparr>]))"

definition persist :: "PersistEnv \<Rightarrow> FileStore \<Rightarrow> FileError option \<times> FileStore" where
  "persist pe fs =
     (case persistDisks pe (Fs_mem fs) (Fs_disk fs) of (e, ds) \<Rightarrow> (e, fs\<lparr>Fs_disk := last ds\<rparr>))"

subsection \<open>Operations\<close>

text \<open>
  The two shapes of the operations: an operation without a result, whose error is returned before anything is written, and
  an operation with a result, which is returned beside the error of the snapshot.
\<close>

definition thenPersist ::
  "PersistEnv \<Rightarrow> (StoreError + unit) \<times> MemoryStore \<Rightarrow> FileStore \<Rightarrow> FileError option \<times> FileStore" where
  "thenPersist pe r fs =
     (case r of
        (Inl e, m) \<Rightarrow> (Some (ErrMem e), fs\<lparr>Fs_mem := m\<rparr>)
      | (Inr _, m) \<Rightarrow> persist pe (fs\<lparr>Fs_mem := m\<rparr>))"

definition persistIf ::
  "PersistEnv \<Rightarrow> ('a \<Rightarrow> bool) \<Rightarrow> 'a \<times> MemoryStore \<Rightarrow> FileStore \<Rightarrow> ('a \<times> FileError option) \<times> FileStore" where
  "persistIf pe changed r fs =
     (let fs1 = fs\<lparr>Fs_mem := snd r\<rparr> in
      if changed (fst r) then case persist pe fs1 of (e, fs2) \<Rightarrow> ((fst r, e), fs2)
      else ((fst r, None), fs1))"

definition fileSaveMessage :: "PersistEnv \<Rightarrow> Message \<Rightarrow> FileStore \<Rightarrow> FileError option \<times> FileStore" where
  "fileSaveMessage pe msg fs = thenPersist pe (Inr (), SaveMessage msg (Fs_mem fs)) fs"

definition fileUpdateMessageSent ::
  "PersistEnv \<Rightarrow> gotime \<Rightarrow> string \<Rightarrow> string \<Rightarrow> FileStore \<Rightarrow> FileError option \<times> FileStore" where
  "fileUpdateMessageSent pe now g p fs = thenPersist pe (UpdateMessageSent now g p (Fs_mem fs)) fs"

definition fileUpdateMessageState ::
  "PersistEnv \<Rightarrow> gotime \<Rightarrow> string \<Rightarrow> string \<Rightarrow> int \<Rightarrow> FileStore \<Rightarrow> FileError option \<times> FileStore" where
  "fileUpdateMessageState pe now g st e fs = thenPersist pe (UpdateMessageState now g st e (Fs_mem fs)) fs"

definition fileSavePending :: "PersistEnv \<Rightarrow> gotime \<Rightarrow> Pending \<Rightarrow> FileStore \<Rightarrow> FileError option \<times> FileStore" where
  "fileSavePending pe now p fs = thenPersist pe (Inr (), SavePending now p (Fs_mem fs)) fs"

definition fileUpdatePendingDLR ::
  "PersistEnv \<Rightarrow> string \<Rightarrow> string \<Rightarrow> string \<Rightarrow> int \<Rightarrow> gotime \<Rightarrow> FileStore \<Rightarrow> FileError option \<times> FileStore" where
  "fileUpdatePendingDLR pe pr pid st e t fs = thenPersist pe (UpdatePendingDLR pr pid st e t (Fs_mem fs)) fs"

definition fileMarkDLRReady ::
  "PersistEnv \<Rightarrow> string \<Rightarrow> string \<Rightarrow> string \<Rightarrow> int \<Rightarrow> gotime \<Rightarrow> FileStore \<Rightarrow> FileError option \<times> FileStore" where
  "fileMarkDLRReady pe pr pid st e t fs = thenPersist pe (MarkDLRReady pr pid st e t (Fs_mem fs)) fs"

definition fileMarkDLRDelivered :: "PersistEnv \<Rightarrow> string \<Rightarrow> string \<Rightarrow> FileStore \<Rightarrow> FileError option \<times> FileStore" where
  "fileMarkDLRDelivered pe pr pid fs = thenPersist pe (MarkDLRDelivered pr pid (Fs_mem fs)) fs"

definition fileDeletePending :: "PersistEnv \<Rightarrow> string \<Rightarrow> string \<Rightarrow> FileStore \<Rightarrow> FileError option \<times> FileStore" where
  "fileDeletePending pe pr pid fs = thenPersist pe (Inr (), DeletePending pr pid (Fs_mem fs)) fs"

definition fileDeletePendingByGatewayID :: "PersistEnv \<Rightarrow> string \<Rightarrow> FileStore \<Rightarrow> FileError option \<times> FileStore" where
  "fileDeletePendingByGatewayID pe g fs = thenPersist pe (Inr (), DeletePendingByGatewayID g (Fs_mem fs)) fs"

definition fileSweepExpiredPending :: "PersistEnv \<Rightarrow> gotime \<Rightarrow> FileStore \<Rightarrow> (int \<times> FileError option) \<times> FileStore" where
  "fileSweepExpiredPending pe before fs = persistIf pe (\<lambda>n. n \<noteq> 0) (SweepExpiredPending before (Fs_mem fs)) fs"

definition fileReserveGatewayIDRange ::
  "PersistEnv \<Rightarrow> 64 word \<Rightarrow> FileStore \<Rightarrow> ((64 word \<times> 64 word) \<times> FileError option) \<times> FileStore" where
  "fileReserveGatewayIDRange pe span fs = persistIf pe (\<lambda>_. True) (ReserveGatewayIDRange span (Fs_mem fs)) fs"

definition fileEnqueueOutbox ::
  "PersistEnv \<Rightarrow> gotime \<Rightarrow> gotime \<Rightarrow> OutboxItem \<Rightarrow> FileStore \<Rightarrow> (int \<times> FileError option) \<times> FileStore" where
  "fileEnqueueOutbox pe now now' item fs = persistIf pe (\<lambda>_. True) (EnqueueOutbox now now' item (Fs_mem fs)) fs"

definition fileClaimOutbox ::
  "PersistEnv \<Rightarrow> gotime \<Rightarrow> string \<Rightarrow> int \<Rightarrow> FileStore \<Rightarrow> (OutboxItem list \<times> FileError option) \<times> FileStore" where
  "fileClaimOutbox pe now w l fs = persistIf pe (\<lambda>items. items \<noteq> []) (ClaimOutbox now w l (Fs_mem fs)) fs"

definition fileMarkOutboxSending :: "PersistEnv \<Rightarrow> int \<Rightarrow> string \<Rightarrow> FileStore \<Rightarrow> FileError option \<times> FileStore" where
  "fileMarkOutboxSending pe i w fs = thenPersist pe (MarkOutboxSending i w (Fs_mem fs)) fs"

definition fileCompleteOutboxSend ::
  "PersistEnv \<Rightarrow> gotime \<Rightarrow> int \<Rightarrow> string \<Rightarrow> Pending list \<Rightarrow> FileStore \<Rightarrow> FileError option \<times> FileStore" where
  "fileCompleteOutboxSend pe now i w ps fs = thenPersist pe (CompleteOutboxSend now i w ps (Fs_mem fs)) fs"

definition fileMarkOutboxUncertain ::
  "PersistEnv \<Rightarrow> gotime \<Rightarrow> int \<Rightarrow> string \<Rightarrow> string \<Rightarrow> FileStore \<Rightarrow> FileError option \<times> FileStore" where
  "fileMarkOutboxUncertain pe now i w e fs = thenPersist pe (MarkOutboxUncertain now i w e (Fs_mem fs)) fs"

definition fileRequeueStaleOutbox ::
  "PersistEnv \<Rightarrow> ((int, OutboxItem) gomap \<Rightarrow> (int, OutboxItem) gomap) \<Rightarrow> gotime \<Rightarrow> int \<Rightarrow> FileStore
     \<Rightarrow> (int \<times> FileError option) \<times> FileStore" where
  "fileRequeueStaleOutbox pe it before limit fs =
     persistIf pe (\<lambda>n. n \<noteq> 0) (RequeueStaleOutbox it before limit (Fs_mem fs)) fs"

definition fileAckOutbox :: "PersistEnv \<Rightarrow> int \<Rightarrow> FileStore \<Rightarrow> FileError option \<times> FileStore" where
  "fileAckOutbox pe i fs = thenPersist pe (AckOutbox i (Fs_mem fs)) fs"

definition fileFailOutbox :: "PersistEnv \<Rightarrow> int \<Rightarrow> string \<Rightarrow> gotime \<Rightarrow> FileStore \<Rightarrow> FileError option \<times> FileStore" where
  "fileFailOutbox pe i e t fs = thenPersist pe (FailOutbox i e t (Fs_mem fs)) fs"

definition fileSaveIdempotency ::
  "PersistEnv \<Rightarrow> gotime \<Rightarrow> gotime \<Rightarrow> string \<Rightarrow> string \<Rightarrow> string \<Rightarrow> duration \<Rightarrow> FileStore \<Rightarrow> FileError option \<times> FileStore" where
  "fileSaveIdempotency pe now now' c k g ttl fs = thenPersist pe (Inr (), SaveIdempotency now now' c k g ttl (Fs_mem fs)) fs"

definition fileSubmitAtomic ::
  "PersistEnv \<Rightarrow> gotime \<Rightarrow> Message \<Rightarrow> OutboxItem \<Rightarrow> SubmitOptions \<Rightarrow> FileStore
     \<Rightarrow> ((StoreError + int \<times> string \<times> bool) \<times> FileError option) \<times> FileStore" where
  "fileSubmitAtomic pe now msg item opts fs =
     persistIf pe (\<lambda>r. case r of Inl _ \<Rightarrow> False | Inr (n, g, duplicate) \<Rightarrow> \<not> duplicate)
       (SubmitAtomic now msg item opts (Fs_mem fs)) fs"

text \<open>The operations of the interface as steps; those that \<open>FileStore\<close> does not redefine are the ones of the memory store.\<close>

fun fileStep :: "PersistEnv \<Rightarrow> StoreOp \<Rightarrow> FileStore \<Rightarrow> FileStore" where
  "fileStep pe (OpSaveMessage msg) fs = snd (fileSaveMessage pe msg fs)"
| "fileStep pe (OpUpdateMessageSent now g p) fs = snd (fileUpdateMessageSent pe now g p fs)"
| "fileStep pe (OpUpdateMessageState now g st e) fs = snd (fileUpdateMessageState pe now g st e fs)"
| "fileStep pe (OpSavePending now p) fs = snd (fileSavePending pe now p fs)"
| "fileStep pe (OpUpdatePendingDLR pr pid st e d) fs = snd (fileUpdatePendingDLR pe pr pid st e d fs)"
| "fileStep pe (OpMarkDLRReady pr pid st e d) fs = snd (fileMarkDLRReady pe pr pid st e d fs)"
| "fileStep pe (OpMarkDLRDelivered pr pid) fs = snd (fileMarkDLRDelivered pe pr pid fs)"
| "fileStep pe (OpDeletePending pr pid) fs = snd (fileDeletePending pe pr pid fs)"
| "fileStep pe (OpDeletePendingByGatewayID g) fs = snd (fileDeletePendingByGatewayID pe g fs)"
| "fileStep pe (OpSweepExpiredPending b) fs = snd (fileSweepExpiredPending pe b fs)"
| "fileStep pe (OpReserveGatewayIDRange n) fs = snd (fileReserveGatewayIDRange pe n fs)"
| "fileStep pe (OpEnqueueOutbox now now' item) fs = snd (fileEnqueueOutbox pe now now' item fs)"
| "fileStep pe (OpClaimOutbox now w l) fs = snd (fileClaimOutbox pe now w l fs)"
| "fileStep pe (OpMarkOutboxSending i w) fs = snd (fileMarkOutboxSending pe i w fs)"
| "fileStep pe (OpCompleteOutboxSend now i w ps) fs = snd (fileCompleteOutboxSend pe now i w ps fs)"
| "fileStep pe (OpMarkOutboxUncertain now i w e) fs = snd (fileMarkOutboxUncertain pe now i w e fs)"
| "fileStep pe (OpRequeueStaleOutbox it b l) fs = snd (fileRequeueStaleOutbox pe it b l fs)"
| "fileStep pe (OpAckOutbox i) fs = snd (fileAckOutbox pe i fs)"
| "fileStep pe (OpFailOutbox i e r) fs = snd (fileFailOutbox pe i e r fs)"
| "fileStep pe (OpSaveIdempotency now now' c k g ttl) fs = snd (fileSaveIdempotency pe now now' c k g ttl fs)"
| "fileStep pe (OpSubmitAtomic now msg item opts) fs = snd (fileSubmitAtomic pe now msg item opts fs)"
| "fileStep pe opr fs = fs\<lparr>Fs_mem := storeStep opr (Fs_mem fs)\<rparr>"

lemmas file_ops = fileSaveMessage_def fileUpdateMessageSent_def fileUpdateMessageState_def fileSavePending_def
  fileUpdatePendingDLR_def fileMarkDLRReady_def fileMarkDLRDelivered_def fileDeletePending_def
  fileDeletePendingByGatewayID_def fileSweepExpiredPending_def fileReserveGatewayIDRange_def fileEnqueueOutbox_def
  fileClaimOutbox_def fileMarkOutboxSending_def fileCompleteOutboxSend_def fileMarkOutboxUncertain_def
  fileRequeueStaleOutbox_def fileAckOutbox_def fileFailOutbox_def fileSaveIdempotency_def fileSubmitAtomic_def

subsection \<open>The memory follows the memory store\<close>

lemma persist_mem [simp]: "Fs_mem (snd (persist pe fs)) = Fs_mem fs"
  by (simp add: persist_def split: prod.split)

lemma thenPersist_mem [simp]: "Fs_mem (snd (thenPersist pe r fs)) = snd r"
  by (cases r; cases "fst r") (auto simp: thenPersist_def)

lemma persistIf_mem [simp]: "Fs_mem (snd (persistIf pe ch r fs)) = snd r"
  using persist_mem [of pe "fs\<lparr>Fs_mem := snd r\<rparr>"]
  by (cases "persist pe (fs\<lparr>Fs_mem := snd r\<rparr>)") (simp add: persistIf_def Let_def)

lemma fileStep_mem: "Fs_mem (fileStep pe opr fs) = storeStep opr (Fs_mem fs)"
  by (cases opr) (simp_all add: file_ops)

text \<open>What a step does to the disk: nothing, or a snapshot of the new memory.\<close>

definition stepDisks :: "PersistEnv \<Rightarrow> StoreOp \<Rightarrow> FileStore \<Rightarrow> Disk list" where
  "stepDisks pe opr fs = snd (persistDisks pe (storeStep opr (Fs_mem fs)) (Fs_disk fs))"

lemma persist_disk: "Fs_disk (snd (persist pe fs)) = last (snd (persistDisks pe (Fs_mem fs) (Fs_disk fs)))"
  by (simp add: persist_def split: prod.split)

lemma thenPersist_disk:
  "Fs_disk (snd (thenPersist pe r fs)) = Fs_disk fs
   \<or> Fs_disk (snd (thenPersist pe r fs)) = last (snd (persistDisks pe (snd r) (Fs_disk fs)))"
  by (cases r; cases "fst r") (auto simp: thenPersist_def persist_disk)

lemma persistIf_disk:
  "Fs_disk (snd (persistIf pe ch r fs)) = Fs_disk fs
   \<or> Fs_disk (snd (persistIf pe ch r fs)) = last (snd (persistDisks pe (snd r) (Fs_disk fs)))"
  using persist_disk [of pe "fs\<lparr>Fs_mem := snd r\<rparr>"] by (auto simp: persistIf_def Let_def split: prod.split)

lemma fileStep_disk:
  "Fs_disk (fileStep pe opr fs) = Fs_disk fs \<or> Fs_disk (fileStep pe opr fs) = last (stepDisks pe opr fs)"
  unfolding stepDisks_def
  by (cases opr)
    (simp_all add: file_ops thenPersist_disk [of pe "(Inr (), _)" fs, simplified] thenPersist_disk persistIf_disk)

subsection \<open>Reading a snapshot back\<close>

lemma gomap_foldl_update:
  "distinct (map key xs) \<Longrightarrow>
     map_of (foldl (\<lambda>m x. AList.update (key x) (val x) m) m0 xs) = map_of m0 ++ map_of (map (\<lambda>x. (key x, val x)) xs)"
proof (induction xs arbitrary: m0)
  case (Cons x xs)
  then have "map_of (map (\<lambda>x. (key x, val x)) xs) (key x) = None" by (force simp: map_of_eq_None_iff)
  with Cons show ?case by (auto simp: fun_eq_iff map_add_def split: option.splits)
qed simp

lemma distinct_foldl_update:
  "distinct (map fst m0) \<Longrightarrow> distinct (map fst (foldl (\<lambda>m x. AList.update (key x) (val x) m) m0 xs))"
  by (induction xs arbitrary: m0) (simp_all add: distinct_update)

lemma map_of_perm:
  assumes "mset ys = mset xs" "distinct (map fst xs)"
  shows "map_of ys = map_of xs"
  using perm_entries [OF assms] assms(2) map_of_inject_set by blast

definition persistOK :: "PersistEnv \<Rightarrow> bool" where
  "persistOK pe \<longleftrightarrow> (\<forall>xs. mset (Pe_idemOrder pe xs) = mset xs) \<and> (\<forall>xs. mset (Pe_quotaOrder pe xs) = mset xs)"

definition loadOK :: "LoadEnv \<Rightarrow> bool" where
  "loadOK ld \<longleftrightarrow> (\<forall>xs. mset (Ld_pendingOrder ld xs) = mset xs) \<and> (\<forall>xs. mset (Ld_outboxOrder ld xs) = mset xs)"

text \<open>What a restart makes of a store: everything stays but the claims, and the sequence of ids never falls back.\<close>

definition restarted :: "MemoryStore \<Rightarrow> MemoryStore \<Rightarrow> bool" where
  "restarted s t \<longleftrightarrow> st_messages t = st_messages s
     \<and> map_of (st_pending t) = map_of (st_pending s)
     \<and> map_of (st_outbox t) = map_option unclaim \<circ> map_of (st_outbox s)
     \<and> st_nextOutbox t = st_nextOutbox s
     \<and> map_of (st_idempotency t) = map_of (st_idempotency s) \<and> map_of (st_quotaUsage t) = map_of (st_quotaUsage s)
     \<and> unat (st_gatewaySeq s) \<le> unat (st_gatewaySeq t)
     \<and> (\<forall>msg \<in> set (st_messages s). \<forall>n. parseGatewaySeq (Msg_ID msg) = Some n \<longrightarrow> n \<le> unat (st_gatewaySeq t))"

lemma parseDigits_bound: "acc < 2 ^ 64 \<Longrightarrow> parseDigits base acc s = Inr n \<Longrightarrow> n < 2 ^ 64"
  by (induction s arbitrary: acc) (auto simp: not_le split: option.splits if_splits)

lemma parseGatewaySeq_bound: "parseGatewaySeq g = Some n \<Longrightarrow> n < 2 ^ 64"
  using parseDigits_bound [of 0] by (auto simp: parseGatewaySeq_def ParseUint_def split: if_splits sum.splits)

lemma loadedGatewaySeq_ge:
  "unat q \<le> unat (loadedGatewaySeq q msgs)
   \<and> (\<forall>msg \<in> set msgs. \<forall>n. parseGatewaySeq (Msg_ID msg) = Some n \<longrightarrow> n \<le> unat (loadedGatewaySeq q msgs))"
proof (induction msgs arbitrary: q)
  case (Cons msg msgs)
  define q1 where "q1 = (case parseGatewaySeq (Msg_ID msg) of Some n \<Rightarrow> if n > unat q then of_nat n else q | None \<Rightarrow> q)"
  have u: "n < 2 ^ 64 \<Longrightarrow> unat (of_nat n :: 64 word) = n" for n by (simp add: unat_of_nat)
  have "unat q \<le> unat q1 \<and> (\<forall>n. parseGatewaySeq (Msg_ID msg) = Some n \<longrightarrow> n \<le> unat q1)"
    using u parseGatewaySeq_bound by (auto simp: q1_def split: option.split)
  moreover have "loadedGatewaySeq q (msg # msgs) = loadedGatewaySeq q1 msgs"
    by (simp add: loadedGatewaySeq_def q1_def)
  ultimately show ?case using Cons.IH [of q1] by auto
qed (simp add: loadedGatewaySeq_def)

lemma nextOutbox_loaded:
  assumes "\<forall>(k, item) \<in> set ob. k \<le> n" "0 \<le> n" "m0 \<le> n"
  shows "foldl (\<lambda>n (ident, item). if ident > n then ident else n) m0 ob \<le> n"
  using assms by (induction ob arbitrary: m0) auto

lemma pending_loaded:
  assumes "pending_ok pd" "mset ys = mset pd"
  shows "map_of (foldl (\<lambda>m (k, v). let p = normalizePending v in
      AList.update (pendingKey (Pd_Provider p) (Pd_ProviderID p)) p m) [] ys) = map_of pd"
    (is "map_of (foldl ?f [] ys) = _")
proof -
  have d: "distinct (map fst pd)" using assms(1) by (simp add: pending_ok_def)
  note p = perm_entries [OF assms(2) d]
  have norm: "normalizePending v = v \<and> pendingKey (Pd_Provider v) (Pd_ProviderID v) = k" if "(k, v) \<in> set ys" for k v
  proof -
    have "map_of pd k = Some v" using that p(1) d by simp
    then have "k = pendingKey (Pd_Provider v) (Pd_ProviderID v)" "1 \<le> Pd_SegmentIndex v" "1 \<le> Pd_SegmentCount v"
      using assms(1) unfolding pending_ok_def by blast+
    then show ?thesis by (simp add: normalizePending_def Let_def)
  qed
  have "foldl ?f m ys = foldl (\<lambda>m x. AList.update (fst x) (snd x) m) m ys" for m
    by (rule foldl_cong) (auto simp: norm Let_def)
  then show ?thesis using gomap_foldl_update [of fst ys snd "[]"] p(2) map_of_perm [OF assms(2) d] by simp
qed

lemma outbox_loaded:
  assumes "distinct (map fst ob)" "mset ys = mset ob"
  shows "map_of (foldl (\<lambda>m (ident, item). AList.update ident (unclaim item) m) [] ys) = map_option unclaim \<circ> map_of ob"
proof -
  have "map_of (foldl (\<lambda>m (ident, item). AList.update ident (unclaim item) m) [] ys)
      = map_of (map (\<lambda>(k, v). (k, unclaim v)) ys)"
    using gomap_foldl_update [of fst ys "\<lambda>x. unclaim (snd x)" "[]"] perm_entries(2) [OF assms(2,1)]
    by (simp add: case_prod_unfold)
  then show ?thesis by (simp add: map_of_map map_of_perm [OF assms(2,1)])
qed

lemma idempotency_loaded:
  assumes "distinct (map fst al)" "mset ys = mset al"
  shows "map_of (foldl (\<lambda>m rec. AList.update (Fi_ClientID rec, Fi_Key rec)
      \<lparr>Ir_gatewayID = Fi_GatewayID rec, Ir_expiresAt = Fi_ExpiresAt rec\<rparr> m) []
      (map (\<lambda>((c, k), rec). \<lparr>Fi_ClientID = c, Fi_Key = k, Fi_GatewayID = Ir_gatewayID rec, Fi_ExpiresAt = Ir_expiresAt rec\<rparr>) ys))
    = map_of al" (is "map_of (foldl _ [] (map ?g ys)) = _")
proof -
  let ?key = "\<lambda>rec. (Fi_ClientID rec, Fi_Key rec)" and ?val = "\<lambda>rec. \<lparr>Ir_gatewayID = Fi_GatewayID rec, Ir_expiresAt = Fi_ExpiresAt rec\<rparr>"
  have k: "map ?key (map ?g ys) = map fst ys" by (auto simp: comp_def split: prod.splits)
  have v: "map (\<lambda>x. (?key x, ?val x)) (map ?g ys) = ys" by (induction ys) auto
  have "distinct (map ?key (map ?g ys))" using perm_entries(2) [OF assms(2,1)] by (simp only: k)
  from gomap_foldl_update [OF this, of ?val "[]"] show ?thesis by (simp only: v map_of_perm [OF assms(2,1)]) simp
qed

lemma quota_loaded:
  assumes "distinct (map fst al)" "mset ys = mset al"
  shows "map_of (foldl (\<lambda>m rec. AList.update (Fq_TenantID rec, Fq_Date rec) (Fq_UsedSegments rec) m) []
      (map (\<lambda>((t, d), used). \<lparr>Fq_TenantID = t, Fq_Date = d, Fq_UsedSegments = used\<rparr>) ys)) = map_of al"
    (is "map_of (foldl _ [] (map ?g ys)) = _")
proof -
  let ?key = "\<lambda>rec. (Fq_TenantID rec, Fq_Date rec)"
  have k: "map ?key (map ?g ys) = map fst ys" by (auto simp: comp_def split: prod.splits)
  have v: "map (\<lambda>x. (?key x, Fq_UsedSegments x)) (map ?g ys) = ys" by (induction ys) auto
  have "distinct (map ?key (map ?g ys))" using perm_entries(2) [OF assms(2,1)] by (simp only: k)
  from gomap_foldl_update [OF this, of Fq_UsedSegments "[]"] show ?thesis by (simp only: v map_of_perm [OF assms(2,1)]) simp
qed

lemma unclaim_ID [simp]: "Ob_ID (unclaim item) = Ob_ID item"
  by (simp add: unclaim_def)

lemma recover_snapshot:
  assumes inv: "store_inv s" and mx: "st_maxMessages s = 10000" and ord: "persistOK pe" "loadOK ld"
  shows "restarted s (recoverSnapshot ld (takeSnapshot pe s))" "store_inv (recoverSnapshot ld (takeSnapshot pe s))"
proof -
  let ?t = "recoverSnapshot ld (takeSnapshot pe s)"
  have ob: "distinct (map fst (st_outbox s))"
      "\<And>k item. map_of (st_outbox s) k = Some item \<Longrightarrow> Ob_ID item = k \<and> 0 < k \<and> k \<le> st_nextOutbox s" "0 \<le> st_nextOutbox s"
    using inv by (simp_all add: store_inv_def outbox_ok_def)
  have ms: "mset (Ld_outboxOrder ld (st_outbox s)) = mset (st_outbox s)" "mset (Ld_pendingOrder ld (st_pending s)) = mset (st_pending s)"
      "mset (Pe_idemOrder pe (st_idempotency s)) = mset (st_idempotency s)"
      "mset (Pe_quotaOrder pe (st_quotaUsage s)) = mset (st_quotaUsage s)"
    using ord by (simp_all add: persistOK_def loadOK_def)
  have pd: "pending_ok (st_pending s)" and di: "distinct (map fst (st_idempotency s))" and dq: "distinct (map fst (st_quotaUsage s))"
      and mo: "messages_ok (st_messages s) (st_messageByID s)"
    using inv by (simp_all add: store_inv_def)
  have maps: "map_of (st_outbox ?t) = map_option unclaim \<circ> map_of (st_outbox s)" "map_of (st_pending ?t) = map_of (st_pending s)"
      "map_of (st_idempotency ?t) = map_of (st_idempotency s)" "map_of (st_quotaUsage ?t) = map_of (st_quotaUsage s)"
    using outbox_loaded [OF ob(1) ms(1)] pending_loaded [OF pd ms(2)] idempotency_loaded [OF di ms(3)] quota_loaded [OF dq ms(4)]
    by (simp_all add: recoverSnapshot_def takeSnapshot_def Let_def)
  have "\<forall>(k, item) \<in> set (Ld_outboxOrder ld (st_outbox s)). k \<le> st_nextOutbox s"
    using perm_entries(1) [OF ms(1) ob(1)] ob(1,2) by auto
  from nextOutbox_loaded [OF this ob(3) ob(3)]
  have nx: "st_nextOutbox ?t = st_nextOutbox s" by (simp add: recoverSnapshot_def takeSnapshot_def Let_def)
  have rest: "st_messages ?t = st_messages s" "st_maxMessages ?t = 10000"
      "st_gatewaySeq ?t = loadedGatewaySeq (st_gatewaySeq s) (st_messages s)"
      "st_messageByID ?t = reindex 0 (st_messages s) []"
    by (simp_all add: recoverSnapshot_def takeSnapshot_def Let_def foldl_conv_fold case_prod_unfold)
  show "restarted s ?t"
    unfolding restarted_def rest(1,3) maps nx
    using loadedGatewaySeq_ge [of "st_gatewaySeq s" "st_messages s"] by simp
  have d: "distinct (map fst (st_outbox ?t))" "distinct (map fst (st_pending ?t))" "distinct (map fst (st_idempotency ?t))"
      "distinct (map fst (st_quotaUsage ?t))"
    by (simp_all add: recoverSnapshot_def Let_def case_prod_unfold distinct_foldl_update)
  have "outbox_ok (st_outbox ?t) (st_nextOutbox ?t)" unfolding outbox_ok_def nx maps using d(1) ob(2) by auto
  moreover have "pending_ok (st_pending ?t)" using d(2) pd unfolding pending_ok_def maps by blast
  moreover have "messages_ok (st_messages ?t) (st_messageByID ?t)"
    unfolding rest by (rule messages_ok_reindex [OF messages_ok_distinct [OF mo]])
  ultimately show "store_inv ?t" using inv d(3,4) mx by (simp add: store_inv_def rest nx)
qed

subsection \<open>Restarts\<close>

text \<open>What JSON is relied on for: a snapshot that was written is read as it was.\<close>

definition jsonOK :: "(fileSnapshot \<Rightarrow> bytes option) \<Rightarrow> (bytes \<Rightarrow> fileSnapshot option) \<Rightarrow> bool" where
  "jsonOK ms unm \<longleftrightarrow> (\<forall>snap json. ms snap = Some json \<longrightarrow> unm (json @ [0x0A]) = Some snap)"

text \<open>
  A run of the process and its restarts: an operation with its snapshot, or the process stops at any point of an
  operation's snapshot, with a file there, and the next one reads it.
\<close>

inductive file_step :: "(fileSnapshot \<Rightarrow> bytes option) \<Rightarrow> (bytes \<Rightarrow> fileSnapshot option) \<Rightarrow> FileStore \<Rightarrow> FileStore \<Rightarrow> bool"
  for ms unm where
  operation: "orderOK opr \<Longrightarrow> Pe_marshal pe = ms \<Longrightarrow> persistOK pe \<Longrightarrow> file_step ms unm fs (fileStep pe opr fs)"
| restart: "orderOK opr \<Longrightarrow> Pe_marshal pe = ms \<Longrightarrow> persistOK pe \<Longrightarrow> d \<in> set (stepDisks pe opr fs) \<Longrightarrow> Dk_path d \<noteq> None
    \<Longrightarrow> Ld_unmarshal ld = unm \<Longrightarrow> loadOK ld \<Longrightarrow> NewFile ld d = Inr fs' \<Longrightarrow> file_step ms unm fs fs'"

definition memOK :: "MemoryStore \<Rightarrow> bool" where
  "memOK s \<longleftrightarrow> store_inv s \<and> st_maxMessages s = 10000"

definition file_good :: "(bytes \<Rightarrow> fileSnapshot option) \<Rightarrow> FileStore \<Rightarrow> bool" where
  "file_good unm fs \<longleftrightarrow> memOK (Fs_mem fs)
     \<and> (\<forall>data. Dk_path (Fs_disk fs) = Some data \<longrightarrow>
          (\<exists>pe s. memOK s \<and> persistOK pe \<and> unm data = Some (takeSnapshot pe s)))"

text \<open>An item is out of reach of the workers, in memory and in the file.\<close>

definition handedIn :: "(int, OutboxItem) gomap \<Rightarrow> int \<Rightarrow> bool" where
  "handedIn ob k \<longleftrightarrow> (\<exists>i. map_of ob k = Some i \<and> handed_over i)"

definition file_handed :: "(bytes \<Rightarrow> fileSnapshot option) \<Rightarrow> FileStore \<Rightarrow> int \<Rightarrow> bool" where
  "file_handed unm fs k \<longleftrightarrow> handedIn (st_outbox (Fs_mem fs)) k
     \<and> (\<forall>data snap. Dk_path (Fs_disk fs) = Some data \<longrightarrow> unm data = Some snap \<longrightarrow> handedIn (Sh_Outbox snap) k)"

lemma memOK_NewMemory: "memOK NewMemory"
  using store_reach_inv [OF store_reach.init] by (simp add: memOK_def NewMemory_def)

lemma updateMessage_max [simp]: "st_maxMessages (snd (updateMessage g f s)) = st_maxMessages s"
  by (simp add: updateMessage_def split: option.split)

lemma updatePending_max [simp]: "st_maxMessages (snd (updatePending pr pid f s)) = st_maxMessages s"
  by (simp add: updatePending_def Let_def split: option.split)

lemma fold_putPending_max [simp]: "st_maxMessages (fold putPending ps s) = st_maxMessages s"
  by (induction ps arbitrary: s) (simp_all add: putPending_def)

lemma fold_putOutbox_max [simp]: "st_maxMessages (fold (\<lambda>(k, item). putOutbox k (f item)) es s) = st_maxMessages s"
  by (induction es arbitrary: s) (auto simp: putOutbox_def)

lemma debitQuota_max: "debitQuota q s = Inr s' \<Longrightarrow> st_maxMessages s' = st_maxMessages s"
  by (auto simp: debitQuota_def Let_def bindE_Inr_iff split: option.splits if_splits)

lemma SubmitAtomic_max: "st_maxMessages (snd (SubmitAtomic now msg item opts s)) = st_maxMessages s"
  by (cases rule: SubmitAtomic_cases [of opts now s msg item])
    (simp_all add: EnqueueOutbox_def Let_def recordKey_def debitQuota_max sweepLocked_def)

lemma storeStep_max: "st_maxMessages (storeStep opr s) = st_maxMessages s"
  by (cases opr)
    (simp_all add: SubmitAtomic_max SaveMessage_def UpdateMessageSent_def UpdateMessageState_def SavePending_def putPending_def sweepLocked_def
      UpdatePendingDLR_def MarkDLRReady_def MarkDLRDelivered_def ListReadyDLR_def GetPending_def
      ListPendingByGatewayID_def DeletePending_def DeletePendingByGatewayID_def SweepExpiredPending_def
      PendingSize_def ReserveGatewayIDRange_def CheckIdempotency_def SaveIdempotency_def Let_def
      MarkOutboxSending_def AckOutbox_def FailOutbox_def CompleteOutboxSend_def MarkOutboxUncertain_def
      RequeueStaleOutbox_def ClaimOutbox_def EnqueueOutbox_def putOutbox_def split: option.split sum.split)

lemma memOK_step: "memOK s \<Longrightarrow> orderOK opr \<Longrightarrow> memOK (storeStep opr s)"
  by (simp add: memOK_def store_inv_storeStep storeStep_max)

lemma handedIn_step: "memOK s \<Longrightarrow> orderOK opr \<Longrightarrow> handedIn (st_outbox s) k \<Longrightarrow> handedIn (st_outbox (storeStep opr s)) k"
  using runOps_stable [of s "[opr]" k _ handed_over] handed_over_step by (auto simp: memOK_def handedIn_def)

lemma unclaim_handed: "handed_over (unclaim i) \<longleftrightarrow> handed_over i"
  by (auto simp: unclaim_def handed_over_def)

lemma disk_paths:
  assumes "d \<in> set (snd (persistDisks pe s d0))"
  shows "Dk_path d = Dk_path d0 \<or> Dk_path d = None
    \<or> (\<exists>json. Pe_marshal pe (takeSnapshot pe s) = Some json \<and> Dk_path d = Some (json @ [0x0A]))"
  using assms by (auto simp: persistDisks_def Let_def split: option.splits if_splits)

lemma persistDisks_last: "last (snd (persistDisks pe s d0)) \<in> set (snd (persistDisks pe s d0))"
  by (auto simp: persistDisks_def Let_def split: option.split)

lemma persist_None:
  assumes "persist pe fs = (None, fs')"
  shows "\<exists>json. Pe_marshal pe (takeSnapshot pe (Fs_mem fs)) = Some json \<and> Dk_path (Fs_disk fs') = Some (json @ [0x0A])"
  using assms by (auto simp: persist_def persistDisks_def Let_def split: option.splits if_splits)

lemma persist_succeeds:
  assumes "Pe_marshal pe (takeSnapshot pe (Fs_mem fs)) = Some json" "\<forall>n. \<not> Pe_fail pe n"
  shows "\<exists>d. persist pe fs = (None, \<lparr>Fs_mem = Fs_mem fs, Fs_disk = d\<rparr>) \<and> Dk_path d = Some (json @ [0x0A])"
  using assms by (cases fs) (simp add: persist_def persistDisks_def Let_def)

text \<open>A disk of a step holds the old file, no file, or a snapshot of the new memory.\<close>

lemma disk_cases:
  assumes "jsonOK ms unm" "Pe_marshal pe = ms" "d \<in> set (stepDisks pe opr fs)" "Dk_path d = Some data"
  shows "Dk_path (Fs_disk fs) = Some data \<or> unm data = Some (takeSnapshot pe (storeStep opr (Fs_mem fs)))"
  using disk_paths [OF assms(3) [unfolded stepDisks_def]] assms(1,2,4) by (auto simp: jsonOK_def)

lemma NewFile_restart:
  assumes "NewFile ld d = Inr fs'" "Dk_path d \<noteq> None"
  obtains data snap where "Dk_path d = Some data" "Ld_unmarshal ld data = Some snap" "fs' = \<lparr>Fs_mem = recoverSnapshot ld snap, Fs_disk = d\<rparr>"
  using assms by (auto simp: NewFile_def load_def split: option.splits sum.splits if_splits)

lemma file_good_step:
  assumes json: "jsonOK ms unm" and good: "file_good unm fs" and step: "file_step ms unm fs fs'"
  shows "file_good unm fs'"
  using step
proof cases
  case (operation opr pe)
  have m: "memOK (storeStep opr (Fs_mem fs))" using good operation(2) by (simp add: file_good_def memOK_step)
  have "\<exists>pe s. memOK s \<and> persistOK pe \<and> unm data = Some (takeSnapshot pe s)"
    if path: "Dk_path (Fs_disk (fileStep pe opr fs)) = Some data" for data
  proof -
    from fileStep_disk [of pe opr fs] have "Dk_path (Fs_disk fs) = Some data \<or> unm data = Some (takeSnapshot pe (storeStep opr (Fs_mem fs)))"
      using disk_cases [OF json operation(3), of "last (stepDisks pe opr fs)" opr fs data] persistDisks_last path
      by (auto simp: stepDisks_def)
    then show ?thesis using good m operation(4) by (auto simp: file_good_def)
  qed
  with m show ?thesis by (simp add: operation(1) file_good_def fileStep_mem)
next
  case (restart opr pe d ld)
  obtain data snap where d: "Dk_path d = Some data" "Ld_unmarshal ld data = Some snap" "fs' = \<lparr>Fs_mem = recoverSnapshot ld snap, Fs_disk = d\<rparr>"
    using NewFile_restart [OF restart(8,5)] .
  have "memOK (storeStep opr (Fs_mem fs))" using good restart(1) by (simp add: file_good_def memOK_step)
  then obtain pe' s where s: "memOK s" "persistOK pe'" "unm data = Some (takeSnapshot pe' s)"
    using disk_cases [OF json restart(2,4) d(1)] good restart(3) by (auto simp: file_good_def)
  then have "snap = takeSnapshot pe' s" using d(2) restart(6) by simp
  then have "memOK (recoverSnapshot ld snap)"
    using recover_snapshot [OF _ _ s(2) restart(7), of s] s(1) by (simp add: memOK_def recoverSnapshot_def Let_def)
  then show ?thesis using s d by (auto simp: file_good_def)
qed

lemma file_handed_step:
  assumes json: "jsonOK ms unm" and good: "file_good unm fs" and step: "file_step ms unm fs fs'" and hand: "file_handed unm fs k"
  shows "file_handed unm fs' k"
  using step
proof cases
  case (operation opr pe)
  have m: "handedIn (st_outbox (storeStep opr (Fs_mem fs))) k"
    using good hand operation(2) handedIn_step by (simp add: file_good_def file_handed_def)
  have "handedIn (Sh_Outbox snap) k" if path: "Dk_path (Fs_disk (fileStep pe opr fs)) = Some data" "unm data = Some snap" for data snap
  proof -
    from fileStep_disk [of pe opr fs] have "Dk_path (Fs_disk fs) = Some data \<or> unm data = Some (takeSnapshot pe (storeStep opr (Fs_mem fs)))"
      using disk_cases [OF json operation(3), of "last (stepDisks pe opr fs)" opr fs data] persistDisks_last path
      by (auto simp: stepDisks_def)
    then show ?thesis using hand m path(2) by (auto simp: file_handed_def takeSnapshot_def)
  qed
  with m show ?thesis by (auto simp: operation(1) file_handed_def fileStep_mem)
next
  case (restart opr pe d ld)
  obtain data snap where d: "Dk_path d = Some data" "Ld_unmarshal ld data = Some snap" "fs' = \<lparr>Fs_mem = recoverSnapshot ld snap, Fs_disk = d\<rparr>"
    using NewFile_restart [OF restart(8,5)] .
  have ok: "memOK (storeStep opr (Fs_mem fs))" and m: "handedIn (st_outbox (storeStep opr (Fs_mem fs))) k"
    using good hand restart(1) memOK_step handedIn_step by (simp_all add: file_good_def file_handed_def)
  obtain pe' s where s: "memOK s" "persistOK pe'" "snap = takeSnapshot pe' s" "handedIn (st_outbox s) k"
  proof (cases "unm data = Some (takeSnapshot pe (storeStep opr (Fs_mem fs)))")
    case True
    then show ?thesis using that [of "storeStep opr (Fs_mem fs)" pe] ok m restart(3,6) d(2) by simp
  next
    case False
    then have "Dk_path (Fs_disk fs) = Some data" using disk_cases [OF json restart(2,4) d(1)] by simp
    then show ?thesis using good hand that d(2) restart(6) by (fastforce simp: file_good_def file_handed_def takeSnapshot_def)
  qed
  have "restarted s (recoverSnapshot ld snap)"
    using recover_snapshot(1) [OF _ _ s(2) restart(7), of s] s(1,3) by (simp add: memOK_def)
  then have "handedIn (st_outbox (recoverSnapshot ld snap)) k"
    using s(4) unclaim_handed by (auto simp: handedIn_def restarted_def)
  then show ?thesis using d restart(6) s(3,4) by (simp add: file_handed_def takeSnapshot_def)
qed

lemma handedIn_unclaimed:
  assumes "store_inv s" "handedIn (st_outbox s) k"
  shows "k \<notin> Ob_ID ` set (fst (ClaimOutbox now w l s))"
proof -
  obtain i where i: "map_of (st_outbox s) k = Some i" "handed_over i" using assms(2) by (auto simp: handedIn_def)
  show ?thesis using handed_over_unclaimed [OF assms(1) _ i, of "[]" now w l] by simp
qed

definition claimable :: "MemoryStore \<Rightarrow> int set" where
  "claimable s = (\<Union>now w l. Ob_ID ` set (fst (ClaimOutbox now w l s)))"

lemma handedIn_not_claimable: "store_inv s \<Longrightarrow> handedIn (st_outbox s) k \<Longrightarrow> k \<notin> claimable s"
  using handedIn_unclaimed by (auto simp: claimable_def)

text \<open>
  What the workers need of a store: an item that was handed over stays so in every step, and no claim returns it. The
  memory store and the store in a file both provide it.
\<close>

locale claim_once =
  fixes step :: "'s \<Rightarrow> 's \<Rightarrow> bool" and good :: "'s \<Rightarrow> bool" and handed :: "'s \<Rightarrow> int \<Rightarrow> bool" and claims :: "'s \<Rightarrow> int set"
  assumes good_step: "good s \<Longrightarrow> step s t \<Longrightarrow> good t"
    and handed_step: "good s \<Longrightarrow> step s t \<Longrightarrow> handed s k \<Longrightarrow> handed t k"
    and handed_unclaimed: "good s \<Longrightarrow> handed s k \<Longrightarrow> k \<notin> claims s"
begin

lemma good_run: "step\<^sup>*\<^sup>* s t \<Longrightarrow> good s \<Longrightarrow> good t"
  by (induction rule: rtranclp_induct) (auto intro: good_step)

lemma handed_run: "step\<^sup>*\<^sup>* s t \<Longrightarrow> good s \<Longrightarrow> handed s k \<Longrightarrow> handed t k"
  by (induction rule: rtranclp_induct) (auto intro: good_run handed_step)

lemma never_again: "step\<^sup>*\<^sup>* s t \<Longrightarrow> good s \<Longrightarrow> handed s k \<Longrightarrow> k \<notin> claims t"
  using good_run handed_run handed_unclaimed by blast

end

definition memory_step :: "MemoryStore \<Rightarrow> MemoryStore \<Rightarrow> bool" where
  "memory_step s t \<longleftrightarrow> (\<exists>opr. orderOK opr \<and> t = storeStep opr s)"

interpretation memory_once: claim_once memory_step memOK "\<lambda>s. handedIn (st_outbox s)" claimable
proof unfold_locales
  show "k \<notin> claimable s" if "memOK s" "handedIn (st_outbox s) k" for s k
    using that handedIn_not_claimable by (simp add: memOK_def)
qed (auto simp: memory_step_def memOK_step handedIn_step)

interpretation file_once: claim_once "file_step ms unm" "\<lambda>fs. jsonOK ms unm \<and> file_good unm fs" "file_handed unm" "\<lambda>fs. claimable (Fs_mem fs)"
  for ms unm
proof unfold_locales
  show "k \<notin> claimable (Fs_mem fs)" if "jsonOK ms unm \<and> file_good unm fs" "file_handed unm fs k" for fs k
    using that handedIn_not_claimable by (simp add: file_good_def file_handed_def memOK_def)
qed (auto intro: file_good_step file_handed_step)

subsection \<open>Properties\<close>

definition freshFile :: "bytes option \<Rightarrow> FileStore" where
  "freshFile bak = \<lparr>Fs_mem = NewMemory, Fs_disk = \<lparr>Dk_path = None, Dk_bak = bak\<rparr>\<rparr>"

lemma freshFile_good: "file_good unm (freshFile bak)"
  by (simp add: file_good_def freshFile_def memOK_NewMemory)


text \<open>A codec that knows one snapshot, and a disk on which every call succeeds.\<close>

definition examplePersist :: "(fileSnapshot \<Rightarrow> bytes option) \<Rightarrow> PersistEnv" where
  "examplePersist ms = \<lparr>Pe_marshal = ms, Pe_now = 9, Pe_idemOrder = id, Pe_quotaOrder = id, Pe_fail = (\<lambda>_. False)\<rparr>"

definition exampleSnapshot :: fileSnapshot where
  "exampleSnapshot = takeSnapshot (examplePersist (\<lambda>_. None)) (snd (MarkOutboxSending 1 ''w'' (exampleStore ''claimed'')))"

definition exampleMarshal :: "fileSnapshot \<Rightarrow> bytes option" where
  "exampleMarshal snap = (if snap = exampleSnapshot then Some [1] else None)"

definition exampleLoad :: LoadEnv where
  "exampleLoad = \<lparr>Ld_unmarshal = (\<lambda>_. Some exampleSnapshot), Ld_pendingOrder = id, Ld_outboxOrder = id, Ld_readFails = False\<rparr>"

lemma example_json: "jsonOK exampleMarshal (Ld_unmarshal exampleLoad)" "persistOK (examplePersist ms)" "loadOK exampleLoad"
  by (auto simp: jsonOK_def exampleMarshal_def exampleLoad_def persistOK_def examplePersist_def loadOK_def split: if_splits)

lemma example_mark:
  "MarkOutboxSending 1 ''w'' (exampleStore ''claimed'') = (Inr (), putOutbox 1 (exampleItem ''sending'') (exampleStore ''claimed''))"
  by (simp add: MarkOutboxSending_def exampleStore_outbox) (simp add: exampleItem_def)




end
