(* ===== verification/Go_Float.thy ===== *)
theory Go_Float
  imports Go_Strconv "HOL-Library.Log_Nat"
begin

text \<open>
  \<open>float64\<close> arithmetic. A value is the rational number it stands for and every operation rounds its
  exact result to 53 significant bits, ties to even. The exponent range is left out: the values
  of the program lie between nanoseconds and counts below 2 to the power 64.
\<close>

subsection \<open>Rounding to an integer\<close>

definition roundEven :: "rat \<Rightarrow> int" where
  "roundEven x =
     (let f = \<lfloor>x\<rfloor>; r = x - of_int f in
      if r < 1 / 2 then f else if 1 / 2 < r then f + 1 else if even f then f else f + 1)"

lemma roundEven_int [simp]: "roundEven (of_int n) = n"
  by (simp add: roundEven_def)

lemma roundEven_floor: "\<lfloor>x\<rfloor> \<le> roundEven x" "roundEven x \<le> \<lfloor>x\<rfloor> + 1"
  by (auto simp: roundEven_def Let_def)

lemma roundEven_mono:
  assumes "x \<le> y"
  shows "roundEven x \<le> roundEven y"
proof (cases "\<lfloor>x\<rfloor> = \<lfloor>y\<rfloor>")
  case True
  then show ?thesis
    using assms by (auto simp: roundEven_def Let_def)
next
  case False
  then have "\<lfloor>x\<rfloor> + 1 \<le> \<lfloor>y\<rfloor>"
    using floor_mono [OF assms] by simp
  then show ?thesis
    using roundEven_floor [of x] roundEven_floor [of y] by simp
qed

subsection \<open>The binary exponent\<close>

definition binExp :: "rat \<Rightarrow> int" where
  "binExp x =
     (case quotient_of x of (p, q) \<Rightarrow>
        let e = bitlen p - bitlen q in if 2 powi e \<le> x then e else e - 1)"

lemma bitlen_powi:
  assumes "0 < n"
  shows "2 powi (bitlen n - 1) \<le> (of_int n :: rat)" "(of_int n :: rat) < 2 powi bitlen n"
proof -
  have b: "0 < bitlen n"
    using assms bitlen_bounds [OF assms] by (cases "bitlen n = 0") (auto simp: bitlen_def)
  have "2 ^ nat (bitlen n - 1) \<le> n" "n < 2 ^ nat (bitlen n)"
    using bitlen_bounds [OF assms] by auto
  then have "of_int (2 ^ nat (bitlen n - 1)) \<le> (of_int n :: rat)"
    "(of_int n :: rat) < of_int (2 ^ nat (bitlen n))"
    by (simp_all only: of_int_le_iff of_int_less_iff)
  then show "2 powi (bitlen n - 1) \<le> (of_int n :: rat)" "(of_int n :: rat) < 2 powi bitlen n"
    using b by (simp_all add: power_int_def)
qed

lemma binExp_bounds:
  assumes "0 < x"
  shows "2 powi binExp x \<le> x" "x < 2 powi (binExp x + 1)"
proof -
  obtain p q where pq: "quotient_of x = (p, q)"
    by force
  have q: "0 < q"
    using quotient_of_denom_pos [OF pq] .
  have x: "x = of_int p / of_int q"
    using quotient_of_div [OF pq] .
  have p: "0 < p"
    using assms q by (simp add: x zero_less_divide_iff)
  define e where "e = bitlen p - bitlen q"
  have "x < 2 powi bitlen p / 2 powi (bitlen q - 1)"
    unfolding x using bitlen_powi(2) [OF p] bitlen_powi(1) [OF q] p
    by (intro frac_less) auto
  also have "\<dots> = 2 powi (e + 1)"
    by (simp add: e_def power_int_diff [symmetric] algebra_simps)
  finally have up: "x < 2 powi (e + 1)" .
  have "2 powi (bitlen p - 1) / 2 powi bitlen q \<le> x"
    unfolding x using bitlen_powi(1) [OF p] bitlen_powi(2) [OF q] q p
    by (intro frac_le) auto
  also have "2 powi (bitlen p - 1) / 2 powi bitlen q = (2 :: rat) powi (e - 1)"
    by (simp add: e_def power_int_diff [symmetric] algebra_simps)
  finally have lo: "2 powi (e - 1) \<le> x" .
  show "2 powi binExp x \<le> x" "x < 2 powi (binExp x + 1)"
    using up lo by (auto simp: binExp_def pq e_def [symmetric] Let_def)
qed

lemma binExp_mono:
  assumes "0 < x" "x \<le> y"
  shows "binExp x \<le> binExp y"
proof (rule ccontr)
  assume "\<not> binExp x \<le> binExp y"
  then have "(2 :: rat) powi (binExp y + 1) \<le> 2 powi binExp x"
    by (intro power_int_increasing) auto
  then show False
    using binExp_bounds [of x] binExp_bounds [of y] assms by simp
qed

subsection \<open>Rounding to 53 bits\<close>

definition roundPos :: "rat \<Rightarrow> rat" where
  "roundPos x = (let k = binExp x - 52 in of_int (roundEven (x / 2 powi k)) * 2 powi k)"

definition float64 :: "rat \<Rightarrow> rat" where
  "float64 x = (if x = 0 then 0 else if x < 0 then - roundPos (- x) else roundPos x)"

lemma roundPos_bounds:
  assumes "0 < x"
  shows "2 powi binExp x \<le> roundPos x" "roundPos x \<le> 2 powi (binExp x + 1)"
proof -
  define k where "k = binExp x - 52"
  have pos: "(0 :: rat) < 2 powi k"
    by simp
  have lo: "(of_int (2 ^ 52) :: rat) * 2 powi k = 2 powi binExp x"
    using power_int_add [of "2 :: rat" 52 k] by (simp add: k_def)
  have hi: "(of_int (2 ^ 53) :: rat) * 2 powi k = 2 powi (binExp x + 1)"
    using power_int_add [of "2 :: rat" 53 k] by (simp add: k_def add.commute)
  have "of_int (2 ^ 52) \<le> x / 2 powi k"
    using binExp_bounds(1) [OF assms] pos unfolding lo [symmetric] by (simp add: field_simps)
  then have a: "2 ^ 52 \<le> roundEven (x / 2 powi k)"
    using roundEven_mono [of "of_int (2 ^ 52)" "x / 2 powi k"] by (simp only: roundEven_int)
  have "x / 2 powi k \<le> of_int (2 ^ 53)"
    using binExp_bounds(2) [OF assms] pos unfolding hi [symmetric] by (simp add: field_simps)
  then have b: "roundEven (x / 2 powi k) \<le> 2 ^ 53"
    using roundEven_mono [of "x / 2 powi k" "of_int (2 ^ 53)"] by (simp only: roundEven_int)
  show "2 powi binExp x \<le> roundPos x"
    unfolding lo [symmetric] roundPos_def Let_def k_def [symmetric]
    using a pos by (intro mult_right_mono) (simp_all only: of_int_le_iff less_imp_le)
  show "roundPos x \<le> 2 powi (binExp x + 1)"
    unfolding hi [symmetric] roundPos_def Let_def k_def [symmetric]
    using b pos by (intro mult_right_mono) (simp_all only: of_int_le_iff less_imp_le)
qed

lemma roundPos_mono:
  assumes "0 < x" "x \<le> y"
  shows "roundPos x \<le> roundPos y"
proof (cases "binExp x = binExp y")
  case True
  define k where "k = binExp y - 52"
  have "x / 2 powi k \<le> y / 2 powi k"
    using assms by (simp add: divide_right_mono)
  then have "roundEven (x / 2 powi k) \<le> roundEven (y / 2 powi k)"
    by (rule roundEven_mono)
  then show ?thesis
    unfolding roundPos_def Let_def True k_def [symmetric]
    by (intro mult_right_mono) simp_all
next
  case False
  then have "binExp x + 1 \<le> binExp y"
    using binExp_mono [OF assms] by simp
  then have "(2 :: rat) powi (binExp x + 1) \<le> 2 powi binExp y"
    by (intro power_int_increasing) auto
  then show ?thesis
    using roundPos_bounds [of x] roundPos_bounds [of y] assms by simp
qed

lemma roundPos_pos: "0 < x \<Longrightarrow> 0 < roundPos x"
  using roundPos_bounds(1) [of x] zero_less_power_int [of "2 :: rat" "binExp x"] by linarith

lemma roundPos_int:
  assumes "0 < n" "n < 2 ^ 53"
  shows "roundPos (of_int n) = of_int n"
proof -
  define x :: rat where "x = of_int n"
  define k where "k = binExp x - 52"
  have x: "0 < x"
    using assms by (simp add: x_def)
  have "x < of_int (2 ^ 53)"
    using assms(2) unfolding x_def by (simp only: of_int_less_iff)
  then have "2 powi binExp x < (2 :: rat) powi 53"
    using binExp_bounds(1) [OF x] by (simp add: power_int_def)
  then have "binExp x < 53"
    by (meson not_less one_le_numeral power_int_increasing)
  then have k: "k \<le> 0"
    by (simp add: k_def)
  have "(2 :: rat) powi k = 1 / 2 ^ nat (- k)"
    using k by (auto simp: power_int_def field_simps power_one_over)
  then have "x / 2 powi k = of_int (n * 2 ^ nat (- k))"
    by (simp add: x_def)
  then show ?thesis
    unfolding roundPos_def Let_def x_def [symmetric] k_def [symmetric]
    by (simp only: roundEven_int) (simp add: \<open>2 powi k = 1 / 2 ^ nat (- k)\<close> x_def)
qed

lemma float64_int:
  assumes "\<bar>n\<bar> < 2 ^ 53"
  shows "float64 (of_int n) = of_int n"
proof -
  have "roundPos (of_int (- n)) = of_int (- n)" if "n < 0"
    using that assms by (intro roundPos_int) auto
  moreover have "roundPos (of_int n) = of_int n" if "0 < n"
    using that assms by (intro roundPos_int) auto
  ultimately show ?thesis
    by (auto simp: float64_def)
qed

lemma float64_mono:
  assumes "x \<le> y"
  shows "float64 x \<le> float64 y"
proof -
  consider "0 < x" | "x \<le> 0" "0 \<le> y" | "y < 0"
    using assms by linarith
  then show ?thesis
  proof cases
    case 1
    then show ?thesis
      using assms roundPos_mono [of x y] by (simp add: float64_def)
  next
    case 2
    have "float64 x \<le> 0"
      using 2 roundPos_pos [of "- x"] by (auto simp: float64_def)
    also have "0 \<le> float64 y"
      using 2 roundPos_pos [of y] by (auto simp: float64_def)
    finally show ?thesis .
  next
    case 3
    then show ?thesis
      using assms roundPos_mono [of "- y" "- x"] by (simp add: float64_def)
  qed
qed

lemma float64_nonneg: "0 \<le> x \<Longrightarrow> 0 \<le> float64 x"
  using float64_mono [of 0 x] by (simp add: float64_def)

end
