(* ===== verification/Go_Net.thy ===== *)
theory Go_Net
  imports Go_Strconv
begin

text \<open>
  The parts of Go's \<open>strings\<close>, \<open>net\<close> and \<open>net/netip\<close> packages that the gateway uses: splitting a
  string at a character, host and port of an address, and IP addresses and prefixes.
\<close>

subsection \<open>Searching and splitting\<close>

definition indexByte :: "char \<Rightarrow> string \<Rightarrow> nat option" where
  "indexByte c s = (if c \<in> set s then Some (length (takeWhile (\<lambda>x. x \<noteq> c) s)) else None)"

definition lastIndexByte :: "char \<Rightarrow> string \<Rightarrow> nat option" where
  "lastIndexByte c s =
     (if c \<in> set s then Some (length s - 1 - length (takeWhile (\<lambda>x. x \<noteq> c) (rev s))) else None)"

fun SplitChar :: "char \<Rightarrow> string \<Rightarrow> string list" where
  "SplitChar c [] = [[]]"
| "SplitChar c (x # xs) =
     (if x = c then [] # SplitChar c xs
      else case SplitChar c xs of [] \<Rightarrow> [[x]] | p # ps \<Rightarrow> (x # p) # ps)"

fun JoinChar :: "char \<Rightarrow> string list \<Rightarrow> string" where
  "JoinChar c [] = []"
| "JoinChar c [p] = p"
| "JoinChar c (p # q # ps) = p @ c # JoinChar c (q # ps)"

lemma SplitChar_not_Nil [simp]: "SplitChar c s \<noteq> []"
  by (induction c s rule: SplitChar.induct) (auto split: list.splits)

lemma Join_SplitChar: "JoinChar c (SplitChar c s) = s"
proof (induction c s rule: SplitChar.induct)
  case (2 c x xs)
  obtain p ps where ps: "SplitChar c xs = p # ps"
    by (cases "SplitChar c xs") auto
  then show ?case
    using 2 by (cases ps) auto
qed simp

lemma SplitChar_parts: "p \<in> set (SplitChar c s) \<Longrightarrow> c \<notin> set p"
  by (induction c s arbitrary: p rule: SplitChar.induct) (auto split: list.splits if_splits)

lemma SplitChar_append: "c \<notin> set p \<Longrightarrow> SplitChar c (p @ c # s) = p # SplitChar c s"
  by (induction p) auto

lemma SplitChar_single: "c \<notin> set p \<Longrightarrow> SplitChar c p = [p]"
  by (induction p) auto

subsection \<open>Host and port\<close>

definition SplitHostPort :: "string \<Rightarrow> (string \<times> string) option" where
  "SplitHostPort hostport =
     (case lastIndexByte CHR '':'' hostport of
        None \<Rightarrow> None
      | Some i \<Rightarrow>
          if hd hostport = CHR ''['' then
            (case indexByte CHR '']'' hostport of
               None \<Rightarrow> None
             | Some stop \<Rightarrow>
                 if stop + 1 = length hostport \<or> stop + 1 \<noteq> i then None
                 else if CHR ''['' \<in> set (drop 1 hostport) \<or> CHR '']'' \<in> set (drop (stop + 1) hostport)
                 then None
                 else Some (take (stop - 1) (drop 1 hostport), drop (i + 1) hostport))
          else if CHR '':'' \<in> set (take i hostport) then None
          else if CHR ''['' \<in> set hostport \<or> CHR '']'' \<in> set hostport then None
          else Some (take i hostport, drop (i + 1) hostport))"

subsection \<open>IP addresses\<close>

text \<open>
  An IPv6 address carries its zone, empty when it has none. IPv4-mapped IPv6 addresses stay IPv6
  addresses.
\<close>

datatype Addr = Addr4 bytes | Addr6 bytes string

fun ipv4Fields :: "bool \<Rightarrow> nat \<Rightarrow> nat \<Rightarrow> bytes \<Rightarrow> string \<Rightarrow> bytes option" where
  "ipv4Fields dot val digLen fields [] =
     (if length fields < 3 then None else Some (fields @ [of_nat val]))"
| "ipv4Fields dot val digLen fields (c # cs) =
     (let n = (of_char c :: nat) in
      if 48 \<le> n \<and> n \<le> 57 then
        (if digLen = 1 \<and> val = 0 then None
         else if 255 < val * 10 + (n - 48) then None
         else ipv4Fields False (val * 10 + (n - 48)) (digLen + 1) fields cs)
      else if c = CHR ''.'' then
        (if dot \<or> cs = [] then None
         else if length fields = 3 then None
         else ipv4Fields True 0 0 (fields @ [of_nat val]) cs)
      else None)"

definition parseIPv4Fields :: "string \<Rightarrow> bytes option" where
  "parseIPv4Fields s = ipv4Fields True 0 0 [] s"

definition isHexChar :: "char \<Rightarrow> bool" where
  "isHexChar c = (case digitVal c of None \<Rightarrow> False | Some d \<Rightarrow> d < 16)"

definition hexVal :: "string \<Rightarrow> nat" where
  "hexVal s = foldl (\<lambda>acc c. acc * 16 + (case digitVal c of None \<Rightarrow> 0 | Some d \<Rightarrow> d)) 0 s"

lemma dropWhile_shorter:
  "dropWhile P s = c # more \<Longrightarrow> length more < length s \<and> length more - Suc 0 < length s"
  using length_dropWhile_le [of P s] by auto

function ipv6Loop :: "string \<Rightarrow> bytes \<Rightarrow> nat option \<Rightarrow> (bytes \<times> nat option \<times> string) option" where
  "ipv6Loop s ip ellipsis =
     (if 16 \<le> length ip then Some (ip, ellipsis, s)
      else
        let h = takeWhile isHexChar s; rest = dropWhile isHexChar s in
        if h = [] \<or> 4 < length h then None
        else if rest \<noteq> [] \<and> hd rest = CHR ''.'' then
          (if (ellipsis = None \<and> length ip \<noteq> 12) \<or> 16 < length ip + 4 then None
           else (case parseIPv4Fields s of
                   None \<Rightarrow> None
                 | Some fields \<Rightarrow> Some (ip @ fields, ellipsis, [])))
        else
          let ip2 = ip @ [of_nat (hexVal h div 256), of_nat (hexVal h)] in
          case rest of
            [] \<Rightarrow> Some (ip2, ellipsis, [])
          | c # more \<Rightarrow>
              if c \<noteq> CHR '':'' \<or> more = [] then None
              else if hd more = CHR '':'' then
                (if ellipsis \<noteq> None then None
                 else if tl more = [] then Some (ip2, Some (length ip2), [])
                 else ipv6Loop (tl more) ip2 (Some (length ip2)))
              else ipv6Loop more ip2 ellipsis)"
  by pat_completeness auto
termination
  by (relation "measure (\<lambda>(s, ip, e). length s)") (auto dest: dropWhile_shorter [OF sym])

declare ipv6Loop.simps [simp del]

definition expandEllipsis :: "bytes \<times> nat option \<times> string \<Rightarrow> bytes option" where
  "expandEllipsis = (\<lambda>(ip, ellipsis, s).
     if s \<noteq> [] then None
     else if length ip < 16 then
       (case ellipsis of
          None \<Rightarrow> None
        | Some e \<Rightarrow> Some (take e ip @ replicate (16 - length ip) 0 @ drop e ip))
     else if ellipsis \<noteq> None then None
     else Some ip)"

definition parseIPv6 :: "string \<Rightarrow> Addr option" where
  "parseIPv6 inp =
     (let s = takeWhile (\<lambda>c. c \<noteq> CHR ''%'') inp; tail = dropWhile (\<lambda>c. c \<noteq> CHR ''%'') inp; zone = tl tail in
      if tail \<noteq> [] \<and> zone = [] then None
      else
        let lead = HasPrefix s ''::''; s2 = (if lead then drop 2 s else s) in
        if lead \<and> s2 = [] then Some (Addr6 (replicate 16 0) zone)
        else case ipv6Loop s2 [] (if lead then Some 0 else None) of
               None \<Rightarrow> None
             | Some r \<Rightarrow> map_option (\<lambda>ip. Addr6 ip zone) (expandEllipsis r))"

definition ParseAddr :: "string \<Rightarrow> Addr option" where
  "ParseAddr s =
     (case dropWhile (\<lambda>c. c \<notin> {CHR ''.'', CHR '':'', CHR ''%''}) s of
        [] \<Rightarrow> None
      | c # _ \<Rightarrow>
          if c = CHR ''.'' then map_option Addr4 (parseIPv4Fields s)
          else if c = CHR '':'' then parseIPv6 s
          else None)"

definition Is4 :: "Addr \<Rightarrow> bool" where
  "Is4 a = (case a of Addr4 _ \<Rightarrow> True | Addr6 _ _ \<Rightarrow> False)"

definition addrBytes :: "Addr \<Rightarrow> bytes" where
  "addrBytes a = (case a of Addr4 bs \<Rightarrow> bs | Addr6 bs _ \<Rightarrow> bs)"

definition hasZone :: "Addr \<Rightarrow> bool" where
  "hasZone a = (case a of Addr4 _ \<Rightarrow> False | Addr6 _ z \<Rightarrow> z \<noteq> [])"

definition withoutZone :: "Addr \<Rightarrow> Addr" where
  "withoutZone a = (case a of Addr4 bs \<Rightarrow> Addr4 bs | Addr6 bs _ \<Rightarrow> Addr6 bs [])"

definition BitLen :: "Addr \<Rightarrow> nat" where
  "BitLen a = (if Is4 a then 32 else 128)"

subsection \<open>Prefixes\<close>

record Prefix =
  Pre_ip :: Addr
  Pre_bits :: nat

definition addrBits :: "Addr \<Rightarrow> bool list" where
  "addrBits a = concat (map (\<lambda>b. map (\<lambda>i. bit b (7 - i)) [0..<8]) (addrBytes a))"

text \<open>The code only builds prefixes whose length is within the address's width.\<close>

definition PrefixFrom :: "Addr \<Rightarrow> nat \<Rightarrow> Prefix" where
  "PrefixFrom a bits = \<lparr>Pre_ip = withoutZone a, Pre_bits = bits\<rparr>"

definition ParsePrefix :: "string \<Rightarrow> Prefix option" where
  "ParsePrefix s =
     (case lastIndexByte CHR ''/'' s of
        None \<Rightarrow> None
      | Some i \<Rightarrow>
          (case ParseAddr (take i s) of
            None \<Rightarrow> None
          | Some a \<Rightarrow>
              let bitsStr = drop (i + 1) s in
              if hasZone a then None
              else if 1 < length bitsStr \<and>
                      \<not> (49 \<le> (of_char (hd bitsStr) :: nat) \<and> (of_char (hd bitsStr) :: nat) \<le> 57)
              then None
              else case Atoi bitsStr of (bits, ok) \<Rightarrow>
                if \<not> ok \<or> bits < 0 \<or> int (BitLen a) < bits then None
                else Some (PrefixFrom a (nat bits))))"

definition prefixContains :: "Prefix \<Rightarrow> Addr \<Rightarrow> bool" where
  "prefixContains p a \<longleftrightarrow>
     \<not> hasZone a \<and> Is4 a = Is4 (Pre_ip p) \<and>
     take (Pre_bits p) (addrBits a) = take (Pre_bits p) (addrBits (Pre_ip p))"

lemmas netip_eval = ParseAddr_def parseIPv4Fields_def parseIPv6_def ipv6Loop.simps expandEllipsis_def
  isHexChar_def hexVal_def digitVal_def indexByte_def lastIndexByte_def Let_def

lemma ParseAddr_examples:
  "ParseAddr ''10.0.0.7'' = Some (Addr4 [10, 0, 0, 7])"
  "ParseAddr ''10.0.07.1'' = None"
  "ParseAddr ''::1'' = Some (Addr6 (replicate 15 0 @ [1]) [])"
  by (simp_all add: netip_eval HasPrefix_def replicate_num)

lemma ParsePrefix_example:
  "ParsePrefix ''10.0.0.0/8'' = Some \<lparr>Pre_ip = Addr4 [10, 0, 0, 0], Pre_bits = 8\<rparr>"
  by (simp add: netip_eval ParsePrefix_def hasZone_def Atoi_def ParseUint_def BitLen_def Is4_def
      PrefixFrom_def withoutZone_def)

lemma SplitHostPort_examples:
  "SplitHostPort ''10.0.0.7:8080'' = Some (''10.0.0.7'', ''8080'')"
  "SplitHostPort ''[::1]:80'' = Some (''::1'', ''80'')"
  "SplitHostPort ''a:b:c'' = None"
  by (simp_all add: SplitHostPort_def netip_eval)

end
