(* ===== verification/Go_Time.thy ===== *)
theory Go_Time
  imports Go_Float Go_Net
begin

text \<open>
  The parts of Go's \<open>time\<close> package the gateway uses beyond instants: parsing a duration and the wall
  clock of an instant in a zone, given by the zone's offset at that instant.
\<close>

subsection \<open>64-bit signed integers\<close>

definition wrap64 :: "int \<Rightarrow> int" where
  "wrap64 n = (n + 2 ^ 63) mod 2 ^ 64 - 2 ^ 63"

lemma wrap64_id: "- (2 ^ 63) \<le> n \<Longrightarrow> n < 2 ^ 63 \<Longrightarrow> wrap64 n = n"
  by (simp add: wrap64_def)

lemma wrap64_range: "- (2 ^ 63) \<le> wrap64 n" "wrap64 n < 2 ^ 63"
  by (simp_all add: wrap64_def)

subsection \<open>Durations\<close>

definition isDigitChar :: "char \<Rightarrow> bool" where
  "isDigitChar c \<longleftrightarrow> 48 \<le> (of_char c :: nat) \<and> (of_char c :: nat) \<le> 57"

fun leadingInt :: "nat \<Rightarrow> string \<Rightarrow> (nat \<times> string) option" where
  "leadingInt x [] = Some (x, [])"
| "leadingInt x (c # cs) =
     (if \<not> isDigitChar c then Some (x, c # cs)
      else if 2 ^ 63 div 10 < x then None
      else let y = x * 10 + (of_char c - 48) in
           if 2 ^ 63 < y then None else leadingInt y cs)"

fun leadingFraction :: "nat \<Rightarrow> rat \<Rightarrow> bool \<Rightarrow> string \<Rightarrow> nat \<times> rat \<times> string" where
  "leadingFraction x scale overflow [] = (x, scale, [])"
| "leadingFraction x scale overflow (c # cs) =
     (if \<not> isDigitChar c then (x, scale, c # cs)
      else if overflow \<or> (2 ^ 63 - 1) div 10 < x then leadingFraction x scale True cs
      else let y = x * 10 + (of_char c - 48) in
           if 2 ^ 63 < y then leadingFraction x scale True cs
           else leadingFraction y (float64 (scale * 10)) False cs)"

definition unitMap :: "(string, nat) gomap" where
  "unitMap = [(''ns'', 1), (''us'', 1000), ([CHR 0xC2, CHR 0xB5, CHR ''s''], 1000),
     ([CHR 0xCE, CHR 0xBC, CHR ''s''], 1000), (''ms'', 1000000), (''s'', 1000000000),
     (''m'', 60000000000), (''h'', 3600000000000)]"

definition fractionPart :: "nat \<Rightarrow> nat \<Rightarrow> rat \<Rightarrow> nat" where
  "fractionPart f u scale = nat \<lfloor>float64 (float64 (of_nat f) * float64 (of_nat u / scale))\<rfloor>"

text \<open>One number with its unit; the number's value in nanoseconds and the rest of the string.\<close>

definition durationTerm :: "string \<Rightarrow> (nat \<times> string) option" where
  "durationTerm s =
     (if s = [] \<or> \<not> (hd s = CHR ''.'' \<or> isDigitChar (hd s)) then None
      else case leadingInt 0 s of
        None \<Rightarrow> None
      | Some (v, s1) \<Rightarrow>
          let pre = (length s \<noteq> length s1);
              dot = (s1 \<noteq> [] \<and> hd s1 = CHR ''.'');
              (f, scale, s2) = (if dot then leadingFraction 0 1 False (tl s1) else (0, 1, s1));
              post = (dot \<and> length (tl s1) \<noteq> length s2);
              u = takeWhile (\<lambda>c. c \<noteq> CHR ''.'' \<and> \<not> isDigitChar c) s2;
              rest = dropWhile (\<lambda>c. c \<noteq> CHR ''.'' \<and> \<not> isDigitChar c) s2
          in if (\<not> pre \<and> \<not> post) \<or> u = [] then None
             else (case map_of unitMap u of
                     None \<Rightarrow> None
                   | Some scaleUnit \<Rightarrow>
                       if 2 ^ 63 div scaleUnit < v then None
                       else let w = v * scaleUnit + (if 0 < f then fractionPart f scaleUnit scale else 0)
                            in if 2 ^ 63 < w then None else Some (w, rest)))"

fun durationLoop :: "nat \<Rightarrow> nat \<Rightarrow> string \<Rightarrow> nat option" where
  "durationLoop 0 d s = None"
| "durationLoop (Suc fuel) d s =
     (if s = [] then Some d
      else case durationTerm s of
             None \<Rightarrow> None
           | Some (v, rest) \<Rightarrow> if 2 ^ 63 < d + v then None else durationLoop fuel (d + v) rest)"

definition ParseDuration :: "string \<Rightarrow> duration option" where
  "ParseDuration orig =
     (let signed = (orig \<noteq> [] \<and> (hd orig = CHR ''-'' \<or> hd orig = CHR ''+''));
          neg = (orig \<noteq> [] \<and> hd orig = CHR ''-'');
          s = (if signed then tl orig else orig)
      in if s = ''0'' then Some 0
         else if s = [] then None
         else case durationLoop (length s + 1) 0 s of
                None \<Rightarrow> None
              | Some d \<Rightarrow>
                  if neg then Some (wrap64 (- int d))
                  else if 2 ^ 63 - 1 < d then None
                  else Some (int d))"

lemma leadingInt_length: "leadingInt x s = Some (v, r) \<Longrightarrow> length r \<le> length s"
  by (induction x s rule: leadingInt.induct) (auto simp: Let_def split: if_splits)

lemma leadingFraction_length: "leadingFraction x sc ov s = (f, sc2, r) \<Longrightarrow> length r \<le> length s"
  by (induction s arbitrary: x sc ov) (fastforce simp: Let_def split: if_splits)+

text \<open>
  Each term consumes at least its unit, so one more step than the string has characters is enough
  fuel: a larger amount gives the same result.
\<close>

lemma durationTerm_shorter: "durationTerm s = Some (v, r) \<Longrightarrow> length r < length s"
proof -
  assume a: "durationTerm s = Some (v, r)"
  let ?P = "\<lambda>c. c \<noteq> CHR ''.'' \<and> \<not> isDigitChar c"
  obtain v1 s1 where li: "leadingInt 0 s = Some (v1, s1)"
    using a by (auto simp: durationTerm_def split: if_splits option.splits)
  define dot where "dot = (s1 \<noteq> [] \<and> hd s1 = CHR ''.'')"
  obtain f scale s2 where fr: "(if dot then leadingFraction 0 1 False (tl s1) else (0, 1, s1)) = (f, scale, s2)"
    by (metis prod_cases3)
  have s2: "length s2 \<le> length s1"
    using fr leadingFraction_length [of 0 1 False "tl s1"] by (auto split: if_splits)
  have r: "r = dropWhile ?P s2" "takeWhile ?P s2 \<noteq> []"
    using a by (auto simp: durationTerm_def li dot_def [symmetric] fr Let_def split: if_splits option.splits)
  have "length (takeWhile ?P s2) + length (dropWhile ?P s2) = length s2"
    by (simp flip: length_append)
  then have "length r < length s2"
    using r by (cases "takeWhile ?P s2") auto
  then show ?thesis
    using s2 leadingInt_length [OF li] by simp
qed

lemma durationLoop_fuel:
  "length s < n \<Longrightarrow> length s < m \<Longrightarrow> durationLoop n d s = durationLoop m d s"
proof (induction n arbitrary: m d s)
  case (Suc n)
  then obtain k where m: "m = Suc k"
    by (cases m) auto
  have "durationLoop n (d + v) r = durationLoop k (d + v) r" if "durationTerm s = Some (v, r)" for v r
    using Suc.prems durationTerm_shorter [OF that] by (intro Suc.IH) (auto simp: m)
  then show ?case
    by (auto simp: m split: option.splits)
qed simp

lemma ParseDuration_range:
  assumes "ParseDuration s = Some d"
  shows "- (2 ^ 63) \<le> d \<and> d < 2 ^ 63"
  using assms wrap64_range by (auto simp: ParseDuration_def Let_def split: if_splits option.splits)

lemmas duration_eval = ParseDuration_def durationTerm_def isDigitChar_def unitMap_def

lemma ParseDuration_30s: "ParseDuration ''30s'' = Some (30 * Second)"
  by (simp add: duration_eval)

subsection \<open>The wall clock\<close>

record WallTime =
  Wt_instant :: gotime
  Wt_offset :: int

definition localNanos :: "WallTime \<Rightarrow> int" where
  "localNanos t = Wt_instant t + Wt_offset t * Second"

definition wallHour :: "WallTime \<Rightarrow> int" where
  "wallHour t = localNanos t div Hour mod 24"

definition wallMinute :: "WallTime \<Rightarrow> int" where
  "wallMinute t = localNanos t div Minute mod 60"

text \<open>Time zero is a Monday; Sunday is day 0 of the week.\<close>

definition Weekday :: "WallTime \<Rightarrow> int" where
  "Weekday t = (localNanos t div (24 * Hour) + 1) mod 7"

end
