(* ===== verification/Gw_Config.thy ===== *)
theory Gw_Config
  imports Go_Time
begin

text \<open>
  The configuration of the gateway (\<open>config/config.go\<close>): the records of a configuration file, the
  defaults and their filling in. A pointer that may be nil is an option; a map is an association
  list.
\<close>

subsection \<open>Constants\<close>

definition PlaceholderSecret :: string where "PlaceholderSecret = ''CHANGE_ME_BEFORE_DEPLOY''"
definition AutoGenerateSecret :: string where "AutoGenerateSecret = ''AUTO_GENERATE_ON_FIRST_RUN''"

definition DefaultHTTPAddr :: string where "DefaultHTTPAddr = ''127.0.0.1:19087''"
definition DefaultSMPPAddr :: string where "DefaultSMPPAddr = ''127.0.0.1:29175''"

abbreviation (input) SMPPMaxSystemID :: nat where "SMPPMaxSystemID \<equiv> 15"
abbreviation (input) SMPPMaxPassword :: nat where "SMPPMaxPassword \<equiv> 8"
abbreviation (input) SMPPMaxSystemType :: nat where "SMPPMaxSystemType \<equiv> 12"

subsection \<open>Records\<close>

record ServerConfig =
  Srv_HTTPAddr :: string
  Srv_ShutdownTimeout :: string

record SMPPConfig =
  Smc_Addr :: string
  Smc_SystemID :: string
  Smc_Password :: string
  Smc_SystemType :: string
  Smc_MaxSessions :: int
  Smc_MaxSessionsPerSystemID :: int
  Smc_WindowSize :: int
  Smc_EnquirePeriod :: string

record DispatcherConfig =
  Dc_Workers :: int
  Dc_PerWorkerConcurrency :: int
  Dc_ClaimLimit :: int
  Dc_PollIntervalMS :: int
  Dc_PendingTTL :: string
  Dc_MaxAttempts :: int
  Dc_ClaimTimeout :: string
  Dc_PendingSweepInterval :: string
  Dc_ValidateDestAddr :: "bool option"

record ESMECred =
  Es_SystemID :: string
  Es_Password :: string
  Es_TenantID :: string
  Es_Enabled :: "bool option"

record ClientAuth =
  Cl_ClientID :: string
  Cl_Token :: string
  Cl_Enabled :: bool
  Cl_TenantID :: string
  Cl_AllowedIPs :: "string list"

record TenantLimits =
  Tl_TPS :: int
  Tl_Burst :: int
  Tl_DailySegments :: int
  Tl_Timezone :: string

record TenantConfig =
  Tn_TenantID :: string
  Tn_Enabled :: "bool option"
  Tn_Limits :: TenantLimits

record RiskConfig =
  Rk_BlockedToPrefix :: "string list"
  Rk_BlockedKeywords :: "string list"
  Rk_PerNumberPerMinute :: int
  Rk_PerNumberPerDay :: int
  Rk_PerClientPerSecond :: int

record AddrRewriteConfig =
  Ar_StripTrunkZeroAfterCC :: bool
  Ar_CountryCode :: string
  Ar_AddPrefix :: string
  Ar_EnforceE164Len :: bool

record DestAddrConfig =
  Da_Validate :: "bool option"
  Da_AllowShortCode :: bool
  Da_MinShortLen :: int
  Da_MaxShortLen :: int
  Da_CountryLengthMode :: string

record WeightedProvider =
  Wp_Provider :: string
  Wp_Weight :: int

record TimeWindow =
  Tw_Days :: "string list"
  Tw_Start :: string
  Tw_End :: string

record RouteConfig =
  Rt_Name :: string
  Rt_Prefix :: "string list"
  Rt_Provider :: string
  Rt_Priority :: int
  Rt_AddrRewrite :: AddrRewriteConfig
  Rt_DestAddr :: DestAddrConfig
  Rt_Enabled :: "bool option"
  Rt_FromPrefix :: "string list"
  Rt_SystemIDs :: "string list"
  Rt_ClientIDs :: "string list"
  Rt_ContentTags :: "string list"
  Rt_TimeWindows :: "TimeWindow list"
  Rt_Weighted :: "WeightedProvider list"
  Rt_Failover :: "string list"

record NormalizeConfig =
  Nz_Lowercase :: bool
  Nz_FullToHalf :: bool
  Nz_StripZeroWidth :: bool

record FilterRule =
  Fr_Name :: string
  Fr_Enabled :: "bool option"
  Fr_Keywords :: "string list"
  Fr_Regex :: string
  Fr_Action :: string
  Fr_Tag :: string
  Fr_MaskWith :: string
  Fr_Priority :: int

record FilterConfig =
  Fc_Enabled :: bool
  Fc_Normalize :: NormalizeConfig
  Fc_Rules :: "FilterRule list"

record CDRConfig =
  Cd_Enabled :: bool
  Cd_Dir :: string
  Cd_Mode :: string
  Cd_MaxRecords :: int
  Cd_MaxAge :: string
  Cd_Buffer :: int
  Cd_OnFull :: string
  Cd_FsyncEvery :: int
  Cd_FsyncInterval :: string
  Cd_Instance :: string
  Cd_MaskTo :: bool
  Cd_StoreText :: bool

record ProviderRateLimit =
  Rl_TPS :: int
  Rl_Burst :: int
  Rl_TimeoutMS :: int

record SMPPClientConfig =
  Sc_BindMode :: string
  Sc_SystemType :: string
  Sc_Binds :: int
  Sc_WindowSize :: int
  Sc_EnquirePeriod :: string
  Sc_ResponseTimeoutMS :: int
  Sc_ReconnectMin :: string
  Sc_ReconnectMax :: string
  Sc_SourceTON :: int
  Sc_SourceNPI :: int
  Sc_DestTON :: int
  Sc_DestNPI :: int
  Sc_ServiceType :: string
  Sc_ValidityPeriod :: string
  Sc_RegisteredDelivery :: int
  Sc_GSM7Packing :: string
  Sc_LongMessage :: string
  Sc_MessageIDRespFormat :: string
  Sc_MessageIDDLRFormat :: string
  Sc_DLRIDSource :: string
  Sc_RetryOnTimeout :: bool
  Sc_TLS :: bool

record ProviderConfig =
  Pc_Name :: string
  Pc_Protocol :: string
  Pc_Endpoint :: string
  Pc_Rule :: string
  Pc_SystemID :: string
  Pc_Password :: string
  Pc_Enabled :: bool
  Pc_HTTPTimeoutMS :: int
  Pc_RateLimit :: ProviderRateLimit
  Pc_SMPP :: "SMPPClientConfig option"

record ResponseParseConfig =
  Rp_IDPath :: string
  Rp_IDRegex :: string

record HTTPRuleConfig =
  Hr_Name :: string
  Hr_Method :: string
  Hr_Path :: string
  Hr_Provider :: string
  Hr_ContentType :: string
  Hr_AuthHeader :: string
  Hr_AuthToken :: string
  Hr_Fields :: "(string, string) gomap"
  Hr_Headers :: "(string, string) gomap"
  Hr_SuccessStatus :: int
  Hr_SuccessBody :: string
  Hr_Response :: ResponseParseConfig

record StorageConfig =
  Sg_Driver :: string
  Sg_DSN :: string

record AdminConfig =
  Ad_Username :: string
  Ad_Password :: string

record Config =
  Cfg_Server :: ServerConfig
  Cfg_SMPP :: SMPPConfig
  Cfg_Dispatcher :: DispatcherConfig
  Cfg_Tenants :: "TenantConfig list"
  Cfg_ESMEs :: "ESMECred list"
  Cfg_Routes :: "RouteConfig list"
  Cfg_Providers :: "ProviderConfig list"
  Cfg_Inbound :: "HTTPRuleConfig list"
  Cfg_Outbound :: "HTTPRuleConfig list"
  Cfg_Clients :: "ClientAuth list"
  Cfg_TrustedProxies :: "string list"
  Cfg_Risk :: RiskConfig
  Cfg_Filter :: FilterConfig
  Cfg_CDR :: CDRConfig
  Cfg_Storage :: StorageConfig
  Cfg_Admin :: AdminConfig

subsection \<open>Defaults\<close>

definition DefaultSMPPClientConfig :: SMPPClientConfig where
  "DefaultSMPPClientConfig = \<lparr>
     Sc_BindMode = ''transceiver'', Sc_SystemType = [], Sc_Binds = 1, Sc_WindowSize = 16,
     Sc_EnquirePeriod = ''30s'', Sc_ResponseTimeoutMS = 5000,
     Sc_ReconnectMin = ''1s'', Sc_ReconnectMax = ''60s'',
     Sc_SourceTON = -1, Sc_SourceNPI = -1, Sc_DestTON = 1, Sc_DestNPI = 1,
     Sc_ServiceType = [], Sc_ValidityPeriod = [], Sc_RegisteredDelivery = -1,
     Sc_GSM7Packing = ''unpacked'', Sc_LongMessage = ''udh'',
     Sc_MessageIDRespFormat = ''auto'', Sc_MessageIDDLRFormat = ''auto'', Sc_DLRIDSource = ''auto'',
     Sc_RetryOnTimeout = False, Sc_TLS = False\<rparr>"

definition DefaultConfig :: Config where
  "DefaultConfig = \<lparr>
     Cfg_Server = \<lparr>Srv_HTTPAddr = DefaultHTTPAddr, Srv_ShutdownTimeout = ''10s''\<rparr>,
     Cfg_SMPP = \<lparr>Smc_Addr = DefaultSMPPAddr, Smc_SystemID = ''mysmpp'', Smc_Password = [],
       Smc_SystemType = ''gateway'', Smc_MaxSessions = 128, Smc_MaxSessionsPerSystemID = 4,
       Smc_WindowSize = 16, Smc_EnquirePeriod = ''30s''\<rparr>,
     Cfg_Dispatcher = \<lparr>Dc_Workers = 10, Dc_PerWorkerConcurrency = 10, Dc_ClaimLimit = 20,
       Dc_PollIntervalMS = 20, Dc_PendingTTL = ''30m'', Dc_MaxAttempts = 5, Dc_ClaimTimeout = ''60s'',
       Dc_PendingSweepInterval = ''1m'', Dc_ValidateDestAddr = Some True\<rparr>,
     Cfg_Tenants = [], Cfg_ESMEs = [], Cfg_Routes = [], Cfg_Providers = [], Cfg_Inbound = [],
     Cfg_Outbound = [], Cfg_Clients = [], Cfg_TrustedProxies = [],
     Cfg_Risk = \<lparr>Rk_BlockedToPrefix = [], Rk_BlockedKeywords = [], Rk_PerNumberPerMinute = 0,
       Rk_PerNumberPerDay = 0, Rk_PerClientPerSecond = 0\<rparr>,
     Cfg_Filter = \<lparr>Fc_Enabled = False,
       Fc_Normalize = \<lparr>Nz_Lowercase = False, Nz_FullToHalf = False, Nz_StripZeroWidth = False\<rparr>,
       Fc_Rules = []\<rparr>,
     Cfg_CDR = \<lparr>Cd_Enabled = False, Cd_Dir = [], Cd_Mode = [], Cd_MaxRecords = 0, Cd_MaxAge = [],
       Cd_Buffer = 0, Cd_OnFull = [], Cd_FsyncEvery = 0, Cd_FsyncInterval = [], Cd_Instance = [],
       Cd_MaskTo = False, Cd_StoreText = False\<rparr>,
     Cfg_Storage = \<lparr>Sg_Driver = ''memory'', Sg_DSN = []\<rparr>,
     Cfg_Admin = \<lparr>Ad_Username = [], Ad_Password = []\<rparr>\<rparr>"

text \<open>
  Filling in: a field that holds the zero value of its type is replaced by the default.
\<close>

definition strOr :: "string \<Rightarrow> string \<Rightarrow> string" where
  "strOr d s = (if s = [] then d else s)"

definition intOr :: "int \<Rightarrow> int \<Rightarrow> int" where
  "intOr d n = (if n = 0 then d else n)"

definition NormalizeClient :: "SMPPClientConfig \<Rightarrow> SMPPClientConfig" where
  "NormalizeClient c = c\<lparr>
     Sc_BindMode := strOr ''transceiver'' (Sc_BindMode c),
     Sc_Binds := intOr 1 (Sc_Binds c),
     Sc_WindowSize := intOr 16 (Sc_WindowSize c),
     Sc_EnquirePeriod := strOr ''30s'' (Sc_EnquirePeriod c),
     Sc_ResponseTimeoutMS := intOr 5000 (Sc_ResponseTimeoutMS c),
     Sc_ReconnectMin := strOr ''1s'' (Sc_ReconnectMin c),
     Sc_ReconnectMax := strOr ''60s'' (Sc_ReconnectMax c),
     Sc_GSM7Packing := strOr ''unpacked'' (Sc_GSM7Packing c),
     Sc_LongMessage := strOr ''udh'' (Sc_LongMessage c),
     Sc_MessageIDRespFormat := strOr ''auto'' (Sc_MessageIDRespFormat c),
     Sc_MessageIDDLRFormat := strOr ''auto'' (Sc_MessageIDDLRFormat c),
     Sc_DLRIDSource := strOr ''auto'' (Sc_DLRIDSource c)\<rparr>"

definition normServer :: "ServerConfig \<Rightarrow> ServerConfig" where
  "normServer c = c\<lparr>
     Srv_HTTPAddr := strOr DefaultHTTPAddr (Srv_HTTPAddr c),
     Srv_ShutdownTimeout := strOr ''10s'' (Srv_ShutdownTimeout c)\<rparr>"

definition normSMPP :: "SMPPConfig \<Rightarrow> SMPPConfig" where
  "normSMPP c = c\<lparr>
     Smc_Addr := strOr DefaultSMPPAddr (Smc_Addr c),
     Smc_MaxSessionsPerSystemID := intOr 4 (Smc_MaxSessionsPerSystemID c),
     Smc_WindowSize := intOr 16 (Smc_WindowSize c),
     Smc_EnquirePeriod := strOr ''30s'' (Smc_EnquirePeriod c)\<rparr>"

definition normStorage :: "StorageConfig \<Rightarrow> StorageConfig" where
  "normStorage c = c\<lparr>Sg_Driver := strOr ''memory'' (Sg_Driver c)\<rparr>"

definition normDispatcher :: "DispatcherConfig \<Rightarrow> DispatcherConfig" where
  "normDispatcher c = c\<lparr>
     Dc_Workers := intOr 10 (Dc_Workers c),
     Dc_PerWorkerConcurrency := intOr 10 (Dc_PerWorkerConcurrency c),
     Dc_ClaimLimit := intOr 20 (Dc_ClaimLimit c),
     Dc_PollIntervalMS := intOr 20 (Dc_PollIntervalMS c),
     Dc_PendingTTL := strOr ''30m'' (Dc_PendingTTL c),
     Dc_MaxAttempts := intOr 5 (Dc_MaxAttempts c),
     Dc_ClaimTimeout := strOr ''60s'' (Dc_ClaimTimeout c),
     Dc_PendingSweepInterval := strOr ''1m'' (Dc_PendingSweepInterval c),
     Dc_ValidateDestAddr :=
       (case Dc_ValidateDestAddr c of None \<Rightarrow> Some True | Some b \<Rightarrow> Some b)\<rparr>"

definition normRisk :: "RiskConfig \<Rightarrow> RiskConfig" where
  "normRisk c = c\<lparr>
     Rk_PerNumberPerMinute := intOr 5 (Rk_PerNumberPerMinute c),
     Rk_PerNumberPerDay := intOr 20 (Rk_PerNumberPerDay c),
     Rk_PerClientPerSecond := intOr 100 (Rk_PerClientPerSecond c)\<rparr>"

definition normCDR :: "CDRConfig \<Rightarrow> CDRConfig" where
  "normCDR c =
     (if Cd_Enabled c then c\<lparr>
        Cd_Dir := strOr ''data/cdr'' (Cd_Dir c),
        Cd_Mode := strOr ''events'' (Cd_Mode c),
        Cd_MaxRecords := intOr 10000 (Cd_MaxRecords c),
        Cd_MaxAge := strOr ''1h'' (Cd_MaxAge c),
        Cd_Buffer := intOr 65536 (Cd_Buffer c),
        Cd_OnFull := strOr ''block'' (Cd_OnFull c),
        Cd_FsyncInterval := strOr ''2s'' (Cd_FsyncInterval c)\<rparr>
      else c)"

definition normInbound :: "HTTPRuleConfig \<Rightarrow> HTTPRuleConfig" where
  "normInbound r = r\<lparr>
     Hr_Method := strOr ''POST'' (Hr_Method r),
     Hr_SuccessStatus := intOr 200 (Hr_SuccessStatus r)\<rparr>"

definition normOutbound :: "HTTPRuleConfig \<Rightarrow> HTTPRuleConfig" where
  "normOutbound r = r\<lparr>
     Hr_Method := strOr ''POST'' (Hr_Method r),
     Hr_ContentType := strOr ''application/x-www-form-urlencoded'' (Hr_ContentType r)\<rparr>"

definition normProvider :: "ProviderConfig \<Rightarrow> ProviderConfig" where
  "normProvider p = p\<lparr>Pc_SMPP := map_option NormalizeClient (Pc_SMPP p)\<rparr>"

definition normWeighted :: "WeightedProvider \<Rightarrow> WeightedProvider" where
  "normWeighted w = (if Wp_Weight w \<le> 0 then w\<lparr>Wp_Weight := 1\<rparr> else w)"

definition normRoute :: "RouteConfig \<Rightarrow> RouteConfig" where
  "normRoute r = r\<lparr>
     Rt_Enabled := (case Rt_Enabled r of None \<Rightarrow> Some True | Some b \<Rightarrow> Some b),
     Rt_Weighted := map normWeighted (Rt_Weighted r)\<rparr>"

definition NormalizeCfg :: "Config \<Rightarrow> Config" where
  "NormalizeCfg c = c\<lparr>
     Cfg_Server := normServer (Cfg_Server c),
     Cfg_SMPP := normSMPP (Cfg_SMPP c),
     Cfg_Storage := normStorage (Cfg_Storage c),
     Cfg_Dispatcher := normDispatcher (Cfg_Dispatcher c),
     Cfg_Risk := normRisk (Cfg_Risk c),
     Cfg_CDR := normCDR (Cfg_CDR c),
     Cfg_Inbound := map normInbound (Cfg_Inbound c),
     Cfg_Outbound := map normOutbound (Cfg_Outbound c),
     Cfg_Providers := map normProvider (Cfg_Providers c),
     Cfg_Routes := map normRoute (Cfg_Routes c)\<rparr>"

lemmas norm_defs = NormalizeCfg_def normServer_def normSMPP_def normStorage_def normDispatcher_def
  normRisk_def normCDR_def normInbound_def normOutbound_def normProvider_def NormalizeClient_def
  normRoute_def normWeighted_def strOr_def intOr_def

subsection \<open>Reading optional switches\<close>

definition IsAutoGenerate :: "string \<Rightarrow> bool" where
  "IsAutoGenerate v \<longleftrightarrow> v = AutoGenerateSecret"

definition isPlaceholder :: "string \<Rightarrow> bool" where
  "isPlaceholder v \<longleftrightarrow> v = PlaceholderSecret"

definition esmeEnabled :: "ESMECred \<Rightarrow> bool" where
  "esmeEnabled c \<longleftrightarrow> Es_Enabled c \<noteq> Some False"

definition tenantEnabled :: "TenantConfig \<Rightarrow> bool" where
  "tenantEnabled c \<longleftrightarrow> Tn_Enabled c \<noteq> Some False"

definition ValidateDestAddrEnabled :: "DispatcherConfig \<Rightarrow> bool" where
  "ValidateDestAddrEnabled c \<longleftrightarrow> Dc_ValidateDestAddr c \<noteq> Some False"

definition ValidateEnabled :: "DestAddrConfig \<Rightarrow> bool \<Rightarrow> bool" where
  "ValidateEnabled c dflt = (case Da_Validate c of None \<Rightarrow> dflt | Some b \<Rightarrow> b)"

subsection \<open>Filling in twice\<close>

lemma strOr_idem [simp]: "d \<noteq> [] \<Longrightarrow> strOr d (strOr d s) = strOr d s"
  by (simp add: strOr_def)

lemma intOr_idem [simp]: "d \<noteq> 0 \<Longrightarrow> intOr d (intOr d n) = intOr d n"
  by (simp add: intOr_def)

lemma NormalizeClient_idem [simp]: "NormalizeClient (NormalizeClient c) = NormalizeClient c"
  by (simp add: NormalizeClient_def)

lemma norm_parts_idem [simp]:
  "normServer (normServer a) = normServer a"
  "normSMPP (normSMPP b) = normSMPP b"
  "normStorage (normStorage c) = normStorage c"
  "normRisk (normRisk d) = normRisk d"
  "normInbound (normInbound e) = normInbound e"
  "normOutbound (normOutbound e) = normOutbound e"
  "normProvider (normProvider p) = normProvider p"
  "normWeighted (normWeighted w) = normWeighted w"
  by (simp_all add: normServer_def normSMPP_def normStorage_def normRisk_def normInbound_def
      normOutbound_def normProvider_def normWeighted_def DefaultHTTPAddr_def DefaultSMPPAddr_def
      option.map_comp o_def)

lemma normDispatcher_idem [simp]: "normDispatcher (normDispatcher c) = normDispatcher c"
  by (cases "Dc_ValidateDestAddr c") (simp_all add: normDispatcher_def)

lemma normCDR_idem [simp]: "normCDR (normCDR c) = normCDR c"
  by (simp add: normCDR_def)

lemma normRoute_idem [simp]: "normRoute (normRoute r) = normRoute r"
  by (cases "Rt_Enabled r") (simp_all add: normRoute_def o_def)

lemma NormalizeCfg_idem: "NormalizeCfg (NormalizeCfg c) = NormalizeCfg c"
  by (simp add: NormalizeCfg_def o_def)

end
