(* ===== verification/Config_Validate.thy ===== *)
theory Config_Validate
  imports Gw_Config
begin

text \<open>
  The validation of a configuration (\<open>config/config.go\<close>, \<open>validate\<close> and its helpers).

  An error is the format string of the source with its arguments; an error of the standard library
  that is wrapped into it is left out. A list of checks stands for a sequence of early returns.
\<close>

subsection \<open>Sequences of checks\<close>

datatype ConfigError = Errorf string "string list" | Wrapf string "string list" ConfigError

primrec checks :: "('e + unit) list \<Rightarrow> 'e + unit" where
  "checks [] = Inr ()"
| "checks (c # cs) = bindE c (\<lambda>_. checks cs)"

definition forE :: "('a \<Rightarrow> 'e + unit) \<Rightarrow> 'a list \<Rightarrow> 'e + unit" where
  "forE f xs = checks (map f xs)"

definition wrapE :: "string \<Rightarrow> string list \<Rightarrow> ConfigError + unit \<Rightarrow> ConfigError + unit" where
  "wrapE fmt args r = (case r of Inl e \<Rightarrow> Inl (Wrapf fmt args e) | Inr u \<Rightarrow> Inr u)"

lemma checks_ok [simp]: "checks cs = Inr () \<longleftrightarrow> (\<forall>c \<in> set cs. c = Inr ())"
  by (induction cs) (auto simp: bindE_Inr_iff)

lemma forE_ok [simp]: "forE f xs = Inr () \<longleftrightarrow> (\<forall>x \<in> set xs. f x = Inr ())"
  by (simp add: forE_def)

lemma wrapE_ok [simp]: "wrapE fmt args r = Inr () \<longleftrightarrow> r = Inr ()"
  by (cases r) (simp_all add: wrapE_def)

lemma bindE_unit_ok [simp]:
  "bindE (r :: 'e + unit) f = Inr y \<longleftrightarrow> r = Inr () \<and> f () = Inr y"
  by (auto simp: bindE_Inr_iff)

subsection \<open>Small predicates\<close>

text \<open>
  What the configuration cannot decide by itself: whether a regular expression compiles, whether a
  time zone is known, and the order in which a map is visited.
\<close>

record ConfigEnv =
  Ce_regexOK :: "string \<Rightarrow> bool"
  Ce_zoneOK :: "string \<Rightarrow> bool"
  Ce_range :: "(string \<times> string) list \<Rightarrow> (string \<times> string) list"

definition validTONNPI :: "int \<Rightarrow> bool \<Rightarrow> bool" where
  "validTONNPI v allowAuto \<longleftrightarrow> (allowAuto \<and> v = -1) \<or> (0 \<le> v \<and> v \<le> 6)"

definition validIDFormat :: "string \<Rightarrow> bool" where
  "validIDFormat v \<longleftrightarrow> v = ''auto'' \<or> v = ''dec'' \<or> v = ''hex''"

definition alnumChar :: "char \<Rightarrow> bool" where
  "alnumChar c \<longleftrightarrow> (let n = (of_char c :: nat) in
     (65 \<le> n \<and> n \<le> 90) \<or> (97 \<le> n \<and> n \<le> 122) \<or> (48 \<le> n \<and> n \<le> 57))"

definition validPrefix :: "string \<Rightarrow> bool" where
  "validPrefix p \<longleftrightarrow> (\<forall>c \<in> set p. isDigitChar c \<or> c \<in> {CHR ''+'', CHR ''*'', CHR ''#''})"

definition validName :: "string \<Rightarrow> bool" where
  "validName s \<longleftrightarrow> s \<noteq> [] \<and> alnumChar (hd s) \<and>
     (\<forall>c \<in> set (tl s). alnumChar c \<or> c \<in> {CHR ''_'', CHR ''.'', CHR ''-''})"

definition allDigits :: "string \<Rightarrow> bool" where
  "allDigits s \<longleftrightarrow> s \<noteq> [] \<and> (\<forall>r \<in> set (runes s). 48 \<le> r \<and> r \<le> 57)"

definition isReservedHTTPPath :: "string \<Rightarrow> bool" where
  "isReservedHTTPPath p \<longleftrightarrow>
     p \<in> {''/healthz'', ''/v1/messages'', ''/v1/config'', ''/ui/config''} \<or>
     p = ''/admin'' \<or> HasPrefix p ''/admin/''"

definition mapsTo :: "(string, string) gomap \<Rightarrow> string \<Rightarrow> bool" where
  "mapsTo fm internal \<longleftrightarrow> internal \<in> set (map snd fm)"

definition fieldOf :: "(string, string) gomap \<Rightarrow> string \<Rightarrow> string" where
  "fieldOf m k = (case map_of m k of None \<Rightarrow> [] | Some v \<Rightarrow> v)"

subsection \<open>Clock times\<close>

fun twoDigitLoop :: "int \<Rightarrow> rune list \<Rightarrow> int option" where
  "twoDigitLoop n [] = Some n"
| "twoDigitLoop n (r # rs) =
     (if r < 48 \<or> 57 < r then None else twoDigitLoop (wrap64 (n * 10 + (int r - 48))) rs)"

definition parseTwoDigit :: "string \<Rightarrow> int option" where
  "parseTwoDigit v = (if v = [] then None else twoDigitLoop 0 (runes v))"

definition parseClock :: "string \<Rightarrow> ConfigError + duration" where
  "parseClock v =
     (case SplitChar CHR '':'' v of
        [hh, mm] \<Rightarrow>
          (case parseTwoDigit hh of
             None \<Rightarrow> Inl (Errorf ''invalid hour'' [])
           | Some h \<Rightarrow>
               if h < 0 \<or> 23 < h then Inl (Errorf ''invalid hour'' [])
               else (case parseTwoDigit mm of
                       None \<Rightarrow> Inl (Errorf ''invalid minute'' [])
                     | Some m \<Rightarrow>
                         if m < 0 \<or> 59 < m then Inl (Errorf ''invalid minute'' [])
                         else Inr (h * Hour + m * Minute)))
      | _ \<Rightarrow> Inl (Errorf ''expected HH:MM'' []))"

definition dayNames :: "string list" where
  "dayNames = [''mon'', ''monday'', ''tue'', ''tuesday'', ''wed'', ''wednesday'', ''thu'', ''thursday'',
     ''fri'', ''friday'', ''sat'', ''saturday'', ''sun'', ''sunday'']"

definition clockE :: "string \<Rightarrow> string \<Rightarrow> string \<Rightarrow> ConfigError + unit" where
  "clockE fmt route v = (case parseClock v of Inl e \<Rightarrow> Inl (Wrapf fmt [route] e) | Inr _ \<Rightarrow> Inr ())"

definition validateTimeWindow :: "string \<Rightarrow> TimeWindow \<Rightarrow> ConfigError + unit" where
  "validateTimeWindow route w = checks [
     clockE ''route %q time_window.start is invalid: %w'' route (Tw_Start w),
     clockE ''route %q time_window.end is invalid: %w'' route (Tw_End w),
     forE (\<lambda>day. guardE (ToLower day \<notin> set dayNames)
       (Errorf ''route %q time_window day %q is invalid'' [route, day])) (Tw_Days w)]"

subsection \<open>Strings of the SMPP protocol and upstream connections\<close>

definition validateSMPPString :: "string \<Rightarrow> string \<Rightarrow> nat \<Rightarrow> bool \<Rightarrow> ConfigError + unit" where
  "validateSMPPString name v mx allowAuto =
     (if v = [] \<or> (allowAuto \<and> IsAutoGenerate v) then Inr ()
      else guardE (mx < length v) (Errorf ''%s must be at most %d bytes'' [name, Itoa (int mx)]))"

definition validateSMPPClientConfig :: "ConfigEnv \<Rightarrow> string \<Rightarrow> SMPPClientConfig \<Rightarrow> ConfigError + unit" where
  "validateSMPPClientConfig env name c = checks [
     guardE (Sc_BindMode c \<noteq> ''transceiver'' \<and> Sc_BindMode c \<noteq> ''tx_rx'')
       (Errorf ''provider %q smpp.bind_mode must be transceiver or tx_rx'' [name]),
     guardE (Sc_BindMode c = ''tx_rx'')
       (Errorf ''provider %q smpp.bind_mode tx_rx is not implemented yet'' [name]),
     guardE (Sc_Binds c < 1) (Errorf ''provider %q smpp.binds must be >= 1'' [name]),
     guardE (Sc_WindowSize c < 1) (Errorf ''provider %q smpp.window_size must be >= 1'' [name]),
     guardE (Sc_ResponseTimeoutMS c < 1)
       (Errorf ''provider %q smpp.response_timeout_ms must be >= 1'' [name]),
     forE (\<lambda>(field, v). guardE (ParseDuration v = None)
         (Errorf ''provider %q smpp.%s is invalid: %w'' [name, field]))
       (Ce_range env [(''enquire_period'', Sc_EnquirePeriod c), (''reconnect_min'', Sc_ReconnectMin c),
          (''reconnect_max'', Sc_ReconnectMax c)]),
     guardE (\<not> validTONNPI (Sc_SourceTON c) True)
       (Errorf ''provider %q smpp.source_ton must be -1 or 0..6'' [name]),
     guardE (\<not> validTONNPI (Sc_SourceNPI c) True)
       (Errorf ''provider %q smpp.source_npi must be -1 or 0..6'' [name]),
     guardE (\<not> validTONNPI (Sc_DestTON c) False)
       (Errorf ''provider %q smpp.dest_ton must be 0..6'' [name]),
     guardE (\<not> validTONNPI (Sc_DestNPI c) False)
       (Errorf ''provider %q smpp.dest_npi must be 0..6'' [name]),
     guardE (Sc_RegisteredDelivery c < -1 \<or> 1 < Sc_RegisteredDelivery c)
       (Errorf ''provider %q smpp.registered_delivery must be -1, 0, or 1'' [name]),
     guardE (Sc_GSM7Packing c \<noteq> ''unpacked'' \<and> Sc_GSM7Packing c \<noteq> ''packed'')
       (Errorf ''provider %q smpp.gsm7_packing must be unpacked or packed'' [name]),
     guardE (Sc_LongMessage c \<noteq> ''udh'' \<and> Sc_LongMessage c \<noteq> ''payload'' \<and> Sc_LongMessage c \<noteq> ''sar'')
       (Errorf ''provider %q smpp.long_message must be udh, payload, or sar'' [name]),
     guardE (\<not> validIDFormat (Sc_MessageIDRespFormat c))
       (Errorf ''provider %q smpp.message_id_resp_format must be auto, dec, or hex'' [name]),
     guardE (\<not> validIDFormat (Sc_MessageIDDLRFormat c))
       (Errorf ''provider %q smpp.message_id_dlr_format must be auto, dec, or hex'' [name]),
     guardE (Sc_DLRIDSource c \<noteq> ''auto'' \<and> Sc_DLRIDSource c \<noteq> ''text'' \<and> Sc_DLRIDSource c \<noteq> ''tlv'')
       (Errorf ''provider %q smpp.dlr_id_source must be auto, text, or tlv'' [name]),
     guardE (Sc_TLS c) (Errorf ''provider %q smpp.tls is not implemented yet'' [name])]"

definition endpointBad :: "string \<Rightarrow> bool" where
  "endpointBad endpoint =
     (case SplitHostPort endpoint of None \<Rightarrow> True | Some (host, port) \<Rightarrow> host = [] \<or> port = [])"

definition validateSMPPProvider :: "ConfigEnv \<Rightarrow> ProviderConfig \<Rightarrow> bool \<Rightarrow> SMPPClientConfig \<Rightarrow> ConfigError + unit" where
  "validateSMPPProvider env p allowAuto c = (let name = Pc_Name p in checks [
     guardE (Pc_Endpoint p = []) (Errorf ''provider %q endpoint is required for smpp provider'' [name]),
     guardE (endpointBad (Pc_Endpoint p)) (Errorf ''provider %q endpoint must be host:port'' [name]),
     guardE (Pc_Rule p \<noteq> []) (Errorf ''provider %q rule must be empty for smpp provider'' [name]),
     guardE (Pc_SystemID p = []) (Errorf ''provider %q system_id is required for smpp provider'' [name]),
     guardE (Pc_Password p = []) (Errorf ''provider %q password is required for smpp provider'' [name]),
     guardE (isPlaceholder (Pc_Password p))
       (Errorf ''provider %q password must be changed before deploy'' [name]),
     wrapE ''provider %q %w'' [name]
       (validateSMPPString ''provider.system_id'' (Pc_SystemID p) SMPPMaxSystemID allowAuto),
     wrapE ''provider %q %w'' [name]
       (validateSMPPString ''provider.password'' (Pc_Password p) SMPPMaxPassword allowAuto),
     wrapE ''provider %q %w'' [name]
       (validateSMPPString ''provider.smpp.system_type'' (Sc_SystemType c) SMPPMaxSystemType allowAuto),
     validateSMPPClientConfig env name c])"

definition validateProviderProtocol :: "ConfigEnv \<Rightarrow> ProviderConfig \<Rightarrow> bool \<Rightarrow> ConfigError + unit" where
  "validateProviderProtocol env p allowAuto =
     (let name = Pc_Name p; protocol = ToLower (Pc_Protocol p);
          noSMPP = guardE (Pc_SMPP p \<noteq> None)
            (Errorf ''provider %q smpp config is only valid when protocol is smpp'' [name])
      in if protocol = [] \<or> protocol = ''mock'' then noSMPP
         else if protocol = ''http'' \<or> protocol = ''https'' then
           checks [noSMPP,
             guardE (Pc_Rule p = []) (Errorf ''provider %q rule is required for http provider'' [name])]
         else if protocol = ''smpp'' then
           (case Pc_SMPP p of
              None \<Rightarrow> Inl (Errorf ''provider %q smpp config is required'' [name])
            | Some c \<Rightarrow> validateSMPPProvider env p allowAuto c)
         else Inl (Errorf ''provider %q unsupported protocol %q'' [name, Pc_Protocol p]))"

subsection \<open>Lists of the configuration\<close>

type_synonym Names = "(string, string) gomap \<times> (string, bool) gomap"

definition known :: "(string, string) gomap \<Rightarrow> string \<Rightarrow> bool" where
  "known names name \<longleftrightarrow> map_of names (''provider:'' @ name) \<noteq> None"

definition autoGenErr :: ConfigError where
  "autoGenErr = Errorf ''auto-generate placeholders are only allowed during startup bootstrap'' []"

definition addProvider :: "ProviderConfig \<Rightarrow> Names \<Rightarrow> Names" where
  "addProvider p = (\<lambda>(names, enabledProviders).
     (AList.update (''provider:'' @ Pc_Name p) (Pc_Name p) names,
      if Pc_Enabled p then AList.update (Pc_Name p) True enabledProviders else enabledProviders))"

fun validateProviders :: "ConfigEnv \<Rightarrow> bool \<Rightarrow> ProviderConfig list \<Rightarrow> Names \<Rightarrow> ConfigError + Names" where
  "validateProviders env allowAuto [] acc = Inr acc"
| "validateProviders env allowAuto (p # ps) acc =
     bindE (checks [
       guardE (Pc_Name p = []) (Errorf ''provider name is required'' []),
       guardE (known (fst acc) (Pc_Name p)) (Errorf ''duplicate provider %q'' [Pc_Name p]),
       guardE (Pc_HTTPTimeoutMS p < 0)
         (Errorf ''provider %q http_timeout_ms must be non-negative'' [Pc_Name p]),
       guardE (Rl_TPS (Pc_RateLimit p) < 0 \<or> Rl_Burst (Pc_RateLimit p) < 0 \<or> Rl_TimeoutMS (Pc_RateLimit p) < 0)
         (Errorf ''provider %q rate_limit values must be non-negative'' [Pc_Name p]),
       guardE (\<not> allowAuto \<and> IsAutoGenerate (Pc_Password p)) autoGenErr,
       validateProviderProtocol env p allowAuto])
     (\<lambda>_. validateProviders env allowAuto ps (addProvider p acc))"

definition validateRoute :: "(string, string) gomap \<Rightarrow> RouteConfig \<Rightarrow> ConfigError + unit" where
  "validateRoute names route = (let name = Rt_Name route; da = Rt_DestAddr route; ar = Rt_AddrRewrite route in checks [
     guardE (name = []) (Errorf ''route name is required'' []),
     guardE (\<not> validName name) (Errorf ''route %q has invalid name'' [name]),
     guardE (Rt_Provider route = [] \<and> Rt_Weighted route = [] \<and> Rt_Failover route = [])
       (Errorf ''route %q provider is required'' [name]),
     guardE (Rt_Weighted route \<noteq> [] \<and> Rt_Failover route \<noteq> [])
       (Errorf ''route %q cannot define both weighted and failover'' [name]),
     forE (\<lambda>wp. checks [
         guardE (Wp_Provider wp = []) (Errorf ''route %q weighted provider is required'' [name]),
         guardE (Wp_Weight wp \<le> 0)
           (Errorf ''route %q weighted provider %q weight must be > 0'' [name, Wp_Provider wp]),
         guardE (\<not> known names (Wp_Provider wp))
           (Errorf ''route %q references unknown weighted provider %q'' [name, Wp_Provider wp])])
       (Rt_Weighted route),
     forE (\<lambda>p. guardE (\<not> known names p)
         (Errorf ''route %q references unknown failover provider %q'' [name, p])) (Rt_Failover route),
     guardE (Rt_Provider route \<noteq> [] \<and> \<not> known names (Rt_Provider route))
       (Errorf ''route %q references unknown provider %q'' [name, Rt_Provider route]),
     forE (\<lambda>pre. guardE (\<not> validPrefix pre) (Errorf ''route %q has invalid prefix %q'' [name, pre]))
       (Rt_Prefix route),
     forE (\<lambda>pre. guardE (\<not> validPrefix pre) (Errorf ''route %q has invalid from_prefix %q'' [name, pre]))
       (Rt_FromPrefix route),
     forE (validateTimeWindow name) (Rt_TimeWindows route),
     guardE (Ar_CountryCode ar \<noteq> [] \<and> \<not> allDigits (Ar_CountryCode ar))
       (Errorf ''route %q addr_rewrite.country_code must contain only digits'' [name]),
     guardE (Ar_AddPrefix ar \<noteq> [] \<and> \<not> allDigits (Ar_AddPrefix ar))
       (Errorf ''route %q addr_rewrite.add_prefix must contain only digits'' [name]),
     guardE (Da_MinShortLen da < 0 \<or> Da_MaxShortLen da < 0)
       (Errorf ''route %q dest_addr short code lengths must be non-negative'' [name]),
     guardE (0 < Da_MinShortLen da \<and> 0 < Da_MaxShortLen da \<and> Da_MaxShortLen da < Da_MinShortLen da)
       (Errorf ''route %q dest_addr min_short_len must be <= max_short_len'' [name]),
     guardE (Da_CountryLengthMode da \<notin> {[], ''off'', ''compat'', ''strict''})
       (Errorf ''route %q dest_addr.country_length_mode must be off, compat, or strict'' [name])])"

record PrefixOwner =
  Po_route :: string
  Po_prefix :: string
  Po_provider :: string
  Po_priority :: int

fun prefixesLoop :: "RouteConfig \<Rightarrow> string list \<Rightarrow> PrefixOwner list \<Rightarrow> ConfigError + PrefixOwner list" where
  "prefixesLoop route [] seen = Inr seen"
| "prefixesLoop route (pre # ps) seen =
     (case filter (\<lambda>prior. pre = Po_prefix prior \<and> Rt_Provider route = Po_provider prior \<and>
                          Rt_Priority route = Po_priority prior) seen of
        prior # _ \<Rightarrow> Inl (Errorf ''route %q prefix %q conflicts with route %q prefix %q''
                         [Rt_Name route, pre, Po_route prior, Po_prefix prior])
      | [] \<Rightarrow> prefixesLoop route ps (seen @ [\<lparr>Po_route = Rt_Name route, Po_prefix = pre,
                 Po_provider = Rt_Provider route, Po_priority = Rt_Priority route\<rparr>]))"

fun routePrefixesLoop :: "RouteConfig list \<Rightarrow> PrefixOwner list \<Rightarrow> ConfigError + unit" where
  "routePrefixesLoop [] seen = Inr ()"
| "routePrefixesLoop (r # rs) seen = bindE (prefixesLoop r (Rt_Prefix r) seen) (routePrefixesLoop rs)"

definition validateRoutePrefixes :: "RouteConfig list \<Rightarrow> ConfigError + unit" where
  "validateRoutePrefixes routes = routePrefixesLoop routes []"

definition validateFilterRule :: "ConfigEnv \<Rightarrow> FilterRule \<Rightarrow> ConfigError + unit" where
  "validateFilterRule env rule =
     (if Fr_Enabled rule = Some False then Inr ()
      else let action = ToLower (TrimSpace (Fr_Action rule)); name = Fr_Name rule in checks [
        guardE (name = []) (Errorf ''filter rule name is required'' []),
        guardE (\<not> validName name) (Errorf ''filter rule %q has invalid name'' [name]),
        guardE (action \<notin> {''block'', ''mask'', ''tag'', ''pass''})
          (Errorf ''filter rule %q has invalid action %q'' [name, Fr_Action rule]),
        guardE (Fr_Keywords rule = [] \<and> Fr_Regex rule = [])
          (Errorf ''filter rule %q must define keywords or regex'' [name]),
        guardE (action = ''tag'' \<and> Fr_Tag rule = [])
          (Errorf ''filter rule %q tag is required for tag action'' [name]),
        guardE (Fr_Regex rule \<noteq> [] \<and> \<not> Ce_regexOK env (Fr_Regex rule))
          (Errorf ''filter rule %q regex is invalid: %w'' [name])])"

definition validateFilter :: "ConfigEnv \<Rightarrow> FilterConfig \<Rightarrow> ConfigError + unit" where
  "validateFilter env c = (if \<not> Fc_Enabled c then Inr () else forE (validateFilterRule env) (Fc_Rules c))"

definition validateCDR :: "CDRConfig \<Rightarrow> ConfigError + unit" where
  "validateCDR c =
     (if \<not> Cd_Enabled c then Inr ()
      else checks [
        guardE (Cd_Dir c = []) (Errorf ''cdr.dir is required'' []),
        guardE (Cd_Mode c \<notin> {[], ''events'', ''settled''}) (Errorf ''cdr.mode must be events or settled'' []),
        guardE (Cd_MaxRecords c \<le> 0) (Errorf ''cdr.max_records must be > 0'' []),
        guardE (Cd_MaxAge c \<noteq> [] \<and>
            (case ParseDuration (Cd_MaxAge c) of None \<Rightarrow> True | Some d \<Rightarrow> d \<le> 0))
          (Errorf ''cdr.max_age is invalid'' []),
        guardE (Cd_Buffer c < 0) (Errorf ''cdr.buffer must be non-negative'' []),
        guardE (Cd_OnFull c \<notin> {[], ''block'', ''drop''}) (Errorf ''cdr.on_full must be block or drop'' []),
        guardE (Cd_FsyncEvery c < 0) (Errorf ''cdr.fsync_every must be non-negative'' []),
        guardE (Cd_FsyncInterval c \<noteq> [] \<and>
            (case ParseDuration (Cd_FsyncInterval c) of None \<Rightarrow> True | Some d \<Rightarrow> d < 0))
          (Errorf ''cdr.fsync_interval is invalid'' [])])"

fun validateTenants :: "ConfigEnv \<Rightarrow> TenantConfig list \<Rightarrow> string list \<Rightarrow> ConfigError + string list" where
  "validateTenants env [] names = Inr names"
| "validateTenants env (t # ts) names = (let tid = Tn_TenantID t; l = Tn_Limits t in
     bindE (checks [
       guardE (tid = []) (Errorf ''tenant tenant_id is required'' []),
       guardE (\<not> validName tid \<or> 64 < length tid) (Errorf ''tenant %q has invalid tenant_id'' [tid]),
       guardE (tid \<in> set names) (Errorf ''duplicate tenant %q'' [tid]),
       guardE (Tl_TPS l < 0 \<or> Tl_Burst l < 0 \<or> Tl_DailySegments l < 0)
         (Errorf ''tenant %q limits must be non-negative'' [tid]),
       guardE (Tl_TPS l = 0 \<and> 0 < Tl_Burst l)
         (Errorf ''tenant %q limits.burst requires limits.tps'' [tid]),
       guardE (Tl_Timezone l \<noteq> [] \<and> \<not> Ce_zoneOK env (Tl_Timezone l))
         (Errorf ''tenant %q limits.timezone is invalid: %w'' [tid])])
     (\<lambda>_. validateTenants env ts (tid # names)))"

fun validateESMEs :: "bool \<Rightarrow> string list \<Rightarrow> ESMECred list \<Rightarrow> string list \<Rightarrow> ConfigError + unit" where
  "validateESMEs allowAuto tenants [] names = Inr ()"
| "validateESMEs allowAuto tenants (e # es) names = (let sid = Es_SystemID e; pw = Es_Password e in
     bindE (checks [
       guardE (sid = []) (Errorf ''esme system_id is required'' []),
       guardE (pw = []) (Errorf ''esme %q password is required'' [sid]),
       guardE (isPlaceholder pw) (Errorf ''esme %q password must be changed before deploy'' [sid]),
       guardE (\<not> allowAuto \<and> IsAutoGenerate pw) autoGenErr,
       validateSMPPString ''esme.system_id'' sid SMPPMaxSystemID allowAuto,
       wrapE ''esme %q %w'' [sid] (validateSMPPString ''esme.password'' pw SMPPMaxPassword allowAuto),
       guardE (sid \<in> set names) (Errorf ''duplicate esme %q'' [sid]),
       guardE (Es_TenantID e \<noteq> [] \<and> Es_TenantID e \<notin> set tenants)
         (Errorf ''esme %q references unknown tenant %q'' [sid, Es_TenantID e])])
     (\<lambda>_. validateESMEs allowAuto tenants es (sid # names)))"

fun validateClients :: "bool \<Rightarrow> string list \<Rightarrow> ClientAuth list \<Rightarrow> string list \<Rightarrow> ConfigError + unit" where
  "validateClients allowAuto tenants [] names = Inr ()"
| "validateClients allowAuto tenants (c # cs) names = (let cid = Cl_ClientID c in
     bindE (checks [
       guardE (cid = []) (Errorf ''client client_id is required'' []),
       guardE (Cl_Enabled c \<and> Cl_Token c = []) (Errorf ''client %q token is required'' [cid]),
       guardE (isPlaceholder (Cl_Token c)) (Errorf ''client %q token must be changed before deploy'' [cid]),
       guardE (\<not> allowAuto \<and> IsAutoGenerate (Cl_Token c)) autoGenErr,
       guardE (cid \<in> set names) (Errorf ''duplicate client %q'' [cid]),
       guardE (Cl_TenantID c \<noteq> [] \<and> Cl_TenantID c \<notin> set tenants)
         (Errorf ''client %q references unknown tenant %q'' [cid, Cl_TenantID c])])
     (\<lambda>_. validateClients allowAuto tenants cs (cid # names)))"

definition validateInbound :: "bool \<Rightarrow> (string, string) gomap \<Rightarrow> HTTPRuleConfig \<Rightarrow> ConfigError + unit" where
  "validateInbound allowAuto names rule = (let name = Hr_Name rule; fm = Hr_Fields rule;
       noDLR = (fieldOf fm ''provider_id'' = [] \<or> fieldOf fm ''status'' = []);
       someDLR = (fieldOf fm ''provider_id'' \<noteq> [] \<or> fieldOf fm ''status'' \<noteq> [])
     in checks [
       guardE (name = []) (Errorf ''inbound rule name is required'' []),
       guardE (\<not> validName name) (Errorf ''inbound rule %q has invalid name'' [name]),
       guardE (Hr_Path rule = [] \<or> \<not> HasPrefix (Hr_Path rule) ''/'')
         (Errorf ''inbound rule %q path must start with /'' [name]),
       guardE (isReservedHTTPPath (Hr_Path rule))
         (Errorf ''inbound rule %q path %q conflicts with built-in route'' [name, Hr_Path rule]),
       guardE (Hr_AuthHeader rule = [] \<or> Hr_AuthToken rule = [])
         (Errorf ''inbound rule %q auth_header and auth_token are required'' [name]),
       guardE (\<not> allowAuto \<and> IsAutoGenerate (Hr_AuthToken rule)) autoGenErr,
       guardE ((fieldOf fm ''from'' = [] \<or> fieldOf fm ''to'' = [] \<or> fieldOf fm ''text'' = []) \<and> noDLR)
         (Errorf ''inbound rule %q must map from, to, and text'' [name]),
       guardE (someDLR \<and> noDLR) (Errorf ''inbound rule %q must map provider_id and status together'' [name]),
       guardE (someDLR \<and> Hr_Provider rule = []) (Errorf ''inbound dlr rule %q provider is required'' [name]),
       guardE (someDLR \<and> \<not> known names (Hr_Provider rule))
         (Errorf ''inbound dlr rule %q references unknown provider %q'' [name, Hr_Provider rule])])"

definition validateOutbound :: "HTTPRuleConfig \<Rightarrow> ConfigError + unit" where
  "validateOutbound rule = checks [
     guardE (Hr_Name rule = []) (Errorf ''outbound rule name is required'' []),
     guardE (\<not> mapsTo (Hr_Fields rule) ''to'' \<or> \<not> mapsTo (Hr_Fields rule) ''text'')
       (Errorf ''outbound rule %q must map to and text'' [Hr_Name rule])]"

subsection \<open>The whole configuration\<close>

definition validateStorage :: "StorageConfig \<Rightarrow> ConfigError + unit" where
  "validateStorage c = (let driver = ToLower (Sg_Driver c) in
     if driver \<in> {[], ''memory'', ''file'', ''json''} then Inr ()
     else if driver \<in> {''postgres'', ''pg''} then
       guardE (Sg_DSN c = []) (Errorf ''storage.dsn is required for postgres'' [])
     else Inl (Errorf ''unsupported storage.driver %q'' [Sg_Driver c]))"

definition validateSecrets :: "bool \<Rightarrow> Config \<Rightarrow> ConfigError + unit" where
  "validateSecrets allowAuto c = (let ad = Cfg_Admin c; sm = Cfg_SMPP c in checks [
     guardE (Ad_Username ad = [] \<or> Ad_Password ad = []) (Errorf ''admin username and password are required'' []),
     guardE (isPlaceholder (Ad_Username ad) \<or> isPlaceholder (Ad_Password ad))
       (Errorf ''admin credentials must be changed before deploy'' []),
     guardE (\<not> allowAuto \<and> (IsAutoGenerate (Ad_Password ad) \<or> IsAutoGenerate (Smc_Password sm))) autoGenErr,
     guardE (isPlaceholder (Smc_Password sm)) (Errorf ''smpp password must be changed before deploy'' []),
     validateSMPPString ''smpp.system_id'' (Smc_SystemID sm) SMPPMaxSystemID allowAuto,
     validateSMPPString ''smpp.password'' (Smc_Password sm) SMPPMaxPassword allowAuto,
     validateSMPPString ''smpp.system_type'' (Smc_SystemType sm) SMPPMaxSystemType allowAuto])"

definition badDuration :: "string \<Rightarrow> bool" where
  "badDuration s \<longleftrightarrow> s \<noteq> [] \<and> ParseDuration s = None"

definition validateServices :: "Config \<Rightarrow> ConfigError + unit" where
  "validateServices c = (let d = Cfg_Dispatcher c; http = Srv_HTTPAddr (Cfg_Server c); smpp = Smc_Addr (Cfg_SMPP c) in checks [
     guardE (http \<noteq> [] \<and> smpp \<noteq> [] \<and> http = smpp)
       (Errorf ''server.http_addr and smpp.addr must not be the same'' []),
     guardE (Dc_Workers d < 0 \<or> Dc_PerWorkerConcurrency d < 0 \<or> Dc_ClaimLimit d < 0 \<or>
         Dc_PollIntervalMS d < 0 \<or> Dc_MaxAttempts d < 0)
       (Errorf ''dispatcher values must be non-negative'' []),
     guardE (badDuration (Dc_PendingTTL d)) (Errorf ''dispatcher.pending_ttl is invalid: %w'' []),
     guardE (badDuration (Dc_ClaimTimeout d)) (Errorf ''dispatcher.claim_timeout is invalid: %w'' []),
     guardE (badDuration (Dc_PendingSweepInterval d))
       (Errorf ''dispatcher.pending_sweep_interval is invalid: %w'' []),
     forE (\<lambda>proxy. guardE (ParsePrefix proxy = None \<and> ParseAddr proxy = None)
         (Errorf ''trusted_proxies contains invalid ip or cidr %q'' [proxy])) (Cfg_TrustedProxies c)])"

definition validateAccounts :: "ConfigEnv \<Rightarrow> bool \<Rightarrow> Config \<Rightarrow> ConfigError + unit" where
  "validateAccounts env allowAuto c =
     bindE (validateTenants env (Cfg_Tenants c) []) (\<lambda>tenants. checks [
       validateESMEs allowAuto tenants (Cfg_ESMEs c) [],
       validateClients allowAuto tenants (Cfg_Clients c) []])"

definition validate :: "ConfigEnv \<Rightarrow> bool \<Rightarrow> Config \<Rightarrow> ConfigError + unit" where
  "validate env allowAuto c =
     bindE (validateStorage (Cfg_Storage c)) (\<lambda>_.
     bindE (validateSecrets allowAuto c) (\<lambda>_.
     bindE (validateServices c) (\<lambda>_.
     bindE (validateProviders env allowAuto (Cfg_Providers c) ([], [])) (\<lambda>(names, enabledProviders).
     checks [
       guardE (Cfg_Providers c \<noteq> [] \<and> enabledProviders = []) (Errorf ''at least one provider must be enabled'' []),
       forE (validateRoute names) (Cfg_Routes c),
       validateRoutePrefixes (Cfg_Routes c),
       validateFilter env (Cfg_Filter c),
       validateCDR (Cfg_CDR c),
       validateAccounts env allowAuto c,
       forE (validateInbound allowAuto names) (Cfg_Inbound c),
       forE validateOutbound (Cfg_Outbound c)]))))"

definition Validate :: "ConfigEnv \<Rightarrow> Config \<Rightarrow> ConfigError + unit" where
  "Validate env c = validate env False c"

subsection \<open>Accepted configurations\<close>

definition providerNames :: "Config \<Rightarrow> string set" where
  "providerNames c = Pc_Name ` set (Cfg_Providers c)"

lemma known_addProvider:
  "known (fst (addProvider p acc)) n \<longleftrightarrow> n = Pc_Name p \<or> known (fst acc) n"
  by (cases acc) (auto simp: known_def addProvider_def)

lemma update_not_Nil: "AList.update k v al \<noteq> []"
  by (cases al) auto

lemma enabled_addProvider:
  "snd (addProvider p acc) = [] \<longleftrightarrow> \<not> Pc_Enabled p \<and> snd acc = []"
  by (cases acc) (simp add: addProvider_def update_not_Nil)

lemma validateProviders_ok:
  assumes "validateProviders env allowAuto ps acc = Inr r"
  shows "distinct (map Pc_Name ps) \<and>
    (\<forall>n. known (fst r) n \<longleftrightarrow> n \<in> Pc_Name ` set ps \<or> known (fst acc) n) \<and>
    (snd r = [] \<longleftrightarrow> snd acc = [] \<and> (\<forall>p \<in> set ps. \<not> Pc_Enabled p)) \<and>
    (\<forall>p \<in> set ps. \<not> known (fst acc) (Pc_Name p) \<and> Pc_Name p \<noteq> [] \<and>
       (\<not> allowAuto \<longrightarrow> \<not> IsAutoGenerate (Pc_Password p)) \<and> validateProviderProtocol env p allowAuto = Inr ())"
  using assms
proof (induction ps arbitrary: acc)
  case (Cons p ps)
  have "validateProviders env allowAuto ps (addProvider p acc) = Inr r"
    using Cons.prems by simp
  note IH = Cons.IH [OF this, unfolded known_addProvider enabled_addProvider]
  have p: "\<not> known (fst acc) (Pc_Name p)" "Pc_Name p \<noteq> []" "\<not> allowAuto \<longrightarrow> \<not> IsAutoGenerate (Pc_Password p)"
    "validateProviderProtocol env p allowAuto = Inr ()"
    using Cons.prems by auto
  have "Pc_Name p \<notin> Pc_Name ` set ps"
    using IH by auto
  then show ?case
    using IH p by auto
qed simp

lemma validateTenants_ok:
  assumes "validateTenants env ts names = Inr r"
  shows "set r = set names \<union> Tn_TenantID ` set ts \<and> distinct (map Tn_TenantID ts) \<and>
    (\<forall>t \<in> set ts. Tn_TenantID t \<notin> set names \<and> Tn_TenantID t \<noteq> [] \<and> 0 \<le> Tl_TPS (Tn_Limits t) \<and>
       0 \<le> Tl_Burst (Tn_Limits t) \<and> 0 \<le> Tl_DailySegments (Tn_Limits t))"
  using assms
proof (induction ts arbitrary: names)
  case (Cons t ts)
  have t: "Tn_TenantID t \<noteq> []" "Tn_TenantID t \<notin> set names" "0 \<le> Tl_TPS (Tn_Limits t)"
    "0 \<le> Tl_Burst (Tn_Limits t)" "0 \<le> Tl_DailySegments (Tn_Limits t)"
    and rest: "validateTenants env ts (Tn_TenantID t # names) = Inr r"
    using Cons.prems by (simp_all add: Let_def not_less)
  show ?case
    using Cons.IH [OF rest] t by (auto simp del: checks_ok)
qed simp

lemma validateESMEs_ok:
  assumes "validateESMEs allowAuto tenants es names = Inr ()"
  shows "distinct (map Es_SystemID es) \<and>
    (\<forall>e \<in> set es. Es_SystemID e \<notin> set names \<and> Es_SystemID e \<noteq> [] \<and> Es_Password e \<noteq> [] \<and>
       \<not> isPlaceholder (Es_Password e) \<and> (\<not> allowAuto \<longrightarrow> \<not> IsAutoGenerate (Es_Password e)) \<and>
       validateSMPPString ''esme.system_id'' (Es_SystemID e) SMPPMaxSystemID allowAuto = Inr () \<and>
       validateSMPPString ''esme.password'' (Es_Password e) SMPPMaxPassword allowAuto = Inr () \<and>
       (Es_TenantID e = [] \<or> Es_TenantID e \<in> set tenants))"
  using assms
proof (induction es arbitrary: names)
  case (Cons e es)
  then show ?case
    using Cons.IH [of "Es_SystemID e # names"] by (auto simp: Let_def)
qed simp

lemma validateClients_ok:
  assumes "validateClients allowAuto tenants cs names = Inr ()"
  shows "distinct (map Cl_ClientID cs) \<and>
    (\<forall>c \<in> set cs. Cl_ClientID c \<notin> set names \<and> Cl_ClientID c \<noteq> [] \<and> (Cl_Enabled c \<longrightarrow> Cl_Token c \<noteq> []) \<and>
       \<not> isPlaceholder (Cl_Token c) \<and> (\<not> allowAuto \<longrightarrow> \<not> IsAutoGenerate (Cl_Token c)) \<and>
       (Cl_TenantID c = [] \<or> Cl_TenantID c \<in> set tenants))"
  using assms
proof (induction cs arbitrary: names)
  case (Cons c cs)
  then show ?case
    using Cons.IH [of "Cl_ClientID c # names"] by (auto simp: Let_def)
qed simp

lemma validate_parts:
  assumes "validate env allowAuto c = Inr ()"
  obtains names enabled tenants where
    "validateProviders env allowAuto (Cfg_Providers c) ([], []) = Inr (names, enabled)"
    "validateStorage (Cfg_Storage c) = Inr ()" "validateSecrets allowAuto c = Inr ()" "validateServices c = Inr ()"
    "Cfg_Providers c = [] \<or> enabled \<noteq> []"
    "\<forall>r \<in> set (Cfg_Routes c). validateRoute names r = Inr ()"
    "validateRoutePrefixes (Cfg_Routes c) = Inr ()"
    "validateFilter env (Cfg_Filter c) = Inr ()" "validateCDR (Cfg_CDR c) = Inr ()"
    "validateTenants env (Cfg_Tenants c) [] = Inr tenants"
    "validateESMEs allowAuto tenants (Cfg_ESMEs c) [] = Inr ()"
    "validateClients allowAuto tenants (Cfg_Clients c) [] = Inr ()"
    "\<forall>r \<in> set (Cfg_Inbound c). validateInbound allowAuto names r = Inr ()"
    "\<forall>r \<in> set (Cfg_Outbound c). validateOutbound r = Inr ()"
  using assms
  by (auto simp: validate_def validateAccounts_def bindE_Inr_iff split: prod.splits)

lemma validateRoute_refs:
  assumes "validateRoute names r = Inr ()"
  shows "(\<forall>w \<in> set (Rt_Weighted r). 0 < Wp_Weight w \<and> Wp_Provider w \<noteq> [] \<and> known names (Wp_Provider w)) \<and>
    (\<forall>p \<in> set (Rt_Failover r). known names p) \<and>
    (Rt_Provider r \<noteq> [] \<longrightarrow> known names (Rt_Provider r)) \<and>
    (Rt_Provider r = [] \<longrightarrow> Rt_Weighted r \<noteq> [] \<or> Rt_Failover r \<noteq> []) \<and>
    (Rt_Weighted r = [] \<or> Rt_Failover r = [])"
proof -
  have "\<forall>w \<in> set (Rt_Weighted r). 0 < Wp_Weight w \<and> Wp_Provider w \<noteq> [] \<and> known names (Wp_Provider w)"
    "\<forall>p \<in> set (Rt_Failover r). known names p"
    "\<not> (Rt_Provider r \<noteq> [] \<and> \<not> known names (Rt_Provider r))"
    "\<not> (Rt_Provider r = [] \<and> Rt_Weighted r = [] \<and> Rt_Failover r = [])"
    "\<not> (Rt_Weighted r \<noteq> [] \<and> Rt_Failover r \<noteq> [])"
    using assms unfolding validateRoute_def Let_def checks_ok by (simp_all add: not_le)
  then show ?thesis
    by blast
qed

lemma validateInbound_secret:
  "validateInbound allowAuto names r = Inr () \<Longrightarrow>
     Hr_AuthToken r \<noteq> [] \<and> (\<not> allowAuto \<longrightarrow> \<not> IsAutoGenerate (Hr_AuthToken r))"
  by (auto simp: validateInbound_def Let_def)


subsection \<open>An example configuration\<close>

definition exampleProvider :: "string \<Rightarrow> string \<Rightarrow> bool \<Rightarrow> ProviderConfig" where
  "exampleProvider name pw enabled = \<lparr>Pc_Name = name, Pc_Protocol = ''mock'', Pc_Endpoint = [], Pc_Rule = [],
     Pc_SystemID = [], Pc_Password = pw, Pc_Enabled = enabled, Pc_HTTPTimeoutMS = 0,
     Pc_RateLimit = \<lparr>Rl_TPS = 0, Rl_Burst = 0, Rl_TimeoutMS = 0\<rparr>, Pc_SMPP = None\<rparr>"

definition exampleRoute :: "string \<Rightarrow> string list \<Rightarrow> string \<Rightarrow> RouteConfig" where
  "exampleRoute name prefixes provider = \<lparr>Rt_Name = name, Rt_Prefix = prefixes, Rt_Provider = provider, Rt_Priority = 0,
     Rt_AddrRewrite = \<lparr>Ar_StripTrunkZeroAfterCC = False, Ar_CountryCode = [], Ar_AddPrefix = [], Ar_EnforceE164Len = False\<rparr>,
     Rt_DestAddr = \<lparr>Da_Validate = None, Da_AllowShortCode = False, Da_MinShortLen = 0, Da_MaxShortLen = 0,
       Da_CountryLengthMode = []\<rparr>,
     Rt_Enabled = None, Rt_FromPrefix = [], Rt_SystemIDs = [], Rt_ClientIDs = [], Rt_ContentTags = [],
     Rt_TimeWindows = [], Rt_Weighted = [], Rt_Failover = []\<rparr>"

definition exampleConfig :: "string \<Rightarrow> Config" where
  "exampleConfig pw = DefaultConfig\<lparr>
     Cfg_Admin := \<lparr>Ad_Username = ''root'', Ad_Password = pw\<rparr>,
     Cfg_Providers := [exampleProvider ''p1'' [] True],
     Cfg_Routes := [exampleRoute ''r1'' [''86''] ''p1'']\<rparr>"

definition exampleEnv :: ConfigEnv where
  "exampleEnv = \<lparr>Ce_regexOK = (\<lambda>_. True), Ce_zoneOK = (\<lambda>_. True), Ce_range = id\<rparr>"

lemma ToLower_mock: "ToLower ''mock'' = ''mock''" "ToLower ''memory'' = ''memory''"
  by (simp_all add: ToLower_def runes_ascii codes_def toLowerRune_def string_of_runes_def string_of_rune_def
      encodeRune_def char_of_def bit_0)

lemmas validate_defs = validate_def validateStorage_def validateSecrets_def validateServices_def
  validateRoute_def validateRoutePrefixes_def validateFilter_def validateCDR_def validateAccounts_def
  validateProviderProtocol_def validateSMPPString_def

lemma example_normal:
  "NormalizeCfg (exampleConfig pw) = (exampleConfig pw)\<lparr>
     Cfg_Risk := \<lparr>Rk_BlockedToPrefix = [], Rk_BlockedKeywords = [], Rk_PerNumberPerMinute = 5,
       Rk_PerNumberPerDay = 20, Rk_PerClientPerSecond = 100\<rparr>,
     Cfg_Routes := [(exampleRoute ''r1'' [''86''] ''p1'')\<lparr>Rt_Enabled := Some True\<rparr>]\<rparr>"
  by (simp add: norm_defs exampleConfig_def DefaultConfig_def DefaultHTTPAddr_def DefaultSMPPAddr_def
      exampleProvider_def exampleRoute_def)

lemma example_durations: "ParseDuration ''30m'' = Some (30 * Minute)" "ParseDuration ''60s'' = Some (60 * Second)"
  "ParseDuration ''1m'' = Some Minute"
  by (simp_all add: duration_eval)

lemma example_valid:
  assumes "pw \<noteq> []" "\<not> isPlaceholder pw" "allowAuto \<or> \<not> IsAutoGenerate pw"
  shows "validate exampleEnv allowAuto (NormalizeCfg (exampleConfig pw)) = Inr ()"
proof -
  have "\<not> isPlaceholder ''root''" "\<not> isPlaceholder []" "\<not> IsAutoGenerate []" "\<not> IsAutoGenerate ''mysmpp''"
    "\<not> IsAutoGenerate ''gateway''"
    by (simp_all add: isPlaceholder_def PlaceholderSecret_def IsAutoGenerate_def AutoGenerateSecret_def)
  then show ?thesis
    using assms
    unfolding example_normal
    by (simp add: validate_defs exampleConfig_def DefaultConfig_def exampleProvider_def exampleRoute_def ToLower_mock
        DefaultHTTPAddr_def DefaultSMPPAddr_def badDuration_def example_durations known_def addProvider_def
        validName_def alnumChar_def validPrefix_def isDigitChar_def Let_def)
qed


end
