(* ===== verification/Config_Bootstrap.thy ===== *)
theory Config_Bootstrap
  imports Config_Validate
begin

text \<open>
  The secrets generated at the first start (\<open>config/bootstrap.go\<close>) and the validation of the
  configuration that carries them.
\<close>

subsection \<open>Secrets generated at the first start\<close>

definition base64Char :: "nat \<Rightarrow> char" where
  "base64Char n =
     (if n < 26 then char_of (n + 65) else if n < 52 then char_of (n + 71)
      else if n < 62 then char_of (n - 4) else if n = 62 then CHR ''-'' else CHR ''_'')"

text \<open>\<open>base64.RawURLEncoding\<close>: no padding.\<close>

fun base64url :: "bytes \<Rightarrow> string" where
  "base64url (a # b # c # bs) = (let n = (unat a * 256 + unat b) * 256 + unat c in
     [base64Char (n div 262144), base64Char (n div 4096 mod 64), base64Char (n div 64 mod 64),
      base64Char (n mod 64)] @ base64url bs)"
| "base64url [a, b] = (let n = (unat a * 256 + unat b) * 4 in
     [base64Char (n div 4096), base64Char (n div 64 mod 64), base64Char (n mod 64)])"
| "base64url [a] = (let n = unat a * 16 in [base64Char (n div 64), base64Char (n mod 64)])"
| "base64url [] = []"

text \<open>
  The source of randomness answers the k-th request for n bytes; it may fail, and then the clock is
  read instead.
\<close>

record RandEnv =
  Re_read :: "nat \<Rightarrow> nat \<Rightarrow> bytes option"
  Re_now :: "nat \<Rightarrow> gotime"

definition UnixNano :: "gotime \<Rightarrow> int" where
  "UnixNano t = t - 62135596800 * Second"

definition randomSecret :: "RandEnv \<Rightarrow> nat \<Rightarrow> string" where
  "randomSecret re k =
     (case Re_read re k 24 of
        None \<Rightarrow> ''mysmpp-'' @ Itoa (UnixNano (Re_now re k))
      | Some b \<Rightarrow> base64url b)"

definition randomSMPPSecret :: "RandEnv \<Rightarrow> nat \<Rightarrow> string" where
  "randomSMPPSecret re k =
     (case Re_read re k 6 of
        None \<Rightarrow> take SMPPMaxPassword (fmtPadHex 8 (nat (UnixNano (Re_now re k))))
      | Some b \<Rightarrow> base64url b)"

type_synonym SecretLog = "nat \<times> (string, string) gomap"

text \<open>
  One of the loops over a list of accounts: how to read and write the secret of an entry, the
  name it is reported under, and where a new one comes from. The state counts the secrets drawn.
\<close>

fun fillSecrets ::
  "('a \<Rightarrow> string) \<Rightarrow> (string \<Rightarrow> 'a \<Rightarrow> 'a) \<Rightarrow> ('a \<Rightarrow> string) \<Rightarrow> (nat \<Rightarrow> string) \<Rightarrow> 'a list \<Rightarrow> SecretLog
     \<Rightarrow> 'a list \<times> SecretLog"
  where
  "fillSecrets get put key secret [] l = ([], l)"
| "fillSecrets get put key secret (x # xs) l =
     (if IsAutoGenerate (get x) then
        (let v = secret (fst l);
             (ys, l2) = fillSecrets get put key secret xs (fst l + 1, AList.update (key x) v (snd l))
         in (put v x # ys, l2))
      else (let (ys, l2) = fillSecrets get put key secret xs l in (x # ys, l2)))"

definition fillAdmin :: "RandEnv \<Rightarrow> AdminConfig \<Rightarrow> SecretLog \<Rightarrow> AdminConfig \<times> SecretLog" where
  "fillAdmin re a l =
     (if IsAutoGenerate (Ad_Password a) then
        (let v = randomSecret re (fst l) in
         (a\<lparr>Ad_Password := v\<rparr>,
          (fst l + 1, AList.update ''admin.password'' v (AList.update ''admin.username'' (Ad_Username a) (snd l)))))
      else (a, l))"

definition fillSMPP :: "RandEnv \<Rightarrow> SMPPConfig \<Rightarrow> SecretLog \<Rightarrow> SMPPConfig \<times> SecretLog" where
  "fillSMPP re c l =
     (if IsAutoGenerate (Smc_Password c) then
        (let v = randomSMPPSecret re (fst l) in
         (c\<lparr>Smc_Password := v\<rparr>,
          (fst l + 1, AList.update ''smpp.password'' v (AList.update ''smpp.system_id'' (Smc_SystemID c) (snd l)))))
      else (c, l))"

definition fillESMEs :: "RandEnv \<Rightarrow> ESMECred list \<Rightarrow> SecretLog \<Rightarrow> ESMECred list \<times> SecretLog" where
  "fillESMEs re = fillSecrets Es_Password (\<lambda>v e. e\<lparr>Es_Password := v\<rparr>)
     (\<lambda>e. ''esmes.'' @ Es_SystemID e @ ''.password'') (randomSMPPSecret re)"

definition fillClients :: "RandEnv \<Rightarrow> ClientAuth list \<Rightarrow> SecretLog \<Rightarrow> ClientAuth list \<times> SecretLog" where
  "fillClients re = fillSecrets Cl_Token (\<lambda>v c. c\<lparr>Cl_Token := v\<rparr>)
     (\<lambda>c. ''clients.'' @ Cl_ClientID c @ ''.token'') (randomSecret re)"

definition fillInbound :: "RandEnv \<Rightarrow> HTTPRuleConfig list \<Rightarrow> SecretLog \<Rightarrow> HTTPRuleConfig list \<times> SecretLog" where
  "fillInbound re = fillSecrets Hr_AuthToken (\<lambda>v r. r\<lparr>Hr_AuthToken := v\<rparr>)
     (\<lambda>r. ''inbound.'' @ Hr_Name r @ ''.auth_token'') (randomSecret re)"

definition fillProviders :: "RandEnv \<Rightarrow> ProviderConfig list \<Rightarrow> SecretLog \<Rightarrow> ProviderConfig list \<times> SecretLog" where
  "fillProviders re = fillSecrets Pc_Password (\<lambda>v p. p\<lparr>Pc_Password := v\<rparr>)
     (\<lambda>p. ''providers.'' @ Pc_Name p @ ''.password'') (randomSecret re)"

definition generateStartupSecrets :: "RandEnv \<Rightarrow> Config \<Rightarrow> Config \<times> (string, string) gomap" where
  "generateStartupSecrets re c =
     (let (admin, l1) = fillAdmin re (Cfg_Admin c) (0, []);
          (smpp, l2) = fillSMPP re (Cfg_SMPP c) l1;
          (esmes, l3) = fillESMEs re (Cfg_ESMEs c) l2;
          (clients, l4) = fillClients re (Cfg_Clients c) l3;
          (inbound, l5) = fillInbound re (Cfg_Inbound c) l4;
          (providers, l6) = fillProviders re (Cfg_Providers c) l5
      in (c\<lparr>Cfg_Admin := admin, Cfg_SMPP := smpp, Cfg_ESMEs := esmes, Cfg_Clients := clients,
            Cfg_Inbound := inbound, Cfg_Providers := providers\<rparr>, snd l6))"

text \<open>
  The checks of \<open>LoadStartup\<close> on the file's contents, once it has been read and decoded: the
  configuration to run with, or the error. The path of a file store is resolved in between; no
  check reads it.
\<close>

definition loadStartupConfig :: "ConfigEnv \<Rightarrow> RandEnv \<Rightarrow> Config \<Rightarrow> ConfigError + Config \<times> (string, string) gomap" where
  "loadStartupConfig env re decoded =
     (let cfg = NormalizeCfg decoded in
      case validate env True cfg of
        Inl e \<Rightarrow> Inl (Wrapf ''validate config: %w'' [] e)
      | Inr _ \<Rightarrow>
          (case generateStartupSecrets re cfg of (cfg2, generated) \<Rightarrow>
             if generated = [] then Inr (cfg2, [])
             else (case Validate env (NormalizeCfg cfg2) of
                     Inl e \<Rightarrow> Inl (Wrapf ''validate generated config: %w'' [] e)
                   | Inr _ \<Rightarrow> Inr (NormalizeCfg cfg2, generated))))"

subsection \<open>Generated secrets are acceptable\<close>

text \<open>A request for n random bytes is answered with n bytes, and the clock is past 1970.\<close>

definition randOK :: "RandEnv \<Rightarrow> bool" where
  "randOK re \<longleftrightarrow> (\<forall>k n bs. Re_read re k n = Some bs \<longrightarrow> length bs = n) \<and> (\<forall>k. 10 \<le> UnixNano (Re_now re k))"

definition secretOK :: "string \<Rightarrow> bool" where
  "secretOK s \<longleftrightarrow> s \<noteq> [] \<and> \<not> isPlaceholder s \<and> \<not> IsAutoGenerate s"

lemma length_base64url: "length (base64url bs) = (4 * length bs + 2) div 3"
  by (induction bs rule: base64url.induct) (simp_all add: Let_def)

lemma length_FormatUint_two: "10 \<le> n \<Longrightarrow> 2 \<le> length (FormatUint n 10)"
proof -
  assume "10 \<le> n"
  then have "FormatUint n 10 = FormatUint (n div 10) 10 @ [digitChar (n mod 10)]"
    by (subst FormatUint.simps) simp
  moreover have "FormatUint (n div 10) 10 \<noteq> []"
    by simp
  ultimately show ?thesis
    by (cases "FormatUint (n div 10) 10") auto
qed

lemma randomSecret_ok:
  assumes "randOK re"
  shows "secretOK (randomSecret re k) \<and> SMPPMaxPassword < length (randomSecret re k)"
proof (cases "Re_read re k 24")
  case None
  have u: "10 \<le> UnixNano (Re_now re k)"
    using assms by (simp add: randOK_def)
  then have "2 \<le> length (Itoa (UnixNano (Re_now re k)))"
    using length_FormatUint_two [of "nat (UnixNano (Re_now re k))"] by (simp add: Itoa_def nat_le_iff le_nat_iff)
  then show ?thesis
    using None by (simp add: randomSecret_def secretOK_def isPlaceholder_def IsAutoGenerate_def
        PlaceholderSecret_def AutoGenerateSecret_def)
next
  case (Some bs)
  have l: "length (base64url bs) = 32"
    using assms Some by (simp add: randOK_def length_base64url)
  have "base64url bs \<noteq> PlaceholderSecret" "base64url bs \<noteq> AutoGenerateSecret" "base64url bs \<noteq> []"
    using l by (auto simp: PlaceholderSecret_def AutoGenerateSecret_def)
  then show ?thesis
    using Some l by (simp add: randomSecret_def secretOK_def isPlaceholder_def IsAutoGenerate_def)
qed

lemma randomSMPPSecret_ok:
  assumes "randOK re"
  shows "secretOK (randomSMPPSecret re k) \<and> length (randomSMPPSecret re k) \<le> SMPPMaxPassword"
proof -
  have l: "length (randomSMPPSecret re k) = 8"
    using assms by (cases "Re_read re k 6")
      (auto simp: randomSMPPSecret_def randOK_def length_base64url fmtPadHex_def padLeft_def)
  then have "randomSMPPSecret re k \<noteq> PlaceholderSecret" "randomSMPPSecret re k \<noteq> AutoGenerateSecret"
    by (auto simp: PlaceholderSecret_def AutoGenerateSecret_def)
  then show ?thesis
    using l by (auto simp: secretOK_def isPlaceholder_def IsAutoGenerate_def)
qed

text \<open>What filling in does to one entry.\<close>

definition filled :: "('a \<Rightarrow> string) \<Rightarrow> (string \<Rightarrow> 'a \<Rightarrow> 'a) \<Rightarrow> (string \<Rightarrow> bool) \<Rightarrow> 'a \<Rightarrow> 'a \<Rightarrow> bool" where
  "filled get put good x y \<longleftrightarrow> (if IsAutoGenerate (get x) then \<exists>v. good v \<and> y = put v x else y = x)"

lemma fillSecrets_filled:
  assumes "\<And>k. good (secret k)" "fillSecrets get put key secret xs l = (ys, l2)"
  shows "list_all2 (filled get put good) xs ys"
  using assms(2)
  by (induction xs arbitrary: l ys)
    (auto simp: filled_def Let_def intro!: assms(1) split: if_splits prod.splits)

lemma filled_map:
  assumes "list_all2 (filled get put good) xs ys" "\<forall>x \<in> set xs. f x = x" "\<And>v x. f (put v x) = put v (f x)"
  shows "map f ys = ys"
  using assms(1,2)
  by (induction rule: list_all2_induct) (auto simp: filled_def assms(3) split: if_splits)

lemma list_all2_rev_mem: "list_all2 R xs ys \<Longrightarrow> y \<in> set ys \<Longrightarrow> \<exists>x \<in> set xs. R x y"
  by (induction rule: list_all2_induct) auto

lemma smppString_auto:
  "validateSMPPString n v mx True = Inr () \<Longrightarrow> \<not> IsAutoGenerate v \<Longrightarrow> validateSMPPString n v mx False = Inr ()"
  by (auto simp: validateSMPPString_def)

lemma smppString_short: "length v \<le> mx \<Longrightarrow> validateSMPPString n v mx a = Inr ()"
  by (simp add: validateSMPPString_def)

abbreviation shortSecret :: "string \<Rightarrow> bool" where
  "shortSecret v \<equiv> secretOK v \<and> length v \<le> SMPPMaxPassword"

abbreviation longSecret :: "string \<Rightarrow> bool" where
  "longSecret v \<equiv> secretOK v \<and> SMPPMaxPassword < length v"

lemma fill_ESMEs:
  assumes "list_all2 (filled Es_Password (\<lambda>v e. e\<lparr>Es_Password := v\<rparr>) shortSecret) es fs"
    "validateESMEs True tenants es names = Inr ()" "\<forall>e \<in> set es. \<not> IsAutoGenerate (Es_SystemID e)"
  shows "validateESMEs False tenants fs names = Inr ()"
  using assms
proof (induction arbitrary: names rule: list_all2_induct)
  case (Cons e es f fs)
  have f: "filled Es_Password (\<lambda>v e. e\<lparr>Es_Password := v\<rparr>) shortSecret e f"
    by fact
  have e: "Es_SystemID e \<noteq> []" "Es_Password e \<noteq> []" "\<not> isPlaceholder (Es_Password e)"
    "validateSMPPString ''esme.system_id'' (Es_SystemID e) SMPPMaxSystemID True = Inr ()"
    "validateSMPPString ''esme.password'' (Es_Password e) SMPPMaxPassword True = Inr ()"
    "Es_SystemID e \<notin> set names" "\<not> (Es_TenantID e \<noteq> [] \<and> Es_TenantID e \<notin> set tenants)"
    and rest: "validateESMEs True tenants es (Es_SystemID e # names) = Inr ()"
    using Cons.prems(1) by (simp_all add: Let_def)
  have sid: "validateSMPPString ''esme.system_id'' (Es_SystemID e) SMPPMaxSystemID False = Inr ()"
    using Cons.prems(2) smppString_auto [OF e(4)] by simp
  have same: "Es_SystemID f = Es_SystemID e" "Es_TenantID f = Es_TenantID e" "secretOK (Es_Password f)"
    using f e(2,3) by (auto simp: filled_def secretOK_def split: if_splits)
  have pw: "validateSMPPString ''esme.password'' (Es_Password f) SMPPMaxPassword False = Inr ()"
  proof (cases "IsAutoGenerate (Es_Password e)")
    case True
    then show ?thesis
      using f by (auto simp: filled_def intro: smppString_short)
  next
    case False
    then show ?thesis
      using f smppString_auto [OF e(5)] by (simp add: filled_def)
  qed
  have "validateESMEs False tenants fs (Es_SystemID e # names) = Inr ()"
    using Cons.IH [OF rest] Cons.prems(2) by simp
  then show ?case
    using e(1,6,7) sid pw same by (simp add: Let_def secretOK_def)
qed simp

lemma fill_Clients:
  assumes "list_all2 (filled Cl_Token (\<lambda>v c. c\<lparr>Cl_Token := v\<rparr>) longSecret) cs ds"
    "validateClients True tenants cs names = Inr ()"
  shows "validateClients False tenants ds names = Inr ()"
  using assms
proof (induction arbitrary: names rule: list_all2_induct)
  case (Cons c cs d ds)
  have f: "filled Cl_Token (\<lambda>v c. c\<lparr>Cl_Token := v\<rparr>) longSecret c d"
    by fact
  have c: "Cl_ClientID c \<noteq> []" "\<not> (Cl_Enabled c \<and> Cl_Token c = [])" "\<not> isPlaceholder (Cl_Token c)"
    "Cl_ClientID c \<notin> set names" "\<not> (Cl_TenantID c \<noteq> [] \<and> Cl_TenantID c \<notin> set tenants)"
    and rest: "validateClients True tenants cs (Cl_ClientID c # names) = Inr ()"
    using Cons.prems by (simp_all add: Let_def)
  have d: "Cl_ClientID d = Cl_ClientID c" "Cl_TenantID d = Cl_TenantID c" "\<not> IsAutoGenerate (Cl_Token d)"
    "\<not> isPlaceholder (Cl_Token d)" "\<not> (Cl_Enabled d \<and> Cl_Token d = [])"
    using f c(2,3) by (auto simp: filled_def secretOK_def split: if_splits)
  show ?case
    using c(1,4,5) d Cons.IH [OF rest] by (simp add: Let_def)
qed simp

lemma fill_Inbound:
  assumes "list_all2 (filled Hr_AuthToken (\<lambda>v r. r\<lparr>Hr_AuthToken := v\<rparr>) longSecret) rs qs"
    "\<forall>r \<in> set rs. validateInbound True names r = Inr ()" "q \<in> set qs"
  shows "validateInbound False names q = Inr ()"
proof -
  obtain r where r: "r \<in> set rs" "filled Hr_AuthToken (\<lambda>v r. r\<lparr>Hr_AuthToken := v\<rparr>) longSecret r q"
    using list_all2_rev_mem [OF assms(1,3)] by blast
  have ok: "validateInbound True names r = Inr ()"
    using assms(2) r(1) by blast
  then have "Hr_AuthToken r \<noteq> []"
    using validateInbound_secret by blast
  then have same: "Hr_Name q = Hr_Name r" "Hr_Path q = Hr_Path r" "Hr_AuthHeader q = Hr_AuthHeader r"
    "Hr_Fields q = Hr_Fields r" "Hr_Provider q = Hr_Provider r"
    "(Hr_AuthToken r = []) = False" "(Hr_AuthToken q = []) = False" "IsAutoGenerate (Hr_AuthToken q) = False"
    using r(2) by (auto simp: filled_def secretOK_def split: if_splits)
  have "validateInbound False names q = validateInbound True names r"
    unfolding validateInbound_def Let_def same by (simp only: not_True_eq_False not_False_eq_True simp_thms)
  then show ?thesis
    using ok by simp
qed

text \<open>The fields of an SMPP provider that the length checks skip while secrets may be generated.\<close>

definition smppProviderFields :: "ProviderConfig \<Rightarrow> string set" where
  "smppProviderFields p =
     (if ToLower (Pc_Protocol p) = ''smpp''
      then {Pc_SystemID p, Pc_Password p} \<union> (case Pc_SMPP p of None \<Rightarrow> {} | Some c \<Rightarrow> {Sc_SystemType c})
      else {})"

lemma protocol_transfer:
  assumes "validateProviderProtocol env p True = Inr ()" "AutoGenerateSecret \<notin> smppProviderFields p"
    "filled Pc_Password (\<lambda>v p. p\<lparr>Pc_Password := v\<rparr>) longSecret p q"
  shows "validateProviderProtocol env q False = Inr ()"
proof (cases "ToLower (Pc_Protocol p) = ''smpp''")
  case True
  obtain c where c: "Pc_SMPP p = Some c"
    using assms(1) True by (auto simp: validateProviderProtocol_def Let_def split: option.splits)
  have na: "\<not> IsAutoGenerate (Pc_SystemID p)" "\<not> IsAutoGenerate (Pc_Password p)" "\<not> IsAutoGenerate (Sc_SystemType c)"
    using assms(2) True c by (auto simp: smppProviderFields_def IsAutoGenerate_def)
  then have q: "q = p"
    using assms(3) by (simp add: filled_def)
  have v: "validateSMPPProvider env p True c = Inr ()"
    using assms(1) True c by (simp add: validateProviderProtocol_def Let_def)
  have "validateSMPPString ''provider.system_id'' (Pc_SystemID p) SMPPMaxSystemID False = Inr ()"
    "validateSMPPString ''provider.password'' (Pc_Password p) SMPPMaxPassword False = Inr ()"
    "validateSMPPString ''provider.smpp.system_type'' (Sc_SystemType c) SMPPMaxSystemType False = Inr ()"
    using v na by (simp_all add: validateSMPPProvider_def Let_def smppString_auto)
  then have "validateSMPPProvider env p False c = Inr ()"
    using v by (simp add: validateSMPPProvider_def Let_def)
  then show ?thesis
    using True c q by (simp add: validateProviderProtocol_def Let_def)
next
  case False
  have "Pc_Protocol q = Pc_Protocol p" "Pc_SMPP q = Pc_SMPP p" "Pc_Rule q = Pc_Rule p" "Pc_Name q = Pc_Name p"
    using assms(3) by (auto simp: filled_def split: if_splits)
  then show ?thesis
    using assms(1) False by (auto simp: validateProviderProtocol_def Let_def split: if_splits)
qed

lemma fill_Providers:
  assumes "list_all2 (filled Pc_Password (\<lambda>v p. p\<lparr>Pc_Password := v\<rparr>) longSecret) ps qs"
    "validateProviders env True ps acc = Inr r" "\<forall>p \<in> set ps. AutoGenerateSecret \<notin> smppProviderFields p"
  shows "validateProviders env False qs acc = Inr r"
  using assms
proof (induction arbitrary: acc rule: list_all2_induct)
  case (Cons p ps q qs)
  have f: "filled Pc_Password (\<lambda>v p. p\<lparr>Pc_Password := v\<rparr>) longSecret p q"
    by fact
  have same: "Pc_Name q = Pc_Name p" "Pc_HTTPTimeoutMS q = Pc_HTTPTimeoutMS p" "Pc_RateLimit q = Pc_RateLimit p"
    "addProvider q acc = addProvider p acc" "\<not> IsAutoGenerate (Pc_Password q)"
    using f by (cases acc; auto simp: filled_def addProvider_def secretOK_def split: if_splits)+
  have rest: "validateProviders env True ps (addProvider p acc) = Inr r"
    and p: "validateProviderProtocol env p True = Inr ()"
    using Cons.prems(1) by simp_all
  have "validateProviderProtocol env q False = Inr ()"
    using Cons.prems(2) by (intro protocol_transfer [OF p _ f]) simp
  moreover have "validateProviders env False qs (addProvider p acc) = Inr r"
    using Cons.prems(2) rest by (intro Cons.IH) simp_all
  ultimately show ?case
    using Cons.prems(1) same by simp
qed simp

text \<open>
  The fields that are checked for their length with the rest of the configuration, though no secret
  is ever generated for them, and the passwords of SMPP providers, which get a long one.
\<close>

definition lengthChecked :: "Config \<Rightarrow> string set" where
  "lengthChecked c = {Smc_SystemID (Cfg_SMPP c), Smc_SystemType (Cfg_SMPP c)}
     \<union> Es_SystemID ` set (Cfg_ESMEs c) \<union> \<Union> (smppProviderFields ` set (Cfg_Providers c))"

lemma list_all2_mem: "list_all2 R xs ys \<Longrightarrow> x \<in> set xs \<Longrightarrow> \<exists>y \<in> set ys. R x y"
  by (induction rule: list_all2_induct) auto

lemma smppString_marker:
  "IsAutoGenerate v \<Longrightarrow> mx < 26 \<Longrightarrow> validateSMPPString n v mx False \<noteq> Inr ()"
  by (auto simp: validateSMPPString_def IsAutoGenerate_def AutoGenerateSecret_def)

lemma protocol_reject:
  assumes "filled Pc_Password (\<lambda>v p. p\<lparr>Pc_Password := v\<rparr>) longSecret p q"
    "AutoGenerateSecret \<in> smppProviderFields p"
  shows "validateProviderProtocol env q False \<noteq> Inr ()"
proof
  assume ok: "validateProviderProtocol env q False = Inr ()"
  have smpp: "ToLower (Pc_Protocol p) = ''smpp''"
    using assms(2) by (auto simp: smppProviderFields_def split: if_splits)
  have q: "Pc_Protocol q = Pc_Protocol p" "Pc_SMPP q = Pc_SMPP p" "Pc_SystemID q = Pc_SystemID p"
    "IsAutoGenerate (Pc_Password p) \<longrightarrow> SMPPMaxPassword < length (Pc_Password q)"
    using assms(1) by (auto simp: filled_def split: if_splits)
  obtain c where c: "Pc_SMPP p = Some c" and "validateSMPPProvider env q False c = Inr ()"
    using ok smpp q by (auto simp: validateProviderProtocol_def Let_def split: option.splits)
  then have "validateSMPPString ''provider.system_id'' (Pc_SystemID p) SMPPMaxSystemID False = Inr ()"
    "validateSMPPString ''provider.password'' (Pc_Password q) SMPPMaxPassword False = Inr ()"
    "validateSMPPString ''provider.smpp.system_type'' (Sc_SystemType c) SMPPMaxSystemType False = Inr ()"
    using q(3) by (simp_all add: validateSMPPProvider_def Let_def)
  then have "\<not> IsAutoGenerate (Pc_SystemID p)" "\<not> IsAutoGenerate (Sc_SystemType c)" "length (Pc_Password q) \<le> SMPPMaxPassword"
    using smppString_marker by (fastforce, fastforce, auto simp: validateSMPPString_def split: if_splits)
  then show False
    using assms(2) smpp c q(4) by (auto simp: smppProviderFields_def IsAutoGenerate_def)
qed

lemma generate_parts:
  assumes "randOK re" "generateStartupSecrets re c = (d, gen)"
  shows "list_all2 (filled Es_Password (\<lambda>v e. e\<lparr>Es_Password := v\<rparr>) shortSecret) (Cfg_ESMEs c) (Cfg_ESMEs d)"
    and "list_all2 (filled Cl_Token (\<lambda>v e. e\<lparr>Cl_Token := v\<rparr>) longSecret) (Cfg_Clients c) (Cfg_Clients d)"
    and "list_all2 (filled Hr_AuthToken (\<lambda>v e. e\<lparr>Hr_AuthToken := v\<rparr>) longSecret) (Cfg_Inbound c) (Cfg_Inbound d)"
    and "list_all2 (filled Pc_Password (\<lambda>v e. e\<lparr>Pc_Password := v\<rparr>) longSecret) (Cfg_Providers c) (Cfg_Providers d)"
    and "filled Ad_Password (\<lambda>v a. a\<lparr>Ad_Password := v\<rparr>) longSecret (Cfg_Admin c) (Cfg_Admin d)"
    and "filled Smc_Password (\<lambda>v a. a\<lparr>Smc_Password := v\<rparr>) shortSecret (Cfg_SMPP c) (Cfg_SMPP d)"
    and "d = c\<lparr>Cfg_Admin := Cfg_Admin d, Cfg_SMPP := Cfg_SMPP d, Cfg_ESMEs := Cfg_ESMEs d, Cfg_Clients := Cfg_Clients d,
            Cfg_Inbound := Cfg_Inbound d, Cfg_Providers := Cfg_Providers d\<rparr>"
proof -
  obtain admin l1 where 1: "fillAdmin re (Cfg_Admin c) (0, []) = (admin, l1)" by (rule prod.exhaust)
  obtain smpp l2 where 2: "fillSMPP re (Cfg_SMPP c) l1 = (smpp, l2)" by (rule prod.exhaust)
  obtain esmes l3 where 3: "fillESMEs re (Cfg_ESMEs c) l2 = (esmes, l3)" by (rule prod.exhaust)
  obtain clients l4 where 4: "fillClients re (Cfg_Clients c) l3 = (clients, l4)" by (rule prod.exhaust)
  obtain inbound l5 where 5: "fillInbound re (Cfg_Inbound c) l4 = (inbound, l5)" by (rule prod.exhaust)
  obtain providers l6 where 6: "fillProviders re (Cfg_Providers c) l5 = (providers, l6)" by (rule prod.exhaust)
  have d: "d = c\<lparr>Cfg_Admin := admin, Cfg_SMPP := smpp, Cfg_ESMEs := esmes, Cfg_Clients := clients,
            Cfg_Inbound := inbound, Cfg_Providers := providers\<rparr>"
    using assms(2) by (simp add: generateStartupSecrets_def 1 2 3 4 5 6)
  note long = randomSecret_ok [OF assms(1)] and short = randomSMPPSecret_ok [OF assms(1)]
  show "list_all2 (filled Es_Password (\<lambda>v e. e\<lparr>Es_Password := v\<rparr>) shortSecret) (Cfg_ESMEs c) (Cfg_ESMEs d)"
    using fillSecrets_filled [where good = shortSecret and secret = "randomSMPPSecret re", OF short 3 [unfolded fillESMEs_def]] by (simp add: d)
  show "list_all2 (filled Cl_Token (\<lambda>v e. e\<lparr>Cl_Token := v\<rparr>) longSecret) (Cfg_Clients c) (Cfg_Clients d)"
    using fillSecrets_filled [where good = longSecret and secret = "randomSecret re", OF long 4 [unfolded fillClients_def]] by (simp add: d)
  show "list_all2 (filled Hr_AuthToken (\<lambda>v e. e\<lparr>Hr_AuthToken := v\<rparr>) longSecret) (Cfg_Inbound c) (Cfg_Inbound d)"
    using fillSecrets_filled [where good = longSecret and secret = "randomSecret re", OF long 5 [unfolded fillInbound_def]] by (simp add: d)
  show "list_all2 (filled Pc_Password (\<lambda>v e. e\<lparr>Pc_Password := v\<rparr>) longSecret) (Cfg_Providers c) (Cfg_Providers d)"
    using fillSecrets_filled [where good = longSecret and secret = "randomSecret re", OF long 6 [unfolded fillProviders_def]] by (simp add: d)
  show "filled Ad_Password (\<lambda>v a. a\<lparr>Ad_Password := v\<rparr>) longSecret (Cfg_Admin c) (Cfg_Admin d)"
    using 1 long by (auto simp: d filled_def fillAdmin_def Let_def split: if_splits)
  show "filled Smc_Password (\<lambda>v a. a\<lparr>Smc_Password := v\<rparr>) shortSecret (Cfg_SMPP c) (Cfg_SMPP d)"
    using 2 short by (auto simp: d filled_def fillSMPP_def Let_def split: if_splits)
  show "d = c\<lparr>Cfg_Admin := Cfg_Admin d, Cfg_SMPP := Cfg_SMPP d, Cfg_ESMEs := Cfg_ESMEs d, Cfg_Clients := Cfg_Clients d,
            Cfg_Inbound := Cfg_Inbound d, Cfg_Providers := Cfg_Providers d\<rparr>"
    by (simp add: d)
qed

lemma generate_same:
  assumes "randOK re" "generateStartupSecrets re c = (d, gen)"
  shows "Cfg_Storage d = Cfg_Storage c" "Cfg_Server d = Cfg_Server c" "Cfg_Dispatcher d = Cfg_Dispatcher c"
    "Cfg_TrustedProxies d = Cfg_TrustedProxies c" "Cfg_Routes d = Cfg_Routes c" "Cfg_Filter d = Cfg_Filter c"
    "Cfg_CDR d = Cfg_CDR c" "Cfg_Tenants d = Cfg_Tenants c" "Cfg_Outbound d = Cfg_Outbound c"
    "Cfg_Risk d = Cfg_Risk c" "Smc_Addr (Cfg_SMPP d) = Smc_Addr (Cfg_SMPP c)"
    "Smc_SystemID (Cfg_SMPP d) = Smc_SystemID (Cfg_SMPP c)" "Smc_SystemType (Cfg_SMPP d) = Smc_SystemType (Cfg_SMPP c)"
    "Ad_Username (Cfg_Admin d) = Ad_Username (Cfg_Admin c)"
proof -
  note d = generate_parts(7) [OF assms]
  show "Cfg_Storage d = Cfg_Storage c" "Cfg_Server d = Cfg_Server c" "Cfg_Dispatcher d = Cfg_Dispatcher c"
    "Cfg_TrustedProxies d = Cfg_TrustedProxies c" "Cfg_Routes d = Cfg_Routes c" "Cfg_Filter d = Cfg_Filter c"
    "Cfg_CDR d = Cfg_CDR c" "Cfg_Tenants d = Cfg_Tenants c" "Cfg_Outbound d = Cfg_Outbound c"
    "Cfg_Risk d = Cfg_Risk c"
    by (subst d, simp)+
  show "Smc_Addr (Cfg_SMPP d) = Smc_Addr (Cfg_SMPP c)"
    "Smc_SystemID (Cfg_SMPP d) = Smc_SystemID (Cfg_SMPP c)" "Smc_SystemType (Cfg_SMPP d) = Smc_SystemType (Cfg_SMPP c)"
    using generate_parts(6) [OF assms] by (auto simp: filled_def split: if_splits)
  show "Ad_Username (Cfg_Admin d) = Ad_Username (Cfg_Admin c)"
    using generate_parts(5) [OF assms] by (auto simp: filled_def split: if_splits)
qed

lemma normSMPP_password: "normSMPP (x\<lparr>Smc_Password := v\<rparr>) = (normSMPP x)\<lparr>Smc_Password := v\<rparr>"
  by (simp add: normSMPP_def)

lemma generate_normal:
  assumes "randOK re" "generateStartupSecrets re (NormalizeCfg c) = (d, gen)"
  shows "NormalizeCfg d = d"
proof -
  note parts = generate_parts [OF assms] and same = generate_same [OF assms]
  have n: "normServer (Cfg_Server d) = Cfg_Server d" "normStorage (Cfg_Storage d) = Cfg_Storage d"
    "normDispatcher (Cfg_Dispatcher d) = Cfg_Dispatcher d" "normRisk (Cfg_Risk d) = Cfg_Risk d"
    "normCDR (Cfg_CDR d) = Cfg_CDR d" "map normOutbound (Cfg_Outbound d) = Cfg_Outbound d"
    "map normRoute (Cfg_Routes d) = Cfg_Routes d"
    unfolding same by (simp_all add: NormalizeCfg_def o_def)
  have "normSMPP (Cfg_SMPP (NormalizeCfg c)) = Cfg_SMPP (NormalizeCfg c)"
    by (simp add: NormalizeCfg_def)
  then have s: "normSMPP (Cfg_SMPP d) = Cfg_SMPP d"
    using parts(6) by (auto simp: filled_def normSMPP_password split: if_splits)
  have i: "map normInbound (Cfg_Inbound d) = Cfg_Inbound d"
    by (rule filled_map [OF parts(3)]) (auto simp: NormalizeCfg_def normInbound_def)
  have p: "map normProvider (Cfg_Providers d) = Cfg_Providers d"
    by (rule filled_map [OF parts(4)]) (auto simp: NormalizeCfg_def normProvider_def o_def option.map_comp)
  show ?thesis
    by (simp add: NormalizeCfg_def n s i p)
qed

lemma generate_secrets:
  assumes "randOK re" "generateStartupSecrets re c = (d, gen)" "validateSecrets True c = Inr ()"
    "\<not> IsAutoGenerate (Smc_SystemID (Cfg_SMPP c))" "\<not> IsAutoGenerate (Smc_SystemType (Cfg_SMPP c))"
  shows "validateSecrets False d = Inr ()"
proof -
  note parts = generate_parts [OF assms(1,2)] and same = generate_same [OF assms(1,2)]
  have c: "Ad_Username (Cfg_Admin c) \<noteq> []" "Ad_Password (Cfg_Admin c) \<noteq> []"
    "\<not> isPlaceholder (Ad_Username (Cfg_Admin c))" "\<not> isPlaceholder (Ad_Password (Cfg_Admin c))"
    "\<not> isPlaceholder (Smc_Password (Cfg_SMPP c))"
    "validateSMPPString ''smpp.system_id'' (Smc_SystemID (Cfg_SMPP c)) SMPPMaxSystemID True = Inr ()"
    "validateSMPPString ''smpp.password'' (Smc_Password (Cfg_SMPP c)) SMPPMaxPassword True = Inr ()"
    "validateSMPPString ''smpp.system_type'' (Smc_SystemType (Cfg_SMPP c)) SMPPMaxSystemType True = Inr ()"
    using assms(3) by (simp_all add: validateSecrets_def Let_def)
  have ids: "validateSMPPString ''smpp.system_id'' (Smc_SystemID (Cfg_SMPP d)) SMPPMaxSystemID False = Inr ()"
    "validateSMPPString ''smpp.system_type'' (Smc_SystemType (Cfg_SMPP d)) SMPPMaxSystemType False = Inr ()"
    using smppString_auto [OF c(6)] smppString_auto [OF c(8)] assms(4,5) by (simp_all add: same)
  have admin: "secretOK (Ad_Password (Cfg_Admin d))"
    using parts(5) c(2,4) by (auto simp: filled_def secretOK_def split: if_splits)
  have pw: "validateSMPPString ''smpp.password'' (Smc_Password (Cfg_SMPP d)) SMPPMaxPassword False = Inr () \<and>
      \<not> isPlaceholder (Smc_Password (Cfg_SMPP d)) \<and> \<not> IsAutoGenerate (Smc_Password (Cfg_SMPP d))"
  proof (cases "IsAutoGenerate (Smc_Password (Cfg_SMPP c))")
    case True
    then show ?thesis
      using parts(6) by (auto simp: filled_def secretOK_def intro: smppString_short)
  next
    case False
    then show ?thesis
      using parts(6) c(5) smppString_auto [OF c(7)] by (simp add: filled_def)
  qed
  show ?thesis
    using ids admin pw c(1,3) by (simp add: validateSecrets_def Let_def same secretOK_def)
qed

lemma generate_validates:
  assumes "randOK re" "generateStartupSecrets re c = (d, gen)" "validate env True c = Inr ()"
    "AutoGenerateSecret \<notin> lengthChecked c"
  shows "validate env False d = Inr ()"
proof -
  note parts = generate_parts [OF assms(1,2)] and same = generate_same [OF assms(1,2)]
  have na: "\<not> IsAutoGenerate (Smc_SystemID (Cfg_SMPP c))" "\<not> IsAutoGenerate (Smc_SystemType (Cfg_SMPP c))"
    "\<forall>e \<in> set (Cfg_ESMEs c). \<not> IsAutoGenerate (Es_SystemID e)"
    "\<forall>p \<in> set (Cfg_Providers c). AutoGenerateSecret \<notin> smppProviderFields p"
    using assms(4) by (force simp: lengthChecked_def IsAutoGenerate_def)+
  obtain names enabled tenants where
    prov: "validateProviders env True (Cfg_Providers c) ([], []) = Inr (names, enabled)"
    and rest: "validateStorage (Cfg_Storage c) = Inr ()" "validateSecrets True c = Inr ()" "validateServices c = Inr ()"
    "Cfg_Providers c = [] \<or> enabled \<noteq> []"
    "\<forall>r \<in> set (Cfg_Routes c). validateRoute names r = Inr ()"
    "validateRoutePrefixes (Cfg_Routes c) = Inr ()"
    "validateFilter env (Cfg_Filter c) = Inr ()" "validateCDR (Cfg_CDR c) = Inr ()"
    and ten: "validateTenants env (Cfg_Tenants c) [] = Inr tenants"
    and es: "validateESMEs True tenants (Cfg_ESMEs c) [] = Inr ()"
    and cl: "validateClients True tenants (Cfg_Clients c) [] = Inr ()"
    and inb: "\<forall>r \<in> set (Cfg_Inbound c). validateInbound True names r = Inr ()"
    and out: "\<forall>r \<in> set (Cfg_Outbound c). validateOutbound r = Inr ()"
    using assms(3) by (rule validate_parts)
  have "validateProviders env False (Cfg_Providers d) ([], []) = Inr (names, enabled)"
    using fill_Providers [OF parts(4) prov na(4)] .
  moreover have "validateSecrets False d = Inr ()"
    using generate_secrets [OF assms(1,2) rest(2) na(1,2)] .
  moreover have "validateServices d = Inr ()"
    using rest(3) by (simp add: validateServices_def Let_def same)
  moreover have "validateAccounts env False d = Inr ()"
    using fill_ESMEs [OF parts(1) es na(3)] fill_Clients [OF parts(2) cl] ten
    by (simp add: validateAccounts_def same)
  moreover have "\<forall>r \<in> set (Cfg_Inbound d). validateInbound False names r = Inr ()"
    using fill_Inbound [OF parts(3) inb] by blast
  moreover have "Cfg_Providers d = [] \<or> enabled \<noteq> []"
    using rest(4) list_all2_lengthD [OF parts(4)] by auto
  ultimately show ?thesis
    using rest out by (auto simp: validate_def same)
qed

lemma generate_rejected:
  assumes "randOK re" "generateStartupSecrets re c = (d, gen)" "AutoGenerateSecret \<in> lengthChecked c"
  shows "validate env False d \<noteq> Inr ()"
proof
  assume "validate env False d = Inr ()"
  then obtain names enabled tenants where
    prov: "validateProviders env False (Cfg_Providers d) ([], []) = Inr (names, enabled)"
    and sec: "validateSecrets False d = Inr ()"
    and es: "validateESMEs False tenants (Cfg_ESMEs d) [] = Inr ()"
    by (rule validate_parts)
  note parts = generate_parts [OF assms(1,2)] and same = generate_same [OF assms(1,2)]
  have "\<not> IsAutoGenerate (Smc_SystemID (Cfg_SMPP c))" "\<not> IsAutoGenerate (Smc_SystemType (Cfg_SMPP c))"
    using sec smppString_marker by (fastforce simp: validateSecrets_def Let_def same)+
  moreover have "\<not> IsAutoGenerate (Es_SystemID e)" if e: "e \<in> set (Cfg_ESMEs c)" for e
  proof -
    obtain f where f: "f \<in> set (Cfg_ESMEs d)" "Es_SystemID f = Es_SystemID e"
      using list_all2_mem [OF parts(1) e] by (auto simp: filled_def split: if_splits)
    have "validateSMPPString ''esme.system_id'' (Es_SystemID f) SMPPMaxSystemID False = Inr ()"
      using validateESMEs_ok [OF es] f(1) by simp
    then show ?thesis
      using smppString_marker [of "Es_SystemID f" SMPPMaxSystemID] f(2) by auto
  qed
  moreover have "AutoGenerateSecret \<notin> smppProviderFields p" if p: "p \<in> set (Cfg_Providers c)" for p
  proof -
    obtain q where q: "q \<in> set (Cfg_Providers d)"
      "filled Pc_Password (\<lambda>v e. e\<lparr>Pc_Password := v\<rparr>) longSecret p q"
      using list_all2_mem [OF parts(4) p] by blast
    have "validateProviderProtocol env q False = Inr ()"
      using validateProviders_ok [OF prov] q(1) by simp
    then show ?thesis
      using protocol_reject [OF q(2)] by blast
  qed
  ultimately show False
    using assms(3) by (force simp: lengthChecked_def IsAutoGenerate_def)
qed

text \<open>
  C39: A start that generates secrets is accepted exactly when no field asks for a generated value
  that has to fit an SMPP field and gets none: the system ids and types, which are never
  generated, and the passwords of SMPP providers, for which a secret of more than 8 bytes is drawn
  that the validation after it always refuses. What is accepted is the configuration that passed
  the full validation.
\<close>

theorem startup_secrets_accepted:
  assumes re: "randOK re" and ok: "validate env True (NormalizeCfg c) = Inr ()"
    and gen: "generateStartupSecrets re (NormalizeCfg c) = (d, gen)" "gen \<noteq> []"
  shows "(AutoGenerateSecret \<notin> lengthChecked (NormalizeCfg c) \<longrightarrow>
            loadStartupConfig env re c = Inr (d, gen) \<and> Validate env d = Inr ()) \<and>
         (AutoGenerateSecret \<in> lengthChecked (NormalizeCfg c) \<longrightarrow>
            (\<exists>e. loadStartupConfig env re c = Inl (Wrapf ''validate generated config: %w'' [] e)))"
proof -
  have d: "NormalizeCfg d = d"
    using generate_normal [OF re gen(1)] .
  have "Validate env d = Inr () \<longleftrightarrow> AutoGenerateSecret \<notin> lengthChecked (NormalizeCfg c)"
    using generate_validates [OF re gen(1) ok] generate_rejected [OF re gen(1)]
    unfolding Validate_def by blast
  moreover have "(\<exists>e. r = Inl e) \<longleftrightarrow> r \<noteq> Inr ()" for r :: "ConfigError + unit"
    by (cases r) auto
  ultimately show ?thesis
    using gen ok d by (auto simp: loadStartupConfig_def Let_def split: sum.splits)
qed

subsection \<open>An example start\<close>

definition exampleRand :: RandEnv where
  "exampleRand = \<lparr>Re_read = (\<lambda>k n. Some (replicate n 0)), Re_now = (\<lambda>_. 63000000000 * Second)\<rparr>"

lemma example_not_auto: "\<not> IsAutoGenerate []" "IsAutoGenerate AutoGenerateSecret"
  by (simp_all add: IsAutoGenerate_def AutoGenerateSecret_def)

lemma example_secrets:
  obtains d where "generateStartupSecrets exampleRand (NormalizeCfg (exampleConfig AutoGenerateSecret)) =
     (d, [(''admin.username'', ''root''), (''admin.password'', randomSecret exampleRand 0)])"
  unfolding example_normal
  by (simp add: generateStartupSecrets_def fillAdmin_def fillSMPP_def fillESMEs_def fillClients_def fillInbound_def
      fillProviders_def exampleConfig_def DefaultConfig_def exampleProvider_def example_not_auto Let_def)

theorem startup_secrets_accepted_witness:
  "\<exists>d gen. gen \<noteq> [] \<and> loadStartupConfig exampleEnv exampleRand (exampleConfig AutoGenerateSecret) = Inr (d, gen) \<and>
     Validate exampleEnv d = Inr ()"
proof -
  obtain d where d: "generateStartupSecrets exampleRand (NormalizeCfg (exampleConfig AutoGenerateSecret)) =
     (d, [(''admin.username'', ''root''), (''admin.password'', randomSecret exampleRand 0)])"
    by (rule example_secrets)
  have re: "randOK exampleRand"
    by (simp add: randOK_def exampleRand_def UnixNano_def)
  have ok: "validate exampleEnv True (NormalizeCfg (exampleConfig AutoGenerateSecret)) = Inr ()"
    by (rule example_valid) (simp_all add: isPlaceholder_def PlaceholderSecret_def AutoGenerateSecret_def)
  have "AutoGenerateSecret \<notin> lengthChecked (NormalizeCfg (exampleConfig AutoGenerateSecret))"
    unfolding example_normal
    by (simp add: lengthChecked_def smppProviderFields_def exampleConfig_def DefaultConfig_def exampleProvider_def
        ToLower_mock AutoGenerateSecret_def)
  then show ?thesis
    using startup_secrets_accepted [OF re ok d] by blast
qed

end
