(* ===== verification/Sms_Router.thy ===== *)
theory Sms_Router
  imports Config_Validate Sms_Text "HOL-Library.Product_Lexorder"
begin

text \<open>
  The router (\<open>router/router.go\<close>): the order of the route table, the choice of a route for a message
  and the choice of a provider for a route, by a failover chain or by a weighted hash.
\<close>

subsection \<open>The route table\<close>

record Router =
  Ro_routes :: "RouteConfig list"
  Ro_enabledProviders :: "(string, bool) gomap"

definition longestPrefix :: "string list \<Rightarrow> nat" where
  "longestPrefix prefixes = foldl (\<lambda>longest p. if longest < length p then length p else longest) 0 prefixes"

text \<open>\<open>sort.SliceStable\<close> with the comparison of the source: descending priority, then descending prefix.\<close>

definition sortRoutes :: "RouteConfig list \<Rightarrow> RouteConfig list" where
  "sortRoutes routes = sort_key (\<lambda>r. (- Rt_Priority r, - int (longestPrefix (Rt_Prefix r)))) routes"

definition enabledGet :: "(string, bool) gomap \<Rightarrow> string \<Rightarrow> bool" where
  "enabledGet m name = (case map_of m name of None \<Rightarrow> False | Some b \<Rightarrow> b)"

definition routeSelectable :: "RouteConfig \<Rightarrow> (string, bool) gomap \<Rightarrow> bool" where
  "routeSelectable route enabled =
     (if Rt_Weighted route \<noteq> [] then \<exists>wp \<in> set (Rt_Weighted route). enabledGet enabled (Wp_Provider wp)
      else if Rt_Failover route \<noteq> [] then \<exists>p \<in> set (Rt_Failover route). enabledGet enabled p
      else enabledGet enabled (Rt_Provider route))"

definition NewRouter :: "RouteConfig list \<Rightarrow> Router" where
  "NewRouter routes = \<lparr>Ro_routes = sortRoutes routes, Ro_enabledProviders = []\<rparr>"

definition enabledMap :: "ProviderConfig list \<Rightarrow> (string, bool) gomap" where
  "enabledMap providers = foldl (\<lambda>m p. AList.update (Pc_Name p) (Pc_Enabled p) m) [] providers"

definition NewWithProviders :: "RouteConfig list \<Rightarrow> ProviderConfig list \<Rightarrow> Router" where
  "NewWithProviders routes providers =
     (let enabled = enabledMap providers;
          cp = filter (\<lambda>r. Rt_Enabled r \<noteq> Some False \<and> routeSelectable r enabled) routes
      in \<lparr>Ro_routes = sortRoutes cp, Ro_enabledProviders = enabled\<rparr>)"

subsection \<open>Matching by destination only\<close>

record BestRoute =
  Br_route :: RouteConfig
  Br_priority :: int
  Br_prefix :: nat

definition phoneStep :: "string \<Rightarrow> RouteConfig \<Rightarrow> BestRoute option \<Rightarrow> string \<Rightarrow> BestRoute option" where
  "phoneStep to route best prefix =
     (if \<not> HasPrefix to prefix then best
      else if (case best of None \<Rightarrow> True
               | Some b \<Rightarrow> Br_priority b < Rt_Priority route \<or>
                   (Rt_Priority route = Br_priority b \<and> Br_prefix b < length prefix))
      then Some \<lparr>Br_route = route, Br_priority = Rt_Priority route, Br_prefix = length prefix\<rparr>
      else best)"

definition phoneRoute :: "string \<Rightarrow> BestRoute option \<Rightarrow> RouteConfig \<Rightarrow> BestRoute option" where
  "phoneRoute to best route =
     (if Rt_Prefix route = [] then
        (if (case best of None \<Rightarrow> True | Some b \<Rightarrow> Br_priority b < Rt_Priority route)
         then Some \<lparr>Br_route = route, Br_priority = Rt_Priority route, Br_prefix = 0\<rparr>
         else best)
      else foldl (phoneStep to route) best (Rt_Prefix route))"

definition MatchPhone :: "Router \<Rightarrow> string \<Rightarrow> RouteConfig option" where
  "MatchPhone r to = map_option Br_route (foldl (phoneRoute to) None (Ro_routes r))"

definition MatchMsg :: "Router \<Rightarrow> Message \<Rightarrow> RouteConfig option" where
  "MatchMsg r msg = MatchPhone r (Msg_To msg)"

subsection \<open>Time windows\<close>

text \<open>Sunday is 0.\<close>

definition dayNumber :: "string \<Rightarrow> int option" where
  "dayNumber v = (let d = ToLower v in
     if d \<in> {''sun'', ''sunday''} then Some 0 else if d \<in> {''mon'', ''monday''} then Some 1
     else if d \<in> {''tue'', ''tuesday''} then Some 2 else if d \<in> {''wed'', ''wednesday''} then Some 3
     else if d \<in> {''thu'', ''thursday''} then Some 4 else if d \<in> {''fri'', ''friday''} then Some 5
     else if d \<in> {''sat'', ''saturday''} then Some 6 else None)"

definition dayMatches :: "int \<Rightarrow> string list \<Rightarrow> bool" where
  "dayMatches day days \<longleftrightarrow> days = [] \<or> (\<exists>v \<in> set days. dayNumber v = Some day)"

fun atoiLoop :: "int \<Rightarrow> rune list \<Rightarrow> int" where
  "atoiLoop n [] = n"
| "atoiLoop n (r # rs) = (if r < 48 \<or> 57 < r then 0 else atoiLoop (wrap64 (n * 10 + (int r - 48))) rs)"

definition atoi :: "string \<Rightarrow> int" where
  "atoi v = atoiLoop 0 (runes v)"

definition clock :: "string \<Rightarrow> duration" where
  "clock v =
     (case SplitChar CHR '':'' v of
        [hh, mm] \<Rightarrow> wrap64 (wrap64 (atoi hh * Hour) + wrap64 (atoi mm * Minute))
      | _ \<Rightarrow> 0)"

definition inWindow :: "WallTime \<Rightarrow> TimeWindow \<Rightarrow> bool" where
  "inWindow now w \<longleftrightarrow>
     dayMatches (Weekday now) (Tw_Days w) \<and>
     (let start = clock (Tw_Start w); stop = clock (Tw_End w);
          cur = wallHour now * Hour + wallMinute now * Minute
      in if start \<le> stop then start \<le> cur \<and> cur \<le> stop else start \<le> cur \<or> cur \<le> stop)"

definition inAnyWindow :: "WallTime \<Rightarrow> TimeWindow list \<Rightarrow> bool" where
  "inAnyWindow now windows \<longleftrightarrow> (\<exists>w \<in> set windows. inWindow now w)"

subsection \<open>Matching a submission\<close>

record MatchInput =
  Mi_GatewayID :: string
  Mi_To :: string
  Mi_From :: string
  Mi_SystemID :: string
  Mi_ClientID :: string
  Mi_Tags :: "string list"
  Mi_Now :: WallTime

record MatchResult =
  Mr_Route :: RouteConfig
  Mr_Provider :: string
  Mr_FailoverChain :: "string list"

definition hasAnyPrefix :: "string \<Rightarrow> string list \<Rightarrow> bool" where
  "hasAnyPrefix v prefixes \<longleftrightarrow> (\<exists>p \<in> set prefixes. HasPrefix v p)"

definition containsStr :: "string list \<Rightarrow> string \<Rightarrow> bool" where
  "containsStr vs want \<longleftrightarrow> want \<in> set vs"

definition routeMatches :: "RouteConfig \<Rightarrow> MatchInput \<Rightarrow> bool" where
  "routeMatches route input =
     (if Rt_Enabled route = Some False then False
      else if Rt_FromPrefix route \<noteq> [] \<and> \<not> hasAnyPrefix (Mi_From input) (Rt_FromPrefix route) then False
      else if Rt_SystemIDs route \<noteq> [] \<and> \<not> containsStr (Rt_SystemIDs route) (Mi_SystemID input) then False
      else if Rt_ClientIDs route \<noteq> [] \<and> \<not> containsStr (Rt_ClientIDs route) (Mi_ClientID input) then False
      else if \<exists>tag \<in> set (Rt_ContentTags route). tag \<notin> set (Mi_Tags input) then False
      else if Rt_TimeWindows route \<noteq> [] \<and> \<not> inAnyWindow (Mi_Now input) (Rt_TimeWindows route) then False
      else True)"

definition matchedPrefixLen :: "string list \<Rightarrow> string \<Rightarrow> nat option" where
  "matchedPrefixLen prefixes to =
     (if prefixes = [] then Some 0
      else foldl (\<lambda>best p. if HasPrefix to p \<and> (case best of None \<Rightarrow> True | Some b \<Rightarrow> b < length p)
                          then Some (length p) else best) None prefixes)"

definition matchStep :: "MatchInput \<Rightarrow> BestRoute option \<Rightarrow> RouteConfig \<Rightarrow> BestRoute option" where
  "matchStep input best route =
     (if \<not> routeMatches route input then best
      else case matchedPrefixLen (Rt_Prefix route) (Mi_To input) of
             None \<Rightarrow> best
           | Some matchLen \<Rightarrow>
               if (case best of None \<Rightarrow> True
                   | Some b \<Rightarrow> Br_priority b < Rt_Priority route \<or>
                       (Rt_Priority route = Br_priority b \<and> Br_prefix b < matchLen))
               then Some \<lparr>Br_route = route, Br_priority = Rt_Priority route, Br_prefix = matchLen\<rparr>
               else best)"

definition MatchRoute :: "Router \<Rightarrow> WallTime \<Rightarrow> MatchInput \<Rightarrow> RouteConfig option" where
  "MatchRoute r now input0 =
     (let input = (if Wt_instant (Mi_Now input0) = 0 then input0\<lparr>Mi_Now := now\<rparr> else input0)
      in map_option Br_route (foldl (matchStep input) None (Ro_routes r)))"

subsection \<open>The provider of a route\<close>

text \<open>FNV-1a with 64 bits.\<close>

definition stableHash :: "string \<Rightarrow> 64 word" where
  "stableHash v = foldl (\<lambda>h b. (xor h (ucast b)) * 1099511628211) 14695981039346656037 (bytes_of v)"

definition providerEnabled :: "Router \<Rightarrow> string \<Rightarrow> bool" where
  "providerEnabled r name =
     (if Ro_enabledProviders r = [] then True else enabledGet (Ro_enabledProviders r) name)"

fun weightTotal :: "Router \<Rightarrow> WeightedProvider list \<Rightarrow> 64 word \<Rightarrow> 64 word option" where
  "weightTotal r [] tot = Some tot"
| "weightTotal r (wp # wps) tot =
     (if providerEnabled r (Wp_Provider wp) then
        (if Wp_Weight wp \<le> 0 then None
         else let weight = of_int (Wp_Weight wp) in
              if not 0 - weight < tot then None else weightTotal r wps (tot + weight))
      else weightTotal r wps tot)"

fun pickWeighted :: "Router \<Rightarrow> WeightedProvider list \<Rightarrow> 64 word \<Rightarrow> string" where
  "pickWeighted r [] n = []"
| "pickWeighted r (wp # wps) n =
     (if \<not> providerEnabled r (Wp_Provider wp) then pickWeighted r wps n
      else let weight = of_int (Wp_Weight wp) in
           if n < weight then Wp_Provider wp else pickWeighted r wps (n - weight))"

definition selectProvider :: "Router \<Rightarrow> RouteConfig \<Rightarrow> string \<Rightarrow> string \<times> string list" where
  "selectProvider r route key =
     (if Rt_Weighted route \<noteq> [] then
        (case weightTotal r (Rt_Weighted route) 0 of
           None \<Rightarrow> ([], [])
         | Some tot \<Rightarrow>
             if tot \<le> 0 then ([], [])
             else (pickWeighted r (Rt_Weighted route) (stableHash key mod tot), []))
      else if Rt_Failover route \<noteq> [] then
        (case filter (providerEnabled r) (Rt_Failover route) of
           [] \<Rightarrow> ([], [])
         | p # ps \<Rightarrow> (p, p # ps))
      else if \<not> providerEnabled r (Rt_Provider route) then ([], [])
      else (Rt_Provider route, []))"

definition SelectProvider :: "Router \<Rightarrow> RouteConfig \<Rightarrow> string \<Rightarrow> MatchResult option" where
  "SelectProvider r route gatewayID =
     (if Rt_Weighted route \<noteq> [] \<and> gatewayID = [] then None
      else (case selectProvider r route gatewayID of (provider, chain) \<Rightarrow>
        if provider = [] then None
        else Some \<lparr>Mr_Route = route, Mr_Provider = provider, Mr_FailoverChain = chain\<rparr>))"

definition MatchSubmit :: "Router \<Rightarrow> WallTime \<Rightarrow> MatchInput \<Rightarrow> MatchResult option" where
  "MatchSubmit r now input =
     (case MatchRoute r now input of
        None \<Rightarrow> None
      | Some route \<Rightarrow> SelectProvider r route (Mi_GatewayID input))"

subsection \<open>Scanning for the best entry\<close>

text \<open>
  A scan that keeps the first entry of greatest rank; entries without a rank are skipped.
\<close>

definition scanStep :: "('a \<Rightarrow> 'k::linorder option) \<Rightarrow> ('a \<times> 'k) option \<Rightarrow> 'a \<Rightarrow> ('a \<times> 'k) option" where
  "scanStep rank best x =
     (case rank x of
        None \<Rightarrow> best
      | Some k \<Rightarrow> (case best of None \<Rightarrow> Some (x, k) | Some (b, kb) \<Rightarrow> if kb < k then Some (x, k) else best))"

definition firstBest :: "('a \<Rightarrow> 'k::linorder option) \<Rightarrow> 'a list \<Rightarrow> 'a \<Rightarrow> 'k \<Rightarrow> bool" where
  "firstBest rank xs b k \<longleftrightarrow>
     (\<exists>ys zs. xs = ys @ b # zs \<and> rank b = Some k \<and>
        (\<forall>y \<in> set ys. \<forall>j. rank y = Some j \<longrightarrow> j < k) \<and> (\<forall>z \<in> set zs. \<forall>j. rank z = Some j \<longrightarrow> j \<le> k))"

lemma firstBest_keep:
  assumes "firstBest rank xs b k" "\<And>j. rank x = Some j \<Longrightarrow> j \<le> k"
  shows "firstBest rank (xs @ [x]) b k"
proof -
  obtain ys zs where "xs = ys @ b # zs" "rank b = Some k" "\<forall>y \<in> set ys. \<forall>j. rank y = Some j \<longrightarrow> j < k"
    "\<forall>z \<in> set zs. \<forall>j. rank z = Some j \<longrightarrow> j \<le> k"
    using assms(1) by (auto simp: firstBest_def)
  then show ?thesis
    unfolding firstBest_def using assms(2)
    by (intro exI [of _ ys] exI [of _ "zs @ [x]"]) auto
qed

lemma firstBest_rank: "firstBest rank xs b k \<Longrightarrow> y \<in> set xs \<Longrightarrow> rank y = Some j \<Longrightarrow> j \<le> k"
  by (fastforce simp: firstBest_def)

lemma scanStep_simps:
  "rank x = None \<Longrightarrow> scanStep rank best x = best"
  "rank x = Some k \<Longrightarrow> scanStep rank None x = Some (x, k)"
  "rank x = Some k \<Longrightarrow> scanStep rank (Some (b, kb)) x = (if kb < k then Some (x, k) else Some (b, kb))"
  by (simp_all add: scanStep_def)

lemma scan_best:
  "(foldl (scanStep rank) None xs = None \<longleftrightarrow> (\<forall>x \<in> set xs. rank x = None)) \<and>
   (\<forall>b k. foldl (scanStep rank) None xs = Some (b, k) \<longrightarrow> firstBest rank xs b k)"
proof (induction xs rule: rev_induct)
  case (snoc x xs)
  let ?r = "foldl (scanStep rank) None xs"
  show ?case
  proof (cases "rank x")
    case None
    then show ?thesis
      using snoc firstBest_keep [of rank xs _ _ x] by (auto simp: scanStep_simps)
  next
    case (Some k)
    show ?thesis
    proof (cases ?r)
      case None
      then have "firstBest rank (xs @ [x]) x k"
        using snoc Some unfolding firstBest_def by (intro exI [of _ xs] exI [of _ "[]"]) auto
      then show ?thesis
        using None Some by (auto simp: scanStep_simps)
    next
      case (Some p)
      then obtain b kb where p: "?r = Some (b, kb)"
        by (cases p) auto
      have fb: "firstBest rank xs b kb"
        using snoc p by blast
      show ?thesis
      proof (cases "kb < k")
        case True
        have "\<forall>y \<in> set xs. \<forall>j. rank y = Some j \<longrightarrow> j < k"
          using firstBest_rank [OF fb] True by fastforce
        then have "firstBest rank (xs @ [x]) x k"
          using \<open>rank x = Some k\<close> unfolding firstBest_def by (intro exI [of _ xs] exI [of _ "[]"]) auto
        then show ?thesis
          using p True \<open>rank x = Some k\<close> by (auto simp: scanStep_simps)
      next
        case False
        then have "firstBest rank (xs @ [x]) b kb"
          using \<open>rank x = Some k\<close> by (intro firstBest_keep [OF fb]) auto
        then show ?thesis
          using p False \<open>rank x = Some k\<close> by (auto simp: scanStep_simps)
      qed
    qed
  qed
qed simp

lemma firstBest_unique:
  assumes "firstBest rank xs b k" "firstBest rank xs c j"
  shows "b = c \<and> k = j"
proof -
  obtain ys zs where b: "xs = ys @ b # zs" "rank b = Some k" "\<forall>y \<in> set ys. \<forall>j. rank y = Some j \<longrightarrow> j < k"
    "\<forall>z \<in> set zs. \<forall>j. rank z = Some j \<longrightarrow> j \<le> k"
    using assms(1) by (auto simp: firstBest_def)
  obtain us vs where c: "xs = us @ c # vs" "rank c = Some j" "\<forall>y \<in> set us. \<forall>i. rank y = Some i \<longrightarrow> i < j"
    "\<forall>z \<in> set vs. \<forall>i. rank z = Some i \<longrightarrow> i \<le> j"
    using assms(2) by (auto simp: firstBest_def)
  have "ys @ b # zs = us @ c # vs"
    using b(1) c(1) by simp
  then consider "ys = us" "b = c" | "c \<in> set ys" "b \<in> set vs" | "b \<in> set us" "c \<in> set zs"
    by (auto simp: append_eq_append_conv2 Cons_eq_append_conv append_eq_Cons_conv)
  then show ?thesis
  proof cases
    case 1
    then show ?thesis
      using b(2) c(2) by simp
  next
    case 2
    then show ?thesis
      using b(2,3) c(2,4) by fastforce
  next
    case 3
    then show ?thesis
      using b(2,4) c(2,3) by fastforce
  qed
qed

lemma scan_best_iff:
  "foldl (scanStep rank) None xs = Some (b, k) \<longleftrightarrow> firstBest rank xs b k"
proof
  assume fb: "firstBest rank xs b k"
  then have "b \<in> set xs" "rank b = Some k"
    by (auto simp: firstBest_def)
  then obtain c j where "foldl (scanStep rank) None xs = Some (c, j)"
    using scan_best [of rank xs] by (cases "foldl (scanStep rank) None xs") auto
  then show "foldl (scanStep rank) None xs = Some (b, k)"
    using fb scan_best [of rank xs] firstBest_unique [OF fb] by blast
qed (use scan_best [of rank xs] in blast)

subsection \<open>The route that is chosen\<close>

text \<open>The rank of a route for a message: its priority, then the length of its longest matching prefix.\<close>

definition prefixRank :: "RouteConfig \<Rightarrow> string \<Rightarrow> nat option" where
  "prefixRank route to =
     (if Rt_Prefix route = [] then Some 0
      else if \<exists>p \<in> set (Rt_Prefix route). HasPrefix to p
      then Some (Max (length ` {p \<in> set (Rt_Prefix route). HasPrefix to p}))
      else None)"

definition routeRank :: "MatchInput \<Rightarrow> RouteConfig \<Rightarrow> (int \<times> nat) option" where
  "routeRank input route =
     (if routeMatches route input then map_option (Pair (Rt_Priority route)) (prefixRank route (Mi_To input)) else None)"

lemma matchedPrefix_fold:
  "foldl (\<lambda>best p. if HasPrefix to p \<and> (case best of None \<Rightarrow> True | Some b \<Rightarrow> b < length p)
                   then Some (length p) else best) None ps =
   (if \<exists>p \<in> set ps. HasPrefix to p then Some (Max (length ` {p \<in> set ps. HasPrefix to p})) else None)"
proof (induction ps rule: rev_induct)
  case (snoc p ps)
  define L where "L = length ` {q \<in> set ps. HasPrefix to q}"
  have eq: "length ` {q \<in> set (ps @ [p]). HasPrefix to q} = (if HasPrefix to p then insert (length p) L else L)"
    by (auto simp: L_def)
  have fin: "finite L"
    by (simp add: L_def)
  have ne: "(\<exists>q \<in> set ps. HasPrefix to q) \<longleftrightarrow> L \<noteq> {}"
    by (auto simp: L_def)
  show ?case
    unfolding foldl_append snoc.IH eq L_def [symmetric] ne
    using fin ne by (cases "L = {}") (auto simp: max_def simp del: Max_less_iff)
qed simp

lemma matchedPrefixLen_rank: "matchedPrefixLen (Rt_Prefix route) to = prefixRank route to"
  by (simp add: matchedPrefixLen_def prefixRank_def matchedPrefix_fold)

definition bestOf :: "(RouteConfig \<times> int \<times> nat) option \<Rightarrow> BestRoute option" where
  "bestOf b = map_option (\<lambda>(r, p, l). \<lparr>Br_route = r, Br_priority = p, Br_prefix = l\<rparr>) b"

lemma matchStep_scan: "matchStep input (bestOf b) route = bestOf (scanStep (routeRank input) b route)"
  by (cases b) (auto simp: matchStep_def bestOf_def scanStep_def routeRank_def matchedPrefixLen_rank split: option.splits)

lemma match_fold: "foldl (matchStep input) (bestOf b) xs = bestOf (foldl (scanStep (routeRank input)) b xs)"
  by (induction xs arbitrary: b) (simp_all add: matchStep_scan)

definition inputAt :: "WallTime \<Rightarrow> MatchInput \<Rightarrow> MatchInput" where
  "inputAt now input = (if Wt_instant (Mi_Now input) = 0 then input\<lparr>Mi_Now := now\<rparr> else input)"

lemma MatchRoute_scan:
  "MatchRoute r now input = map_option fst (foldl (scanStep (routeRank (inputAt now input))) None (Ro_routes r))"
  using match_fold [of "inputAt now input" None "Ro_routes r"]
  by (auto simp: MatchRoute_def inputAt_def bestOf_def option.map_comp o_def case_prod_unfold)

text \<open>
  C24: \<open>MatchRoute\<close> finds no route exactly when no route matches the message; otherwise it returns the
  route of greatest priority, among these the one with the longest matching prefix, and among
  these the first of the table. Conversely every such route is returned.
\<close>

theorem match_route_best:
  "(MatchRoute r now input = None \<longleftrightarrow> (\<forall>x \<in> set (Ro_routes r). routeRank (inputAt now input) x = None)) \<and>
   (MatchRoute r now input = Some route \<longleftrightarrow>
      (\<exists>before after k. Ro_routes r = before @ route # after \<and> routeRank (inputAt now input) route = Some k \<and>
         (\<forall>x \<in> set before. \<forall>j. routeRank (inputAt now input) x = Some j \<longrightarrow> j < k) \<and>
         (\<forall>x \<in> set after. \<forall>j. routeRank (inputAt now input) x = Some j \<longrightarrow> j \<le> k)))"
proof -
  let ?rank = "routeRank (inputAt now input)"
  have "MatchRoute r now input = Some route \<longleftrightarrow> (\<exists>k. foldl (scanStep ?rank) None (Ro_routes r) = Some (route, k))"
    by (auto simp: MatchRoute_scan)
  also have "\<dots> \<longleftrightarrow> (\<exists>k. firstBest ?rank (Ro_routes r) route k)"
    by (simp only: scan_best_iff)
  finally have some: "MatchRoute r now input = Some route \<longleftrightarrow> (\<exists>k. firstBest ?rank (Ro_routes r) route k)" .
  have "MatchRoute r now input = None \<longleftrightarrow> (\<forall>x \<in> set (Ro_routes r). ?rank x = None)"
    using scan_best [of ?rank "Ro_routes r"] by (simp add: MatchRoute_scan)
  then show ?thesis
    unfolding some firstBest_def by blast
qed

subsection \<open>Matching by destination agrees\<close>

definition unconditional :: "RouteConfig \<Rightarrow> bool" where
  "unconditional r \<longleftrightarrow> Rt_Enabled r \<noteq> Some False \<and> Rt_FromPrefix r = [] \<and> Rt_SystemIDs r = [] \<and>
     Rt_ClientIDs r = [] \<and> Rt_ContentTags r = [] \<and> Rt_TimeWindows r = []"

definition phoneRank :: "string \<Rightarrow> RouteConfig \<Rightarrow> (int \<times> nat) option" where
  "phoneRank to route = map_option (Pair (Rt_Priority route)) (prefixRank route to)"

lemma phone_prefixes:
  "foldl (phoneStep to route) (bestOf b) ps =
   bestOf (if \<exists>p \<in> set ps. HasPrefix to p
           then (let k = (Rt_Priority route, Max (length ` {p \<in> set ps. HasPrefix to p})) in
                 case b of None \<Rightarrow> Some (route, k) | Some (c, kc) \<Rightarrow> if kc < k then Some (route, k) else b)
           else b)"
proof (induction ps rule: rev_induct)
  case (snoc p ps)
  define L where "L = length ` {q \<in> set ps. HasPrefix to q}"
  have eq: "length ` {q \<in> set (ps @ [p]). HasPrefix to q} = (if HasPrefix to p then insert (length p) L else L)"
    by (auto simp: L_def)
  have fin: "finite L"
    by (simp add: L_def)
  have ne: "(\<exists>q \<in> set ps. HasPrefix to q) \<longleftrightarrow> L \<noteq> {}"
    by (auto simp: L_def)
  have ne2: "(\<exists>q \<in> set (ps @ [p]). HasPrefix to q) \<longleftrightarrow> HasPrefix to p \<or> L \<noteq> {}"
    using ne by auto
  show ?case
  proof (cases "L = {}")
    case True
    then show ?thesis
      unfolding foldl_append snoc.IH eq L_def [symmetric] ne ne2
      by (cases b) (auto simp: phoneStep_def bestOf_def less_prod_def')
  next
    case False
    define m where "m = Max L"
    have mx: "Max (if HasPrefix to p then insert (length p) L else L) = (if HasPrefix to p then max (length p) m else m)"
      using False fin by (simp add: m_def)
    show ?thesis
      using False
      unfolding foldl_append snoc.IH eq L_def [symmetric] ne ne2 mx m_def [symmetric]
      by (cases b) (auto simp: phoneStep_def bestOf_def less_prod_def' max_def)
  qed
qed simp

lemma phoneRoute_scan: "phoneRoute to (bestOf b) route = bestOf (scanStep (phoneRank to) b route)"
proof (cases "Rt_Prefix route = []")
  case True
  then show ?thesis
    by (cases b) (auto simp: phoneRoute_def bestOf_def scanStep_def phoneRank_def prefixRank_def less_prod_def')
next
  case False
  then show ?thesis
    by (cases b) (auto simp: phoneRoute_def phone_prefixes scanStep_def phoneRank_def prefixRank_def Let_def)
qed

lemma MatchPhone_scan: "MatchPhone r to = map_option fst (foldl (scanStep (phoneRank to)) None (Ro_routes r))"
proof -
  have "foldl (phoneRoute to) (bestOf b) xs = bestOf (foldl (scanStep (phoneRank to)) b xs)" for b xs
    by (induction xs arbitrary: b) (simp_all add: phoneRoute_scan)
  from this [of None] show ?thesis
    by (auto simp: MatchPhone_def bestOf_def option.map_comp o_def case_prod_unfold)
qed

lemma routeRank_unconditional: "unconditional route \<Longrightarrow> routeRank input route = phoneRank (Mi_To input) route"
  by (simp add: unconditional_def routeRank_def routeMatches_def phoneRank_def)

lemma scan_cong: "(\<And>x. x \<in> set xs \<Longrightarrow> f x = g x) \<Longrightarrow> foldl (scanStep f) b xs = foldl (scanStep g) b xs"
  by (induction xs arbitrary: b) (simp_all add: scanStep_def)

text \<open>
  On a table of routes without conditions the nested loops of \<open>MatchPhone\<close> choose the same route
  as \<open>MatchRoute\<close>, whatever else is known of the message.
\<close>

lemma match_phone_agrees:
  assumes "\<forall>x \<in> set (Ro_routes r). unconditional x"
  shows "MatchPhone r (Mi_To input) = MatchRoute r now input"
proof -
  have "foldl (scanStep (phoneRank (Mi_To input))) None (Ro_routes r) =
        foldl (scanStep (routeRank (inputAt now input))) None (Ro_routes r)"
    using assms by (intro scan_cong) (simp add: routeRank_unconditional inputAt_def)
  then show ?thesis
    by (simp add: MatchPhone_scan MatchRoute_scan)
qed

subsection \<open>Weighted choice\<close>

definition active :: "Router \<Rightarrow> WeightedProvider list \<Rightarrow> WeightedProvider list" where
  "active r wps = filter (\<lambda>wp. providerEnabled r (Wp_Provider wp)) wps"

definition weightSum :: "WeightedProvider list \<Rightarrow> nat" where
  "weightSum wps = sum_list (map (\<lambda>wp. nat (Wp_Weight wp)) wps)"

lemma weightSum_simps [simp]:
  "weightSum [] = 0" "weightSum (wp # wps) = nat (Wp_Weight wp) + weightSum wps"
  by (simp_all add: weightSum_def)

lemma active_simps [simp]:
  "active r [] = []"
  "active r (wp # wps) = (if providerEnabled r (Wp_Provider wp) then wp # active r wps else active r wps)"
  by (simp_all add: active_def)

lemma unat_nat64: "n < 2 ^ 64 \<Longrightarrow> unat (of_nat n :: 64 word) = n"
  by (simp add: unat_of_nat take_bit_eq_mod)

lemma of_int_nat64: "0 \<le> w \<Longrightarrow> (of_int w :: 64 word) = of_nat (nat w)"
  by simp

lemma unat_neg_one: "unat (- 1 :: 64 word) = 2 ^ 64 - 1"
  by transfer (simp add: mask_eq_exp_minus_1)

lemma weightTotal_sum:
  assumes "\<forall>wp \<in> set (active r wps). 0 < Wp_Weight wp" "tot + weightSum (active r wps) < 2 ^ 64"
  shows "weightTotal r wps (of_nat tot) = Some (of_nat (tot + weightSum (active r wps)))"
  using assms
proof (induction wps arbitrary: tot)
  case (Cons wp wps)
  show ?case
  proof (cases "providerEnabled r (Wp_Provider wp)")
    case True
    define w where "w = nat (Wp_Weight wp)"
    have w: "0 < Wp_Weight wp" "(of_int (Wp_Weight wp) :: 64 word) = of_nat w" "tot + w < 2 ^ 64"
      using Cons.prems True by (auto simp: w_def)
    have "unat (not 0 - of_nat w :: 64 word) = 2 ^ 64 - 1 - w"
      using w(3) by (simp add: unat_sub unat_nat64 unat_neg_one word_le_nat_alt)
    then have "\<not> (not 0 - of_nat w :: 64 word) < of_nat tot"
      using w(3) by (simp add: word_less_nat_alt unat_nat64)
    then have "weightTotal r (wp # wps) (of_nat tot) = weightTotal r wps (of_nat (tot + w))"
      using True w(1,2) by (simp add: Let_def del: of_int_of_nat_eq)
    also have "\<dots> = Some (of_nat (tot + w + weightSum (active r wps)))"
      using Cons.prems True by (intro Cons.IH) (auto simp: w_def add.assoc)
    finally show ?thesis
      using True by (simp add: w_def add.assoc)
  next
    case False
    then show ?thesis
      using Cons by simp
  qed
qed simp

fun pickN :: "WeightedProvider list \<Rightarrow> nat \<Rightarrow> string" where
  "pickN [] n = []"
| "pickN (wp # wps) n = (if n < nat (Wp_Weight wp) then Wp_Provider wp else pickN wps (n - nat (Wp_Weight wp)))"

lemma pickWeighted_nat:
  assumes "\<forall>wp \<in> set (active r wps). 0 < Wp_Weight wp" "weightSum (active r wps) < 2 ^ 64" "n < 2 ^ 64"
  shows "pickWeighted r wps (of_nat n) = pickN (active r wps) n"
  using assms
proof (induction wps arbitrary: n)
  case (Cons wp wps)
  show ?case
  proof (cases "providerEnabled r (Wp_Provider wp)")
    case True
    define w where "w = nat (Wp_Weight wp)"
    have w: "(of_int (Wp_Weight wp) :: 64 word) = of_nat w" "w < 2 ^ 64"
      using Cons.prems True by (auto simp: w_def)
    have less: "(of_nat n :: 64 word) < of_nat w \<longleftrightarrow> n < w"
      using w(2) Cons.prems(3) by (simp add: word_less_nat_alt unat_nat64)
    have "pickWeighted r wps (of_nat n - of_nat w) = pickN (active r wps) (n - w)" if "\<not> n < w"
    proof -
      have "(of_nat n - of_nat w :: 64 word) = of_nat (n - w)"
        using that by simp
      then show ?thesis
        using Cons.prems True by (simp only:) (intro Cons.IH, auto)
    qed
    then show ?thesis
      using True less w(1) by (auto simp: w_def Let_def)
  next
    case False
    then show ?thesis
      using Cons by simp
  qed
qed simp

lemma pickN_share:
  "card {n. n < weightSum wps \<and> pickN wps n = p} = weightSum (filter (\<lambda>wp. Wp_Provider wp = p) wps)"
proof (induction wps)
  case (Cons wp wps)
  define w where "w = nat (Wp_Weight wp)"
  have "{n. n < weightSum (wp # wps) \<and> pickN (wp # wps) n = p} =
      {n. n < w \<and> Wp_Provider wp = p} \<union> (\<lambda>n. n + w) ` {n. n < weightSum wps \<and> pickN wps n = p}"
  proof (intro set_eqI iffI)
    fix n
    assume n: "n \<in> {n. n < weightSum (wp # wps) \<and> pickN (wp # wps) n = p}"
    show "n \<in> {n. n < w \<and> Wp_Provider wp = p} \<union> (\<lambda>n. n + w) ` {n. n < weightSum wps \<and> pickN wps n = p}"
    proof (cases "n < w")
      case False
      then have "n - w \<in> {n. n < weightSum wps \<and> pickN wps n = p}" "n = n - w + w"
        using n by (auto simp: w_def)
      then show ?thesis
        by (intro UnI2 image_eqI [where x = "n - w"])
    qed (use n in \<open>auto simp: w_def\<close>)
  qed (auto simp: w_def)
  moreover have "card ((\<lambda>n. n + w) ` {n. n < weightSum wps \<and> pickN wps n = p}) = card {n. n < weightSum wps \<and> pickN wps n = p}"
    by (intro card_image) (simp add: inj_on_def)
  moreover have "card {n. n < w \<and> Wp_Provider wp = p} = (if Wp_Provider wp = p then w else 0)"
    by auto
  moreover have "{n. n < w \<and> Wp_Provider wp = p} \<inter> (\<lambda>n. n + w) ` {n. n < weightSum wps \<and> pickN wps n = p} = {}"
    by auto
  ultimately show ?case
    using Cons.IH by (simp add: card_Un_disjoint w_def)
qed simp

lemma pickN_found:
  "n < weightSum wps \<Longrightarrow> \<exists>wp \<in> set wps. pickN wps n = Wp_Provider wp"
proof (induction wps arbitrary: n)
  case (Cons wp wps)
  then show ?case
    using Cons.IH [of "n - nat (Wp_Weight wp)"] by auto
qed simp

lemma weighted_choice:
  assumes pos: "\<forall>wp \<in> set (active r (Rt_Weighted route)). 0 < Wp_Weight wp"
    and tot: "tot = weightSum (active r (Rt_Weighted route))" "0 < tot" "tot < 2 ^ 64"
  shows "selectProvider r route key =
           (pickWeighted r (Rt_Weighted route) (of_nat (unat (stableHash key) mod tot)), [])"
proof -
  have ne: "Rt_Weighted route \<noteq> []"
    using tot(1,2) by auto
  have wt: "weightTotal r (Rt_Weighted route) 0 = Some (of_nat tot)"
    using weightTotal_sum [of r "Rt_Weighted route" 0] pos tot by simp
  have "(of_nat tot :: 64 word) \<noteq> 0"
    using tot(2,3) unat_nat64 [of tot] by (metis less_numeral_extra(3) unat_0)
  moreover have "stableHash key mod of_nat tot = of_nat (unat (stableHash key) mod tot)"
    using tot(3) by (simp add: word_arith_nat_mod unat_nat64)
  ultimately show ?thesis
    using ne wt by (simp add: selectProvider_def)
qed

text \<open>
  C25: Weighted choice is proportional. If the weights of the enabled providers are positive and their
  sum fits 64 bits, the sum is computed without wrap-around, the provider depends only on
  the key's hash modulo the sum, and of the residues exactly as many select a provider as the
  weights of its enabled entries add up to.
\<close>

theorem weighted_choice_shares:
  assumes pos: "\<forall>wp \<in> set (active r (Rt_Weighted route)). 0 < Wp_Weight wp"
    and tot: "tot = weightSum (active r (Rt_Weighted route))" "0 < tot" "tot < 2 ^ 64"
  shows "selectProvider r route key =
           (pickWeighted r (Rt_Weighted route) (of_nat (unat (stableHash key) mod tot)), []) \<and>
         (\<forall>p. card {n. n < tot \<and> pickWeighted r (Rt_Weighted route) (of_nat n) = p} =
              weightSum (filter (\<lambda>wp. Wp_Provider wp = p) (active r (Rt_Weighted route))))"
proof -
  have "{n. n < tot \<and> pickWeighted r (Rt_Weighted route) (of_nat n) = p} =
      {n. n < tot \<and> pickN (active r (Rt_Weighted route)) n = p}" for p
    using pickWeighted_nat [OF pos] tot by auto
  then show ?thesis
    using weighted_choice [OF pos tot] pickN_share [of "active r (Rt_Weighted route)"] tot(1) by simp
qed

subsection \<open>A matched message gets a provider\<close>

lemma enabledMap_get:
  "enabledGet (enabledMap ps) name \<longleftrightarrow> (\<exists>p. map_of (rev (map (\<lambda>p. (Pc_Name p, p)) ps)) name = Some p \<and> Pc_Enabled p)"
proof (induction ps rule: rev_induct)
  case Nil
  show ?case
    by (simp add: enabledMap_def enabledGet_def)
next
  case (snoc p ps)
  then show ?case
    by (auto simp: enabledMap_def enabledGet_def)
qed

lemma enabledGet_provider:
  "enabledGet (enabledMap ps) name \<Longrightarrow> \<exists>p \<in> set ps. Pc_Name p = name \<and> Pc_Enabled p"
  by (auto simp: enabledMap_get dest!: map_of_SomeD)

lemma sortRoutes_set [simp]: "set (sortRoutes rs) = set rs"
  by (simp add: sortRoutes_def)

text \<open>The providers a route may use.\<close>

definition candidates :: "RouteConfig \<Rightarrow> string set" where
  "candidates route =
     (if Rt_Weighted route \<noteq> [] then Wp_Provider ` set (Rt_Weighted route)
      else if Rt_Failover route \<noteq> [] then set (Rt_Failover route) else {Rt_Provider route})"

lemma routeSelectable_candidates:
  "routeSelectable route enabled \<longleftrightarrow> (\<exists>p \<in> candidates route. enabledGet enabled p)"
  by (simp add: routeSelectable_def candidates_def)

lemma weightSum_pos: "wp \<in> set wps \<Longrightarrow> 0 < Wp_Weight wp \<Longrightarrow> 0 < weightSum wps"
  by (induction wps) auto

lemma selectProvider_enabled:
  assumes some: "\<exists>p \<in> candidates route. providerEnabled r p"
    and pos: "\<forall>wp \<in> set (Rt_Weighted route). 0 < Wp_Weight wp" "weightSum (Rt_Weighted route) < 2 ^ 64"
  shows "fst (selectProvider r route key) \<in> candidates route \<and> providerEnabled r (fst (selectProvider r route key))"
proof -
  consider (w) "Rt_Weighted route \<noteq> []" | (f) "Rt_Weighted route = []" "Rt_Failover route \<noteq> []"
    | (p) "Rt_Weighted route = []" "Rt_Failover route = []"
    by blast
  then show ?thesis
  proof cases
    case w
    let ?as = "active r (Rt_Weighted route)"
    have sub: "set ?as \<subseteq> set (Rt_Weighted route)"
      by (auto simp: active_def)
    have le: "weightSum (filter P wps) \<le> weightSum wps" for P wps
      by (induction wps) auto
    obtain wp where "wp \<in> set ?as"
      using some w by (auto simp: candidates_def active_def)
    then have tot: "0 < weightSum ?as" "weightSum ?as < 2 ^ 64"
      using weightSum_pos [of wp ?as] sub pos le [of _ "Rt_Weighted route"] by (auto simp: active_def intro: le_less_trans)
    have posa: "\<forall>wp \<in> set ?as. 0 < Wp_Weight wp"
      using sub pos(1) by blast
    let ?n = "unat (stableHash key) mod weightSum ?as"
    have n: "?n < weightSum ?as"
      using tot(1) by simp
    have "fst (selectProvider r route key) = pickN ?as ?n"
      using weighted_choice [OF posa refl tot] pickWeighted_nat [OF posa tot(2)] n tot(2) by simp
    moreover obtain wp where "wp \<in> set ?as" "pickN ?as ?n = Wp_Provider wp"
      using pickN_found [OF n] by blast
    ultimately show ?thesis
      using w by (auto simp: candidates_def active_def)
  next
    case f
    then have "filter (providerEnabled r) (Rt_Failover route) \<noteq> []"
      using some by (auto simp: candidates_def filter_empty_conv)
    then obtain q qs where q: "filter (providerEnabled r) (Rt_Failover route) = q # qs"
      by (cases "filter (providerEnabled r) (Rt_Failover route)") auto
    have "q \<in> set (filter (providerEnabled r) (Rt_Failover route))"
      unfolding q by simp
    then have "q \<in> set (Rt_Failover route) \<and> providerEnabled r q"
      by (simp only: set_filter mem_Collect_eq)
    then show ?thesis
      using f q by (simp add: selectProvider_def candidates_def)
  next
    case p
    then show ?thesis
      using some by (simp add: selectProvider_def candidates_def)
  qed
qed

text \<open>
  C26: In a router built from routes and providers every route of its table gets a provider: whatever
  the gateway id, \<open>SelectProvider\<close> returns a provider that is configured, enabled and one of the
  route's own. The weights have to be positive and to fit 64 bits together.
\<close>

theorem selected_provider_enabled:
  assumes route: "route \<in> set (Ro_routes (NewWithProviders routes providers))"
    and names: "\<forall>p \<in> set providers. Pc_Name p \<noteq> []" and gid: "gatewayID \<noteq> []"
    and pos: "\<forall>wp \<in> set (Rt_Weighted route). 0 < Wp_Weight wp" "weightSum (Rt_Weighted route) < 2 ^ 64"
  shows "\<exists>res p. SelectProvider (NewWithProviders routes providers) route gatewayID = Some res \<and>
     Mr_Route res = route \<and> Mr_Provider res \<in> candidates route \<and>
     p \<in> set providers \<and> Pc_Name p = Mr_Provider res \<and> Pc_Enabled p"
proof -
  let ?r = "NewWithProviders routes providers"
  have sel: "routeSelectable route (enabledMap providers)"
    using route by (auto simp: NewWithProviders_def Let_def)
  then obtain q where q: "q \<in> candidates route" "enabledGet (enabledMap providers) q"
    by (auto simp: routeSelectable_candidates)
  have ne: "enabledMap providers \<noteq> []"
    using q(2) by (auto simp: enabledGet_def)
  have en: "providerEnabled ?r n \<longleftrightarrow> enabledGet (enabledMap providers) n" for n
    using ne by (simp add: providerEnabled_def NewWithProviders_def Let_def)
  have s: "fst (selectProvider ?r route gatewayID) \<in> candidates route"
    "enabledGet (enabledMap providers) (fst (selectProvider ?r route gatewayID))"
    using selectProvider_enabled [of route ?r gatewayID] q pos by (auto simp: en)
  obtain p where p: "p \<in> set providers" "Pc_Name p = fst (selectProvider ?r route gatewayID)" "Pc_Enabled p"
    using enabledGet_provider [OF s(2)] by blast
  then have "fst (selectProvider ?r route gatewayID) \<noteq> []"
    using names by metis
  then show ?thesis
    using s p gid by (auto simp: SelectProvider_def split: prod.splits)
qed

subsection \<open>The clock times of a validated window\<close>

lemma twoDigit_atoi: "twoDigitLoop n rs = Some m \<Longrightarrow> atoiLoop n rs = m"
  by (induction n rs rule: twoDigitLoop.induct) (auto split: if_splits)

lemma parseClock_clock:
  assumes "parseClock v = Inr d"
  shows "clock v = d \<and> 0 \<le> d \<and> d < 24 * Hour"
proof -
  obtain hh mm where split: "SplitChar CHR '':'' v = [hh, mm]"
    using assms by (auto simp: parseClock_def split: list.splits)
  obtain h m where hm: "parseTwoDigit hh = Some h" "0 \<le> h" "h \<le> 23" "parseTwoDigit mm = Some m" "0 \<le> m" "m \<le> 59"
    and d: "d = h * Hour + m * Minute"
    using assms by (auto simp: parseClock_def split split: option.splits if_splits)
  have "atoi hh = h" "atoi mm = m"
    using hm twoDigit_atoi by (auto simp: atoi_def parseTwoDigit_def split: if_splits)
  moreover have "wrap64 (h * Hour) = h * Hour" "wrap64 (m * Minute) = m * Minute"
    "wrap64 (h * Hour + m * Minute) = h * Hour + m * Minute"
    using hm by (simp_all add: wrap64_id)
  ultimately show ?thesis
    using split d hm by (simp add: clock_def)
qed

lemma dayNumber_known: "ToLower v \<in> set dayNames \<Longrightarrow> \<exists>n. dayNumber v = Some n \<and> 0 \<le> n \<and> n \<le> 6"
  by (auto simp: dayNames_def dayNumber_def Let_def)

text \<open>
  The router reads the clock times of a validated window as the validator does: both are times
  of one day, and every day of the window is a day of the week to the router.
\<close>

lemma validated_window_agrees:
  assumes "validateTimeWindow route w = Inr ()"
  shows "parseClock (Tw_Start w) = Inr (clock (Tw_Start w)) \<and> parseClock (Tw_End w) = Inr (clock (Tw_End w)) \<and>
    0 \<le> clock (Tw_Start w) \<and> clock (Tw_Start w) < 24 * Hour \<and>
    0 \<le> clock (Tw_End w) \<and> clock (Tw_End w) < 24 * Hour \<and>
    (\<forall>day \<in> set (Tw_Days w). \<exists>n. dayNumber day = Some n \<and> 0 \<le> n \<and> n \<le> 6)"
proof -
  obtain s e where se: "parseClock (Tw_Start w) = Inr s" "parseClock (Tw_End w) = Inr e"
    using assms by (auto simp: validateTimeWindow_def clockE_def split: sum.splits)
  have "\<forall>day \<in> set (Tw_Days w). ToLower day \<in> set dayNames"
    using assms by (simp add: validateTimeWindow_def)
  then show ?thesis
    using se parseClock_clock [OF se(1)] parseClock_clock [OF se(2)] dayNumber_known by blast
qed

subsection \<open>Examples\<close>

definition exampleInput :: MatchInput where
  "exampleInput = \<lparr>Mi_GatewayID = ''m0000001'', Mi_To = ''8613800000000'', Mi_From = ''10086'', Mi_SystemID = ''esme1'',
     Mi_ClientID = [], Mi_Tags = [], Mi_Now = \<lparr>Wt_instant = 1, Wt_offset = 0\<rparr>\<rparr>"

definition exampleRouter :: Router where
  "exampleRouter = NewWithProviders [exampleRoute ''r1'' [''86''] ''p1''] [exampleProvider ''p1'' [] True]"

lemma exampleRouter_routes: "Ro_routes exampleRouter = [exampleRoute ''r1'' [''86''] ''p1'']"
  by (simp add: exampleRouter_def NewWithProviders_def enabledMap_def exampleProvider_def routeSelectable_def
      exampleRoute_def enabledGet_def sortRoutes_def)

lemma exampleRoute_rank: "routeRank input (exampleRoute n [''86''] p) = (if HasPrefix (Mi_To input) ''86'' then Some (0, 2) else None)"
proof -
  have "{q. q = ''86'' \<and> HasPrefix to q} = (if HasPrefix to ''86'' then {''86''} else {})" for to
    by auto
  then show ?thesis
    by (simp add: routeRank_def routeMatches_def exampleRoute_def prefixRank_def)
qed

theorem match_route_best_witness:
  "MatchRoute exampleRouter \<lparr>Wt_instant = 1, Wt_offset = 0\<rparr> exampleInput = Some (exampleRoute ''r1'' [''86''] ''p1'')"
  by (subst match_route_best [THEN conjunct2])
    (rule exI [of _ "[]"], rule exI [of _ "[]"],
      simp add: exampleRouter_routes exampleRoute_rank inputAt_def exampleInput_def HasPrefix_def)

definition exampleWeighted :: RouteConfig where
  "exampleWeighted = (exampleRoute ''r2'' [] [])\<lparr>Rt_Weighted :=
     [\<lparr>Wp_Provider = ''p1'', Wp_Weight = 1\<rparr>, \<lparr>Wp_Provider = ''p2'', Wp_Weight = 3\<rparr>]\<rparr>"

theorem weighted_choice_shares_witness:
  "card {n. n < 4 \<and> pickWeighted (NewRouter []) (Rt_Weighted exampleWeighted) (of_nat n) = ''p2''} = 3"
proof -
  have w: "active (NewRouter []) (Rt_Weighted exampleWeighted) = Rt_Weighted exampleWeighted"
    by (simp add: exampleWeighted_def providerEnabled_def NewRouter_def)
  have "(4 :: nat) = weightSum (active (NewRouter []) (Rt_Weighted exampleWeighted))"
    unfolding w by (simp add: exampleWeighted_def)
  then show ?thesis
    using weighted_choice_shares [of "NewRouter []" exampleWeighted 4] unfolding w
    by (simp add: exampleWeighted_def)
qed

theorem selected_provider_enabled_witness:
  "\<exists>res. SelectProvider exampleRouter (exampleRoute ''r1'' [''86''] ''p1'') ''m0000001'' = Some res"
proof -
  have "exampleRoute ''r1'' [''86''] ''p1'' \<in> set (Ro_routes exampleRouter)"
    by (simp add: exampleRouter_routes)
  then show ?thesis
    using selected_provider_enabled [of _ "[exampleRoute ''r1'' [''86''] ''p1'']" "[exampleProvider ''p1'' [] True]" "''m0000001''"]
    unfolding exampleRouter_def [symmetric]
    by (fastforce simp: exampleProvider_def exampleRoute_def)
qed

end
