(* ===== verification/Dest_Addr.thy ===== *)
theory Dest_Addr
  imports Gw_Config
begin

text \<open>
  Destination addresses (\<open>dispatch/addr.go\<close>) and the numbering tables they are checked against
  (\<open>dispatch/country_rules.go\<close>).
\<close>

subsection \<open>Numbering tables\<close>

definition e164CountryCodes :: "string list" where
  "e164CountryCodes = [
    ''1'', ''7'', ''20'', ''27'', ''30'', ''31'', ''32'', ''33'', ''34'', ''36'', ''39'', ''40'',
    ''41'', ''43'', ''44'', ''45'', ''46'', ''47'', ''48'', ''49'', ''51'', ''52'', ''53'', ''54'',
    ''55'', ''56'', ''57'', ''58'', ''60'', ''61'', ''62'', ''63'', ''64'', ''65'', ''66'', ''81'',
    ''82'', ''84'', ''86'', ''90'', ''91'', ''92'', ''93'', ''94'', ''95'', ''98'', ''211'', ''212'',
    ''213'', ''216'', ''218'', ''220'', ''221'', ''222'', ''223'', ''224'', ''225'', ''226'', ''227'',
    ''228'', ''229'', ''230'', ''231'', ''232'', ''233'', ''234'', ''235'', ''236'', ''237'', ''238'',
    ''239'', ''240'', ''241'', ''242'', ''243'', ''244'', ''245'', ''246'', ''247'', ''248'', ''249'',
    ''250'', ''251'', ''252'', ''253'', ''254'', ''255'', ''256'', ''257'', ''258'', ''260'', ''261'',
    ''262'', ''263'', ''264'', ''265'', ''266'', ''267'', ''268'', ''269'', ''290'', ''291'', ''297'',
    ''298'', ''299'', ''350'', ''351'', ''352'', ''353'', ''354'', ''355'', ''356'', ''357'', ''358'',
    ''359'', ''370'', ''371'', ''372'', ''373'', ''374'', ''375'', ''376'', ''377'', ''378'', ''379'',
    ''380'', ''381'', ''382'', ''383'', ''385'', ''386'', ''387'', ''389'', ''420'', ''421'', ''423'',
    ''500'', ''501'', ''502'', ''503'', ''504'', ''505'', ''506'', ''507'', ''508'', ''509'', ''590'',
    ''591'', ''592'', ''593'', ''594'', ''595'', ''596'', ''597'', ''598'', ''599'', ''670'', ''672'',
    ''673'', ''674'', ''675'', ''676'', ''677'', ''678'', ''679'', ''680'', ''681'', ''682'', ''683'',
    ''685'', ''686'', ''687'', ''688'', ''689'', ''690'', ''691'', ''692'', ''800'', ''808'', ''850'',
    ''852'', ''853'', ''855'', ''856'', ''870'', ''878'', ''880'', ''881'', ''882'', ''883'', ''886'',
    ''888'', ''960'', ''961'', ''962'', ''963'', ''964'', ''965'', ''966'', ''967'', ''968'', ''970'',
    ''971'', ''972'', ''973'', ''974'', ''975'', ''976'', ''977'', ''979'', ''992'', ''993'', ''994'',
    ''995'', ''996'', ''998'']"

definition countryMaxTotalLength :: "(string, nat) gomap" where
  "countryMaxTotalLength = [
    (''1'', 11), (''7'', 11), (''31'', 13), (''32'', 11), (''33'', 12), (''39'', 12), (''44'', 12),
    (''46'', 11), (''48'', 11), (''49'', 13), (''52'', 12), (''54'', 13), (''55'', 13), (''60'', 13),
    (''61'', 12), (''64'', 11), (''65'', 10), (''66'', 11), (''81'', 13), (''82'', 12), (''84'', 11),
    (''86'', 13), (''91'', 12), (''92'', 12), (''95'', 12), (''212'', 12), (''216'', 11), (''233'', 12),
    (''243'', 12), (''244'', 12), (''251'', 12), (''256'', 12), (''258'', 12), (''355'', 12),
    (''374'', 11), (''375'', 12), (''380'', 13), (''386'', 11), (''507'', 11), (''852'', 15),
    (''853'', 11), (''855'', 12), (''856'', 15), (''886'', 13), (''966'', 12), (''971'', 12),
    (''992'', 12), (''994'', 12), (''995'', 12), (''996'', 12), (''998'', 12)]"

subsection \<open>Checking and rewriting\<close>

datatype DestError = ErrInvalidDestAddr

record destAddrOptions =
  Do_AllowShortCode :: bool
  Do_MinShortLen :: int
  Do_MaxShortLen :: int
  Do_CountryLengthMode :: string

definition digitsOnly :: "string \<Rightarrow> bool" where
  "digitsOnly s \<longleftrightarrow> s \<noteq> [] \<and> (\<forall>c \<in> set s. isDigitChar c)"

definition isShortCode :: "string \<Rightarrow> destAddrOptions \<Rightarrow> bool" where
  "isShortCode s opts =
     (let minLen = (if Do_MinShortLen opts \<le> 0 then 3 else Do_MinShortLen opts);
          maxLen = (if Do_MaxShortLen opts \<le> 0 then 6 else Do_MaxShortLen opts)
      in minLen \<le> int (length s) \<and> int (length s) \<le> maxLen)"

fun splitCode :: "nat list \<Rightarrow> string \<Rightarrow> string option" where
  "splitCode [] number = None"
| "splitCode (n # ns) number =
     (if length number < n then None
      else if take n number \<in> set e164CountryCodes then Some (take n number)
      else splitCode ns number)"

definition splitE164CountryCode :: "string \<Rightarrow> string option" where
  "splitE164CountryCode number = splitCode [1, 2, 3] number"

definition validateDestAddr :: "string \<Rightarrow> destAddrOptions \<Rightarrow> DestError + unit" where
  "validateDestAddr addr opts =
     (let s = TrimPrefix addr ''+''; mode = Do_CountryLengthMode opts in
      if \<not> digitsOnly s then Inl ErrInvalidDestAddr
      else if Do_AllowShortCode opts \<and> isShortCode s opts then Inr ()
      else if length s < 4 \<or> 15 < length s then Inl ErrInvalidDestAddr
      else case splitE164CountryCode s of
             None \<Rightarrow> Inl ErrInvalidDestAddr
           | Some cc \<Rightarrow>
               if mode = ''strict'' then
                 (case map_of countryMaxTotalLength cc of
                    None \<Rightarrow> Inl ErrInvalidDestAddr
                  | Some maxLen \<Rightarrow> if maxLen < length s then Inl ErrInvalidDestAddr else Inr ())
               else if mode = ''compat'' then
                 (case map_of countryMaxTotalLength cc of
                    None \<Rightarrow> Inr ()
                  | Some maxLen \<Rightarrow> if maxLen < length s then Inl ErrInvalidDestAddr else Inr ())
               else Inr ())"

definition rewriteDestAddr :: "string \<Rightarrow> AddrRewriteConfig \<Rightarrow> string" where
  "rewriteDestAddr addr rule =
     (let s = TrimPrefix addr ''+'';
          cc = (if Ar_CountryCode rule = []
                then (case splitE164CountryCode s of None \<Rightarrow> [] | Some parsed \<Rightarrow> parsed)
                else Ar_CountryCode rule);
          s2 = (if Ar_StripTrunkZeroAfterCC rule \<and> cc \<noteq> [] \<and> HasPrefix s cc
                then cc @ TrimLeftChar (drop (length cc) s) CHR ''0'' else s)
      in if Ar_AddPrefix rule \<noteq> [] \<and> \<not> HasPrefix s2 (Ar_AddPrefix rule) then Ar_AddPrefix rule @ s2 else s2)"

subsection \<open>Country codes are unambiguous\<close>

definition codes2 :: "string list" where
  "codes2 = [
    ''20'', ''27'', ''30'', ''31'', ''32'', ''33'', ''34'', ''36'', ''39'', ''40'', ''41'', ''43'',
    ''44'', ''45'', ''46'', ''47'', ''48'', ''49'', ''51'', ''52'', ''53'', ''54'', ''55'', ''56'',
    ''57'', ''58'', ''60'', ''61'', ''62'', ''63'', ''64'', ''65'', ''66'', ''81'', ''82'', ''84'',
    ''86'', ''90'', ''91'', ''92'', ''93'', ''94'', ''95'', ''98'']"

definition codes3 :: "string list" where
  "codes3 = [
    ''211'', ''212'', ''213'', ''216'', ''218'', ''220'', ''221'', ''222'', ''223'', ''224'', ''225'',
    ''226'', ''227'', ''228'', ''229'', ''230'', ''231'', ''232'', ''233'', ''234'', ''235'', ''236'',
    ''237'', ''238'', ''239'', ''240'', ''241'', ''242'', ''243'', ''244'', ''245'', ''246'', ''247'',
    ''248'', ''249'', ''250'', ''251'', ''252'', ''253'', ''254'', ''255'', ''256'', ''257'', ''258'',
    ''260'', ''261'', ''262'', ''263'', ''264'', ''265'', ''266'', ''267'', ''268'', ''269'', ''290'',
    ''291'', ''297'', ''298'', ''299'', ''350'', ''351'', ''352'', ''353'', ''354'', ''355'', ''356'',
    ''357'', ''358'', ''359'', ''370'', ''371'', ''372'', ''373'', ''374'', ''375'', ''376'', ''377'',
    ''378'', ''379'', ''380'', ''381'', ''382'', ''383'', ''385'', ''386'', ''387'', ''389'', ''420'',
    ''421'', ''423'', ''500'', ''501'', ''502'', ''503'', ''504'', ''505'', ''506'', ''507'', ''508'',
    ''509'', ''590'', ''591'', ''592'', ''593'', ''594'', ''595'', ''596'', ''597'', ''598'', ''599'',
    ''670'', ''672'', ''673'', ''674'', ''675'', ''676'', ''677'', ''678'', ''679'', ''680'', ''681'',
    ''682'', ''683'', ''685'', ''686'', ''687'', ''688'', ''689'', ''690'', ''691'', ''692'', ''800'',
    ''808'', ''850'', ''852'', ''853'', ''855'', ''856'', ''870'', ''878'', ''880'', ''881'', ''882'',
    ''883'', ''886'', ''888'', ''960'', ''961'', ''962'', ''963'', ''964'', ''965'', ''966'', ''967'',
    ''968'', ''970'', ''971'', ''972'', ''973'', ''974'', ''975'', ''976'', ''977'', ''979'', ''992'',
    ''993'', ''994'', ''995'', ''996'', ''998'']"

definition zones3 :: "string list" where
  "zones3 = [
    ''21'', ''22'', ''23'', ''24'', ''25'', ''26'', ''29'', ''35'', ''37'', ''38'', ''42'', ''50'',
    ''59'', ''67'', ''68'', ''69'', ''80'', ''85'', ''87'', ''88'', ''96'', ''97'', ''99'']"

lemma codes_split: "e164CountryCodes = [''1'', ''7''] @ codes2 @ codes3"
  by (simp add: e164CountryCodes_def codes2_def codes3_def)

lemma codes2_length: "c \<in> set codes2 \<Longrightarrow> length c = 2 \<and> take 1 c \<noteq> ''1'' \<and> take 1 c \<noteq> ''7''"
proof -
  have "list_all (\<lambda>c. length c = 2 \<and> take 1 c \<noteq> ''1'' \<and> take 1 c \<noteq> ''7'') codes2"
    by (simp add: codes2_def)
  then show "c \<in> set codes2 \<Longrightarrow> ?thesis"
    by (auto simp: list_all_iff)
qed

lemma codes3_length: "c \<in> set codes3 \<Longrightarrow> length c = 3 \<and> take 1 c \<noteq> ''1'' \<and> take 1 c \<noteq> ''7'' \<and> take 2 c \<in> set zones3"
proof -
  have "list_all (\<lambda>c. length c = 3 \<and> take 1 c \<noteq> ''1'' \<and> take 1 c \<noteq> ''7'') codes3"
    by (simp add: codes3_def)
  moreover have "set (map (take 2) codes3) \<subseteq> set zones3"
    by (simp add: codes3_def zones3_def)
  ultimately show "c \<in> set codes3 \<Longrightarrow> ?thesis"
    by (auto simp: list_all_iff)
qed

lemma zones3_codes2: "t \<in> set zones3 \<Longrightarrow> t \<notin> set codes2"
proof -
  have "list_all (\<lambda>t. \<not> List.member codes2 t) zones3"
    by (simp add: zones3_def codes2_def)
  then show "t \<in> set zones3 \<Longrightarrow> ?thesis"
    by (auto simp: list_all_iff)
qed

lemma code_length: "c \<in> set e164CountryCodes \<Longrightarrow> length c \<in> {1, 2, 3}"
  using codes2_length codes3_length by (auto simp: codes_split)

lemma code_prefix_free:
  assumes "c \<in> set e164CountryCodes" "d \<in> set e164CountryCodes" "take (length c) d = c"
  shows "c = d"
proof (cases "length c = length d")
  case False
  have "length c \<le> length d"
    using assms(3) by (metis length_take min.cobounded1)
  then have lt: "length c < length d"
    using False by simp
  consider "c \<in> {''1'', ''7''}" "d \<in> set codes2" | "c \<in> {''1'', ''7''}" "d \<in> set codes3" | "c \<in> set codes2" "d \<in> set codes3"
    using assms(1,2) lt codes2_length codes3_length unfolding codes_split by fastforce
  then show ?thesis
  proof cases
    case 1
    then show ?thesis
      using codes2_length [of d] assms(3) by auto
  next
    case 2
    then show ?thesis
      using codes3_length [of d] assms(3) by auto
  next
    case 3
    then have "c \<in> set zones3"
      using codes2_length [of c] codes3_length [of d] assms(3) by auto
    then show ?thesis
      using zones3_codes2 3(1) by blast
  qed
qed (use assms(3) in simp)

lemma code_unique:
  assumes "c \<in> set e164CountryCodes" "d \<in> set e164CountryCodes" "HasPrefix s c" "HasPrefix s d"
  shows "c = d"
proof -
  have "take (length c) d = c \<or> take (length d) c = d"
    using assms(3,4) unfolding HasPrefix_def by (metis nat_le_linear min.absorb1 take_take)
  then show ?thesis
    using code_prefix_free assms(1,2) by blast
qed

lemma splitCode_some: "splitCode ns s = Some cc \<Longrightarrow> cc \<in> set e164CountryCodes \<and> HasPrefix s cc"
  by (induction ns) (auto simp: HasPrefix_def split: if_splits)

lemma splitE164_iff:
  "splitE164CountryCode s = Some cc \<longleftrightarrow> cc \<in> set e164CountryCodes \<and> HasPrefix s cc"
proof
  assume "splitE164CountryCode s = Some cc"
  then show "cc \<in> set e164CountryCodes \<and> HasPrefix s cc"
    unfolding splitE164CountryCode_def by (rule splitCode_some)
next
  assume a: "cc \<in> set e164CountryCodes \<and> HasPrefix s cc"
  have cc: "take (length cc) s = cc" "length cc \<le> length s"
    using a HasPrefix_length [of s cc] by (simp_all add: HasPrefix_def)
  have only: "take n s = cc" if "take n s \<in> set e164CountryCodes" for n
    using that code_unique [of "take n s" cc s] a by (auto simp: HasPrefix_def min_def)
  have n: "length cc = 1 \<or> length cc = 2 \<or> length cc = 3"
    using code_length a by fastforce
  then show "splitE164CountryCode s = Some cc"
    using cc a only by (elim disjE) (auto simp: splitE164CountryCode_def)
qed

text \<open>
  C33: A destination is accepted exactly when, after one leading plus sign, it consists of digits and
  is a permitted short code or has 4 to 15 digits and starts with a country code whose total length
  it respects: in strict mode the length must be known, in compat mode only a known one counts.
  At most one country code can match.
\<close>

theorem dest_addr_accepted:
  fixes addr opts
  defines "s \<equiv> TrimPrefix addr ''+''"
  shows "validateDestAddr addr opts = Inr () \<longleftrightarrow>
    digitsOnly s \<and>
    ((Do_AllowShortCode opts \<and> isShortCode s opts) \<or>
     (4 \<le> length s \<and> length s \<le> 15 \<and>
      (\<exists>!cc. cc \<in> set e164CountryCodes \<and> HasPrefix s cc) \<and>
      (\<exists>cc. cc \<in> set e164CountryCodes \<and> HasPrefix s cc \<and>
         (Do_CountryLengthMode opts = ''strict'' \<longrightarrow> (\<exists>m. map_of countryMaxTotalLength cc = Some m \<and> length s \<le> m)) \<and>
         (Do_CountryLengthMode opts = ''compat'' \<longrightarrow> (\<forall>m. map_of countryMaxTotalLength cc = Some m \<longrightarrow> length s \<le> m)))))"
proof (cases "splitE164CountryCode s")
  case None
  then have "\<not> (\<exists>cc. cc \<in> set e164CountryCodes \<and> HasPrefix s cc)"
    using splitE164_iff by (metis option.distinct(1))
  then show ?thesis
    using None unfolding validateDestAddr_def s_def [symmetric] by (auto simp: Let_def)
next
  case (Some cc)
  have cc: "cc \<in> set e164CountryCodes" "HasPrefix s cc"
    using Some splitE164_iff by auto
  then have uniq: "d = cc" if "d \<in> set e164CountryCodes \<and> HasPrefix s d" for d
    using that code_unique by blast
  then have ex1: "\<exists>!d. d \<in> set e164CountryCodes \<and> HasPrefix s d"
    using cc by blast
  have ex: "(\<exists>d. d \<in> set e164CountryCodes \<and> HasPrefix s d \<and> P d) \<longleftrightarrow> P cc" for P
    using cc uniq by blast
  show ?thesis
    unfolding ex validateDestAddr_def s_def [symmetric]
    using Some ex1 by (auto simp: Let_def not_less split: option.splits)
qed

definition exampleDest :: destAddrOptions where
  "exampleDest = \<lparr>Do_AllowShortCode = False, Do_MinShortLen = 0, Do_MaxShortLen = 0, Do_CountryLengthMode = ''strict''\<rparr>"

theorem dest_addr_accepted_witness:
  "validateDestAddr ''+8613800000000'' exampleDest = Inr () \<and> validateDestAddr ''+86138000000000'' exampleDest \<noteq> Inr ()"
proof -
  have c: "''86'' \<in> set e164CountryCodes"
    by (simp add: e164CountryCodes_def)
  have u: "cc = ''86''" if "cc \<in> set e164CountryCodes" "HasPrefix (''86'' @ t) cc" for cc t
    using code_unique [OF that(1) c that(2)] by (simp add: HasPrefix_def)
  have m: "map_of countryMaxTotalLength ''86'' = Some 13"
    by (simp add: countryMaxTotalLength_def)
  have p: "HasPrefix ''8613800000000'' ''86''" "TrimPrefix ''+8613800000000'' ''+'' = ''8613800000000''"
    "TrimPrefix ''+86138000000000'' ''+'' = ''86138000000000''" "digitsOnly ''8613800000000''"
    by (simp_all add: HasPrefix_def TrimPrefix_def digitsOnly_def isDigitChar_def)
  have ex: "\<exists>!cc. cc \<in> set e164CountryCodes \<and> HasPrefix ''8613800000000'' cc"
  proof (rule ex1I)
    show "''86'' \<in> set e164CountryCodes \<and> HasPrefix ''8613800000000'' ''86''"
      using c p(1) by blast
  next
    fix cc
    assume "cc \<in> set e164CountryCodes \<and> HasPrefix ''8613800000000'' cc"
    then show "cc = ''86''"
      using u [of cc "''13800000000''"] by simp
  qed
  have mode: "Do_CountryLengthMode exampleDest = ''strict''" "\<not> Do_AllowShortCode exampleDest"
    by (simp_all add: exampleDest_def)
  have "length ''8613800000000'' \<le> 13" "4 \<le> length ''8613800000000''" "length ''8613800000000'' \<le> 15"
    "\<not> length ''86138000000000'' \<le> 13"
    by simp_all
  note len = this
  have "\<exists>cc. cc \<in> set e164CountryCodes \<and> HasPrefix ''8613800000000'' cc \<and>
      (\<exists>m. map_of countryMaxTotalLength cc = Some m \<and> length ''8613800000000'' \<le> m)"
    using c p(1) m len(1) by blast
  then have "validateDestAddr ''+8613800000000'' exampleDest = Inr ()"
    unfolding dest_addr_accepted p mode using ex p(4) len(2,3) by auto
  moreover have "validateDestAddr ''+86138000000000'' exampleDest \<noteq> Inr ()"
  proof
    assume "validateDestAddr ''+86138000000000'' exampleDest = Inr ()"
    then obtain cc k where "cc \<in> set e164CountryCodes" "HasPrefix ''86138000000000'' cc"
      "map_of countryMaxTotalLength cc = Some k" "length ''86138000000000'' \<le> k"
      using mode(2) unfolding dest_addr_accepted p mode(1) by blast
    moreover have "cc = ''86''"
      using calculation(1,2) u [of cc "''138000000000''"] by simp
    ultimately show False
      using m len(4) by simp
  qed
  ultimately show ?thesis
    by simp
qed

subsection \<open>Rewritten addresses\<close>

lemma digits_append: "digitsOnly (p @ s) \<longleftrightarrow> (p \<noteq> [] \<or> s \<noteq> []) \<and> (\<forall>c \<in> set p. isDigitChar c) \<and> (\<forall>c \<in> set s. isDigitChar c)"
  by (auto simp: digitsOnly_def)

text \<open>
  Rewriting an address of digits by a rule with digits gives digits that begin with the prefix to
  be added; and when the zeros behind a country code are to be stripped and no prefix had to be
  added, none is left behind the code.
\<close>

lemma rewrite_dest_addr:
  assumes s: "digitsOnly (TrimPrefix addr ''+'')"
    and rule: "\<forall>c \<in> set (Ar_CountryCode rule @ Ar_AddPrefix rule). isDigitChar c"
  shows "digitsOnly (rewriteDestAddr addr rule) \<and> HasPrefix (rewriteDestAddr addr rule) (Ar_AddPrefix rule) \<and>
    (Ar_StripTrunkZeroAfterCC rule \<and> Ar_CountryCode rule \<noteq> [] \<and> Ar_AddPrefix rule = [] \<and>
       HasPrefix (TrimPrefix addr ''+'') (Ar_CountryCode rule) \<longrightarrow>
     (\<exists>rest. rewriteDestAddr addr rule = Ar_CountryCode rule @ rest \<and> (rest = [] \<or> hd rest \<noteq> CHR ''0'')))"
proof -
  define t where "t = TrimPrefix addr ''+''"
  define cc where "cc = (if Ar_CountryCode rule = []
      then (case splitE164CountryCode t of None \<Rightarrow> [] | Some parsed \<Rightarrow> parsed) else Ar_CountryCode rule)"
  define s2 where "s2 = (if Ar_StripTrunkZeroAfterCC rule \<and> cc \<noteq> [] \<and> HasPrefix t cc
      then cc @ TrimLeftChar (drop (length cc) t) CHR ''0'' else t)"
  have r: "rewriteDestAddr addr rule =
      (if Ar_AddPrefix rule \<noteq> [] \<and> \<not> HasPrefix s2 (Ar_AddPrefix rule) then Ar_AddPrefix rule @ s2 else s2)"
    by (simp add: rewriteDestAddr_def Let_def s2_def cc_def t_def)
  have t: "digitsOnly t"
    using s by (simp add: t_def)
  have s2: "digitsOnly s2"
  proof (cases "Ar_StripTrunkZeroAfterCC rule \<and> cc \<noteq> [] \<and> HasPrefix t cc")
    case True
    then obtain u where u: "t = cc @ u"
      by (auto simp: HasPrefix_iff)
    have "set (TrimLeftChar u CHR ''0'') \<subseteq> set u"
      using set_dropWhileD by (fastforce simp: TrimLeftChar_def)
    then show ?thesis
      using True t u by (auto simp: s2_def digits_append)
  qed (auto simp: s2_def t)
  have "\<exists>rest. rewriteDestAddr addr rule = Ar_CountryCode rule @ rest \<and> (rest = [] \<or> hd rest \<noteq> CHR ''0'')"
    if "Ar_StripTrunkZeroAfterCC rule" "Ar_CountryCode rule \<noteq> []" "Ar_AddPrefix rule = []" "HasPrefix t (Ar_CountryCode rule)"
    using that hd_dropWhile [of "\<lambda>x. x = CHR ''0''" "drop (length cc) t"]
    by (auto simp: r s2_def cc_def TrimLeftChar_def)
  then show ?thesis
    using s2 rule by (auto simp: r t_def [symmetric] digits_append digitsOnly_def)
qed

end
