(* ===== verification/Tenant_Limits.thy ===== *)
theory Tenant_Limits
  imports Config_Validate
begin

text \<open>
  Tenants (\<open>tenant/tenant.go\<close>): the resolution of an account to its tenant and the token bucket that
  limits the rate of a tenant. The tokens are \<open>float64\<close> numbers.

  A location is named by its string; the time-zone database that says which names exist is a
  parameter.
\<close>

subsection \<open>Resolving accounts\<close>

abbreviation (input) ProtocolHTTP :: string where "ProtocolHTTP \<equiv> ''http''"
abbreviation (input) ProtocolSMPP :: string where "ProtocolSMPP \<equiv> ''smpp''"

record Identity =
  Id_TenantID :: string
  Id_AccountID :: string
  Id_Enabled :: bool
  Id_TPS :: int
  Id_Burst :: int
  Id_DailySegments :: int
  Id_Location :: string

record StaticResolver =
  Sr_http :: "(string, Identity) gomap"
  Sr_smpp :: "(string, Identity) gomap"

definition fallbackIdentity :: "string \<Rightarrow> string \<Rightarrow> Identity" where
  "fallbackIdentity protocol accountID = \<lparr>Id_TenantID = protocol @ '':'' @ accountID, Id_AccountID = accountID,
     Id_Enabled = True, Id_TPS = 0, Id_Burst = 0, Id_DailySegments = 0, Id_Location = ''UTC''\<rparr>"

definition identityFor ::
  "(string \<Rightarrow> bool) \<Rightarrow> string \<Rightarrow> string \<Rightarrow> string \<Rightarrow> (string, TenantConfig) gomap \<Rightarrow> Identity" where
  "identityFor zoneOK protocol accountID tenantID tenants =
     (if tenantID = [] then fallbackIdentity protocol accountID
      else case map_of tenants tenantID of
             None \<Rightarrow> \<lparr>Id_TenantID = tenantID, Id_AccountID = accountID, Id_Enabled = False, Id_TPS = 0, Id_Burst = 0,
                Id_DailySegments = 0, Id_Location = ''UTC''\<rparr>
           | Some cfg \<Rightarrow>
               let l = Tn_Limits cfg;
                   location = (if Tl_Timezone l \<noteq> [] \<and> zoneOK (Tl_Timezone l) then Tl_Timezone l else ''UTC'');
                   burst = (if 0 < Tl_TPS l \<and> Tl_Burst l = 0 then Tl_TPS l else Tl_Burst l)
               in \<lparr>Id_TenantID = tenantID, Id_AccountID = accountID, Id_Enabled = tenantEnabled cfg,
                   Id_TPS = Tl_TPS l, Id_Burst = burst, Id_DailySegments = Tl_DailySegments l, Id_Location = location\<rparr>)"

definition NewResolver :: "(string \<Rightarrow> bool) \<Rightarrow> Config \<Rightarrow> StaticResolver" where
  "NewResolver zoneOK cfg =
     (let tenants = foldl (\<lambda>m t. AList.update (Tn_TenantID t) t m) [] (Cfg_Tenants cfg) in
      \<lparr>Sr_http = foldl (\<lambda>m c. AList.update (Cl_ClientID c)
                  (identityFor zoneOK ProtocolHTTP (Cl_ClientID c) (Cl_TenantID c) tenants) m) [] (Cfg_Clients cfg),
       Sr_smpp = foldl (\<lambda>m e. AList.update (Es_SystemID e)
                  (identityFor zoneOK ProtocolSMPP (Es_SystemID e) (Es_TenantID e) tenants) m) [] (Cfg_ESMEs cfg)\<rparr>)"

definition Resolve :: "StaticResolver option \<Rightarrow> string \<Rightarrow> string \<Rightarrow> Identity option" where
  "Resolve r protocol accountID =
     (case r of
        None \<Rightarrow> None
      | Some sr \<Rightarrow>
          if accountID = [] then None
          else if protocol = ProtocolHTTP then
            (case map_of (Sr_http sr) accountID of
               Some identity \<Rightarrow> Some identity | None \<Rightarrow> Some (fallbackIdentity protocol accountID))
          else if protocol = ProtocolSMPP then
            (case map_of (Sr_smpp sr) accountID of
               Some identity \<Rightarrow> Some identity | None \<Rightarrow> Some (fallbackIdentity protocol accountID))
          else None)"

subsection \<open>The token bucket\<close>

record bucket =
  Bk_tokens :: rat
  Bk_last :: gotime
  Bk_tps :: int
  Bk_burst :: int

type_synonym TokenBucket = "(string, bucket) gomap"

definition NewTokenBucket :: TokenBucket where
  "NewTokenBucket = []"

text \<open>\<open>Duration.Seconds\<close>: whole seconds plus the rest divided by 1e9, with rounding.\<close>

definition durSeconds :: "duration \<Rightarrow> rat" where
  "durSeconds d =
     (let sec = godiv d Second; nsec = d - sec * Second in
      float64 (float64 (of_int sec) + float64 (float64 (of_int nsec) / 1000000000)))"

definition refilled :: "bucket \<Rightarrow> gotime \<Rightarrow> bucket" where
  "refilled b now =
     (let elapsed = durSeconds (now - Bk_last b) in
      if 0 < elapsed then
        (let t = float64 (Bk_tokens b + float64 (elapsed * float64 (of_int (Bk_tps b)))) in
         b\<lparr>Bk_tokens := (if float64 (of_int (Bk_burst b)) < t then float64 (of_int (Bk_burst b)) else t),
           Bk_last := now\<rparr>)
      else b)"

definition currentBucket :: "TokenBucket \<Rightarrow> gotime \<Rightarrow> string \<Rightarrow> int \<Rightarrow> int \<Rightarrow> bucket" where
  "currentBucket l now tenantID tps burst =
     (let fresh = \<lparr>Bk_tokens = float64 (of_int burst), Bk_last = now, Bk_tps = tps, Bk_burst = burst\<rparr> in
      case map_of l tenantID of
        None \<Rightarrow> fresh
      | Some b \<Rightarrow> if Bk_tps b \<noteq> tps \<or> Bk_burst b \<noteq> burst then fresh else refilled b now)"

definition AllowTenant :: "TokenBucket \<Rightarrow> gotime \<Rightarrow> string \<Rightarrow> int \<Rightarrow> int \<Rightarrow> bool \<times> TokenBucket" where
  "AllowTenant l now tenantID tps burst0 =
     (if tenantID = [] \<or> tps \<le> 0 then (True, l)
      else let burst = (if burst0 \<le> 0 then tps else burst0);
               b = currentBucket l now tenantID tps burst;
               allowed = (1 \<le> Bk_tokens b);
               b2 = (if allowed then b\<lparr>Bk_tokens := float64 (Bk_tokens b - 1)\<rparr> else b)
           in (allowed, AList.update tenantID b2 l))"

subsection \<open>Tenants do not mix\<close>

lemma map_of_foldl_update:
  assumes "distinct (map key xs)"
  shows "map_of (foldl (\<lambda>m x. AList.update (key x) (val x) m) m0 xs) k =
    (case find (\<lambda>x. key x = k) xs of None \<Rightarrow> map_of m0 k | Some x \<Rightarrow> Some (val x))"
  using assms
proof (induction xs arbitrary: m0)
  case (Cons x xs)
  show ?case
  proof (cases "key x = k")
    case True
    moreover have "key x \<notin> key ` set xs"
      using Cons.prems by simp
    ultimately have "find (\<lambda>y. key y = k) xs = None"
      unfolding find_None_iff by (metis imageI)
    then show ?thesis
      using Cons True by simp
  next
    case False
    then show ?thesis
      using Cons by (simp split: option.split)
  qed
qed simp

text \<open>The tenant an account is configured with; empty when it has none or is not configured.\<close>

definition accountTenant :: "Config \<Rightarrow> string \<Rightarrow> string \<Rightarrow> string" where
  "accountTenant cfg protocol accountID =
     (if protocol = ProtocolHTTP
      then (case find (\<lambda>c. Cl_ClientID c = accountID) (Cfg_Clients cfg) of None \<Rightarrow> [] | Some c \<Rightarrow> Cl_TenantID c)
      else (case find (\<lambda>e. Es_SystemID e = accountID) (Cfg_ESMEs cfg) of None \<Rightarrow> [] | Some e \<Rightarrow> Es_TenantID e))"

lemma find_key: "find (\<lambda>x. key x = k) xs = Some x \<Longrightarrow> key x = k"
  by (auto simp: find_Some_iff)

lemma find_mem: "find P xs = Some x \<Longrightarrow> x \<in> set xs"
  by (auto simp: find_Some_iff)

lemma identityFor_tenant:
  "Id_TenantID (identityFor zoneOK protocol a t tenants) = (if t = [] then protocol @ '':'' @ a else t)"
  by (simp add: identityFor_def fallbackIdentity_def Let_def split: option.splits)

lemma Resolve_tenant:
  assumes "distinct (map Es_SystemID (Cfg_ESMEs cfg))" "distinct (map Cl_ClientID (Cfg_Clients cfg))"
    "protocol \<in> {ProtocolHTTP, ProtocolSMPP}" "a \<noteq> []"
  shows "\<exists>i. Resolve (Some (NewResolver zoneOK cfg)) protocol a = Some i \<and>
    Id_TenantID i = (let t = accountTenant cfg protocol a in if t = [] then protocol @ '':'' @ a else t)"
proof (cases "protocol = ProtocolHTTP")
  case True
  then show ?thesis
    using assms
    by (auto simp: Resolve_def NewResolver_def Let_def map_of_foldl_update accountTenant_def identityFor_tenant
        fallbackIdentity_def dest: find_key split: option.splits)
next
  case False
  then show ?thesis
    using assms
    by (auto simp: Resolve_def NewResolver_def Let_def map_of_foldl_update accountTenant_def identityFor_tenant
        fallbackIdentity_def dest: find_key split: option.splits)
qed

lemma validName_no_colon: "validName s \<Longrightarrow> CHR '':'' \<notin> set s"
  by (cases s) (auto simp: validName_def alnumChar_def)

lemma validateTenants_names:
  "validateTenants env ts names = Inr r \<Longrightarrow> t \<in> set ts \<Longrightarrow> validName (Tn_TenantID t)"
proof (induction ts arbitrary: names)
  case (Cons u ts)
  have "validName (Tn_TenantID u)" "validateTenants env ts (Tn_TenantID u # names) = Inr r"
    using Cons.prems(1) by (simp_all add: Let_def)
  then show ?case
    using Cons by auto
qed simp

lemma accountTenant_configured:
  assumes "Validate env cfg = Inr ()" "accountTenant cfg protocol a \<noteq> []"
  shows "CHR '':'' \<notin> set (accountTenant cfg protocol a)"
proof -
  obtain tenants where ten: "validateTenants env (Cfg_Tenants cfg) [] = Inr tenants"
    and es: "validateESMEs False tenants (Cfg_ESMEs cfg) [] = Inr ()"
    and cl: "validateClients False tenants (Cfg_Clients cfg) [] = Inr ()"
    using assms(1) unfolding Validate_def by (rule validate_parts)
  have "\<forall>e \<in> set (Cfg_ESMEs cfg). Es_TenantID e = [] \<or> Es_TenantID e \<in> set tenants"
    "\<forall>c \<in> set (Cfg_Clients cfg). Cl_TenantID c = [] \<or> Cl_TenantID c \<in> set tenants"
    using validateESMEs_ok [OF es] validateClients_ok [OF cl] by blast+
  then have "accountTenant cfg protocol a \<in> set tenants"
    using assms(2) by (auto simp: accountTenant_def dest!: find_mem split: if_splits option.splits)
  then have "\<exists>t \<in> set (Cfg_Tenants cfg). Tn_TenantID t = accountTenant cfg protocol a"
    using validateTenants_ok [OF ten] by auto
  then show ?thesis
    using validateTenants_names [OF ten] validName_no_colon by metis
qed

lemma validate_distinct:
  assumes "Validate env cfg = Inr ()"
  shows "distinct (map Es_SystemID (Cfg_ESMEs cfg)) \<and> distinct (map Cl_ClientID (Cfg_Clients cfg))"
proof -
  obtain tenants where "validateESMEs False tenants (Cfg_ESMEs cfg) [] = Inr ()"
    and "validateClients False tenants (Cfg_Clients cfg) [] = Inr ()"
    using assms unfolding Validate_def by (rule validate_parts)
  then show ?thesis
    using validateESMEs_ok validateClients_ok by blast
qed

text \<open>
  C22: With a validated configuration every account is resolved, and two accounts share a tenant, and
  with it rate and quota, exactly when the same tenant is configured for both or they are one
  and the same account without a tenant. A tenant made up for an account never coincides
  with a configured one or with that of an account of the other protocol.
\<close>

theorem tenant_isolation:
  assumes "Validate env cfg = Inr ()" "p \<in> {ProtocolHTTP, ProtocolSMPP}" "q \<in> {ProtocolHTTP, ProtocolSMPP}" "a \<noteq> []" "b \<noteq> []"
  shows "\<exists>i j. Resolve (Some (NewResolver zoneOK cfg)) p a = Some i \<and> Resolve (Some (NewResolver zoneOK cfg)) q b = Some j \<and>
    (Id_TenantID i = Id_TenantID j \<longleftrightarrow>
       (accountTenant cfg p a \<noteq> [] \<and> accountTenant cfg p a = accountTenant cfg q b) \<or>
       (accountTenant cfg p a = [] \<and> accountTenant cfg q b = [] \<and> p = q \<and> a = b))"
proof -
  obtain i j where i: "Resolve (Some (NewResolver zoneOK cfg)) p a = Some i"
      "Id_TenantID i = (if accountTenant cfg p a = [] then p @ '':'' @ a else accountTenant cfg p a)"
    and j: "Resolve (Some (NewResolver zoneOK cfg)) q b = Some j"
      "Id_TenantID j = (if accountTenant cfg q b = [] then q @ '':'' @ b else accountTenant cfg q b)"
    using Resolve_tenant [of cfg p a zoneOK] Resolve_tenant [of cfg q b zoneOK] validate_distinct [OF assms(1)] assms(2-5)
    by (auto simp: Let_def)
  have colon: "accountTenant cfg r c \<noteq> [] \<Longrightarrow> accountTenant cfg r c \<noteq> s @ '':'' @ d" for r c s d
    using accountTenant_configured [OF assms(1), of r c] by auto
  have "p @ '':'' @ a = q @ '':'' @ b \<longleftrightarrow> p = q \<and> a = b"
    using assms(2,3) by auto
  then have "Id_TenantID i = Id_TenantID j \<longleftrightarrow>
       (accountTenant cfg p a \<noteq> [] \<and> accountTenant cfg p a = accountTenant cfg q b) \<or>
       (accountTenant cfg p a = [] \<and> accountTenant cfg q b = [] \<and> p = q \<and> a = b)"
    using i(2) j(2) colon [of p a q b] colon [of q b p a] by (auto split: if_splits)
  then show ?thesis
    using i(1) j(1) by blast
qed

theorem tenant_isolation_witness:
  "\<exists>i. Resolve (Some (NewResolver (\<lambda>_. True) (NormalizeCfg (exampleConfig ''s3cret'')))) ''smpp'' ''esme1'' = Some i"
proof -
  have ok: "Validate exampleEnv (NormalizeCfg (exampleConfig ''s3cret'')) = Inr ()"
    unfolding Validate_def
    by (rule example_valid) (simp_all add: isPlaceholder_def PlaceholderSecret_def IsAutoGenerate_def AutoGenerateSecret_def)
  have "''smpp'' \<in> {ProtocolHTTP, ProtocolSMPP}" "''esme1'' \<noteq> []"
    by simp_all
  then show ?thesis
    using tenant_isolation [OF ok, of "''smpp''" "''smpp''" "''esme1''" "''esme1''" "\<lambda>_. True"] by blast
qed

subsection \<open>The tokens of a bucket\<close>

text \<open>Limits are small enough to be exact \<open>float64\<close> numbers.\<close>

definition bucketOK :: "bucket \<Rightarrow> bool" where
  "bucketOK b \<longleftrightarrow> 0 < Bk_tps b \<and> 0 < Bk_burst b \<and> Bk_burst b < 2 ^ 53 \<and>
     0 \<le> Bk_tokens b \<and> Bk_tokens b \<le> of_int (Bk_burst b)"

definition limiterOK :: "TokenBucket \<Rightarrow> bool" where
  "limiterOK l \<longleftrightarrow> (\<forall>t b. map_of l t = Some b \<longrightarrow> bucketOK b)"

lemma float64_ge_int: "\<bar>n\<bar> < 2 ^ 53 \<Longrightarrow> of_int n \<le> x \<Longrightarrow> of_int n \<le> float64 x"
  using float64_mono [of "of_int n" x] by (simp add: float64_int)

lemma float64_le_int: "\<bar>n\<bar> < 2 ^ 53 \<Longrightarrow> x \<le> of_int n \<Longrightarrow> float64 x \<le> of_int n"
  using float64_mono [of x "of_int n"] by (simp add: float64_int)

lemma float64_ge_one: "1 \<le> x \<Longrightarrow> 1 \<le> float64 x"
  using float64_ge_int [of 1 x] by simp

lemma float64_burst: "0 < n \<Longrightarrow> n < 2 ^ 53 \<Longrightarrow> float64 (of_int n) = of_int n"
  by (rule float64_int) simp

lemma bucketOK_take:
  "bucketOK b \<Longrightarrow> 1 \<le> Bk_tokens b \<Longrightarrow> bucketOK (b\<lparr>Bk_tokens := float64 (Bk_tokens b - 1)\<rparr>)"
  using float64_nonneg [of "Bk_tokens b - 1"] float64_le_int [of "Bk_burst b" "Bk_tokens b - 1"]
  by (simp add: bucketOK_def)

lemma bucketOK_refilled: "bucketOK b \<Longrightarrow> bucketOK (refilled b now)"
proof -
  assume b: "bucketOK b"
  define e where "e = durSeconds (now - Bk_last b)"
  show ?thesis
  proof (cases "0 < e")
    case True
    have "0 \<le> float64 (of_int (Bk_tps b))"
      using b by (intro float64_nonneg) (simp add: bucketOK_def)
    then have "0 \<le> float64 (Bk_tokens b + float64 (e * float64 (of_int (Bk_tps b))))"
      using b True by (intro float64_nonneg add_nonneg_nonneg mult_nonneg_nonneg) (auto simp: bucketOK_def)
    then show ?thesis
      using b True by (simp add: refilled_def Let_def e_def [symmetric] bucketOK_def float64_burst)
  next
    case False
    then show ?thesis
      using b by (simp add: refilled_def Let_def e_def [symmetric])
  qed
qed

lemma refilled_params [simp]: "Bk_tps (refilled b now) = Bk_tps b" "Bk_burst (refilled b now) = Bk_burst b"
  by (simp_all add: refilled_def Let_def)

lemma currentBucket_ok:
  assumes "limiterOK l" "0 < tps" "0 < burst" "burst < 2 ^ 53"
  shows "bucketOK (currentBucket l now t tps burst) \<and> Bk_tps (currentBucket l now t tps burst) = tps \<and>
    Bk_burst (currentBucket l now t tps burst) = burst"
proof (cases "map_of l t")
  case None
  then show ?thesis
    using assms by (simp add: currentBucket_def Let_def bucketOK_def float64_burst)
next
  case (Some b)
  then have "bucketOK b"
    using assms(1) by (simp add: limiterOK_def)
  then show ?thesis
    using Some assms by (simp add: currentBucket_def Let_def bucketOK_refilled bucketOK_def [of "\<lparr>Bk_tokens = _, Bk_last = _, Bk_tps = _, Bk_burst = _\<rparr>"] float64_burst)
qed

lemma AllowTenant_ok:
  assumes "limiterOK l" "burst < 2 ^ 53" "tps < 2 ^ 53"
  shows "limiterOK (snd (AllowTenant l now t tps burst))"
proof (cases "t = [] \<or> tps \<le> 0")
  case False
  define B where "B = (if burst \<le> 0 then tps else burst)"
  have "bucketOK (currentBucket l now t tps B)"
    using currentBucket_ok [of l tps B now t] assms False by (auto simp: B_def)
  then show ?thesis
    using assms(1) False bucketOK_take
    by (auto simp: AllowTenant_def Let_def B_def [symmetric] limiterOK_def)
qed (use assms(1) in \<open>auto simp: AllowTenant_def\<close>)

subsection \<open>Requests at one instant\<close>

fun allowRun :: "TokenBucket \<Rightarrow> gotime \<Rightarrow> string \<Rightarrow> int \<Rightarrow> int \<Rightarrow> nat \<Rightarrow> nat" where
  "allowRun l now t tps burst 0 = 0"
| "allowRun l now t tps burst (Suc n) =
     (case AllowTenant l now t tps burst of (ok, l2) \<Rightarrow> (if ok then 1 else 0) + allowRun l2 now t tps burst n)"

lemma durSeconds_zero [simp]: "durSeconds 0 = 0"
  by (simp add: durSeconds_def godiv_def float64_def)

lemma currentBucket_again:
  assumes "map_of l t = Some b" "Bk_tps b = tps" "Bk_burst b = burst" "durSeconds (now - Bk_last b) \<le> 0"
  shows "currentBucket l now t tps burst = b"
  using assms by (simp add: currentBucket_def Let_def refilled_def)

lemma allowRun_stored:
  assumes "0 < tps" "0 < burst" "t \<noteq> []" "map_of l t = Some b" "Bk_tps b = tps" "Bk_burst b = burst"
    "durSeconds (now - Bk_last b) \<le> 0" "Bk_tokens b \<le> of_nat m" "m < 2 ^ 53"
  shows "allowRun l now t tps burst n \<le> m"
  using assms(4-)
proof (induction n arbitrary: l b m)
  case (Suc n)
  have cur: "currentBucket l now t tps burst = b"
    using Suc.prems by (intro currentBucket_again) auto
  show ?case
  proof (cases "1 \<le> Bk_tokens b")
    case True
    have "(1 :: rat) \<le> of_nat m"
      using True Suc.prems(5) by linarith
    then have m: "1 \<le> m"
      by simp
    have "float64 (Bk_tokens b - 1) \<le> of_int (int (m - 1))"
      using Suc.prems(5,6) m by (intro float64_le_int) (auto simp: of_nat_diff)
    then have le: "float64 (Bk_tokens b - 1) \<le> of_nat (m - 1)"
      by simp
    let ?b = "b\<lparr>Bk_tokens := float64 (Bk_tokens b - 1)\<rparr>"
    have "allowRun (AList.update t ?b l) now t tps burst n \<le> m - 1"
      using Suc.prems le by (intro Suc.IH [of _ ?b]) auto
    then show ?thesis
      using cur True m assms(1-3) by (simp add: AllowTenant_def Let_def)
  next
    case False
    have "allowRun (AList.update t b l) now t tps burst n \<le> m"
      using Suc.prems by (intro Suc.IH [of _ b]) auto
    then show ?thesis
      using cur False assms(1-3) by (simp add: AllowTenant_def Let_def)
  qed
qed simp

lemma durSeconds_after_second:
  assumes "Second \<le> d"
  shows "1 \<le> durSeconds d"
proof -
  define sec where "sec = godiv d Second"
  define nsec where "nsec = d - sec * Second"
  have "sec = d div Second"
    using assms by (simp add: sec_def godiv_def)
  then have sec: "1 \<le> sec" "0 \<le> nsec"
    using zdiv_mono1 [OF assms, of Second] by (simp_all add: nsec_def minus_div_mult_eq_mod)
  have "1 \<le> float64 (of_int sec)"
    using sec(1) by (intro float64_ge_one) simp
  moreover have "0 \<le> float64 (float64 (of_int nsec) / 1000000000)"
    using sec(2) by (intro float64_nonneg divide_nonneg_nonneg) auto
  ultimately show ?thesis
    unfolding durSeconds_def Let_def sec_def [symmetric] nsec_def [symmetric]
    by (intro float64_ge_one) linarith
qed

lemma refilled_after_second:
  assumes "bucketOK b" "Second \<le> now - Bk_last b"
  shows "1 \<le> Bk_tokens (refilled b now)"
proof -
  define e where "e = durSeconds (now - Bk_last b)"
  have e: "1 \<le> e"
    using durSeconds_after_second [OF assms(2)] by (simp add: e_def)
  have tps: "1 \<le> float64 (of_int (Bk_tps b))"
    using assms(1) by (intro float64_ge_one) (simp add: bucketOK_def)
  have "1 * 1 \<le> e * float64 (of_int (Bk_tps b))"
    using e tps by (intro mult_mono) auto
  then have "1 \<le> float64 (e * float64 (of_int (Bk_tps b)))"
    by (intro float64_ge_one) simp
  then have "1 \<le> float64 (Bk_tokens b + float64 (e * float64 (of_int (Bk_tps b))))"
    using assms(1) by (intro float64_ge_one) (simp add: bucketOK_def)
  then show ?thesis
    using e assms(1) by (simp add: refilled_def Let_def e_def [symmetric] bucketOK_def float64_burst)
qed

text \<open>
  C34: The limiter of a tenant lets at most \<open>burst\<close> requests pass at one instant, however many arrive
  and whatever happened before, and a request that comes a second or more after the bucket was
  last refilled always passes; the tokens of every bucket stay between 0 and \<open>burst\<close>. The
  rounding of the tokens is taken into account.
\<close>

theorem token_bucket_limits:
  assumes l: "limiterOK l" and t: "t \<noteq> []" and tps: "0 < tps" and burst: "0 < burst" "burst < 2 ^ 53"
  shows "allowRun l now t tps burst n \<le> nat burst \<and>
    (tps < 2 ^ 53 \<longrightarrow> limiterOK (snd (AllowTenant l now t tps burst))) \<and>
    ((case map_of l t of None \<Rightarrow> True | Some b \<Rightarrow> Second \<le> now - Bk_last b) \<longrightarrow> fst (AllowTenant l now t tps burst))"
proof (intro conjI impI)
  let ?b = "currentBucket l now t tps burst"
  have b: "bucketOK ?b" "Bk_tps ?b = tps" "Bk_burst ?b = burst"
    using currentBucket_ok [OF l tps burst] by auto
  have stop: "durSeconds (now - Bk_last ?b) \<le> 0"
    by (auto simp: currentBucket_def refilled_def Let_def split: option.splits)
  show "allowRun l now t tps burst n \<le> nat burst"
  proof (cases n)
    case (Suc k)
    let ?c = "if 1 \<le> Bk_tokens ?b then ?b\<lparr>Bk_tokens := float64 (Bk_tokens ?b - 1)\<rparr> else ?b"
    define m where "m = (if 1 \<le> Bk_tokens ?b then nat burst - 1 else nat burst)"
    have "float64 (Bk_tokens ?b - 1) \<le> of_int (burst - 1)"
      using b burst by (intro float64_le_int) (auto simp: bucketOK_def)
    then have "Bk_tokens ?c \<le> of_nat m"
      using b(1,3) burst by (auto simp: bucketOK_def m_def of_nat_diff)
    then have "allowRun (AList.update t ?c l) now t tps burst k \<le> m"
      using b stop burst by (intro allowRun_stored [OF tps burst(1) t, where b = ?c]) (auto simp: m_def)
    then show ?thesis
      using Suc t tps burst by (auto simp: AllowTenant_def Let_def m_def)
  qed simp
  show "limiterOK (snd (AllowTenant l now t tps burst))" if "tps < 2 ^ 53"
    using AllowTenant_ok [OF l burst(2) that] .
  show "fst (AllowTenant l now t tps burst)"
    if idle: "case map_of l t of None \<Rightarrow> True | Some b \<Rightarrow> Second \<le> now - Bk_last b"
  proof -
    have "1 \<le> Bk_tokens ?b"
    proof (cases "map_of l t")
      case None
      then show ?thesis
        using burst by (simp add: currentBucket_def Let_def float64_burst)
    next
      case (Some c)
      then show ?thesis
        using idle burst l refilled_after_second [of c now]
        by (auto simp: currentBucket_def Let_def float64_burst limiterOK_def)
    qed
    then show ?thesis
      using t tps burst by (simp add: AllowTenant_def Let_def)
  qed
qed

theorem token_bucket_limits_witness:
  "allowRun NewTokenBucket 0 ''t1'' 5 10 100 \<le> 10 \<and> fst (AllowTenant NewTokenBucket 0 ''t1'' 5 10)"
  using token_bucket_limits [of NewTokenBucket "''t1''" 5 10 0 100]
  by (simp add: limiterOK_def NewTokenBucket_def)

end
