(* ===== verification/Gw_Ids.thy ===== *)
theory Gw_Ids
  imports Mem_Store
begin

text \<open>
  Gateway ids (\<open>dispatch/idalloc.go\<close> and \<open>newGatewayID\<close> of \<open>dispatch/dispatcher.go\<close>): every dispatcher
  takes ranges of numbers from the store and hands them out one by one. The interface to the store,
  \<open>gatewayIDStore\<close>, is a locale; several dispatchers may share one store.
\<close>

subsection \<open>The allocator\<close>

record idAllocator =
  Ia_next :: "64 word"
  Ia_end :: "64 word"
  Ia_span :: "64 word"

type_synonym 's reserve = "64 word \<Rightarrow> 's \<Rightarrow> (64 word \<times> 64 word) option \<times> 's"

definition newIDAllocator :: "64 word \<Rightarrow> idAllocator" where
  "newIDAllocator span = \<lparr>Ia_next = 0, Ia_end = 0, Ia_span = (if span = 0 then 1000 else span)\<rparr>"

definition NextID :: "'s reserve \<Rightarrow> idAllocator \<Rightarrow> 's \<Rightarrow> 64 word option \<times> idAllocator \<times> 's" where
  "NextID reserve a s =
     (if Ia_next a = 0 \<or> Ia_end a < Ia_next a then
        (case reserve (Ia_span a) s of
           (None, s2) \<Rightarrow> (None, a, s2)
         | (Some (start, stop), s2) \<Rightarrow> (Some start, a\<lparr>Ia_next := start + 1, Ia_end := stop\<rparr>, s2))
      else (Some (Ia_next a), a\<lparr>Ia_next := Ia_next a + 1\<rparr>, s))"

definition formatGatewayID :: "64 word \<Rightarrow> string option" where
  "formatGatewayID n =
     (let encoded = FormatUint (unat n) 36 in
      if 7 < length encoded then None else Some (CHR ''m'' # padLeft CHR ''0'' 7 encoded))"

definition newGatewayID :: "'s reserve \<Rightarrow> idAllocator \<Rightarrow> 's \<Rightarrow> string option \<times> idAllocator \<times> 's" where
  "newGatewayID reserve a s =
     (case NextID reserve a s of
        (None, a2, s2) \<Rightarrow> (None, a2, s2)
      | (Some n, a2, s2) \<Rightarrow> (formatGatewayID n, a2, s2))"

text \<open>Several allocators, one per dispatcher, on one store: the numbers handed out by a sequence of calls.\<close>

fun runNext :: "'s reserve \<Rightarrow> nat list \<Rightarrow> (nat \<Rightarrow> idAllocator) \<Rightarrow> 's \<Rightarrow> 64 word option list" where
  "runNext reserve [] A s = []"
| "runNext reserve (i # is) A s =
     (case NextID reserve (A i) s of (n, a, s2) \<Rightarrow> n # runNext reserve is (A(i := a)) s2)"

fun runGatewayIDs :: "'s reserve \<Rightarrow> nat list \<Rightarrow> (nat \<Rightarrow> idAllocator) \<Rightarrow> 's \<Rightarrow> string option list" where
  "runGatewayIDs reserve [] A s = []"
| "runGatewayIDs reserve (i # is) A s =
     (case newGatewayID reserve (A i) s of (g, a, s2) \<Rightarrow> g # runGatewayIDs reserve is (A(i := a)) s2)"

definition memReserve :: "MemoryStore reserve" where
  "memReserve span s = (case ReserveGatewayIDRange span s of (r, s2) \<Rightarrow> (Some r, s2))"

subsection \<open>The interface to the store\<close>

text \<open>The numbers an allocator may still hand out.\<close>

definition stock :: "idAllocator \<Rightarrow> nat set" where
  "stock a = (if Ia_next a = 0 then {} else {unat (Ia_next a)..unat (Ia_end a)})"

definition separate :: "(nat \<Rightarrow> nat set) \<Rightarrow> nat set \<Rightarrow> bool" where
  "separate F I \<longleftrightarrow> (\<forall>i. F i \<inter> I = {}) \<and> (\<forall>i j. i \<noteq> j \<longrightarrow> F i \<inter> F j = {})"

lemma separate_take:
  "separate F I \<Longrightarrow> x \<in> F i \<Longrightarrow> x \<notin> I \<and> separate (F(i := F i - {x})) (insert x I)"
  unfolding separate_def by (auto; blast)

lemma separate_fresh:
  assumes "separate F I" "x \<notin> I" "\<And>j. x \<notin> F j" "x \<notin> G" "G \<inter> I = {}" "\<And>j. G \<inter> F j = {}"
  shows "separate (F(i := G)) (insert x I)"
  using assms unfolding separate_def by auto

lemma stock_next:
  assumes "Ia_next a \<noteq> 0" "\<not> Ia_end a < Ia_next a"
  shows "unat (Ia_next a) \<in> stock a \<and> stock (a\<lparr>Ia_next := Ia_next a + 1\<rparr>) = stock a - {unat (Ia_next a)}"
proof (cases "Ia_next a + 1 = 0")
  case True
  then have m: "Ia_next a = - 1"
    by (simp add: eq_neg_iff_add_eq_0)
  then have "Ia_end a = - 1"
    using assms(2) by (simp add: not_less word_order.extremum_uniqueI)
  then show ?thesis
    using True m assms by (simp add: stock_def)
next
  case False
  then have "unat (Ia_next a + 1) = unat (Ia_next a) + 1"
    by (simp add: unatSuc add.commute)
  then show ?thesis
    using False assms by (auto simp: stock_def word_less_nat_alt)
qed

lemma stock_after: "stock (a\<lparr>Ia_next := x + 1, Ia_end := y\<rparr>) \<subseteq> {unat x + 1..unat y}"
proof (cases "x + 1 = 0")
  case False
  then have "unat (x + 1) = unat x + 1"
    by (simp add: unatSuc add.commute)
  then show ?thesis
    by (simp add: stock_def)
qed (simp add: stock_def)

definition issued :: "'a option list \<Rightarrow> 'a list" where
  "issued rs = map the (filter (\<lambda>r. r \<noteq> None) rs)"

lemma issued_simps [simp]: "issued [] = []" "issued (None # rs) = issued rs" "issued (Some x # rs) = x # issued rs"
  by (simp_all add: issued_def)

lemma issued_mem: "x \<in> set (issued rs) \<longleftrightarrow> Some x \<in> set rs"
  by (force simp: issued_def)

locale gateway_id_store =
  fixes reserve :: "'s reserve" and used :: "'s \<Rightarrow> nat"
  assumes reserve_range:
    "\<lbrakk>0 < span; used s + unat span < 2 ^ 64; reserve span s = (Some (a, b), s2)\<rbrakk> \<Longrightarrow>
       unat a = used s + 1 \<and> unat b = used s + unat span \<and> used s2 = used s + unat span"
    and reserve_failed: "reserve span s = (None, s2) \<Longrightarrow> used s2 = used s"
begin

definition ids_inv :: "64 word \<Rightarrow> (nat \<Rightarrow> idAllocator) \<Rightarrow> 's \<Rightarrow> nat set \<Rightarrow> bool" where
  "ids_inv span A s I \<longleftrightarrow>
     (\<forall>i. Ia_span (A i) = span) \<and> separate (\<lambda>i. stock (A i)) I \<and>
     I \<subseteq> {1..used s} \<and> (\<forall>i. stock (A i) \<subseteq> {1..used s})"

lemma ids_inv_upd:
  "ids_inv span (A(i := a)) s I \<longleftrightarrow>
     Ia_span a = span \<and> (\<forall>j. j \<noteq> i \<longrightarrow> Ia_span (A j) = span) \<and> separate ((\<lambda>j. stock (A j))(i := stock a)) I \<and>
     I \<subseteq> {1..used s} \<and> stock a \<subseteq> {1..used s} \<and> (\<forall>j. j \<noteq> i \<longrightarrow> stock (A j) \<subseteq> {1..used s})"
proof -
  have upd: "(\<lambda>j. stock ((A(i := a)) j)) = (\<lambda>j. stock (A j))(i := stock a)"
    by (rule ext) simp
  show ?thesis
    unfolding ids_inv_def upd by (auto simp del: fun_upd_apply simp: fun_upd_def split: if_splits)
qed

lemma ids_step:
  assumes inv: "ids_inv span A s I" and span: "0 < span" "used s + unat span < 2 ^ 64"
    and step: "NextID reserve (A i) s = (n, a, s2)"
  shows "(case n of None \<Rightarrow> ids_inv span (A(i := a)) s2 I
     | Some x \<Rightarrow> 0 < unat x \<and> unat x \<notin> I \<and> ids_inv span (A(i := a)) s2 (insert (unat x) I)) \<and>
    used s2 \<le> used s + unat span"
proof -
  have sep: "separate (\<lambda>i. stock (A i)) I" and sp: "\<And>j. Ia_span (A j) = span"
    and old: "I \<subseteq> {1..used s}" "\<And>j. stock (A j) \<subseteq> {1..used s}"
    using inv by (auto simp: ids_inv_def)
  show ?thesis
  proof (cases "Ia_next (A i) = 0 \<or> Ia_end (A i) < Ia_next (A i)")
    case False
    then have n: "n = Some (Ia_next (A i))" "a = (A i)\<lparr>Ia_next := Ia_next (A i) + 1\<rparr>" "s2 = s"
      using step by (auto simp: NextID_def)
    have st: "unat (Ia_next (A i)) \<in> stock (A i)" "stock a = stock (A i) - {unat (Ia_next (A i))}"
      using stock_next [of "A i"] False n(2) by auto
    have "separate ((\<lambda>j. stock (A j))(i := stock a)) (insert (unat (Ia_next (A i))) I)"
      "unat (Ia_next (A i)) \<notin> I"
      using separate_take [OF sep st(1)] st(2) by auto
    moreover have "unat (Ia_next (A i)) \<in> {1..used s}" "stock a \<subseteq> {1..used s}"
      using st old(2) [of i] by auto
    ultimately show ?thesis
      using n sp old by (auto simp: ids_inv_upd)
  next
    case True
    show ?thesis
    proof (cases "reserve span s")
      case (Pair r s3)
      show ?thesis
      proof (cases r)
        case None
        then have "n = None" "a = A i" "s2 = s3"
          using step True Pair by (auto simp: NextID_def sp)
        then show ?thesis
          using inv reserve_failed [of span s s3] Pair None by (simp add: ids_inv_def)
      next
        case (Some xy)
        then obtain x y where xy: "r = Some (x, y)"
          by (cases xy) auto
        then have n: "n = Some x" "a = (A i)\<lparr>Ia_next := x + 1, Ia_end := y\<rparr>" "s2 = s3"
          using step True Pair by (auto simp: NextID_def sp)
        have range: "unat x = used s + 1" "unat y = used s + unat span" "used s2 = used s + unat span"
          using reserve_range [OF span, of x y s3] Pair xy n(3) by auto
        have st: "stock a \<subseteq> {used s + 2..used s2}"
          using stock_after [of y x "A i"] range by (simp add: n(2))
        have new: "unat x \<notin> I" "\<And>j. unat x \<notin> stock (A j)" "unat x \<notin> stock a" "stock a \<inter> I = {}"
          "\<And>j. stock a \<inter> stock (A j) = {}"
          using old st range(1) by fastforce+
        have "separate ((\<lambda>j. stock (A j))(i := stock a)) (insert (unat x) I)"
          using separate_fresh [OF sep] new by blast
        moreover have "unat x \<in> {1..used s2}" "stock a \<subseteq> {1..used s2}"
          using range st span(1) by (auto simp: word_less_nat_alt)
        moreover have "I \<subseteq> {1..used s2}" "\<And>j. stock (A j) \<subseteq> {1..used s2}"
          using old range(3) by fastforce+
        ultimately show ?thesis
          using n(1,2) sp new(1) range(1,3) by (auto simp: ids_inv_upd)
      qed
    qed
  qed
qed

lemma run_distinct:
  assumes "ids_inv span A s I" "0 < span" "used s + length is * unat span < 2 ^ 64"
  shows "distinct (map unat (issued (runNext reserve is A s))) \<and>
    (\<forall>x. Some x \<in> set (runNext reserve is A s) \<longrightarrow> 0 < unat x \<and> unat x \<notin> I)"
  using assms
proof (induction "is" arbitrary: A s I)
  case (Cons i "is")
  obtain n a s2 where step: "NextID reserve (A i) s = (n, a, s2)"
    by (cases "NextID reserve (A i) s") auto
  have "used s + unat span < 2 ^ 64"
    using Cons.prems(3) by simp
  note stp = ids_step [OF Cons.prems(1,2) this step]
  have bound: "used s2 + length is * unat span < 2 ^ 64"
    using stp Cons.prems(3) by simp
  show ?case
  proof (cases n)
    case None
    then have "ids_inv span (A(i := a)) s2 I"
      using stp by simp
    from Cons.IH [OF this Cons.prems(2) bound] show ?thesis
      using step None by (simp del: fun_upd_apply)
  next
    case (Some x)
    then have inv: "ids_inv span (A(i := a)) s2 (insert (unat x) I)" and x: "0 < unat x" "unat x \<notin> I"
      using stp by simp_all
    from Cons.IH [OF inv Cons.prems(2) bound] show ?thesis
      using step Some x by (auto simp: issued_mem simp del: fun_upd_apply)
  qed
qed simp

lemma fresh_inv: "ids_inv span (\<lambda>_. newIDAllocator span) s {}" if "0 < span"
  using that by (auto simp: ids_inv_def newIDAllocator_def stock_def separate_def)

lemma run_fresh_distinct:
  assumes "0 < span" "used s + length is * unat span < 2 ^ 64"
  shows "distinct (issued (runNext reserve is (\<lambda>_. newIDAllocator span) s))"
  using run_distinct [OF fresh_inv [OF assms(1)] assms] by (simp add: distinct_map)

end

interpretation mem_ids: gateway_id_store memReserve "\<lambda>s. unat (st_gatewaySeq s)"
proof
  fix span :: "64 word" and s s2 :: MemoryStore and a b :: "64 word"
  assume span: "0 < span" and bound: "unat (st_gatewaySeq s) + unat span < 2 ^ 64"
    and r: "memReserve span s = (Some (a, b), s2)"
  have eq: "a = st_gatewaySeq s + 1" "b = st_gatewaySeq s + span" "st_gatewaySeq s2 = st_gatewaySeq s + span"
    using r span by (auto simp: memReserve_def ReserveGatewayIDRange_def Let_def)
  have "0 < unat span"
    using span by (simp add: word_less_nat_alt)
  then have "unat (st_gatewaySeq s) + 1 < 2 ^ 64"
    using bound by linarith
  then have "unat (st_gatewaySeq s + 1) = unat (st_gatewaySeq s) + 1"
    by (simp add: unat_add_lem [THEN iffD1])
  moreover have "unat (st_gatewaySeq s + span) = unat (st_gatewaySeq s) + unat span"
    using bound by (simp add: unat_add_lem [THEN iffD1])
  ultimately show "unat a = unat (st_gatewaySeq s) + 1 \<and> unat b = unat (st_gatewaySeq s) + unat span \<and>
      unat (st_gatewaySeq s2) = unat (st_gatewaySeq s) + unat span"
    using eq by simp
qed (auto simp: memReserve_def ReserveGatewayIDRange_def Let_def)

subsection \<open>Gateway ids are unique\<close>

lemma parse_formatGatewayID: "formatGatewayID n = Some g \<Longrightarrow> parseGatewaySeq g = Some (unat n) \<and> length g = 8"
proof -
  assume a: "formatGatewayID n = Some g"
  then have g: "g = CHR ''m'' # padLeft CHR ''0'' 7 (FormatUint (unat n) 36)" and len: "length (FormatUint (unat n) 36) \<le> 7"
    by (auto simp: formatGatewayID_def Let_def split: if_splits)
  have "ParseUint (padLeft CHR ''0'' 7 (FormatUint (unat n) 36)) 36 = Inr (unat n)"
    using unsigned_less [of n] by (intro ParseUint_padLeft) simp_all
  then show ?thesis
    using g len by (simp add: parseGatewaySeq_def padLeft_def)
qed

lemma formatGatewayID_inj: "formatGatewayID n = Some g \<Longrightarrow> formatGatewayID m = Some g \<Longrightarrow> n = m"
proof -
  assume a: "formatGatewayID n = Some g" "formatGatewayID m = Some g"
  have "parseGatewaySeq g = Some (unat n)" "parseGatewaySeq g = Some (unat m)"
    using a parse_formatGatewayID by blast+
  then show ?thesis
    by (simp add: word_unat_eq_iff)
qed

lemma runGatewayIDs_map: "runGatewayIDs reserve is A s = map (\<lambda>n. Option.bind n formatGatewayID) (runNext reserve is A s)"
  by (induction "is" arbitrary: A s) (auto simp: newGatewayID_def split: prod.splits option.splits)

lemma issued_bind: "issued (map (\<lambda>n. Option.bind n f) ns) = issued (map f (issued ns))"
proof (induction ns)
  case (Cons n ns)
  then show ?case
    by (cases n; cases "f (the n)") (simp_all add: issued_def)
qed simp

lemma distinct_issued_map:
  assumes "distinct ns" "\<And>x y z. f x = Some z \<Longrightarrow> f y = Some z \<Longrightarrow> x = y"
  shows "distinct (issued (map f ns))"
  using assms(1)
proof (induction ns)
  case (Cons n ns)
  show ?case
  proof (cases "f n")
    case (Some z)
    have "Some z \<noteq> f x" if "x \<in> set ns" for x
      using that Cons.prems assms(2) [OF Some] by auto
    then show ?thesis
      using Cons Some by (auto simp: issued_mem)
  qed (use Cons in simp)
qed simp

text \<open>
  C21: Gateway ids are unique: whatever dispatchers on one store ask for ids, in whatever order, and
  whatever the store's sequence was, no id is handed out twice, each has 8 characters and is
  read back as its number; as long as the 64-bit sequence does not run out.
\<close>

theorem gateway_ids_unique:
  assumes "unat (st_gatewaySeq s) + length is * 1000 < 2 ^ 64"
  shows "distinct (issued (runGatewayIDs memReserve is (\<lambda>_. newIDAllocator 1000) s)) \<and>
    (\<forall>g \<in> set (issued (runGatewayIDs memReserve is (\<lambda>_. newIDAllocator 1000) s)).
       length g = 8 \<and> (\<exists>n. 0 < n \<and> parseGatewaySeq g = Some n))"
proof -
  let ?ns = "runNext memReserve is (\<lambda>_. newIDAllocator 1000) s"
  have run: "distinct (map unat (issued ?ns)) \<and> (\<forall>x. Some x \<in> set ?ns \<longrightarrow> 0 < unat x \<and> unat x \<notin> {})"
    using assms by (intro mem_ids.run_distinct [OF mem_ids.fresh_inv]) simp_all
  then have "distinct (issued ?ns)"
    by (simp add: distinct_map)
  then have "distinct (issued (map formatGatewayID (issued ?ns)))"
    using formatGatewayID_inj by (rule distinct_issued_map)
  moreover have "length g = 8 \<and> (\<exists>n. 0 < n \<and> parseGatewaySeq g = Some n)"
    if g: "g \<in> set (issued (map formatGatewayID (issued ?ns)))" for g
  proof -
    obtain n where n: "Some n \<in> set ?ns" "formatGatewayID n = Some g"
      using g by (auto simp: issued_mem)
    then show ?thesis
      using parse_formatGatewayID [OF n(2)] run by blast
  qed
  ultimately show ?thesis
    unfolding runGatewayIDs_map issued_bind by blast
qed

theorem gateway_ids_unique_witness:
  "distinct (issued (runGatewayIDs memReserve [0, 1, 0] (\<lambda>_. newIDAllocator 1000) NewMemory))"
  using gateway_ids_unique [of NewMemory "[0, 1, 0]"] by (simp add: NewMemory_def)

end
