(* ===== verification/Content_Filter.thy ===== *)
theory Content_Filter
  imports Gw_Config "HOL-Library.Product_Lexorder"
begin

text \<open>
  The content filter (\<open>filter/normalize.go\<close>, \<open>filter/ahocorasick.go\<close>, \<open>filter/engine.go\<close>): the
  normalisation of a text with the positions it came from, the search for keywords with a
  trie and failure links, and the decision on a text.

  Regular expressions, the lower-case table of Unicode, the order in which a map is visited and
  the order \<open>sort.Slice\<close> gives to intervals with the same start are parameters.
\<close>

type_synonym Regexp = "string \<Rightarrow> (nat \<times> nat) list"

subsection \<open>Normalisation\<close>

definition isZeroWidth :: "rune \<Rightarrow> bool" where
  "isZeroWidth r \<longleftrightarrow> r \<in> {0x200b, 0x200c, 0x200d, 0xfeff}"

definition fullToHalf :: "rune \<Rightarrow> rune" where
  "fullToHalf r = (if r = 0x3000 then 0x20 else if 0xff01 \<le> r \<and> r \<le> 0xff5e then r - 0xfee0 else r)"

definition normRune :: "(rune \<Rightarrow> rune) \<Rightarrow> NormalizeConfig \<Rightarrow> rune \<Rightarrow> rune" where
  "normRune lower cfg r =
     (let r2 = (if Nz_FullToHalf cfg then fullToHalf r else r) in if Nz_Lowercase cfg then lower r2 else r2)"

fun normLoop :: "(rune \<Rightarrow> rune) \<Rightarrow> NormalizeConfig \<Rightarrow> nat \<Rightarrow> (rune \<times> string) list \<Rightarrow> string \<times> nat list" where
  "normLoop lower cfg origStart [] = ([], [])"
| "normLoop lower cfg origStart ((r, bs) # cs) =
     (let origEnd = origStart + length (string_of_rune r);
          rest = normLoop lower cfg (origStart + length bs) cs
      in if Nz_StripZeroWidth cfg \<and> isZeroWidth r then rest
         else let w = string_of_rune (normRune lower cfg r)
              in (w @ fst rest, replicate (length w - 1) origStart @ [origEnd] @ snd rest))"

definition normalizeTextWithMap :: "(rune \<Rightarrow> rune) \<Rightarrow> NormalizeConfig \<Rightarrow> string \<Rightarrow> string \<times> nat list" where
  "normalizeTextWithMap lower cfg t =
     (let r = normLoop lower cfg 0 (utf8_chunks t) in (fst r, 0 # snd r))"

definition normalizeText :: "(rune \<Rightarrow> rune) \<Rightarrow> NormalizeConfig \<Rightarrow> string \<Rightarrow> string" where
  "normalizeText lower cfg t = fst (normalizeTextWithMap lower cfg t)"

subsection \<open>The trie\<close>

record pattern =
  Pt_text :: string
  Pt_rule :: nat

record acNode =
  An_next :: "(rune, nat) gomap"
  An_fail :: nat
  An_out :: "pattern list"

type_synonym acMatcher = "acNode list"

record acMatch =
  Am_Rule :: nat
  Am_Start :: nat
  Am_End :: nat
  Am_Text :: string

definition emptyNode :: acNode where
  "emptyNode = \<lparr>An_next = [], An_fail = 0, An_out = []\<rparr>"

definition nextOf :: "acMatcher \<Rightarrow> nat \<Rightarrow> rune \<Rightarrow> nat option" where
  "nextOf m node r = map_of (An_next (m ! node)) r"

fun acWalk :: "rune list \<Rightarrow> nat \<Rightarrow> acMatcher \<Rightarrow> nat \<times> acMatcher" where
  "acWalk [] node m = (node, m)"
| "acWalk (r # rs) node m =
     (case nextOf m node r of
        Some nxt \<Rightarrow> acWalk rs nxt m
      | None \<Rightarrow>
          (let nxt = length m;
               m2 = (m @ [emptyNode])[node := (m ! node)\<lparr>An_next := AList.update r nxt (An_next (m ! node))\<rparr>]
           in acWalk rs nxt m2))"

definition acInsert :: "acMatcher \<Rightarrow> pattern \<Rightarrow> acMatcher" where
  "acInsert m p =
     (if Pt_text p = [] then m
      else case acWalk (runes (Pt_text p)) 0 m of
             (node, m2) \<Rightarrow> m2[node := (m2 ! node)\<lparr>An_out := An_out (m2 ! node) @ [p]\<rparr>])"

definition acTrie :: "pattern list \<Rightarrow> acMatcher" where
  "acTrie ps = foldl acInsert [emptyNode] ps"

subsection \<open>Failure links\<close>

text \<open>
  The loop that follows failure links. A chain of more steps than there are nodes visits a node
  twice and never ends; this is the value \<open>None\<close>.
\<close>

fun failSearch :: "nat \<Rightarrow> acMatcher \<Rightarrow> rune \<Rightarrow> nat \<Rightarrow> nat option" where
  "failSearch 0 m r f = None"
| "failSearch (Suc fuel) m r f =
     (if f = 0 then Some 0
      else case nextOf m f r of
             Some nxt \<Rightarrow> Some nxt
           | None \<Rightarrow> failSearch fuel m r (An_fail (m ! f)))"

definition linkChild :: "nat \<Rightarrow> acMatcher \<Rightarrow> rune \<times> nat \<Rightarrow> acMatcher option" where
  "linkChild v m ru =
     (case ru of (r, u) \<Rightarrow>
        (case failSearch (length m + 1) m r (An_fail (m ! v)) of
           None \<Rightarrow> None
         | Some f \<Rightarrow>
             (let m2 = (case nextOf m f r of
                          Some nxt \<Rightarrow> if nxt \<noteq> u then m[u := (m ! u)\<lparr>An_fail := nxt\<rparr>] else m
                        | None \<Rightarrow> m)
              in Some (m2[u := (m2 ! u)\<lparr>An_out := An_out (m2 ! u) @ An_out (m2 ! (An_fail (m2 ! u)))\<rparr>]))))"

fun linkChildren :: "nat \<Rightarrow> (rune \<times> nat) list \<Rightarrow> acMatcher \<Rightarrow> acMatcher option" where
  "linkChildren v [] m = Some m"
| "linkChildren v (ru # rus) m =
     (case linkChild v m ru of None \<Rightarrow> None | Some m2 \<Rightarrow> linkChildren v rus m2)"

text \<open>The queue holds every node but the root once, so as many rounds as there are nodes are enough.\<close>

fun acQueue ::
  "((rune \<times> nat) list \<Rightarrow> (rune \<times> nat) list) \<Rightarrow> nat \<Rightarrow> nat list \<Rightarrow> acMatcher \<Rightarrow> acMatcher option" where
  "acQueue it fuel [] m = Some m"
| "acQueue it 0 (v # q) m = None"
| "acQueue it (Suc fuel) (v # q) m =
     (let kids = it (An_next (m ! v)) in
      case linkChildren v kids m of
        None \<Rightarrow> None
      | Some m2 \<Rightarrow> acQueue it fuel (q @ map snd kids) m2)"

definition buildAC :: "((rune \<times> nat) list \<Rightarrow> (rune \<times> nat) list) \<Rightarrow> pattern list \<Rightarrow> acMatcher option" where
  "buildAC it ps =
     (let m = acTrie ps in acQueue it (length m) (map snd (it (An_next (m ! 0)))) m)"

subsection \<open>The search\<close>

fun acStep :: "nat \<Rightarrow> acMatcher \<Rightarrow> rune \<Rightarrow> nat \<Rightarrow> nat option" where
  "acStep 0 m r node = None"
| "acStep (Suc fuel) m r node =
     (case nextOf m node r of
        Some nxt \<Rightarrow> Some nxt
      | None \<Rightarrow> if node = 0 then Some 0 else acStep fuel m r (An_fail (m ! node)))"

definition runeLen :: "string \<Rightarrow> nat" where
  "runeLen t = length (runes t)"

text \<open>The byte at which each rune of the text starts, and the end of the text.\<close>

fun runeStarts :: "nat \<Rightarrow> (rune \<times> string) list \<Rightarrow> nat list" where
  "runeStarts i [] = [i]"
| "runeStarts i ((r, bs) # cs) = i # runeStarts (i + length bs) cs"

definition outMatches :: "nat list \<Rightarrow> nat \<Rightarrow> pattern list \<Rightarrow> acMatch list" where
  "outMatches byteEnds runeIndex ps =
     map (\<lambda>p. \<lparr>Am_Rule = Pt_rule p, Am_Start = byteEnds ! (runeIndex + 1 - runeLen (Pt_text p)),
            Am_End = byteEnds ! (runeIndex + 1), Am_Text = Pt_text p\<rparr>)
       (filter (\<lambda>p. runeLen (Pt_text p) \<le> runeIndex + 1) ps)"

fun findLoop :: "acMatcher \<Rightarrow> nat list \<Rightarrow> nat \<Rightarrow> nat \<Rightarrow> rune list \<Rightarrow> acMatch list option" where
  "findLoop m byteEnds runeIndex node [] = Some []"
| "findLoop m byteEnds runeIndex node (r # rs) =
     (case acStep (length m + 1) m r node of
        None \<Rightarrow> None
      | Some node2 \<Rightarrow>
          (case findLoop m byteEnds (runeIndex + 1) node2 rs of
             None \<Rightarrow> None
           | Some later \<Rightarrow> Some (outMatches byteEnds runeIndex (An_out (m ! node2)) @ later)))"

definition acFind :: "acMatcher \<Rightarrow> string \<Rightarrow> acMatch list option" where
  "acFind m t = (if m = [] then Some [] else findLoop m (runeStarts 0 (utf8_chunks t)) 0 0 (runes t))"

subsection \<open>The engine\<close>

datatype FilterAction = ActionPass | ActionBlock | ActionMask

record Decision =
  De_Action :: FilterAction
  De_Reason :: string
  De_NewText :: string
  De_Tags :: "string list"

record compiledRule =
  Cr_name :: string
  Cr_action :: string
  Cr_tag :: string
  Cr_maskWith :: string
  Cr_priority :: int

record Engine =
  En_normalize :: NormalizeConfig
  En_rules :: "compiledRule list"
  En_ac :: acMatcher
  En_regexps :: "(nat \<times> Regexp) list"

record ruleHit =
  Rh_rule :: nat
  Rh_start :: nat
  Rh_end :: nat
  Rh_text :: string

record maskInterval =
  Mv_start :: nat
  Mv_end :: nat
  Mv_with :: string

record FilterEnv =
  Fe_lower :: "rune \<Rightarrow> rune"
  Fe_compile :: "string \<Rightarrow> Regexp option"
  Fe_range :: "(rune \<times> nat) list \<Rightarrow> (rune \<times> nat) list"
  Fe_sort :: "maskInterval list \<Rightarrow> maskInterval list"

definition compileRule :: "FilterRule \<Rightarrow> compiledRule" where
  "compileRule rule =
     (let action = ToLower (TrimSpace (Fr_Action rule)) in
      \<lparr>Cr_name = Fr_Name rule, Cr_action = (if action = [] then ''pass'' else action), Cr_tag = Fr_Tag rule,
       Cr_maskWith = (if Fr_MaskWith rule = [] then ''*'' else Fr_MaskWith rule), Cr_priority = Fr_Priority rule\<rparr>)"

definition rulePatterns :: "FilterEnv \<Rightarrow> NormalizeConfig \<Rightarrow> nat \<Rightarrow> string list \<Rightarrow> pattern list" where
  "rulePatterns env cfg idx kws =
     map (\<lambda>kw. \<lparr>Pt_text = kw, Pt_rule = idx\<rparr>) (filter (\<lambda>kw. kw \<noteq> []) (map (normalizeText (Fe_lower env) cfg) kws))"

text \<open>Compiling stops at the first expression that does not compile.\<close>

fun compileLoop ::
  "FilterEnv \<Rightarrow> NormalizeConfig \<Rightarrow> FilterRule list \<Rightarrow> compiledRule list \<times> pattern list \<times> (nat \<times> Regexp) list
     \<Rightarrow> (compiledRule list \<times> pattern list \<times> (nat \<times> Regexp) list) option" where
  "compileLoop env cfg [] acc = Some acc"
| "compileLoop env cfg (rule # rs) (rules, patterns, regexps) =
     (if Fr_Enabled rule = Some False then compileLoop env cfg rs (rules, patterns, regexps)
      else let idx = length rules;
               rules2 = rules @ [compileRule rule];
               patterns2 = patterns @ rulePatterns env cfg idx (Fr_Keywords rule)
           in if Fr_Regex rule = [] then compileLoop env cfg rs (rules2, patterns2, regexps)
              else (case Fe_compile env (Fr_Regex rule) of
                      None \<Rightarrow> None
                    | Some re \<Rightarrow> compileLoop env cfg rs (rules2, patterns2, regexps @ [(idx, re)])))"

text \<open>The outer option is an error (or a search that never ends), the inner one a disabled filter.\<close>

definition CompileFilter :: "FilterEnv \<Rightarrow> FilterConfig \<Rightarrow> Engine option option" where
  "CompileFilter env c =
     (if \<not> Fc_Enabled c then Some None
      else case compileLoop env (Fc_Normalize c) (Fc_Rules c) ([], [], []) of
             None \<Rightarrow> None
           | Some (rules, patterns, regexps) \<Rightarrow>
               (case buildAC (Fe_range env) patterns of
                  None \<Rightarrow> None
                | Some m \<Rightarrow> Some (Some \<lparr>En_normalize = Fc_Normalize c, En_rules = rules, En_ac = m, En_regexps = regexps\<rparr>)))"

definition actionRank :: "string \<Rightarrow> int" where
  "actionRank action =
     (if action = ''block'' then 4 else if action = ''mask'' then 3 else if action = ''tag'' then 2 else 1)"

definition collectMaskHits :: "Engine \<Rightarrow> ruleHit list \<Rightarrow> string \<Rightarrow> nat list \<Rightarrow> maskInterval list" where
  "collectMaskHits e hits ruleName normToOrig =
     map (\<lambda>hit.
        if Rh_start hit < length normToOrig \<and> Rh_end hit < length normToOrig
        then \<lparr>Mv_start = normToOrig ! Rh_start hit, Mv_end = normToOrig ! Rh_end hit,
              Mv_with = Cr_maskWith (En_rules e ! Rh_rule hit)\<rparr>
        else \<lparr>Mv_start = Rh_start hit, Mv_end = Rh_end hit, Mv_with = Cr_maskWith (En_rules e ! Rh_rule hit)\<rparr>)
       (filter (\<lambda>hit. Cr_action (En_rules e ! Rh_rule hit) = ''mask'' \<and> Cr_name (En_rules e ! Rh_rule hit) = ruleName \<and>
                   Rh_start hit \<le> Rh_end hit) hits)"

fun maskLoop :: "string \<Rightarrow> nat \<Rightarrow> maskInterval list \<Rightarrow> string" where
  "maskLoop t pos [] = drop pos t"
| "maskLoop t pos (iv # ivs) =
     (if Mv_start iv < pos then maskLoop t pos ivs
      else if length t < Mv_start iv \<or> length t < Mv_end iv then maskLoop t pos ivs
      else take (Mv_start iv - pos) (drop pos t) @ Mv_with iv @ maskLoop t (Mv_end iv) ivs)"

definition maskText :: "FilterEnv \<Rightarrow> string \<Rightarrow> maskInterval list \<Rightarrow> string" where
  "maskText env t ivs = (if ivs = [] then t else maskLoop t 0 (Fe_sort env ivs))"

definition allHits :: "Engine \<Rightarrow> acMatch list \<Rightarrow> string \<Rightarrow> ruleHit list" where
  "allHits e ms normalized =
     map (\<lambda>m. \<lparr>Rh_rule = Am_Rule m, Rh_start = Am_Start m, Rh_end = Am_End m, Rh_text = Am_Text m\<rparr>) ms @
     concat (map (\<lambda>(rule, re). map (\<lambda>(a, b). \<lparr>Rh_rule = rule, Rh_start = a, Rh_end = b, Rh_text = []\<rparr>) (re normalized)) (En_regexps e))"

text \<open>\<open>sort.SliceStable\<close>: descending rank of the action, then descending priority.\<close>

definition sortHits :: "Engine \<Rightarrow> ruleHit list \<Rightarrow> ruleHit list" where
  "sortHits e hits =
     sort_key (\<lambda>h. let rule = En_rules e ! Rh_rule h in (- actionRank (Cr_action rule), - Cr_priority rule)) hits"

definition hitTags :: "Engine \<Rightarrow> ruleHit list \<Rightarrow> string list" where
  "hitTags e hits =
     foldl (\<lambda>tags h. let rule = En_rules e ! Rh_rule h in
              if Cr_action rule = ''tag'' \<and> Cr_tag rule \<noteq> [] then List.insert (Cr_tag rule) tags else tags) [] hits"

fun decide :: "FilterEnv \<Rightarrow> Engine \<Rightarrow> string \<Rightarrow> nat list \<Rightarrow> ruleHit list \<Rightarrow> Decision \<Rightarrow> ruleHit list \<Rightarrow> Decision" where
  "decide env e t normToOrig hits decision [] = decision"
| "decide env e t normToOrig hits decision (h # hs) =
     (let rule = En_rules e ! Rh_rule h in
      if Cr_action rule = ''block'' then decision\<lparr>De_Action := ActionBlock, De_Reason := Cr_name rule\<rparr>
      else if Cr_action rule = ''mask'' then
        decision\<lparr>De_Action := ActionMask, De_Reason := Cr_name rule,
          De_NewText := maskText env t (collectMaskHits e hits (Cr_name rule) normToOrig)\<rparr>
      else decide env e t normToOrig hits decision hs)"

definition passDecision :: "string \<Rightarrow> Decision" where
  "passDecision t = \<lparr>De_Action = ActionPass, De_Reason = [], De_NewText = t, De_Tags = []\<rparr>"

definition Evaluate :: "FilterEnv \<Rightarrow> Engine option \<Rightarrow> string \<Rightarrow> Decision option" where
  "Evaluate env eng t =
     (case eng of
        None \<Rightarrow> Some (passDecision t)
      | Some e \<Rightarrow>
          (case normalizeTextWithMap (Fe_lower env) (En_normalize e) t of (normalized, normToOrig) \<Rightarrow>
             (case acFind (En_ac e) normalized of
                None \<Rightarrow> None
              | Some ms \<Rightarrow>
                  (let hits = sortHits e (allHits e ms normalized) in
                   if hits = [] then Some (passDecision t)
                   else Some (decide env e t normToOrig hits ((passDecision t)\<lparr>De_Tags := hitTags e hits\<rparr>) hits)))))"

subsection \<open>The decision\<close>

abbreviation (input) hitRule :: "Engine \<Rightarrow> ruleHit \<Rightarrow> compiledRule" where
  "hitRule e h \<equiv> En_rules e ! Rh_rule h"

definition hitsOf :: "Engine \<Rightarrow> string \<Rightarrow> ruleHit list \<Rightarrow> ruleHit set" where
  "hitsOf e action hits = {h \<in> set hits. Cr_action (hitRule e h) = action}"

definition foremost :: "Engine \<Rightarrow> ruleHit set \<Rightarrow> string \<Rightarrow> bool" where
  "foremost e H name \<longleftrightarrow>
     (\<exists>h \<in> H. Cr_name (hitRule e h) = name \<and> (\<forall>g \<in> H. Cr_priority (hitRule e g) \<le> Cr_priority (hitRule e h)))"

lemma find_sorted:
  assumes "sorted (map k hs)" "find P hs = Some h" "g \<in> set hs" "P g"
  shows "k h \<le> k g"
  using assms by (induction hs) (auto split: if_splits)

lemma decide_find:
  "decide env e t nm hits d hs =
     (case find (\<lambda>h. Cr_action (hitRule e h) \<in> {''block'', ''mask''}) hs of
        None \<Rightarrow> d
      | Some h \<Rightarrow>
          if Cr_action (hitRule e h) = ''block'' then d\<lparr>De_Action := ActionBlock, De_Reason := Cr_name (hitRule e h)\<rparr>
          else d\<lparr>De_Action := ActionMask, De_Reason := Cr_name (hitRule e h),
                 De_NewText := maskText env t (collectMaskHits e hits (Cr_name (hitRule e h)) nm)\<rparr>)"
  by (induction hs) (auto simp: Let_def)

lemma sortHits_set [simp]: "set (sortHits e hits) = set hits"
  by (simp add: sortHits_def)

lemma sortHits_sorted:
  "sorted (map (\<lambda>h. (- actionRank (Cr_action (hitRule e h)), - Cr_priority (hitRule e h))) (sortHits e hits))"
  by (simp add: sortHits_def Let_def)

lemma hitTags_set:
  "set (hitTags e hits) = {Cr_tag (hitRule e h) | h. h \<in> set hits \<and> Cr_action (hitRule e h) = ''tag'' \<and> Cr_tag (hitRule e h) \<noteq> []}"
proof -
  have "set (foldl (\<lambda>tags h. let rule = hitRule e h in
              if Cr_action rule = ''tag'' \<and> Cr_tag rule \<noteq> [] then List.insert (Cr_tag rule) tags else tags) acc hits) =
      set acc \<union> {Cr_tag (hitRule e h) | h. h \<in> set hits \<and> Cr_action (hitRule e h) = ''tag'' \<and> Cr_tag (hitRule e h) \<noteq> []}" for acc
  proof (induction hits arbitrary: acc)
    case (Cons h hits)
    show ?case
      unfolding foldl_Cons Cons.IH by (auto simp: Let_def)
  qed simp
  from this [of "[]"] show ?thesis
    by (simp add: hitTags_def)
qed

lemma foremost_sorted:
  assumes f: "find (\<lambda>h. Cr_action (hitRule e h) \<in> {''block'', ''mask''}) (sortHits e hits) = Some h"
  shows "(hitsOf e ''block'' hits \<noteq> {} \<longrightarrow> Cr_action (hitRule e h) = ''block'') \<and>
    foremost e (hitsOf e (Cr_action (hitRule e h)) hits) (Cr_name (hitRule e h))"
proof -
  let ?k = "\<lambda>h. (- actionRank (Cr_action (hitRule e h)), - Cr_priority (hitRule e h))"
  have h: "h \<in> set hits" "Cr_action (hitRule e h) \<in> {''block'', ''mask''}"
    using f by (auto simp: find_Some_iff) (metis nth_mem sortHits_set)+
  have best: "?k h \<le> ?k g" if "g \<in> set hits" "Cr_action (hitRule e g) \<in> {''block'', ''mask''}" for g
    using find_sorted [OF sortHits_sorted f] that by simp
  have "Cr_action (hitRule e h) = ''block''" if "g \<in> hitsOf e ''block'' hits" for g
    using best [of g] that h(2) by (auto simp: hitsOf_def actionRank_def)
  moreover have "Cr_priority (hitRule e g) \<le> Cr_priority (hitRule e h)" if "g \<in> hitsOf e (Cr_action (hitRule e h)) hits" for g
    using best [of g] that h(2) by (auto simp: hitsOf_def)
  ultimately show ?thesis
    unfolding foremost_def using h(1) by (auto simp: hitsOf_def)
qed


definition exampleEngine :: Engine where
  "exampleEngine = \<lparr>En_normalize = \<lparr>Nz_Lowercase = False, Nz_FullToHalf = False, Nz_StripZeroWidth = False\<rparr>,
     En_rules = [\<lparr>Cr_name = ''soft'', Cr_action = ''mask'', Cr_tag = [], Cr_maskWith = ''*'', Cr_priority = 9\<rparr>,
                 \<lparr>Cr_name = ''hard'', Cr_action = ''block'', Cr_tag = [], Cr_maskWith = ''*'', Cr_priority = 1\<rparr>],
     En_ac = [], En_regexps = [(0, \<lambda>s. [(0, 1)]), (1, \<lambda>s. [(1, 2)])]\<rparr>"


text \<open>
  Where hits of one rule overlap only the one that starts first is replaced, and the rest of the other
  stays readable.
\<close>

lemma mask_overlap_leaks:
  "maskText \<lparr>Fe_lower = id, Fe_compile = (\<lambda>_. None), Fe_range = id, Fe_sort = sort_key Mv_start\<rparr> ''abcd''
     [\<lparr>Mv_start = 0, Mv_end = 2, Mv_with = ''*''\<rparr>, \<lparr>Mv_start = 1, Mv_end = 4, Mv_with = ''*''\<rparr>] = ''*cd''"
  by (simp add: maskText_def)

end
