(* ===== verification/Keyword_Search.thy ===== *)
theory Keyword_Search
  imports Content_Filter "HOL-Library.Sublist"
begin

text \<open>
  Correctness of the keyword automaton of \<open>filter/ahocorasick.go\<close>: the nodes of the trie stand for
  the initial parts of the keywords, the queue visits every node once, and for keywords that do not
  overlap the search follows the longest suffix of the text read that is an initial part of a
  keyword. A counterexample shows that the condition is needed.
\<close>

subsection \<open>Words of the trie\<close>

text \<open>Node number v stands for the word \<open>ws ! v\<close>; the words are closed under prefixes.\<close>

definition trie :: "acMatcher \<Rightarrow> rune list list \<Rightarrow> bool" where
  "trie m ws \<longleftrightarrow> length ws = length m \<and> m \<noteq> [] \<and> ws ! 0 = [] \<and> distinct ws \<and>
     (\<forall>v < length m. distinct (map fst (An_next (m ! v)))) \<and>
     (\<forall>v < length m. \<forall>r u. nextOf m v r = Some u \<longleftrightarrow> u < length m \<and> ws ! u = ws ! v @ [r]) \<and>
     (\<forall>w \<in> set ws. w \<noteq> [] \<longrightarrow> butlast w \<in> set ws)"

lemma trie_emptyNode: "trie [emptyNode] [[]]"
  by (auto simp: trie_def emptyNode_def nextOf_def)

lemma trie_next: "trie m ws \<Longrightarrow> v < length m \<Longrightarrow> nextOf m v r = Some u \<longleftrightarrow> u < length m \<and> ws ! u = ws ! v @ [r]"
  by (simp add: trie_def)

lemma trie_word: "trie m ws \<Longrightarrow> w \<in> set ws \<longleftrightarrow> (\<exists>u < length m. ws ! u = w)"
  by (auto simp: trie_def in_set_conv_nth)

lemma trie_next_None:
  assumes "trie m ws" "v < length m"
  shows "nextOf m v r = None \<longleftrightarrow> ws ! v @ [r] \<notin> set ws"
proof -
  have "(\<exists>u. nextOf m v r = Some u) \<longleftrightarrow> ws ! v @ [r] \<in> set ws"
    using trie_next [OF assms] trie_word [OF assms(1)] by simp
  then show ?thesis
    by auto
qed

lemma next_update: "An_next x = An_next (m ! n) \<Longrightarrow> An_next (m[n := x] ! v) = An_next (m ! v)"
  by (cases "n < length m") (simp_all add: nth_list_update list_update_beyond)

lemma trie_update: "trie m ws \<Longrightarrow> An_next x = An_next (m ! n) \<Longrightarrow> trie (m[n := x]) ws"
  unfolding trie_def nextOf_def by (simp add: next_update del: map_of_eq_Some_iff)

definition extended :: "acMatcher \<Rightarrow> nat \<Rightarrow> rune \<Rightarrow> acMatcher" where
  "extended m v r = (m @ [emptyNode])[v := (m ! v)\<lparr>An_next := AList.update r (length m) (An_next (m ! v))\<rparr>]"

lemma extended_nth:
  assumes "v < length m"
  shows "length (extended m v r) = Suc (length m)"
    "x < length m \<Longrightarrow> extended m v r ! x =
       (if x = v then (m ! v)\<lparr>An_next := AList.update r (length m) (An_next (m ! v))\<rparr> else m ! x)"
    "extended m v r ! length m = emptyNode"
  using assms by (auto simp: extended_def nth_list_update nth_append)

lemma trie_extended:
  assumes t: "trie m ws" and v: "v < length m" and new: "nextOf m v r = None"
  shows "trie (extended m v r) (ws @ [ws ! v @ [r]])"
proof -
  let ?m = "extended m v r" and ?w = "ws ! v @ [r]"
  let ?ws = "ws @ [?w]"
  have len: "length ws = length m"
    using t by (simp add: trie_def)
  have notin: "?w \<notin> set ws"
    using trie_next_None [OF t v] new by simp
  have nth: "?ws ! x = (if x < length m then ws ! x else ?w)" if "x < Suc (length m)" for x
    using that len by (auto simp: nth_append)
  have vw: "ws ! v \<in> set ws"
    using v len by simp
  have nxt: "nextOf ?m x c = Some u \<longleftrightarrow> u < Suc (length m) \<and> ?ws ! u = ?ws ! x @ [c]" if x: "x < Suc (length m)" for x c u
  proof (cases "x < length m")
    case True
    have old: "nextOf m x c = Some u \<longleftrightarrow> u < length m \<and> ws ! u = ws ! x @ [c]"
      using trie_next [OF t True] .
    have "nextOf ?m x c = (if x = v \<and> c = r then Some (length m) else nextOf m x c)"
      using True v by (auto simp: nextOf_def extended_nth)
    moreover have "ws ! x @ [c] = ?w \<longleftrightarrow> x = v \<and> c = r"
      using t True v by (auto simp: trie_def nth_eq_iff_index_eq)
    moreover have "ws ! u \<noteq> ?w" if "u < length m" for u
      using that notin len by (metis nth_mem)
    ultimately show ?thesis
      using old nth True x by (auto simp: nth_append len less_Suc_eq)
  next
    case False
    then have x: "x = length m"
      using that by simp
    have "?w @ [c] \<notin> set ws"
    proof
      assume "?w @ [c] \<in> set ws"
      then have "?w \<in> set ws"
        using t by (auto simp: trie_def butlast_append dest!: bspec)
      then show False
        using notin by blast
    qed
    then have "?ws ! u \<noteq> ?w @ [c]" if "u < Suc (length m)" for u
      using nth [OF that] len by (auto split: if_splits) (metis nth_mem)
    then show ?thesis
      using x v nth by (auto simp: nextOf_def extended_nth emptyNode_def)
  qed
  have d: "\<forall>x < length ?m. distinct (map fst (An_next (?m ! x)))"
    using t v by (auto simp: trie_def extended_nth less_Suc_eq emptyNode_def)
  have "?m \<noteq> []"
    using extended_nth(1) [OF v, of r] by auto
  then show ?thesis
    unfolding trie_def
    using t v len notin vw nxt d by (auto simp: extended_nth trie_def nth_append)
qed

lemma acWalk_trie:
  assumes "trie m ws" "v < length m" "acWalk rs v m = (n, m2)"
  shows "\<exists>new. trie m2 (ws @ new) \<and> n < length m2 \<and> (ws @ new) ! n = ws ! v @ rs \<and>
    set (ws @ new) = set ws \<union> {ws ! v @ take k rs | k. k \<le> length rs} \<and>
    (\<forall>x < length m2. An_out (m2 ! x) = (if x < length m then An_out (m ! x) else [])) \<and>
    (\<forall>x < length m2. An_fail (m2 ! x) = (if x < length m then An_fail (m ! x) else 0))"
  using assms
proof (induction rs v m arbitrary: ws rule: acWalk.induct)
  case (1 v m)
  then show ?case
    by (intro exI [of _ "[]"]) (auto simp: trie_def)
next
  case (2 r rs v m)
  have len: "length ws = length m"
    using "2.prems"(1) by (simp add: trie_def)
  have pre: "{ws ! v @ take k (r # rs) | k. k \<le> length (r # rs)} =
      insert (ws ! v) {(ws ! v @ [r]) @ take k rs | k. k \<le> length rs}"
  proof (intro set_eqI iffI)
    fix w
    assume "w \<in> {ws ! v @ take k (r # rs) | k. k \<le> length (r # rs)}"
    then obtain k where k: "k \<le> length (r # rs)" "w = ws ! v @ take k (r # rs)"
      by blast
    show "w \<in> insert (ws ! v) {(ws ! v @ [r]) @ take k rs | k. k \<le> length rs}"
      using k by (cases k) auto
  next
    fix w
    assume "w \<in> insert (ws ! v) {(ws ! v @ [r]) @ take k rs | k. k \<le> length rs}"
    then consider "w = ws ! v @ take 0 (r # rs)" | k where "k \<le> length rs" "w = ws ! v @ take (Suc k) (r # rs)"
      by auto
    then show "w \<in> {ws ! v @ take k (r # rs) | k. k \<le> length (r # rs)}"
      by cases (fastforce, fastforce)
  qed
  have vin: "ws ! v \<in> set ws"
    using len "2.prems"(2) by simp
  show ?case
  proof (cases "nextOf m v r")
    case (Some u)
    then have u: "u < length m" "ws ! u = ws ! v @ [r]"
      using trie_next [OF "2.prems"(1,2)] by auto
    have "acWalk rs u m = (n, m2)"
      using "2.prems"(3) Some by simp
    from "2.IH"(2) [OF Some "2.prems"(1) u(1) this] show ?thesis
      unfolding u(2) pre using vin by (simp add: insert_absorb)
  next
    case None
    let ?m = "extended m v r" and ?ws = "ws @ [ws ! v @ [r]]"
    have t: "trie ?m ?ws"
      using trie_extended [OF "2.prems"(1,2) None] .
    have walk: "acWalk rs (length m) ?m = (n, m2)"
      using "2.prems"(3) None by (simp add: extended_def Let_def)
    have l: "length m < length ?m"
      using "2.prems"(2) by (simp add: extended_nth)
    have "?ws ! length m = ws ! v @ [r]"
      using len by (simp add: nth_append)
    moreover obtain new where new: "trie m2 (?ws @ new)" "n < length m2" "(?ws @ new) ! n = ?ws ! length m @ rs"
      "set (?ws @ new) = set ?ws \<union> {?ws ! length m @ take k rs | k. k \<le> length rs}"
      "\<forall>x < length m2. An_out (m2 ! x) = (if x < length ?m then An_out (?m ! x) else [])"
      "\<forall>x < length m2. An_fail (m2 ! x) = (if x < length ?m then An_fail (?m ! x) else 0)"
      using "2.IH"(1) [OF None refl refl, folded extended_def, OF t l walk] by blast
    ultimately have out: "(ws @ (ws ! v @ [r]) # new) ! n = ws ! v @ (r # rs)" "trie m2 (ws @ (ws ! v @ [r]) # new)"
      "set (ws @ (ws ! v @ [r]) # new) = set ws \<union> {ws ! v @ take k (r # rs) | k. k \<le> length (r # rs)}"
      unfolding pre using vin by auto
    have "An_out (?m ! x) = (if x < length m then An_out (m ! x) else [])"
      "An_fail (?m ! x) = (if x < length m then An_fail (m ! x) else 0)" if "x < length ?m" for x
      using that "2.prems"(2) by (auto simp: extended_nth less_Suc_eq emptyNode_def)
    then show ?thesis
      using out new(2,5,6) extended_nth(1) [OF "2.prems"(2), of r] by (intro exI [of _ "(ws ! v @ [r]) # new"]) auto
  qed
qed

text \<open>The patterns that end at a word, in the order of the rules.\<close>

definition ending :: "pattern list \<Rightarrow> rune list \<Rightarrow> pattern list" where
  "ending ps w = filter (\<lambda>p. Pt_text p \<noteq> [] \<and> runes (Pt_text p) = w) ps"

definition prefixWords :: "pattern list \<Rightarrow> rune list set" where
  "prefixWords ps = insert [] {take k (runes (Pt_text p)) | p k. p \<in> set ps \<and> Pt_text p \<noteq> []}"

definition plain :: "pattern list \<Rightarrow> acMatcher \<Rightarrow> rune list list \<Rightarrow> bool" where
  "plain ps m ws \<longleftrightarrow> trie m ws \<and> set ws = prefixWords ps \<and>
     (\<forall>v < length m. An_out (m ! v) = ending ps (ws ! v) \<and> An_fail (m ! v) = 0)"

lemma prefixWords_snoc:
  "prefixWords (ps @ [p]) =
     (if Pt_text p = [] then prefixWords ps
      else prefixWords ps \<union> {take k (runes (Pt_text p)) | k. k \<le> length (runes (Pt_text p))})"
proof -
  have "{take k xs | k. k \<le> length xs} = {take k xs | k. True}" for xs :: "rune list"
    by (auto, metis append_take_drop_id length_take min.cobounded1 take_all_iff take_take nle_le)
  then show ?thesis
    unfolding prefixWords_def by auto
qed

lemma acInsert_plain:
  assumes "plain ps m ws"
  shows "\<exists>ws2. plain (ps @ [p]) (acInsert m p) ws2"
proof (cases "Pt_text p = []")
  case True
  then show ?thesis
    using assms by (intro exI [of _ ws]) (simp add: acInsert_def plain_def prefixWords_snoc ending_def)
next
  case False
  let ?rs = "runes (Pt_text p)"
  obtain n m2 where w: "acWalk ?rs 0 m = (n, m2)"
    by (rule prod.exhaust)
  have t: "trie m ws"
    using assms by (simp add: plain_def)
  then have z: "0 < length m" "ws ! 0 = []"
    by (simp_all add: trie_def)
  from acWalk_trie [OF t z(1) w] z(2) obtain new where
    new: "trie m2 (ws @ new)" "n < length m2" "(ws @ new) ! n = ?rs"
      "set (ws @ new) = set ws \<union> {take k ?rs | k. k \<le> length ?rs}"
      "\<forall>x < length m2. An_out (m2 ! x) = (if x < length m then An_out (m ! x) else [])"
      "\<forall>x < length m2. An_fail (m2 ! x) = (if x < length m then An_fail (m ! x) else 0)"
    by auto
  let ?ws = "ws @ new"
  let ?m = "m2[n := (m2 ! n)\<lparr>An_out := An_out (m2 ! n) @ [p]\<rparr>]"
  have t2: "trie ?m ?ws"
    using new(1) by (rule trie_update) simp
  have len: "length ws = length m" "length ?ws = length m2"
    using t new(1) by (simp_all add: trie_def)
  have old: "An_out (m2 ! x) = ending ps (?ws ! x)" "An_fail (m2 ! x) = 0" if x: "x < length m2" for x
  proof -
    show "An_fail (m2 ! x) = 0"
      using new(6) x assms by (auto simp: plain_def)
    show "An_out (m2 ! x) = ending ps (?ws ! x)"
    proof (cases "x < length m")
      case True
      then show ?thesis
        using new(5) x assms len(1) by (simp add: plain_def nth_append)
    next
      case False
      then have "?ws ! x \<in> set new"
        using x len by (simp add: nth_append)
      then have "?ws ! x \<notin> prefixWords ps"
        using new(1) assms by (auto simp: trie_def plain_def)
      then have "ending ps (?ws ! x) = []"
        by (auto simp: ending_def prefixWords_def filter_empty_conv) (metis order_refl take_all)
      then show ?thesis
        using new(5) x False by simp
    qed
  qed
  have hit: "?ws ! x = ?rs \<longleftrightarrow> x = n" if "x < length m2" for x
    using that new(1-3) len(2) by (metis nth_eq_iff_index_eq trie_def)
  have "An_out (?m ! x) = ending (ps @ [p]) (?ws ! x) \<and> An_fail (?m ! x) = 0" if x: "x < length ?m" for x
  proof (cases "x = n")
    case True
    then show ?thesis
      using old [of n] new(2,3) False by (simp add: ending_def)
  next
    case neq: False
    then have "?ws ! x \<noteq> ?rs"
      using hit [of x] x by simp
    then have "ending (ps @ [p]) (?ws ! x) = ending ps (?ws ! x)"
      by (simp add: ending_def)
    then show ?thesis
      using old [of x] x neq by simp
  qed
  moreover have "set ?ws = prefixWords (ps @ [p])"
    using new(4) assms False by (simp add: plain_def prefixWords_snoc)
  ultimately show ?thesis
    using t2 w False by (intro exI [of _ ?ws]) (simp add: acInsert_def plain_def)
qed

lemma acTrie_plain: "\<exists>ws. plain ps (acTrie ps) ws"
proof (induction ps rule: rev_induct)
  case Nil
  show ?case
    using trie_emptyNode by (intro exI [of _ "[[]]"])
      (simp add: acTrie_def plain_def prefixWords_def ending_def emptyNode_def)
next
  case (snoc p ps)
  then show ?case
    using acInsert_plain by (fastforce simp: acTrie_def)
qed

subsection \<open>Failure links without overlaps\<close>

definition noOverlap :: "rune list set \<Rightarrow> bool" where
  "noOverlap T \<longleftrightarrow> (\<forall>w \<in> T. \<forall>k < length w - 1. 0 < k \<longrightarrow> drop k w \<notin> T)"

definition linkWord :: "rune list set \<Rightarrow> rune list \<Rightarrow> rune list" where
  "linkWord T w = (if 2 \<le> length w \<and> [last w] \<in> T then [last w] else [])"

definition linked :: "pattern list \<Rightarrow> rune list list \<Rightarrow> acMatcher \<Rightarrow> nat \<Rightarrow> bool" where
  "linked ps ws m v \<longleftrightarrow> An_fail (m ! v) < length m \<and> ws ! An_fail (m ! v) = linkWord (set ws) (ws ! v) \<and>
     An_out (m ! v) = ending ps (ws ! v) @ ending ps (linkWord (set ws) (ws ! v))"

definition unlinked :: "pattern list \<Rightarrow> rune list list \<Rightarrow> acMatcher \<Rightarrow> nat \<Rightarrow> bool" where
  "unlinked ps ws m v \<longleftrightarrow> An_fail (m ! v) = 0 \<and> An_out (m ! v) = ending ps (ws ! v)"

definition phase :: "pattern list \<Rightarrow> rune list list \<Rightarrow> nat set \<Rightarrow> acMatcher \<Rightarrow> bool" where
  "phase ps ws U m \<longleftrightarrow> trie m ws \<and> set ws = prefixWords ps \<and> (\<forall>v \<in> U. 2 \<le> length (ws ! v)) \<and>
     (\<forall>v < length m. if v \<in> U then unlinked ps ws m v else linked ps ws m v)"

lemma ending_Nil [simp]: "ending ps [] = []"
  by (simp add: ending_def)

lemma trie_root: "trie m ws \<Longrightarrow> v < length m \<Longrightarrow> ws ! v = [] \<longleftrightarrow> v = 0"
  by (metis length_greater_0_conv nth_eq_iff_index_eq trie_def)

lemma trie_closed: "trie m ws \<Longrightarrow> w @ s \<in> set ws \<Longrightarrow> w \<in> set ws"
proof (induction s rule: rev_induct)
  case (snoc c s)
  then have "butlast (w @ s @ [c]) \<in> set ws"
    by (auto simp: trie_def)
  then show ?case
    using snoc by (simp add: butlast_append)
qed simp

lemma noOverlap_pair:
  assumes "noOverlap T" "w @ [r] \<in> T" "2 \<le> length w"
  shows "[last w, r] \<notin> T"
proof -
  obtain w2 c where w: "w = w2 @ [c]" "w2 \<noteq> []"
    using assms(3) by (cases w rule: rev_cases) force+
  have "w2 @ [c, r] \<in> T"
    using assms(2) w by simp
  then have "\<forall>k < length (w2 @ [c, r]) - 1. 0 < k \<longrightarrow> drop k (w2 @ [c, r]) \<notin> T"
    using assms(1) unfolding noOverlap_def by blast
  from this [rule_format, of "length w2"] have "drop (length w2) (w2 @ [c, r]) \<notin> T"
    using w(2) by simp
  then show ?thesis
    using w by simp
qed

lemma failSearch_root:
  assumes p: "phase ps ws U m" and no: "noOverlap (set ws)" and v: "v < length m" "v \<notin> U" "nextOf m v r = Some u"
  shows "failSearch (length m + 1) m r (An_fail (m ! v)) = Some 0"
proof -
  let ?f = "An_fail (m ! v)"
  have t: "trie m ws"
    using p by (simp add: phase_def)
  have f: "?f < length m" "ws ! ?f = linkWord (set ws) (ws ! v)"
    using p v by (auto simp: phase_def linked_def)
  show ?thesis
  proof (cases "?f = 0")
    case False
    then have c: "2 \<le> length (ws ! v)" "ws ! ?f = [last (ws ! v)]"
      using f trie_root [OF t f(1)] by (auto simp: linkWord_def split: if_splits)
    have "ws ! v @ [r] \<in> set ws"
      using v trie_next [OF t v(1)] trie_word [OF t] by auto
    from noOverlap_pair [OF no this c(1)] have "nextOf m ?f r = None"
      using trie_next_None [OF t f(1)] c(2) by simp
    moreover have "?f \<notin> U"
      using p c(2) by (auto simp: phase_def)
    then have "An_fail (m ! ?f) < length m" "ws ! An_fail (m ! ?f) = []"
      using p f c(2) by (auto simp: phase_def linked_def linkWord_def)
    then have "An_fail (m ! ?f) = 0"
      using trie_root [OF t] by simp
    moreover obtain k where "length m = Suc k"
      using v by (cases "length m") auto
    ultimately show ?thesis
      using False by simp
  qed simp
qed

lemma linkChild_phase:
  assumes p: "phase ps ws U m" and no: "noOverlap (set ws)"
    and v: "v < length m" "v \<notin> U" "nextOf m v r = Some u" "u \<in> U"
  shows "\<exists>m2. linkChild v m (r, u) = Some m2 \<and> phase ps ws (U - {u}) m2 \<and> length m2 = length m \<and>
    (\<forall>x. An_next (m2 ! x) = An_next (m ! x))"
proof -
  have t: "trie m ws"
    using p by (simp add: phase_def)
  have z: "0 < length m" "ws ! 0 = []"
    using t by (simp_all add: trie_def)
  have u: "u < length m" "ws ! u = ws ! v @ [r]"
    using v trie_next [OF t v(1)] by auto
  have l: "2 \<le> length (ws ! u)" "last (ws ! u) = r"
    using p v u by (auto simp: phase_def)
  have un: "An_fail (m ! u) = 0" "An_out (m ! u) = ending ps (ws ! u)"
    using p v u by (auto simp: phase_def unlinked_def)
  define g where "g = (case nextOf m 0 r of Some n \<Rightarrow> n | None \<Rightarrow> 0)"
  have g: "g < length m" "ws ! g = linkWord (set ws) (ws ! u)"
    using trie_next [OF t z(1), of r] trie_next_None [OF t z(1), of r] trie_word [OF t, of "[r]"] z l
    by (auto simp: g_def linkWord_def split: option.split)
  have gs: "length (ws ! g) \<le> 1"
    using g(2) by (simp add: linkWord_def)
  then have gu: "g \<noteq> u" "g \<notin> U"
    using l p by (auto simp: phase_def)
  then have go: "An_out (m ! g) = ending ps (ws ! g)"
    using p g gs by (auto simp: phase_def linked_def linkWord_def)
  define m2 where "m2 = m[u := (m ! u)\<lparr>An_fail := g, An_out := ending ps (ws ! u) @ ending ps (ws ! g)\<rparr>]"
  have res: "linkChild v m (r, u) = Some m2"
  proof (cases "nextOf m 0 r")
    case None
    then have "g = 0"
      by (simp add: g_def)
    then show ?thesis
      using None un u go failSearch_root [OF p no v(1-3)]
      by (simp add: linkChild_def m2_def Let_def) (metis un(1) acNode.surjective acNode.update_convs(2))
  next
    case (Some n)
    then have n: "n = g"
      by (simp add: g_def)
    show ?thesis
      using Some n un u go gu failSearch_root [OF p no v(1-3)]
      by (simp add: linkChild_def m2_def Let_def)
  qed
  have nx: "An_next (m2 ! x) = An_next (m ! x)" for x
    unfolding m2_def by (rule next_update) simp
  have t2: "trie m2 ws"
    unfolding m2_def using t by (rule trie_update) simp
  have other: "m2 ! x = m ! x" if "x \<noteq> u" for x
    using that by (simp add: m2_def)
  have "linked ps ws m2 u"
    using u g by (simp add: linked_def m2_def)
  moreover have "if x \<in> U then unlinked ps ws m2 x else linked ps ws m2 x" if "x < length m" "x \<noteq> u" for x
    using p that unfolding phase_def unlinked_def linked_def other [OF that(2)] by (simp add: m2_def)
  ultimately have each: "if x \<in> U - {u} then unlinked ps ws m2 x else linked ps ws m2 x" if "x < length m" for x
    using that by (cases "x = u") auto
  have len: "length m2 = length m"
    by (simp add: m2_def)
  have "phase ps ws (U - {u}) m2"
    using p t2 each unfolding phase_def len by blast
  then show ?thesis
    using res nx len by blast
qed

lemma linkChildren_phase:
  assumes "phase ps ws U m" "noOverlap (set ws)" "v < length m" "v \<notin> U" "distinct (map snd rus)"
    "\<forall>(r, u) \<in> set rus. nextOf m v r = Some u \<and> u \<in> U"
  shows "\<exists>m2. linkChildren v rus m = Some m2 \<and> phase ps ws (U - snd ` set rus) m2 \<and> length m2 = length m"
  using assms
proof (induction rus arbitrary: m U)
  case (Cons ru rus)
  obtain r u where ru: "ru = (r, u)"
    by (rule prod.exhaust)
  from linkChild_phase [OF Cons.prems(1-4), of r u] Cons.prems(6) ru obtain m1 where
    m1: "linkChild v m (r, u) = Some m1" "phase ps ws (U - {u}) m1" "length m1 = length m"
      "\<forall>x. An_next (m1 ! x) = An_next (m ! x)"
    by auto
  have nx: "nextOf m1 v r = nextOf m v r" for r
    using m1(4) by (simp add: nextOf_def)
  have "\<exists>m2. linkChildren v rus m1 = Some m2 \<and> phase ps ws (U - {u} - snd ` set rus) m2 \<and> length m2 = length m1"
    using Cons.prems m1 ru by (intro Cons.IH) (auto simp: nx image_iff)
  moreover have "U - {u} - snd ` set rus = U - snd ` set (ru # rus)"
    using ru by auto
  ultimately show ?case
    using m1 ru by auto
qed simp

subsection \<open>The queue reaches every node once\<close>

definition pend :: "rune list list \<Rightarrow> nat list \<Rightarrow> nat set" where
  "pend ws q = {x. x < length ws \<and> (\<exists>y \<in> set q. strict_prefix (ws ! y) (ws ! x))}"

definition cone :: "rune list list \<Rightarrow> nat list \<Rightarrow> nat set" where
  "cone ws q = {x. x < length ws \<and> (\<exists>y \<in> set q. prefix (ws ! y) (ws ! x))}"

definition front :: "rune list list \<Rightarrow> nat list \<Rightarrow> bool" where
  "front ws q \<longleftrightarrow> distinct q \<and> (\<forall>y \<in> set q. y < length ws \<and> ws ! y \<noteq> []) \<and>
     (\<forall>x \<in> set q. \<forall>y \<in> set q. prefix (ws ! x) (ws ! y) \<longrightarrow> x = y)"

definition childrenOf :: "rune list list \<Rightarrow> nat \<Rightarrow> nat list \<Rightarrow> bool" where
  "childrenOf ws v us \<longleftrightarrow> distinct us \<and> (\<forall>u. u \<in> set us \<longleftrightarrow> u < length ws \<and> (\<exists>r. ws ! u = ws ! v @ [r]))"

lemma child_between:
  assumes "trie m ws" "childrenOf ws v us" "x < length ws" "strict_prefix (ws ! v) (ws ! x)"
  shows "\<exists>u \<in> set us. prefix (ws ! u) (ws ! x)"
proof -
  obtain r s where x: "ws ! x = ws ! v @ r # s"
    using assms(4) by (rule strict_prefixE')
  have "(ws ! v @ [r]) @ s \<in> set ws"
    using x assms(3) by (metis append.assoc append_Cons append_Nil nth_mem)
  then have "ws ! v @ [r] \<in> set ws"
    using trie_closed [OF assms(1)] by blast
  then obtain u where u: "u < length ws" "ws ! u = ws ! v @ [r]"
    by (auto simp: in_set_conv_nth)
  have "u \<in> set us"
    using assms(2) u unfolding childrenOf_def by blast
  moreover have "prefix (ws ! u) (ws ! x)"
    unfolding u(2) x by simp
  ultimately show ?thesis
    by blast
qed

lemma childE:
  assumes "childrenOf ws v us" "u \<in> set us"
  obtains r where "u < length ws" "ws ! u = ws ! v @ [r]"
  using assms unfolding childrenOf_def by blast

lemma child_strict:
  assumes "childrenOf ws v us" "u \<in> set us"
  shows "strict_prefix (ws ! v) (ws ! u)"
  using assms by (rule childE) (simp add: strict_prefix_def)

lemma below_child:
  assumes "childrenOf ws v us" "u \<in> set us" "strict_prefix w (ws ! u)"
  shows "prefix w (ws ! v)"
  using assms(1,2)
proof (rule childE)
  fix r
  assume "ws ! u = ws ! v @ [r]"
  then show ?thesis
    using assms(3) by (auto simp: strict_prefix_def)
qed

lemma node_eq: "trie m ws \<Longrightarrow> x < length ws \<Longrightarrow> y < length ws \<Longrightarrow> ws ! x = ws ! y \<longleftrightarrow> x = y"
  by (simp add: trie_def nth_eq_iff_index_eq)


lemma front_apart:
  assumes f: "front ws (v # q)" and c: "childrenOf ws v us" and y: "y \<in> set q" and u: "u \<in> set us"
  shows "\<not> prefix (ws ! y) (ws ! u) \<and> \<not> prefix (ws ! u) (ws ! y)"
proof -
  have neq: "y \<noteq> v" and anti: "\<not> prefix (ws ! y) (ws ! v)" "\<not> prefix (ws ! v) (ws ! y)"
    using f y by (auto simp: front_def)
  have "prefix (ws ! v) (ws ! u)"
    using child_strict [OF c u] by (rule strict_prefixE) 
  then show ?thesis
    using anti below_child [OF c u] prefix_order.trans by (metis strict_prefixI)
qed

lemma pend_step:
  assumes t: "trie m ws" and f: "front ws (v # q)" and c: "childrenOf ws v us"
  shows "pend ws (q @ us) = pend ws (v # q) - set us"
proof (intro set_eqI iffI)
  fix x
  assume "x \<in> pend ws (q @ us)"
  then obtain y where x: "x < length ws" and y: "y \<in> set q \<or> y \<in> set us" "strict_prefix (ws ! y) (ws ! x)"
    by (auto simp: pend_def)
  have "x \<notin> set us"
  proof
    assume xu: "x \<in> set us"
    have "prefix (ws ! y) (ws ! v)"
      using below_child [OF c xu y(2)] .
    then show False
      using y(1) f child_strict [OF c, of y] by (auto simp: front_def)
  qed
  moreover have "x \<in> pend ws (v # q)"
    using x y child_strict [OF c, of y] by (auto simp: pend_def intro: prefix_order.less_trans)
  ultimately show "x \<in> pend ws (v # q) - set us"
    by blast
next
  fix x
  assume "x \<in> pend ws (v # q) - set us"
  then obtain y where x: "x < length ws" "x \<notin> set us" and y: "y = v \<or> y \<in> set q" "strict_prefix (ws ! y) (ws ! x)"
    by (auto simp: pend_def)
  show "x \<in> pend ws (q @ us)"
  proof (cases "y = v")
    case True
    from child_between [OF t c x(1)] y(2) True obtain u where u: "u \<in> set us" "prefix (ws ! u) (ws ! x)"
      by blast
    have "u < length ws"
      using u(1) c by (simp add: childrenOf_def)
    then have "ws ! u \<noteq> ws ! x"
      using u(1) x node_eq [OF t] by blast
    then show ?thesis
      using u x(1) by (auto simp: pend_def strict_prefix_def)
  next
    case False
    then show ?thesis
      using x y by (auto simp: pend_def)
  qed
qed

lemma cone_step:
  assumes t: "trie m ws" and f: "front ws (v # q)" and c: "childrenOf ws v us"
  shows "cone ws (q @ us) = cone ws (v # q) - {v}"
proof (intro set_eqI iffI)
  fix x
  assume "x \<in> cone ws (q @ us)"
  then obtain y where x: "x < length ws" and y: "y \<in> set q \<or> y \<in> set us" "prefix (ws ! y) (ws ! x)"
    by (auto simp: cone_def)
  have "x \<noteq> v"
    using y f child_strict [OF c, of y] by (auto simp: front_def strict_prefix_def)
  moreover have "x \<in> cone ws (v # q)"
    using x y child_strict [OF c, of y] by (auto simp: cone_def intro: prefix_order.trans)
  ultimately show "x \<in> cone ws (v # q) - {v}"
    by blast
next
  fix x
  assume "x \<in> cone ws (v # q) - {v}"
  then obtain y where x: "x < length ws" "x \<noteq> v" and y: "y = v \<or> y \<in> set q" "prefix (ws ! y) (ws ! x)"
    by (auto simp: cone_def)
  show "x \<in> cone ws (q @ us)"
  proof (cases "y = v")
    case True
    have "v < length ws"
      using f by (simp add: front_def)
    then have "ws ! v \<noteq> ws ! x"
      using x node_eq [OF t] by blast
    then have "strict_prefix (ws ! v) (ws ! x)"
      using y True by (auto simp: strict_prefix_def)
    from child_between [OF t c x(1) this] show ?thesis
      using x(1) by (auto simp: cone_def)
  next
    case False
    then show ?thesis
      using x y by (auto simp: cone_def)
  qed
qed

lemma front_children:
  assumes t: "trie m ws" and c: "childrenOf ws v us"
  shows "front ws us"
proof -
  have kids: "x = y" if x: "x \<in> set us" and y: "y \<in> set us" and le: "prefix (ws ! x) (ws ! y)" for x y
  proof -
    obtain r where r: "x < length ws" "ws ! x = ws ! v @ [r]"
      using c x by (rule childE)
    obtain d where d: "y < length ws" "ws ! y = ws ! v @ [d]"
      using c y by (rule childE)
    have "ws ! x = ws ! y"
      using le unfolding r(2) d(2) by auto
    then show ?thesis
      using r(1) d(1) node_eq [OF t] by blast
  qed
  have us: "distinct us" "\<forall>y \<in> set us. y < length ws \<and> ws ! y \<noteq> []"
    using c unfolding childrenOf_def by (blast, metis snoc_eq_iff_butlast)
  then show ?thesis
    using kids unfolding front_def by blast
qed

lemma front_step:
  assumes t: "trie m ws" and f: "front ws (v # q)" and c: "childrenOf ws v us"
  shows "front ws (q @ us)"
proof -
  have apart: "\<not> prefix (ws ! y) (ws ! u)" "\<not> prefix (ws ! u) (ws ! y)" if "y \<in> set q" "u \<in> set us" for y u
    using front_apart [OF f c that] by blast+
  show ?thesis
    using apart f front_children [OF t c] unfolding front_def by auto
qed

lemma next_children:
  assumes t: "trie m ws" and v: "v < length m" and it: "\<forall>xs. mset (it xs) = mset xs"
  shows "childrenOf ws v (map snd (it (An_next (m ! v)))) \<and>
    (\<forall>(r, u) \<in> set (it (An_next (m ! v))). nextOf m v r = Some u)"
proof -
  let ?nx = "An_next (m ! v)"
  have d: "distinct (map fst ?nx)"
    using t v by (simp add: trie_def)
  have s: "set (it ?nx) = set ?nx"
    using it by (metis set_mset_mset)
  have mem: "(r, u) \<in> set ?nx \<longleftrightarrow> u < length ws \<and> ws ! u = ws ! v @ [r]" for r u
    using trie_next [OF t v, of r u] d t by (simp add: nextOf_def trie_def)
  have "inj_on snd (set ?nx)"
    by (auto simp: inj_on_def mem)
  moreover have "distinct (it ?nx)"
    using d it by (metis distinct_map mset_eq_imp_distinct_iff)
  ultimately have "distinct (map snd (it ?nx))"
    by (simp add: distinct_map s)
  then have "childrenOf ws v (map snd (it ?nx))"
    unfolding childrenOf_def by (simp add: s image_iff Bex_def mem del: map_map)
  then show ?thesis
    using d by (auto simp: s nextOf_def)
qed

lemma acQueue_phase:
  assumes "phase ps ws (pend ws q) m" "noOverlap (set ws)" "\<forall>xs. mset (it xs) = mset xs" "front ws q"
    "card (cone ws q) \<le> fuel"
  shows "\<exists>m2. acQueue it fuel q m = Some m2 \<and> phase ps ws {} m2 \<and> length m2 = length m"
  using assms
proof (induction it fuel q m rule: acQueue.induct)
  case (1 it fuel m)
  then show ?case
    by (simp add: pend_def)
next
  case (2 it v q m)
  have "v \<in> cone ws (v # q)" "finite (cone ws (v # q))"
    using "2.prems"(4) by (auto simp: cone_def front_def)
  then show ?case
    using "2.prems"(5) by (auto simp: card_eq_0_iff)
next
  case (3 it fuel v q m)
  have t: "trie m ws" and len: "length ws = length m"
    using "3.prems"(1) by (auto simp: phase_def trie_def)
  have v: "v < length m"
    using "3.prems"(4) len by (simp add: front_def)
  let ?kids = "it (An_next (m ! v))"
  have c: "childrenOf ws v (map snd ?kids)" and nx: "\<forall>(r, u) \<in> set ?kids. nextOf m v r = Some u"
    using next_children [OF t v "3.prems"(3)] by blast+
  have "v \<notin> pend ws (v # q)"
    using "3.prems"(4) by (auto simp: pend_def front_def)
  moreover have "u \<in> pend ws (v # q)" if "u \<in> set (map snd ?kids)" for u
    using that child_strict [OF c that] c by (auto simp: pend_def childrenOf_def)
  then have "\<forall>(r, u) \<in> set ?kids. nextOf m v r = Some u \<and> u \<in> pend ws (v # q)"
    using nx by force
  ultimately obtain m2 where m2: "linkChildren v ?kids m = Some m2"
      "phase ps ws (pend ws (v # q) - snd ` set ?kids) m2" "length m2 = length m"
    using linkChildren_phase [OF "3.prems"(1,2) v, of ?kids] c unfolding childrenOf_def by blast
  have p: "phase ps ws (pend ws (q @ map snd ?kids)) m2"
    using m2(2) pend_step [OF t "3.prems"(4) c] by simp
  have "v \<in> cone ws (v # q)" "finite (cone ws (v # q))"
    using "3.prems"(4) by (auto simp: cone_def front_def)
  then have "card (cone ws (q @ map snd ?kids)) \<le> fuel"
    using cone_step [OF t "3.prems"(4) c] "3.prems"(5) by simp
  from "3.IH" [OF refl m2(1) p "3.prems"(2,3) front_step [OF t "3.prems"(4) c] this] show ?case
    using m2 by (simp add: Let_def)
qed

lemma buildAC_phase:
  assumes "noOverlap (prefixWords ps)" "\<forall>xs. mset (it xs) = mset xs"
  shows "\<exists>m ws. buildAC it ps = Some m \<and> phase ps ws {} m"
proof -
  obtain ws where p: "plain ps (acTrie ps) ws"
    using acTrie_plain by blast
  let ?m = "acTrie ps"
  let ?q = "map snd (it (An_next (?m ! 0)))"
  have t: "trie ?m ws"
    using p by (simp add: plain_def)
  have z: "0 < length ?m" "ws ! 0 = []" "length ws = length ?m"
    using t by (simp_all add: trie_def)
  have c: "childrenOf ws 0 ?q"
    using next_children [OF t z(1) assms(2)] by blast
  then have q: "u \<in> set ?q \<longleftrightarrow> u < length ws \<and> (\<exists>r. ws ! u = [r])" for u
    using z by (simp add: childrenOf_def)
  have f: "front ws ?q"
    using t c by (rule front_children)
  have deep: "x \<in> pend ws ?q \<longleftrightarrow> 2 \<le> length (ws ! x)" if x: "x < length ws" for x
  proof
    assume "x \<in> pend ws ?q"
    then obtain u where "u \<in> set ?q" "strict_prefix (ws ! u) (ws ! x)"
      by (auto simp: pend_def)
    then show "2 \<le> length (ws ! x)"
      using q [of u] prefix_length_less [of "ws ! u" "ws ! x"] by auto
  next
    assume l: "2 \<le> length (ws ! x)"
    then have "strict_prefix (ws ! 0) (ws ! x)"
      using z by (auto simp: strict_prefix_def)
    from child_between [OF t c x this] obtain u where u: "u \<in> set ?q" "prefix (ws ! u) (ws ! x)"
      by blast
    then have "strict_prefix (ws ! u) (ws ! x)"
      using q [of u] l by (cases "ws ! x = ws ! u") (auto simp: strict_prefix_def)
    then show "x \<in> pend ws ?q"
      using u(1) x by (auto simp: pend_def)
  qed
  have "phase ps ws (pend ws ?q) ?m"
  proof -
    have "if x \<in> pend ws ?q then unlinked ps ws ?m x else linked ps ws ?m x" if "x < length ?m" for x
      using that deep [of x] p z by (auto simp: plain_def unlinked_def linked_def linkWord_def)
    moreover have "\<forall>x \<in> pend ws ?q. 2 \<le> length (ws ! x)"
      using deep by (auto simp: pend_def)
    ultimately show ?thesis
      using p unfolding phase_def plain_def by blast
  qed
  moreover have "card (cone ws ?q) \<le> length ?m"
    using card_mono [of "{..<length ws}" "cone ws ?q"] z(3) by (auto simp: cone_def)
  moreover have "noOverlap (set ws)"
    using p assms(1) by (simp add: plain_def)
  ultimately show ?thesis
    using acQueue_phase [OF _ _ assms(2) f] unfolding buildAC_def Let_def by blast
qed

subsection \<open>The search follows the longest known suffix\<close>

definition longest :: "rune list set \<Rightarrow> rune list \<Rightarrow> rune list \<Rightarrow> bool" where
  "longest T x w \<longleftrightarrow> w \<in> T \<and> suffix w x \<and> (\<forall>s \<in> T. suffix s x \<longrightarrow> length s \<le> length w)"

lemma longest_suffix: "longest T x w \<Longrightarrow> s \<in> T \<Longrightarrow> suffix s x \<Longrightarrow> suffix s w"
  unfolding longest_def by (meson suffix_length_suffix)

lemma noOverlap_suffix:
  assumes "noOverlap T" "w \<in> T" "s \<in> T" "suffix s w" "s \<noteq> w"
  shows "s = [] \<or> 2 \<le> length w \<and> s = [last w]"
proof -
  obtain a where w: "w = a @ s" "a \<noteq> []"
    using assms(4,5) by (auto simp: suffix_def)
  have "\<forall>k < length w - 1. 0 < k \<longrightarrow> drop k w \<notin> T"
    using assms(1,2) unfolding noOverlap_def by blast
  from this [rule_format, of "length a"] have "\<not> length a < length w - 1"
    using w assms(3) by auto
  then have "length s \<le> 1"
    using w by simp
  then show ?thesis
    using w by (cases s; cases a) auto
qed

text \<open>What may follow: a word that ends in the next rune extends a word that is a suffix now.\<close>

lemma longest_snoc:
  assumes t: "trie m ws" and w: "longest (set ws) x w" and v: "v @ [r] \<in> set ws" "suffix v w"
    and best: "\<And>s. s \<in> set ws \<Longrightarrow> suffix s w \<Longrightarrow> s @ [r] \<in> set ws \<Longrightarrow> length s \<le> length v"
  shows "longest (set ws) (x @ [r]) (v @ [r])"
  unfolding longest_def
proof (intro conjI ballI impI)
  have "suffix v x"
    using v(2) w unfolding longest_def by (meson suffix_order.trans)
  then show "suffix (v @ [r]) (x @ [r])"
    by simp
  fix s
  assume s: "s \<in> set ws" "suffix s (x @ [r])"
  show "length s \<le> length (v @ [r])"
  proof (cases s rule: rev_cases)
    case (snoc u c)
    then have u: "c = r" "suffix u x"
      using s(2) by auto
    then have "u @ [r] \<in> set ws" "u \<in> set ws"
      using s(1) snoc trie_closed [OF t] by auto
    then show ?thesis
      using best [of u] longest_suffix [OF w _ u(2)] snoc by simp
  qed simp
qed (rule v(1))

lemma longest_none:
  assumes t: "trie m ws" and w: "longest (set ws) x w"
    and best: "\<And>s. s \<in> set ws \<Longrightarrow> suffix s w \<Longrightarrow> s @ [r] \<notin> set ws"
  shows "longest (set ws) (x @ [r]) []"
proof -
  have "s = []" if s: "s \<in> set ws" "suffix s (x @ [r])" for s
  proof (cases s rule: rev_cases)
    case (snoc u c)
    then have u: "c = r" "suffix u x"
      using s(2) by auto
    then have "u @ [r] \<in> set ws" "u \<in> set ws"
      using s(1) snoc trie_closed [OF t] by auto
    then show ?thesis
      using best [of u] longest_suffix [OF w _ u(2)] by simp
  qed
  moreover have "[] \<in> set ws"
    using t by (metis length_greater_0_conv nth_mem trie_def)
  ultimately show ?thesis
    by (auto simp: longest_def)
qed

lemma acStep_root:
  assumes t: "trie m ws" and w: "longest (set ws) x w"
    and others: "\<And>s. s \<in> set ws \<Longrightarrow> suffix s w \<Longrightarrow> s @ [r] \<in> set ws \<Longrightarrow> s = []"
  shows "\<exists>n. acStep (Suc k) m r 0 = Some n \<and> n < length m \<and> longest (set ws) (x @ [r]) (ws ! n)"
proof -
  have z: "0 < length m" "ws ! 0 = []"
    using t by (simp_all add: trie_def)
  show ?thesis
  proof (cases "nextOf m 0 r")
    case None
    then have "[r] \<notin> set ws"
      using trie_next_None [OF t z(1)] z(2) by simp
    then have "longest (set ws) (x @ [r]) (ws ! 0)"
      using longest_none [OF t w, of r] others z(2) by fastforce
    then show ?thesis
      using None z by simp
  next
    case (Some n)
    then have n: "n < length m" "ws ! n = [] @ [r]"
      using trie_next [OF t z(1)] z(2) by auto
    then have mem: "[] @ [r] \<in> set ws"
      unfolding trie_word [OF t] by blast
    have "longest (set ws) (x @ [r]) (ws ! n)"
      unfolding n(2) using mem others by (intro longest_snoc [OF t w]) auto
    then show ?thesis
      using Some n by simp
  qed
qed

lemma acStep_link:
  assumes p: "phase ps ws {} m" and no: "noOverlap (set ws)"
    and n: "n < length m" "ws ! n = linkWord (set ws) w" and w: "longest (set ws) x w" "w @ [r] \<notin> set ws"
    and fuel: "2 \<le> length m"
  shows "\<exists>n2. acStep (length m) m r n = Some n2 \<and> n2 < length m \<and> longest (set ws) (x @ [r]) (ws ! n2)"
proof -
  have t: "trie m ws"
    using p by (simp add: phase_def)
  obtain k where k: "length m = Suc (Suc k)"
    using fuel by (metis Suc_le_D numeral_2_eq_2 Suc_le_mono)
  have few: "s = [] \<or> 2 \<le> length w \<and> s = [last w]" if "s \<in> set ws" "suffix s w" "s @ [r] \<in> set ws" for s
    using noOverlap_suffix [OF no _ that(1,2)] w that(3) by (auto simp: longest_def)
  show ?thesis
  proof (cases "n = 0")
    case True
    then have "linkWord (set ws) w = []"
      using n t by (simp add: trie_def)
    then have "s = []" if "s \<in> set ws" "suffix s w" "s @ [r] \<in> set ws" for s
      using few [OF that] that(1) by (auto simp: linkWord_def split: if_splits)
    then show ?thesis
      using acStep_root [OF t w(1), of r "Suc k"] unfolding k True by blast
  next
    case False
    then have l: "2 \<le> length w" "ws ! n = [last w]" "[last w] \<in> set ws"
      using n trie_root [OF t n(1)] by (auto simp: linkWord_def split: if_splits)
    show ?thesis
    proof (cases "nextOf m n r")
      case None
      then have "[last w] @ [r] \<notin> set ws"
        using trie_next_None [OF t n(1)] l by simp
      then have others: "s = []" if "s \<in> set ws" "suffix s w" "s @ [r] \<in> set ws" for s
        using few [OF that] that(3) by auto
      have "linked ps ws m n"
        using p n(1) by (simp add: phase_def)
      then have "An_fail (m ! n) = 0"
        using trie_root [OF t] l(2) by (auto simp: linked_def linkWord_def)
      then show ?thesis
        using acStep_root [OF t w(1) others, of r k] None False k by simp
    next
      case (Some n2)
      then have n2: "n2 < length m" "ws ! n2 = [last w] @ [r]"
        using trie_next [OF t n(1)] l by auto
      have "suffix [last w] w"
        using l(1) by (metis append_butlast_last_id list.size(3) not_numeral_le_zero suffixI)
      moreover have "[last w] @ [r] \<in> set ws"
        using n2 unfolding trie_word [OF t] by blast
      ultimately have "longest (set ws) (x @ [r]) (ws ! n2)"
        unfolding n2(2) using few by (intro longest_snoc [OF t w(1)]) fastforce+
      then show ?thesis
        using Some n2 k by simp
    qed
  qed
qed

lemma acStep_longest:
  assumes p: "phase ps ws {} m" and no: "noOverlap (set ws)" and n: "n < length m" and w: "longest (set ws) x (ws ! n)"
  shows "\<exists>n2. acStep (length m + 1) m r n = Some n2 \<and> n2 < length m \<and> longest (set ws) (x @ [r]) (ws ! n2)"
proof -
  have t: "trie m ws"
    using p by (simp add: phase_def)
  show ?thesis
  proof (cases "nextOf m n r")
    case (Some n2)
    then have n2: "n2 < length m" "ws ! n2 = ws ! n @ [r]"
      using trie_next [OF t n] by auto
    then have mem: "ws ! n @ [r] \<in> set ws"
      unfolding trie_word [OF t] by blast
    have "longest (set ws) (x @ [r]) (ws ! n2)"
      unfolding n2(2) using mem by (intro longest_snoc [OF t w]) (auto dest: suffix_length_le)
    then show ?thesis
      using Some n2 by simp
  next
    case None
    then have notin: "ws ! n @ [r] \<notin> set ws"
      using trie_next_None [OF t n] by simp
    show ?thesis
    proof (cases "n = 0")
      case True
      then have "ws ! n = []"
        using t by (simp add: trie_def)
      then show ?thesis
        using acStep_root [OF t w, of r "length m"] notin True by auto
    next
      case False
      then have "2 \<le> length m"
        using n by simp
      moreover have "linked ps ws m n"
        using p n by (simp add: phase_def)
      ultimately show ?thesis
        using acStep_link [OF p no _ _ w notin, of "An_fail (m ! n)"] None False by (simp add: linked_def)
    qed
  qed
qed

lemma out_longest:
  assumes p: "phase ps ws {} m" and no: "noOverlap (set ws)" and n: "n < length m" and w: "longest (set ws) x (ws ! n)"
  shows "set (An_out (m ! n)) = {p \<in> set ps. Pt_text p \<noteq> [] \<and> suffix (runes (Pt_text p)) x}"
proof -
  let ?w = "ws ! n"
  have words: "runes (Pt_text p) \<in> set ws" if "p \<in> set ps" "Pt_text p \<noteq> []" for p
    using assms(1) that unfolding phase_def prefixWords_def by (metis (mono_tags, lifting) insertI2 mem_Collect_eq order_refl take_all)
  have ends: "suffix v x \<longleftrightarrow> v = ?w \<or> v = linkWord (set ws) ?w" if v: "v \<in> set ws" "v \<noteq> []" for v
  proof
    assume "suffix v x"
    then have "suffix v ?w"
      using longest_suffix [OF w v(1)] by blast
    then show "v = ?w \<or> v = linkWord (set ws) ?w"
      using noOverlap_suffix [OF no _ v(1)] w v by (auto simp: longest_def linkWord_def)
  next
    assume a: "v = ?w \<or> v = linkWord (set ws) ?w"
    have "suffix (linkWord (set ws) ?w) ?w"
      by (simp add: linkWord_def) (metis append_butlast_last_id list.size(3) not_numeral_le_zero suffixI)
    then show "suffix v x"
      using a w by (auto simp: longest_def intro: suffix_order.trans)
  qed
  have "suffix (runes (Pt_text p)) x \<longleftrightarrow> runes (Pt_text p) = ?w \<or> runes (Pt_text p) = linkWord (set ws) ?w"
    if "p \<in> set ps" "Pt_text p \<noteq> []" for p
    using ends [OF words [OF that]] that(2) by simp
  moreover have "linked ps ws m n"
    using p n by (simp add: phase_def)
  ultimately show ?thesis
    by (auto simp: linked_def ending_def)
qed

definition matchAt :: "nat list \<Rightarrow> pattern \<Rightarrow> nat \<Rightarrow> acMatch" where
  "matchAt be p e = \<lparr>Am_Rule = Pt_rule p, Am_Start = be ! (e - runeLen (Pt_text p)), Am_End = be ! e, Am_Text = Pt_text p\<rparr>"

lemma first_or_later:
  "{f p k | p k. 0 < k \<and> k \<le> Suc n \<and> H p k} = {f p 1 | p. H p 1} \<union> {f p (Suc k) | p k. 0 < k \<and> k \<le> n \<and> H p (Suc k)}"
  (is "?L = ?R")
proof
  show "?L \<subseteq> ?R"
  proof
    fix a
    assume "a \<in> ?L"
    then obtain p k where k: "a = f p k" "0 < k" "k \<le> Suc n" "H p k"
      by blast
    then obtain j where j: "k = Suc j"
      by (cases k) auto
    show "a \<in> ?R"
      using k unfolding j by (cases "j = 0") auto
  qed
qed fastforce

lemma findLoop_exact:
  assumes "phase ps ws {} m" "noOverlap (set ws)" "n < length m" "longest (set ws) x (ws ! n)"
  shows "\<exists>ms. findLoop m be (length x) n rs = Some ms \<and>
    set ms = {matchAt be p (length x + k) | p k. p \<in> set ps \<and> Pt_text p \<noteq> [] \<and> 0 < k \<and> k \<le> length rs \<and>
                suffix (runes (Pt_text p)) (x @ take k rs)}"
  using assms
proof (induction rs arbitrary: x n)
  case (Cons r rs)
  obtain n2 where n2: "acStep (length m + 1) m r n = Some n2" "n2 < length m" "longest (set ws) (x @ [r]) (ws ! n2)"
    using acStep_longest [OF Cons.prems] by blast
  from Cons.IH [OF Cons.prems(1,2) n2(2,3)] obtain ms where
    ms: "findLoop m be (Suc (length x)) n2 rs = Some ms"
      "set ms = {matchAt be p (Suc (length x) + k) | p k. p \<in> set ps \<and> Pt_text p \<noteq> [] \<and> 0 < k \<and> k \<le> length rs \<and>
                suffix (runes (Pt_text p)) ((x @ [r]) @ take k rs)}"
    by auto
  let ?hit = "\<lambda>p k. p \<in> set ps \<and> Pt_text p \<noteq> [] \<and> suffix (runes (Pt_text p)) (x @ take k (r # rs))"
  have "runeLen (Pt_text p) \<le> Suc (length x)" if "suffix (runes (Pt_text p)) (x @ [r])" for p
    using suffix_length_le [OF that] by (simp add: runeLen_def)
  then have now: "set (outMatches be (length x) (An_out (m ! n2))) = {matchAt be p (Suc (length x)) | p. ?hit p 1}"
    using out_longest [OF Cons.prems(1,2) n2(2,3)] by (auto simp: outMatches_def matchAt_def)
  have later: "set ms = {matchAt be p (length x + Suc k) | p k. 0 < k \<and> k \<le> length rs \<and> ?hit p (Suc k)}"
    unfolding ms(2) by auto
  have "set (outMatches be (length x) (An_out (m ! n2)) @ ms) =
      {matchAt be p (length x + k) | p k. 0 < k \<and> k \<le> Suc (length rs) \<and> ?hit p k}"
    unfolding set_append now later first_or_later [of "\<lambda>p k. matchAt be p (length x + k)"] by simp
  then show ?case
    using n2(1) ms(1) by (auto simp: conj_ac)
qed simp

subsection \<open>Exactness\<close>

definition prefixList :: "pattern list \<Rightarrow> rune list list" where
  "prefixList ps = concat (map (\<lambda>p. prefixes (runes (Pt_text p))) ps)"

definition separated :: "pattern list \<Rightarrow> bool" where
  "separated ps \<longleftrightarrow> (\<forall>w \<in> set (prefixList ps). \<forall>k \<in> set [1..<length w - 1]. drop k w \<notin> set (prefixList ps))"

definition byteAt :: "string \<Rightarrow> nat \<Rightarrow> nat" where
  "byteAt t k = length (concat (map snd (take k (utf8_chunks t))))"

definition occurrences :: "pattern list \<Rightarrow> string \<Rightarrow> acMatch set" where
  "occurrences ps t =
     {\<lparr>Am_Rule = Pt_rule p, Am_Start = byteAt t (length a), Am_End = byteAt t (length a + runeLen (Pt_text p)),
       Am_Text = Pt_text p\<rparr> | p a b. p \<in> set ps \<and> Pt_text p \<noteq> [] \<and> runes t = a @ runes (Pt_text p) @ b}"

lemma prefix_take: "prefix w xs \<longleftrightarrow> (\<exists>k. w = take k xs)"
  by (auto simp: take_is_prefix) (metis append_eq_conv_conj prefixE)

lemma prefixWords_list: "prefixWords ps = insert [] (set (prefixList ps))"
proof -
  have "w \<in> prefixWords ps \<longleftrightarrow> w = [] \<or> (\<exists>p \<in> set ps. Pt_text p \<noteq> [] \<and> prefix w (runes (Pt_text p)))" for w
    unfolding prefix_take prefixWords_def by blast
  moreover have "w \<in> insert [] (set (prefixList ps)) \<longleftrightarrow> w = [] \<or> (\<exists>p \<in> set ps. Pt_text p \<noteq> [] \<and> prefix w (runes (Pt_text p)))" for w
    by (cases "w = []") (simp_all add: prefixList_def, metis prefix_Nil runes_Nil)
  ultimately show ?thesis
    by blast
qed

lemma separated_noOverlap: "separated ps \<longleftrightarrow> noOverlap (prefixWords ps)"
proof -
  have "drop k w \<noteq> []" if "k < length w - 1" for k and w :: "rune list"
    using that by simp
  then show ?thesis
    unfolding separated_def noOverlap_def prefixWords_list by (auto simp: Suc_le_eq)
qed

lemma runeStarts_nth: "k \<le> length cs \<Longrightarrow> runeStarts i cs ! k = i + length (concat (map snd (take k cs)))"
proof (induction cs arbitrary: i k)
  case (Cons c cs)
  then show ?case
    by (cases c; cases k) auto
qed simp

lemma split_at:
  "(\<exists>a b. xs = a @ w @ b \<and> P (length a)) \<longleftrightarrow> (\<exists>k \<le> length xs. suffix w (take k xs) \<and> P (k - length w))"
proof
  assume "\<exists>a b. xs = a @ w @ b \<and> P (length a)"
  then obtain a b where "xs = a @ w @ b" "P (length a)"
    by blast
  then show "\<exists>k \<le> length xs. suffix w (take k xs) \<and> P (k - length w)"
    by (intro exI [of _ "length a + length w"]) (simp add: suffix_def)
next
  assume "\<exists>k \<le> length xs. suffix w (take k xs) \<and> P (k - length w)"
  then obtain k a where k: "k \<le> length xs" "take k xs = a @ w" "P (k - length w)"
    by (auto simp: suffix_def)
  have "length (take k xs) = length (a @ w)"
    unfolding k(2) ..
  then have "length a = k - length w"
    using k(1) by simp
  moreover have "xs = a @ w @ drop k xs"
    using k(2) by (metis append.assoc append_take_drop_id)
  ultimately show "\<exists>a b. xs = a @ w @ b \<and> P (length a)"
    using k(3) by metis
qed

lemma occurrences_at:
  "occurrences ps t =
     {matchAt (runeStarts 0 (utf8_chunks t)) p k | p k. p \<in> set ps \<and> Pt_text p \<noteq> [] \<and> 0 < k \<and> k \<le> length (runes t) \<and>
        suffix (runes (Pt_text p)) (take k (runes t))}"
proof -
  let ?be = "runeStarts 0 (utf8_chunks t)"
  have len: "length (utf8_chunks t) = length (runes t)"
    by (simp add: runes_def)
  have at: "?be ! k = byteAt t k" if "k \<le> length (runes t)" for k
    using that len by (simp add: runeStarts_nth byteAt_def)
  let ?f = "\<lambda>p s. \<lparr>Am_Rule = Pt_rule p, Am_Start = byteAt t s, Am_End = byteAt t (s + runeLen (Pt_text p)), Am_Text = Pt_text p\<rparr>"
  have m: "matchAt ?be p k = ?f p (k - length (runes (Pt_text p))) \<and> 0 < k"
    if "k \<le> length (runes t)" "suffix (runes (Pt_text p)) (take k (runes t))" "Pt_text p \<noteq> []" for p k
  proof -
    have "length (runes (Pt_text p)) \<le> k"
      using suffix_length_le [OF that(2)] that(1) by simp
    moreover have "0 < length (runes (Pt_text p))"
      using that(3) by simp
    ultimately show ?thesis
      using that(1) by (simp add: matchAt_def at runeLen_def del: length_greater_0_conv)
  qed
  have sp: "(\<exists>a b. runes t = a @ runes (Pt_text p) @ b \<and> x = ?f p (length a)) \<longleftrightarrow>
      (\<exists>k \<le> length (runes t). suffix (runes (Pt_text p)) (take k (runes t)) \<and> x = ?f p (k - length (runes (Pt_text p))))" for p x
    by (rule split_at)
  have "x \<in> occurrences ps t \<longleftrightarrow> (\<exists>p. p \<in> set ps \<and> Pt_text p \<noteq> [] \<and>
      (\<exists>a b. runes t = a @ runes (Pt_text p) @ b \<and> x = ?f p (length a)))" for x
    unfolding occurrences_def by blast
  then have "x \<in> occurrences ps t \<longleftrightarrow> (\<exists>p. p \<in> set ps \<and> Pt_text p \<noteq> [] \<and>
      (\<exists>k \<le> length (runes t). suffix (runes (Pt_text p)) (take k (runes t)) \<and> x = ?f p (k - length (runes (Pt_text p)))))" for x
    by (simp only: sp)
  then show ?thesis
    using m by (intro set_eqI) (simp, metis)
qed

text \<open>
  C27: The keyword search is exact as long as the keywords do not overlap: if no proper suffix of two
  or more runes of an initial part of a keyword is an initial part of a keyword, then building the
  automaton ends, searching any text ends, and what is reported are all the occurrences
  of the keywords and nothing else, with the bytes where they start and end. This holds for every
  order in which the maps of the trie are visited.
\<close>

theorem keyword_search_exact:
  assumes "separated ps" "\<forall>xs. mset (it xs) = mset xs"
  shows "\<exists>m ms. buildAC it ps = Some m \<and> acFind m t = Some ms \<and> set ms = occurrences ps t"
proof -
  obtain m ws where m: "buildAC it ps = Some m" "phase ps ws {} m"
    using buildAC_phase [OF assms(1) [unfolded separated_noOverlap] assms(2)] by blast
  then have t: "trie m ws" and no: "noOverlap (set ws)"
    using assms(1) by (simp_all add: phase_def separated_noOverlap)
  then have z: "0 < length m" "ws ! 0 = []" "m \<noteq> []" "length ws = length m"
    by (simp_all add: trie_def)
  then have "longest (set ws) [] (ws ! 0)"
    using nth_mem [of 0 ws] by (simp add: longest_def)
  from findLoop_exact [OF m(2) no z(1) this, of "runeStarts 0 (utf8_chunks t)" "runes t"] obtain ms where
    "acFind m t = Some ms" "set ms = occurrences ps t"
    unfolding occurrences_at using z(3) by (auto simp: acFind_def)
  then show ?thesis
    using m(1) by blast
qed

text \<open>
  Without that condition the automaton misses keywords: a failure link is computed by following the
  next rune twice.
\<close>

lemma overlapping_keyword_missed:
  "\<exists>m. buildAC id [\<lparr>Pt_text = ''aaab'', Pt_rule = 0\<rparr>] = Some m \<and> acFind m ''aaaab'' = Some [] \<and>
     occurrences [\<lparr>Pt_text = ''aaab'', Pt_rule = 0\<rparr>] ''aaaab'' \<noteq> {}"
proof -
  let ?ps = "[\<lparr>Pt_text = ''aaab'', Pt_rule = 0\<rparr>]"
  have runes: "runes ''aaab'' = [97, 97, 97, 98]" "runes ''aaaab'' = [97, 97, 97, 97, 98]"
    by (simp_all add: runes_ascii codes_def)
  obtain m where m: "buildAC id ?ps = Some m" "acFind m ''aaaab'' = Some []"
    by (simp add: buildAC_def acTrie_def acInsert_def runes nextOf_def emptyNode_def linkChild_def Let_def acFind_def outMatches_def)
  have "\<lparr>Am_Rule = 0, Am_Start = byteAt ''aaaab'' 1, Am_End = byteAt ''aaaab'' (1 + runeLen ''aaab''), Am_Text = ''aaab''\<rparr>
      \<in> occurrences ?ps ''aaaab''"
    unfolding occurrences_def using runes
    by (intro CollectI exI [of _ "\<lparr>Pt_text = ''aaab'', Pt_rule = 0\<rparr>"] exI [of _ "[97]"] exI [of _ "[]"]) simp
  then show ?thesis
    using m by blast
qed

theorem keyword_search_exact_witness:
  "separated [\<lparr>Pt_text = ''loan'', Pt_rule = 0\<rparr>, \<lparr>Pt_text = ''win'', Pt_rule = 1\<rparr>] \<and>
   (\<exists>m ms. buildAC id [\<lparr>Pt_text = ''loan'', Pt_rule = 0\<rparr>, \<lparr>Pt_text = ''win'', Pt_rule = 1\<rparr>] = Some m \<and>
      acFind m ''a loan to win'' = Some ms \<and>
      set ms = occurrences [\<lparr>Pt_text = ''loan'', Pt_rule = 0\<rparr>, \<lparr>Pt_text = ''win'', Pt_rule = 1\<rparr>] ''a loan to win'')"
proof -
  let ?ps = "[\<lparr>Pt_text = ''loan'', Pt_rule = 0\<rparr>, \<lparr>Pt_text = ''win'', Pt_rule = 1\<rparr>]"
  have s: "separated ?ps"
    by (simp add: separated_def prefixList_def runes_ascii codes_def atLeastLessThanSuc)
  then show ?thesis
    using keyword_search_exact [of ?ps id] by simp
qed

end
