(* ===== verification/Go_Hash.thy ===== *)
theory Go_Hash
  imports Go_Strconv
begin

text \<open>
  What the program uses of Go's \<open>crypto/sha256\<close> and \<open>encoding/hex\<close>: the SHA-256 hash function
  of FIPS 180-4 on 32-bit words and the hexadecimal encoding of bytes.
\<close>

unbundle bit_operations_syntax

text \<open>
  The constants as the standard defines them: the first 32 bits of the fractional parts of the square
  roots of the first 8 primes and of the cube roots of the first 64 primes. The root is found bit by bit;
  35 bits are enough, since the cube root of the 64th prime is below 8.
\<close>

definition primesBelow :: "nat \<Rightarrow> nat list" where
  "primesBelow n = filter (\<lambda>p. list_all (\<lambda>q. p mod q \<noteq> 0) [2..<p]) [2..<n]"

definition integerRoot :: "nat \<Rightarrow> int \<Rightarrow> int" where
  "integerRoot k x = foldl (\<lambda>r i. let r2 = r + 2 ^ i in if r2 ^ k \<le> x then r2 else r) 0 (rev [0..<35])"

definition rootFraction :: "nat \<Rightarrow> nat \<Rightarrow> 32 word" where
  "rootFraction k p = of_int (integerRoot k (int p * 2 ^ (32 * k)))"

definition sha256Init :: "32 word list" where
  "sha256Init = map (rootFraction 2) (primesBelow 20)"

definition sha256K :: "32 word list" where
  "sha256K = map (rootFraction 3) (primesBelow 312)"

definition rotr32 :: "nat \<Rightarrow> 32 word \<Rightarrow> 32 word" where
  "rotr32 n x = word_rotr n x"

definition padding :: "bytes \<Rightarrow> bytes" where
  "padding msg =
     (let n = length msg; zeros = (119 - n mod 64) mod 64;
          bits = of_nat (8 * n) :: 64 word
      in msg @ [0x80] @ replicate zeros 0 @ be_put32 (ucast (drop_bit 32 bits)) @ be_put32 (ucast bits))"

fun wordsOf :: "bytes \<Rightarrow> 32 word list" where
  "wordsOf (a # b # c # d # bs) = be_get32 a b c d # wordsOf bs"
| "wordsOf bs = []"

text \<open>The message schedule, extended by one word at a time; the last sixteen words are enough.\<close>

definition nextW :: "32 word list \<Rightarrow> 32 word" where
  "nextW w =
     (let n = length w; w15 = w ! (n - 15); w2 = w ! (n - 2);
          s0 = rotr32 7 w15 XOR rotr32 18 w15 XOR drop_bit 3 w15;
          s1 = rotr32 17 w2 XOR rotr32 19 w2 XOR drop_bit 10 w2
      in w ! (n - 16) + s0 + w ! (n - 7) + s1)"

fun schedule :: "nat \<Rightarrow> 32 word list \<Rightarrow> 32 word list" where
  "schedule 0 w = w"
| "schedule (Suc k) w = schedule k (w @ [nextW w])"

fun shaRound :: "32 word list \<Rightarrow> 32 word \<times> 32 word \<Rightarrow> 32 word list" where
  "shaRound [a, b, c, d, e, f, g, h] (k, w) =
     (let s1 = rotr32 6 e XOR rotr32 11 e XOR rotr32 25 e;
          ch = (e AND f) XOR (NOT e AND g);
          t1 = h + s1 + ch + k + w;
          s0 = rotr32 2 a XOR rotr32 13 a XOR rotr32 22 a;
          maj = (a AND b) XOR (a AND c) XOR (b AND c)
      in [t1 + (s0 + maj), a, b, c, d + t1, e, f, g])"
| "shaRound hs kw = hs"

definition shaBlock :: "32 word list \<Rightarrow> 32 word list \<Rightarrow> 32 word list" where
  "shaBlock hs block = map2 (+) hs (foldl shaRound hs (zip sha256K (schedule 48 block)))"

function blocks :: "'a list \<Rightarrow> 'a list list" where
  "blocks xs = (if xs = [] then [] else take 16 xs # blocks (drop 16 xs))"
  by pat_completeness auto
termination
  by (relation "measure length") auto

declare blocks.simps [simp del]

definition Sum256 :: "bytes \<Rightarrow> bytes" where
  "Sum256 msg = concat (map be_put32 (foldl shaBlock sha256Init (blocks (wordsOf (padding msg)))))"

definition HexEncode :: "bytes \<Rightarrow> string" where
  "HexEncode bs = concat (map (\<lambda>b. [digitChar (unat b div 16), digitChar (unat b mod 16)]) bs)"

lemma length_wordsOf: "length bs mod 4 = 0 \<Longrightarrow> length (wordsOf bs) = length bs div 4"
  by (induction bs rule: wordsOf.induct) auto

lemma length_sha256Init: "length sha256Init = 8"
proof -
  have "length (primesBelow 20) = 8" by code_simp
  then show ?thesis by (simp add: sha256Init_def)
qed

lemma length_shaRound [simp]: "length (shaRound hs kw) = length hs"
  by (induction hs kw rule: shaRound.induct) (simp_all add: Let_def)

lemma length_foldl_shaRound [simp]: "length (foldl shaRound hs kws) = length hs"
  by (induction kws arbitrary: hs) simp_all

lemma length_foldl_shaBlock [simp]: "length (foldl shaBlock hs bs) = length hs"
  by (induction bs arbitrary: hs) (simp_all add: shaBlock_def)

lemma length_concat_put32: "length (concat (map be_put32 ws)) = 4 * length ws"
  by (induction ws) simp_all

lemma length_Sum256 [simp]: "length (Sum256 msg) = 32"
  by (simp add: Sum256_def length_concat_put32 length_sha256Init)

lemma length_HexEncode [simp]: "length (HexEncode bs) = 2 * length bs"
  by (induction bs) (simp_all add: HexEncode_def)

lemma digitChar_inj: "a < 36 \<Longrightarrow> b < 36 \<Longrightarrow> digitChar a = digitChar b \<longleftrightarrow> a = b"
  by (metis digitVal_digitChar option.inject)

lemma HexEncode_inj [simp]: "HexEncode as = HexEncode bs \<longleftrightarrow> as = bs"
proof (induction as arbitrary: bs)
  case Nil
  then show ?case by (cases bs) (simp_all add: HexEncode_def)
next
  case (Cons a as)
  show ?case
  proof (cases bs)
    case Nil
    then show ?thesis by (simp add: HexEncode_def)
  next
    case (Cons b bs')
    have lt: "unat x div 16 < 36" "unat x mod 16 < 36" for x :: byte
    proof -
      have "unat x < 256" using unsigned_less [of x, where ?'a = nat] by simp
      then show "unat x div 16 < 36" "unat x mod 16 < 36" by (simp_all add: div_less_iff_less_mult)
    qed
    have "unat a div 16 = unat b div 16 \<and> unat a mod 16 = unat b mod 16 \<longleftrightarrow> a = b"
      by (metis div_mult_mod_eq unsigned_word_eqI)
    moreover have "HexEncode (a # as) = HexEncode bs \<longleftrightarrow>
        (unat a div 16 = unat b div 16 \<and> unat a mod 16 = unat b mod 16) \<and> HexEncode as = HexEncode bs'"
      by (simp add: Cons HexEncode_def digitChar_inj [OF lt(1) lt(1)] digitChar_inj [OF lt(2) lt(2)])
    ultimately show ?thesis using Cons.IH [of bs'] by (simp add: \<open>bs = b # bs'\<close>)
  qed
qed

end
