(* ===== verification/Go_Date.thy ===== *)
theory Go_Date
  imports Go_Time
begin

text \<open>
  Printed dates: the layouts \<open>time.DateOnly\<close> in a zone and \<open>time.RFC3339Nano\<close> in UTC of Go's
  \<open>time\<close> package.
\<close>

definition civil :: "int \<Rightarrow> int \<times> int \<times> int" where
  "civil nanos = (let (y, yday) = dateYear nanos; (m, d) = monthDay (monthLengths y) 1 yday in (y, m, d))"

definition formatDate :: "int \<Rightarrow> string" where
  "formatDate nanos =
     (case civil nanos of (y, m, d) \<Rightarrow> fmtPadInt 4 y @ ''-'' @ dec2 m @ ''-'' @ dec2 d)"

definition formatDateOnly :: "WallTime \<Rightarrow> string" where
  "formatDateOnly t = formatDate (localNanos t)"

definition fraction :: "int \<Rightarrow> string" where
  "fraction ns = (if ns = 0 then [] else CHR ''.'' # TrimRightChar (padLeft CHR ''0'' 9 (FormatUint (nat ns) 10)) CHR ''0'')"

definition formatRFC3339Nano :: "gotime \<Rightarrow> string" where
  "formatRFC3339Nano t =
     (let secs = t div Second mod 86400 in
      formatDate t @ ''T'' @ dec2 (secs div 3600) @ '':'' @ dec2 (secs mod 3600 div 60) @ '':'' @ dec2 (secs mod 60) @
      fraction (t mod Second) @ ''Z'')"

definition formatCompact :: "gotime \<Rightarrow> string" where
  "formatCompact t =
     (case civil t of (y, m, d) \<Rightarrow>
        let secs = t div Second mod 86400 in
        fmtPadInt 4 y @ dec2 m @ dec2 d @ dec2 (secs div 3600) @ dec2 (secs mod 3600 div 60) @ dec2 (secs mod 60))"

text \<open>Nanoseconds since 1970; \<open>UnixNano\<close> of the time.\<close>

definition unixNano :: "gotime \<Rightarrow> int" where
  "unixNano t = t - 62135596800 * Second"

end
