(* ===== verification/Cdr_Log.thy ===== *)
theory Cdr_Log
  imports Gw_Config Go_Hash Go_Date
begin

text \<open>
  Call detail records (\<open>cdr/event.go\<close>, \<open>cdr/writer.go\<close>): the events, their normalisation and the
  writer that numbers events, queues them in a channel and writes them to files of at most
  \<open>MaxRecords\<close> lines.

  A file is the list of events written to it. The writer is a state machine: \<open>Emit\<close> and \<open>Close\<close> are
  called from outside, the loop takes an event from the channel or finds the current file too old. Whether
  an operation on the file system succeeds is an argument of the step.
\<close>

subsection \<open>Events\<close>

record Event =
  Ev_Seq :: "64 word"
  Ev_Ts :: string
  Ev_Kind :: string
  Ev_GatewayID :: string
  Ev_ProviderID :: string
  Ev_From :: string
  Ev_To :: string
  Ev_TextLen :: int
  Ev_TextHash :: string
  Ev_Text :: string
  Ev_Encoding :: string
  Ev_Segments :: int
  Ev_SegmentIndex :: int
  Ev_SegmentCount :: int
  Ev_MessageState :: string
  Ev_Final :: bool
  Ev_Route :: string
  Ev_Provider :: string
  Ev_ClientID :: string
  Ev_TenantID :: string
  Ev_AccountID :: string
  Ev_ClientMsgID :: string
  Ev_SystemID :: string
  Ev_Source :: string
  Ev_State :: string
  Ev_ErrorCode :: int
  Ev_Reason :: string
  Ev_FilterRule :: string
  Ev_Instance :: string

definition zeroEvent :: Event where
  "zeroEvent = \<lparr>Ev_Seq = 0, Ev_Ts = [], Ev_Kind = [], Ev_GatewayID = [], Ev_ProviderID = [], Ev_From = [], Ev_To = [],
     Ev_TextLen = 0, Ev_TextHash = [], Ev_Text = [], Ev_Encoding = [], Ev_Segments = 0, Ev_SegmentIndex = 0,
     Ev_SegmentCount = 0, Ev_MessageState = [], Ev_Final = False, Ev_Route = [], Ev_Provider = [], Ev_ClientID = [],
     Ev_TenantID = [], Ev_AccountID = [], Ev_ClientMsgID = [], Ev_SystemID = [], Ev_Source = [], Ev_State = [],
     Ev_ErrorCode = 0, Ev_Reason = [], Ev_FilterRule = [], Ev_Instance = []\<rparr>"

definition TextHash :: "string \<Rightarrow> string" where
  "TextHash t = HexEncode (Sum256 (bytes_of t))"

definition maskMSISDN :: "string \<Rightarrow> string" where
  "maskMSISDN v =
     (if length v \<le> 4 then replicate (length v) CHR ''*''
      else replicate (length v - 4) CHR ''*'' @ drop (length v - 4) v)"

definition normalizeEvent :: "gotime \<Rightarrow> string \<Rightarrow> bool \<Rightarrow> bool \<Rightarrow> Event \<Rightarrow> Event" where
  "normalizeEvent now instance maskTo storeText e =
     (let e1 = (if Ev_Ts e = [] then e\<lparr>Ev_Ts := formatRFC3339Nano now\<rparr> else e);
          e2 = (if instance \<noteq> [] \<and> Ev_Instance e1 = [] then e1\<lparr>Ev_Instance := instance\<rparr> else e1);
          e3 = (if maskTo then e2\<lparr>Ev_To := maskMSISDN (Ev_To e2)\<rparr> else e2)
      in if \<not> storeText then e3\<lparr>Ev_Text := []\<rparr> else e3)"

subsection \<open>The writer\<close>

record cdrFile =
  Cf_writing :: string
  Cf_lines :: "Event list"
  Cf_count :: int

record Writer =
  Cw_cfg :: CDRConfig
  Cw_in :: "Event list"
  Cw_closed :: bool
  Cw_dropped :: "64 word"
  Cw_seq :: "64 word"
  Cw_current :: "cdrFile option"
  Cw_final :: "(string \<times> Event list) list"
  Cw_failed :: bool

text \<open>The host name is an argument, as is whether the directory could be made.\<close>

definition writerConfig :: "string \<Rightarrow> CDRConfig \<Rightarrow> CDRConfig" where
  "writerConfig host cfg =
     (let c1 = (if Cd_MaxRecords cfg \<le> 0 then cfg\<lparr>Cd_MaxRecords := 10000\<rparr> else cfg);
          c2 = (if Cd_Buffer c1 \<le> 0 then c1\<lparr>Cd_Buffer := 1\<rparr> else c1);
          c3 = (if Cd_OnFull c2 = [] then c2\<lparr>Cd_OnFull := ''block''\<rparr> else c2);
          c4 = (if Cd_FsyncInterval c3 = [] then c3\<lparr>Cd_FsyncInterval := ''2s''\<rparr> else c3);
          c5 = (if Cd_MaxAge c4 = [] then c4\<lparr>Cd_MaxAge := ''1h''\<rparr> else c4);
          c6 = (if Cd_Instance c5 = [] then c5\<lparr>Cd_Instance := host\<rparr> else c5)
      in if Cd_Mode c6 = [] then c6\<lparr>Cd_Mode := ''events''\<rparr> else c6)"

datatype CdrError = ErrModeNotImplemented string | ErrMkdir

definition NewWriter :: "string \<Rightarrow> bool \<Rightarrow> CDRConfig \<Rightarrow> CdrError + Writer option" where
  "NewWriter host mkdirOK cfg0 =
     (if \<not> Cd_Enabled cfg0 then Inr None
      else let cfg = writerConfig host cfg0 in
           if Cd_Mode cfg \<noteq> ''events'' then Inl (ErrModeNotImplemented (Cd_Mode cfg))
           else if \<not> mkdirOK then Inl ErrMkdir
           else Inr (Some \<lparr>Cw_cfg = cfg, Cw_in = [], Cw_closed = False, Cw_dropped = 0, Cw_seq = 0, Cw_current = None,
                  Cw_final = [], Cw_failed = False\<rparr>))"

text \<open>
  Sending to a full channel waits; this is the value \<open>None\<close>, and the call goes on when the loop has
  taken an event.
\<close>

definition Emit :: "gotime \<Rightarrow> Event \<Rightarrow> Writer \<Rightarrow> Writer option" where
  "Emit now e w =
     (if Cw_closed w then Some w
      else let n = Cw_seq w + 1;
               e2 = normalizeEvent now (Cd_Instance (Cw_cfg w)) (Cd_MaskTo (Cw_cfg w)) (Cd_StoreText (Cw_cfg w)) (e\<lparr>Ev_Seq := n\<rparr>);
               room = int (length (Cw_in w)) < Cd_Buffer (Cw_cfg w)
           in if room then Some (w\<lparr>Cw_seq := n, Cw_in := Cw_in w @ [e2]\<rparr>)
              else if Cd_OnFull (Cw_cfg w) = ''drop'' then Some (w\<lparr>Cw_seq := n, Cw_dropped := Cw_dropped w + 1\<rparr>)
              else None)"

definition safeRune :: "rune \<Rightarrow> bool" where
  "safeRune r \<longleftrightarrow> (97 \<le> r \<and> r \<le> 122) \<or> (65 \<le> r \<and> r \<le> 90) \<or> (48 \<le> r \<and> r \<le> 57) \<or> r = 45 \<or> r = 95"

definition safeInstance :: "string \<Rightarrow> string" where
  "safeInstance v =
     (if v = [] then ''default'' else string_of_runes (map (\<lambda>r. if safeRune r then r else 95) (runes v)))"

text \<open>If the name is \<open>taken\<close> another one is used. The name is kept without directory and ending.\<close>

definition openCDRFile :: "gotime \<Rightarrow> bool \<Rightarrow> string \<Rightarrow> cdrFile" where
  "openCDRFile now taken instance =
     (let base = ''cdr-'' @ formatCompact now @ ''-'' @ Itoa (unixNano now) @ ''-'' @ safeInstance instance in
      \<lparr>Cf_writing = (if taken then base @ ''-'' @ Itoa (unixNano now) else base), Cf_lines = [], Cf_count = 0\<rparr>)"

definition writeEvent :: "Event \<Rightarrow> cdrFile \<Rightarrow> cdrFile" where
  "writeEvent e fl = fl\<lparr>Cf_lines := Cf_lines fl @ [e], Cf_count := Cf_count fl + 1\<rparr>"

text \<open>Closing a file gives it its final name, which tells the number of records; an empty file is removed.\<close>

definition closeFile :: "cdrFile \<Rightarrow> (string \<times> Event list) list" where
  "closeFile fl =
     (if Cf_count fl = 0 then [] else [(Cf_writing fl @ ''-'' @ Itoa (Cf_count fl) @ ''.jsonl'', Cf_lines fl)])"

definition finishCurrent :: "Writer \<Rightarrow> Writer" where
  "finishCurrent w =
     (case Cw_current w of
        None \<Rightarrow> w
      | Some fl \<Rightarrow> w\<lparr>Cw_current := None, Cw_final := Cw_final w @ closeFile fl\<rparr>)"

text \<open>
  The loop takes an event. Opening a file fails (\<open>None\<close>) or succeeds, with the first name or because it is taken with
  the second; \<open>writeOK\<close> says whether the event could be written.
\<close>

definition loopEvent :: "gotime \<Rightarrow> bool option \<Rightarrow> bool \<Rightarrow> Event \<Rightarrow> Writer \<Rightarrow> Writer" where
  "loopEvent now opened writeOK e w =
     (if Cw_current w = None \<and> opened = None then w\<lparr>Cw_failed := True\<rparr>
      else let fl = (case Cw_current w of Some fl \<Rightarrow> fl | None \<Rightarrow> openCDRFile now (the opened) (Cd_Instance (Cw_cfg w))) in
           if \<not> writeOK then w\<lparr>Cw_current := Some fl, Cw_failed := True\<rparr>
           else let fl2 = writeEvent e fl; w2 = w\<lparr>Cw_current := Some fl2\<rparr> in
                if Cd_MaxRecords (Cw_cfg w) \<le> Cf_count fl2 then finishCurrent w2 else w2)"

definition loopTake :: "gotime \<Rightarrow> bool option \<Rightarrow> bool \<Rightarrow> Writer \<Rightarrow> Writer" where
  "loopTake now opened writeOK w =
     (case Cw_in w of
        [] \<Rightarrow> if Cw_closed w then finishCurrent w else w
      | e # es \<Rightarrow> loopEvent now opened writeOK e (w\<lparr>Cw_in := es\<rparr>))"

definition CloseWriter :: "Writer \<Rightarrow> Writer" where
  "CloseWriter w = w\<lparr>Cw_closed := True\<rparr>"

subsection \<open>Runs of the writer\<close>

datatype CdrOp = OpEmit gotime Event | OpTake gotime "bool option" bool | OpAge | OpClose

text \<open>A call of \<open>Emit\<close> that waits changes nothing; it is taken up again by a later step.\<close>

fun cdrStep :: "CdrOp \<Rightarrow> Writer \<Rightarrow> Writer" where
  "cdrStep (OpEmit now e) w = (case Emit now e w of Some w2 \<Rightarrow> w2 | None \<Rightarrow> w)"
| "cdrStep (OpTake now opened writeOK) w = loopTake now opened writeOK w"
| "cdrStep OpAge w = finishCurrent w"
| "cdrStep OpClose w = CloseWriter w"

fun noFailure :: "CdrOp \<Rightarrow> bool" where
  "noFailure (OpTake now opened writeOK) \<longleftrightarrow> opened \<noteq> None \<and> writeOK"
| "noFailure opr \<longleftrightarrow> True"

definition cdrRun :: "CdrOp list \<Rightarrow> Writer \<Rightarrow> Writer" where
  "cdrRun ops w = foldl (\<lambda>w opr. cdrStep opr w) w ops"

definition held :: "Writer \<Rightarrow> Event list" where
  "held w = concat (map snd (Cw_final w)) @ (case Cw_current w of Some fl \<Rightarrow> Cf_lines fl | None \<Rightarrow> []) @ Cw_in w"

text \<open>The events a run puts into the channel.\<close>

fun queued :: "CdrOp list \<Rightarrow> Writer \<Rightarrow> Event list" where
  "queued [] w = []"
| "queued (opr # ops) w =
     (case opr of
        OpEmit now e \<Rightarrow> (case Emit now e w of Some w2 \<Rightarrow> drop (length (Cw_in w)) (Cw_in w2) | None \<Rightarrow> [])
      | _ \<Rightarrow> []) @ queued ops (cdrStep opr w)"

definition fileOK :: "int \<Rightarrow> string \<times> Event list \<Rightarrow> bool" where
  "fileOK limit f \<longleftrightarrow> snd f \<noteq> [] \<and> int (length (snd f)) \<le> limit"

definition writer_inv :: "Writer \<Rightarrow> bool" where
  "writer_inv w \<longleftrightarrow> 0 < Cd_MaxRecords (Cw_cfg w) \<and> list_all (fileOK (Cd_MaxRecords (Cw_cfg w))) (Cw_final w) \<and>
     (case Cw_current w of None \<Rightarrow> True
      | Some fl \<Rightarrow> Cf_count fl = int (length (Cf_lines fl)) \<and> Cf_count fl < Cd_MaxRecords (Cw_cfg w))"

lemma Emit_frame:
  assumes "Emit now e w = Some w2"
  shows "Cw_cfg w2 = Cw_cfg w \<and> Cw_final w2 = Cw_final w \<and> Cw_current w2 = Cw_current w \<and>
    Cw_in w2 = Cw_in w @ drop (length (Cw_in w)) (Cw_in w2)"
  using assms by (auto simp: Emit_def Let_def split: if_splits)

lemma finishCurrent_held: "writer_inv w \<Longrightarrow> held (finishCurrent w) = held w"
  by (auto simp: finishCurrent_def held_def closeFile_def writer_inv_def split: option.splits)

lemma finishCurrent_inv: "writer_inv w \<Longrightarrow> writer_inv (finishCurrent w)"
  by (auto simp: finishCurrent_def closeFile_def writer_inv_def fileOK_def split: option.splits)

lemma loopEvent_ok:
  assumes "writer_inv w" "noFailure (OpTake now opened writeOK)" "Cw_in w = e # es"
  shows "held (loopEvent now opened writeOK e (w\<lparr>Cw_in := es\<rparr>)) = held w \<and>
    writer_inv (loopEvent now opened writeOK e (w\<lparr>Cw_in := es\<rparr>))"
  using assms
  by (cases "Cw_current w")
    (auto simp: loopEvent_def Let_def writeEvent_def openCDRFile_def finishCurrent_def closeFile_def held_def writer_inv_def
       fileOK_def)

lemma cdrStep_ok:
  assumes inv: "writer_inv w" and ok: "noFailure opr"
  shows "held (cdrStep opr w) = held w @ queued [opr] w \<and> writer_inv (cdrStep opr w)"
proof (cases opr)
  case (OpEmit now e)
  show ?thesis
  proof (cases "Emit now e w")
    case (Some w2)
    from Emit_frame [OF this] have f: "Cw_cfg w2 = Cw_cfg w" "Cw_final w2 = Cw_final w" "Cw_current w2 = Cw_current w"
      "Cw_in w2 = Cw_in w @ drop (length (Cw_in w)) (Cw_in w2)"
      by simp_all
    have "held w2 = held w @ drop (length (Cw_in w)) (Cw_in w2)"
      unfolding held_def f(2,3) by (subst f(4)) simp
    moreover have "writer_inv w2"
      using inv unfolding writer_inv_def f(1-3) .
    ultimately show ?thesis
      using OpEmit Some by simp
  qed (use inv OpEmit in simp)
next
  case (OpTake now opened writeOK)
  then show ?thesis
    using inv ok loopEvent_ok [OF inv] finishCurrent_held [OF inv] finishCurrent_inv [OF inv]
    by (auto simp: loopTake_def split: list.split)
next
  case OpAge
  then show ?thesis
    using finishCurrent_held [OF inv] finishCurrent_inv [OF inv] by simp
next
  case OpClose
  have "writer_inv (CloseWriter w)"
    using inv by (cases "Cw_current w") (simp_all add: writer_inv_def CloseWriter_def)
  then show ?thesis
    using OpClose by (simp add: CloseWriter_def held_def)
qed

lemma cdrRun_ok:
  assumes "writer_inv w" "list_all noFailure ops"
  shows "held (cdrRun ops w) = held w @ queued ops w \<and> writer_inv (cdrRun ops w)"
  using assms
proof (induction ops arbitrary: w)
  case (Cons opr ops)
  then show ?case
    using cdrStep_ok [of w opr] by (simp add: cdrRun_def)
qed (simp add: cdrRun_def)

lemma writerConfig_max: "0 < Cd_MaxRecords (writerConfig host cfg)"
  unfolding writerConfig_def Let_def by simp

lemma NewWriter_inv: "NewWriter host mk cfg = Inr (Some w) \<Longrightarrow> writer_inv w \<and> held w = []"
  using writerConfig_max [of host cfg] by (auto simp: NewWriter_def writer_inv_def held_def Let_def split: if_splits)

text \<open>
  C29: As long as the file system does not fail, the call detail records lose, duplicate and reorder
  nothing: at every moment the records in the finished files, in the open file and in the channel
  are, in this order, the events that were put into the channel. No finished file is empty and none
  is longer than the configured number of records.
\<close>

theorem cdr_no_loss:
  assumes "NewWriter host True cfg = Inr (Some w)" and "list_all noFailure ops"
  shows "held (cdrRun ops w) = queued ops w \<and>
    list_all (fileOK (Cd_MaxRecords (Cw_cfg (cdrRun ops w)))) (Cw_final (cdrRun ops w))"
  using cdrRun_ok [OF conjunct1 [OF NewWriter_inv [OF assms(1)]] assms(2)] NewWriter_inv [OF assms(1)]
  by (simp add: writer_inv_def)

definition exampleCDR :: CDRConfig where
  "exampleCDR = \<lparr>Cd_Enabled = True, Cd_Dir = ''cdr'', Cd_Mode = ''events'', Cd_MaxRecords = 1, Cd_MaxAge = ''1h'', Cd_Buffer = 4,
     Cd_OnFull = ''block'', Cd_FsyncEvery = 0, Cd_FsyncInterval = ''2s'', Cd_Instance = ''a'', Cd_MaskTo = True,
     Cd_StoreText = False\<rparr>"

definition exampleWriter :: Writer where
  "exampleWriter = \<lparr>Cw_cfg = exampleCDR, Cw_in = [], Cw_closed = False, Cw_dropped = 0, Cw_seq = 0, Cw_current = None,
     Cw_final = [], Cw_failed = False\<rparr>"

theorem cdr_no_loss_witness:
  "length (held (cdrRun [OpEmit 5 zeroEvent, OpEmit 6 zeroEvent, OpTake 7 (Some False) True] exampleWriter)) = 2"
proof -
  let ?ops = "[OpEmit 5 zeroEvent, OpEmit 6 zeroEvent, OpTake 7 (Some False) True]"
  have "NewWriter [] True exampleCDR = Inr (Some exampleWriter)" "list_all noFailure ?ops"
    by (simp_all add: NewWriter_def writerConfig_def exampleCDR_def exampleWriter_def)
  then have "held (cdrRun ?ops exampleWriter) = queued ?ops exampleWriter"
    using cdr_no_loss by blast
  then show ?thesis
    by (simp add: Emit_def exampleWriter_def exampleCDR_def)
qed

end
