(* ===== verification/Smpp_Client.thy ===== *)
theory Smpp_Client
  imports Smpp_Pdu Gw_Config
begin

text \<open>
  The SMPP client towards an upstream provider, first part (\<open>smppclient/encode.go\<close>, \<open>smppclient/types.go\<close>): how a
  message becomes the bodies of one or more submit_sm requests, as a raw payload, with a user data header, with the
  segmentation parameters, as one message_payload parameter, or split.

  The lemmas relate the bodies to the parser of the gateway's own server (\<open>ParseSubmitSM\<close>): every body has the
  layout of a submit_sm, and what it holds is read back. The table of letters of the \<open>unicode\<close> package and the random
  reference number of a split are arguments.
\<close>

subsection \<open>Messages and parameters\<close>

record ClientMessage =
  Cm_GatewayID :: string
  Cm_SourceAddr :: string
  Cm_DestAddr :: string
  Cm_Text :: string
  Cm_DataCoding :: byte
  Cm_RegisteredDelivery :: byte
  Cm_Encoding :: string
  Cm_UDH :: bytes
  Cm_RawPayload :: bytes
  Cm_RawPayloadSet :: bool
  Cm_SARRefNum :: bytes
  Cm_SARTotalSegments :: bytes
  Cm_SARSegmentSeqnum :: bytes
  Cm_SARSet :: bool

record submitBodyParams =
  Sp_Cfg :: SMPPClientConfig
  Sp_Msg :: ClientMessage
  Sp_DataCoding :: byte
  Sp_RegisteredDelivery :: byte
  Sp_ShortMessage :: bytes
  Sp_MessagePayload :: bytes
  Sp_TLVs :: "TLV list"
  Sp_SourceTON :: byte
  Sp_SourceNPI :: byte
  Sp_DestTON :: byte
  Sp_DestNPI :: byte
  Sp_ESMClass :: byte

definition stripPlus :: "string \<Rightarrow> string" where
  "stripPlus value = TrimPrefix value ''+''"

definition hasLetter :: "(nat \<Rightarrow> bool) \<Rightarrow> string \<Rightarrow> bool" where
  "hasLetter isLetter value = list_ex isLetter (runes value)"

definition sourceTON :: "(nat \<Rightarrow> bool) \<Rightarrow> string \<Rightarrow> int \<Rightarrow> byte" where
  "sourceTON isLetter addr configured =
     (if configured \<ge> 0 then of_int configured
      else if hasLetter isLetter addr then 5
      else let digits = TrimPrefix addr ''+'' in
        if HasPrefix addr ''+'' \<or> length digits > 8 then 1 else 3)"

definition sourceNPI :: "(nat \<Rightarrow> bool) \<Rightarrow> string \<Rightarrow> int \<Rightarrow> byte" where
  "sourceNPI isLetter addr configured =
     (if configured \<ge> 0 then of_int configured
      else if hasLetter isLetter addr \<or> length (TrimPrefix addr ''+'') \<le> 8 then 0
      else 1)"

definition clientEncodeText :: "string \<Rightarrow> byte \<Rightarrow> string \<Rightarrow> bytes" where
  "clientEncodeText text dataCoding packing =
     (if dataCoding = 0x08 then EncodeText text dataCoding
      else if packing = ''packed'' then EncodeText text dataCoding
      else EncodeGSM7Unpacked text)"

definition encodeMessagePayload :: "ClientMessage \<Rightarrow> byte \<Rightarrow> string \<Rightarrow> bytes" where
  "encodeMessagePayload msg dataCoding packing =
     (if Cm_RawPayloadSet msg then Cm_RawPayload msg
      else clientEncodeText (Cm_Text msg) dataCoding packing)"

subsection \<open>The body of a request\<close>

definition buildSubmitBody :: "submitBodyParams \<Rightarrow> bytes" where
  "buildSubmitBody params =
     (let cfg = Sp_Cfg params; msg = Sp_Msg params; sm = Sp_ShortMessage params;
          body = CString (Sc_ServiceType cfg) @ [Sp_SourceTON params, Sp_SourceNPI params]
            @ CString (stripPlus (Cm_SourceAddr msg)) @ [Sp_DestTON params, Sp_DestNPI params]
            @ CString (stripPlus (Cm_DestAddr msg)) @ [Sp_ESMClass params, 0x00, 0x00]
            @ CString [] @ CString (Sc_ValidityPeriod cfg)
            @ [Sp_RegisteredDelivery params, 0x00, Sp_DataCoding params, 0x00];
          (body1, payload) =
            (if length sm > 254 then (body @ [0x00], sm)
             else (body @ [of_nat (length sm)] @ sm, Sp_MessagePayload params));
          tlvs = (if length payload > 0
                  then Sp_TLVs params @ [\<lparr>Tlv_Tag = TagMessagePayload, Tlv_Value = payload\<rparr>]
                  else Sp_TLVs params)
      in foldl (\<lambda>b item. appendTLVBytes b (Tlv_Tag item) (Tlv_Value item)) body1 tlvs)"

text \<open>The fields that every composite literal of \<open>submitBodyParams\<close> in the file sets in the same way; the others are zero.\<close>

definition bodyParams ::
  "(nat \<Rightarrow> bool) \<Rightarrow> ClientMessage \<Rightarrow> SMPPClientConfig \<Rightarrow> byte \<Rightarrow> byte \<Rightarrow> submitBodyParams" where
  "bodyParams isLetter msg cfg dataCoding registeredDelivery =
     \<lparr>Sp_Cfg = cfg, Sp_Msg = msg, Sp_DataCoding = dataCoding,
      Sp_RegisteredDelivery = registeredDelivery, Sp_ShortMessage = [], Sp_MessagePayload = [],
      Sp_TLVs = [],
      Sp_SourceTON = sourceTON isLetter (Cm_SourceAddr msg) (Sc_SourceTON cfg),
      Sp_SourceNPI = sourceNPI isLetter (Cm_SourceAddr msg) (Sc_SourceNPI cfg),
      Sp_DestTON = of_int (Sc_DestTON cfg), Sp_DestNPI = of_int (Sc_DestNPI cfg),
      Sp_ESMClass = 0\<rparr>"

definition sarTLVs :: "bytes \<Rightarrow> bytes \<Rightarrow> bytes \<Rightarrow> TLV list" where
  "sarTLVs ref tot part =
     [\<lparr>Tlv_Tag = TagSARMsgRefNum, Tlv_Value = ref\<rparr>,
      \<lparr>Tlv_Tag = TagSARTotalSegments, Tlv_Value = tot\<rparr>,
      \<lparr>Tlv_Tag = TagSARSegmentSeqnum, Tlv_Value = part\<rparr>]"

definition buildSplitSubmitSM ::
  "(nat \<Rightarrow> bool) \<Rightarrow> 16 word \<Rightarrow> ClientMessage \<Rightarrow> SMPPClientConfig \<Rightarrow> string \<Rightarrow> byte \<Rightarrow> byte \<Rightarrow> bytes list" where
  "buildSplitSubmitSM isLetter ref msg cfg encoding dataCoding registeredDelivery =
     map (\<lambda>segment.
            let payload = clientEncodeText (Seg_Text segment) dataCoding (Sc_GSM7Packing cfg) in
            buildSubmitBody ((bodyParams isLetter msg cfg dataCoding registeredDelivery)
              \<lparr>Sp_ShortMessage := Seg_UDH segment @ payload, Sp_ESMClass := 0x40\<rparr>))
         (Split ref (Cm_Text msg) encoding)"

text \<open>The loop over the segments at the end of \<open>BuildSubmitSM\<close>.\<close>

definition segmentParts ::
  "(nat \<Rightarrow> bool) \<Rightarrow> 16 word \<Rightarrow> ClientMessage \<Rightarrow> SMPPClientConfig \<Rightarrow> string \<Rightarrow> byte \<Rightarrow> byte \<Rightarrow> bytes list" where
  "segmentParts isLetter ref msg cfg encoding dataCoding registeredDelivery =
     (let segments = Split ref (Cm_Text msg) encoding in
      map (\<lambda>segment.
             let payload = clientEncodeText (Seg_Text segment) dataCoding (Sc_GSM7Packing cfg);
                 (esmClass, sm, tlvs) =
                   (if length segments > 1
                    then if Sc_LongMessage cfg = ''sar''
                         then (0, payload, sarTLVs (be_put16 (Seg_Reference segment))
                                 [of_int (Seg_Total segment)] [of_int (Seg_Part segment)])
                         else (0x40, Seg_UDH segment @ payload, [])
                    else (0, payload, []))
             in buildSubmitBody ((bodyParams isLetter msg cfg dataCoding registeredDelivery)
                  \<lparr>Sp_ShortMessage := sm, Sp_TLVs := tlvs, Sp_ESMClass := esmClass\<rparr>))
          segments)"

definition submitCoding :: "ClientMessage \<Rightarrow> string \<times> byte" where
  "submitCoding msg =
     (let encoding = (if Cm_Encoding msg = [] \<or> Cm_Encoding msg = ''auto''
                      then DetectEncoding (Cm_Text msg) else Cm_Encoding msg);
          dataCoding = (if \<not> Cm_RawPayloadSet msg \<and> Cm_DataCoding msg = 0 \<and> EqualFold encoding ''ucs2''
                        then 0x08 else Cm_DataCoding msg)
      in (if dataCoding = 0x08 then ''ucs2'' else if dataCoding = 0x03 then ''8bit'' else encoding,
          dataCoding))"

definition BuildSubmitSM ::
  "(nat \<Rightarrow> bool) \<Rightarrow> 16 word \<Rightarrow> ClientMessage \<Rightarrow> SMPPClientConfig \<Rightarrow> bytes list" where
  "BuildSubmitSM isLetter ref msg cfg =
     (let (encoding, dataCoding) = submitCoding msg;
          registeredDelivery = (if Sc_RegisteredDelivery cfg \<ge> 0 then of_int (Sc_RegisteredDelivery cfg)
                                else Cm_RegisteredDelivery msg);
          params = bodyParams isLetter msg cfg dataCoding registeredDelivery;
          payload = encodeMessagePayload msg dataCoding (Sc_GSM7Packing cfg)
      in if Cm_SARSet msg
         then [buildSubmitBody (params\<lparr>Sp_ShortMessage := payload,
                 Sp_TLVs := sarTLVs (Cm_SARRefNum msg) (Cm_SARTotalSegments msg) (Cm_SARSegmentSeqnum msg)\<rparr>)]
         else if length (Cm_UDH msg) > 0
         then (case (if Sc_LongMessage cfg = ''sar'' \<and> \<not> Cm_RawPayloadSet msg
                     then ParseConcat (Cm_UDH msg) else None) of
                 Some info \<Rightarrow>
                   [buildSubmitBody (params\<lparr>Sp_ShortMessage := payload,
                      Sp_TLVs := sarTLVs (be_put16 (Cc_Reference info)) [Cc_Total info] [Cc_Part info]\<rparr>)]
               | None \<Rightarrow>
                   let sm = Cm_UDH msg @ payload in
                   if Sc_LongMessage cfg = ''udh'' \<and> \<not> Cm_RawPayloadSet msg \<and> length sm > 254
                   then buildSplitSubmitSM isLetter ref msg cfg encoding dataCoding registeredDelivery
                   else [buildSubmitBody (params\<lparr>Sp_ShortMessage := sm, Sp_ESMClass := 0x40\<rparr>)])
         else if Sc_LongMessage cfg = ''payload''
         then [buildSubmitBody (params\<lparr>Sp_MessagePayload := payload\<rparr>)]
         else if Cm_RawPayloadSet msg
         then [buildSubmitBody (params\<lparr>Sp_ShortMessage := Cm_RawPayload msg\<rparr>)]
         else segmentParts isLetter ref msg cfg encoding dataCoding registeredDelivery)"

subsection \<open>The layout of a body\<close>

text \<open>
  The content that a body carries, in the short message or in the message_payload parameter, and the frame of the
  body in the sense of the server's parser.
\<close>

definition carriedContent :: "submitBodyParams \<Rightarrow> bytes" where
  "carriedContent p = (if Sp_ShortMessage p \<noteq> [] then Sp_ShortMessage p else Sp_MessagePayload p)"

definition bodyFrame :: "submitBodyParams \<Rightarrow> SubmitFrame" where
  "bodyFrame p =
     (let long = length (Sp_ShortMessage p) > 254;
          payload = (if long then Sp_ShortMessage p else Sp_MessagePayload p) in
      \<lparr>Fr_ServiceType = Sc_ServiceType (Sp_Cfg p), Fr_SrcTonNpi = (Sp_SourceTON p, Sp_SourceNPI p),
       Fr_Src = stripPlus (Cm_SourceAddr (Sp_Msg p)), Fr_DstTonNpi = (Sp_DestTON p, Sp_DestNPI p),
       Fr_Dst = stripPlus (Cm_DestAddr (Sp_Msg p)), Fr_Fixed = (Sp_ESMClass p, 0, 0),
       Fr_Schedule = [], Fr_Validity = Sc_ValidityPeriod (Sp_Cfg p),
       Fr_Delivery = (Sp_RegisteredDelivery p, 0, Sp_DataCoding p, 0),
       Fr_ShortMessage = (if long then [] else Sp_ShortMessage p),
       Fr_TLVs = Sp_TLVs p @ (if payload = [] then []
                              else [\<lparr>Tlv_Tag = TagMessagePayload, Tlv_Value = payload\<rparr>])\<rparr>)"

definition messageOK :: "ClientMessage \<Rightarrow> SMPPClientConfig \<Rightarrow> bool" where
  "messageOK msg cfg \<longleftrightarrow> cstrOK (Sc_ServiceType cfg) smppMaxServiceType \<and> cstrOK (Sc_ValidityPeriod cfg) 16
     \<and> cstrOK (stripPlus (Cm_SourceAddr msg)) SMPPMaxAddress
     \<and> cstrOK (stripPlus (Cm_DestAddr msg)) SMPPMaxAddress"

definition contentOK :: "submitBodyParams \<Rightarrow> bool" where
  "contentOK p \<longleftrightarrow> (Sp_ShortMessage p = [] \<or> Sp_MessagePayload p = [])
     \<and> length (Sp_ShortMessage p) < 65536 \<and> length (Sp_MessagePayload p) < 65536
     \<and> (\<forall>t \<in> set (Sp_TLVs p). length (Tlv_Value t) < 65536 \<and> Tlv_Tag t \<noteq> TagMessagePayload)"

lemma foldl_appendTLV:
  "foldl (\<lambda>b item. appendTLVBytes b (Tlv_Tag item) (Tlv_Value item)) body ts = body @ encodeTLVs ts"
  by (induction ts arbitrary: body) (simp_all add: encodeTLVs_def tlvBytes_def appendTLVBytes_def)

lemma buildSubmitBody_frame: "buildSubmitBody p = frameBytes (bodyFrame p)"
  by (simp add: buildSubmitBody_def bodyFrame_def frameBytes_def Let_def foldl_appendTLV)

lemma bodyFrame_ok: "messageOK (Sp_Msg p) (Sp_Cfg p) \<Longrightarrow> contentOK p \<Longrightarrow> frameOK (bodyFrame p)"
  by (auto simp: messageOK_def contentOK_def frameOK_def bodyFrame_def Let_def cstrOK_def)

lemma FindTLV_append:
  "FindTLV (xs @ ys) t = (case FindTLV xs t of Some v \<Rightarrow> Some v | None \<Rightarrow> FindTLV ys t)"
  by (induction xs) simp_all

lemma FindTLV_None: "FindTLV xs t = None \<longleftrightarrow> (\<forall>x \<in> set xs. Tlv_Tag x \<noteq> t)"
  by (induction xs) auto

lemma duplicateSARLoop_snoc:
  "\<not> isSARTag (Tlv_Tag y) \<Longrightarrow> duplicateSARLoop seen (xs @ [y]) = duplicateSARLoop seen xs"
  by (induction xs arbitrary: seen) simp_all

lemma payload_not_SAR: "\<not> isSARTag TagMessagePayload" "TagMessagePayload \<noteq> TagSARMsgRefNum"
    "TagMessagePayload \<noteq> TagSARTotalSegments" "TagMessagePayload \<noteq> TagSARSegmentSeqnum"
  by (simp_all add: isSARTag_def tag_defs)

text \<open>Content in the message_payload parameter is read like the same content in the short message.\<close>

lemma submitContent_payload:
  assumes "\<forall>t \<in> set tlvs. Tlv_Tag t \<noteq> TagMessagePayload"
  shows "submitContent [] 0 e (tlvs @ [\<lparr>Tlv_Tag = TagMessagePayload, Tlv_Value = c\<rparr>])
    = submitContent c (length c) e tlvs"
proof -
  let ?ts = "tlvs @ [\<lparr>Tlv_Tag = TagMessagePayload, Tlv_Value = c\<rparr>]"
  have n: "FindTLV tlvs TagMessagePayload = None" using assms by (simp add: FindTLV_None)
  have f: "FindTLV ?ts TagMessagePayload = Some c" by (simp add: FindTLV_append n)
  have o: "FindTLV ?ts t = FindTLV tlvs t" if "t \<noteq> TagMessagePayload" for t
    using that by (simp add: FindTLV_append split: option.split)
  have h: "HasSAR ?ts = HasSAR tlvs" by (simp add: HasSAR_def payload_not_SAR)
  have s: "ParseSAR ?ts = ParseSAR tlvs" unfolding ParseSAR_def by (simp add: o payload_not_SAR(2-4) [symmetric])
  have d: "hasDuplicateSARTag ?ts = hasDuplicateSARTag tlvs"
    by (simp add: hasDuplicateSARTag_def duplicateSARLoop_snoc payload_not_SAR)
  have "submitConcat u ?ts = submitConcat u tlvs" for u unfolding submitConcat_def h s ..
  then show ?thesis unfolding submitContent_def d f h n by simp
qed

lemma bodyFrame_content:
  assumes "contentOK p"
  shows "submitContent (Fr_ShortMessage (bodyFrame p)) (length (Fr_ShortMessage (bodyFrame p)))
      (fst (Fr_Fixed (bodyFrame p))) (Fr_TLVs (bodyFrame p))
    = submitContent (carriedContent p) (length (carriedContent p)) (Sp_ESMClass p) (Sp_TLVs p)"
proof -
  have t: "\<forall>t \<in> set (Sp_TLVs p). Tlv_Tag t \<noteq> TagMessagePayload" using assms by (simp add: contentOK_def)
  note sc = submitContent_payload [OF t]
  consider (long) "length (Sp_ShortMessage p) > 254"
    | (short) "length (Sp_ShortMessage p) \<le> 254" "Sp_MessagePayload p = []"
    | (payload) "Sp_ShortMessage p = []" "Sp_MessagePayload p \<noteq> []"
    using assms unfolding contentOK_def by force
  then show ?thesis
  proof cases
    case long
    then have "Sp_ShortMessage p \<noteq> []" by auto
    with long show ?thesis by (simp add: bodyFrame_def carriedContent_def Let_def sc)
  next
    case short
    then show ?thesis by (simp add: bodyFrame_def carriedContent_def Let_def)
  next
    case payload
    then show ?thesis by (simp add: bodyFrame_def carriedContent_def Let_def sc)
  qed
qed

lemma parse_built:
  assumes "messageOK (Sp_Msg p) (Sp_Cfg p)" "contentOK p" "Pdu_Body pdu = buildSubmitBody p"
  shows "ParseSubmitSM pdu =
     bindE (submitContent (carriedContent p) (length (carriedContent p)) (Sp_ESMClass p) (Sp_TLVs p))
       (\<lambda>c. Inr (frameResult pdu (bodyFrame p) c))"
  using parse_frame [OF bodyFrame_ok [OF assms(1,2)], of pdu] assms(3)
  by (simp add: buildSubmitBody_frame bodyFrame_content [OF assms(2)])

subsection \<open>Raw payloads\<close>

text \<open>The segmentation parameters that the gateway hands on: all three or none.\<close>

definition relayedSAR :: "TLV list \<Rightarrow> (bytes \<times> bytes \<times> bytes) option" where
  "relayedSAR tlvs =
     (case (FindTLV tlvs TagSARMsgRefNum, FindTLV tlvs TagSARTotalSegments, FindTLV tlvs TagSARSegmentSeqnum) of
        (Some ref, Some tot, Some part) \<Rightarrow> Some (ref, tot, part)
      | _ \<Rightarrow> None)"

lemma FindTLV_sarTLVs [simp]:
  "FindTLV (sarTLVs a b c) TagSARMsgRefNum = Some a" "FindTLV (sarTLVs a b c) TagSARTotalSegments = Some b"
  "FindTLV (sarTLVs a b c) TagSARSegmentSeqnum = Some c" "FindTLV (sarTLVs a b c) TagMessagePayload = None"
  by (simp_all add: sarTLVs_def tag_defs)

lemma sarTLVs_flags [simp]: "HasSAR (sarTLVs a b c)" "\<not> hasDuplicateSARTag (sarTLVs a b c)"
  by (simp_all add: HasSAR_def hasDuplicateSARTag_def sarTLVs_def isSARTag_def tag_defs)

lemma HasSAR_relayed: "\<not> HasSAR tlvs \<Longrightarrow> relayedSAR tlvs = None"
proof -
  assume h: "\<not> HasSAR tlvs"
  then have "FindTLV tlvs TagSARMsgRefNum = None"
    unfolding FindTLV_None HasSAR_def list_ex_iff isSARTag_def by blast
  then show ?thesis by (simp add: relayedSAR_def)
qed

lemma ParseSAR_relayed: "ParseSAR tlvs = Some i \<Longrightarrow> relayedSAR tlvs = Some (a, b, c) \<Longrightarrow> ParseSAR (sarTLVs a b c) = Some i"
proof -
  assume i: "ParseSAR tlvs = Some i" and r: "relayedSAR tlvs = Some (a, b, c)"
  then have f: "FindTLV tlvs TagSARMsgRefNum = Some a" "FindTLV tlvs TagSARTotalSegments = Some b"
      "FindTLV tlvs TagSARSegmentSeqnum = Some c"
    by (auto simp: relayedSAR_def split: option.splits)
  have "ParseSAR (sarTLVs a b c) = ParseSAR tlvs" unfolding ParseSAR_def f FindTLV_sarTLVs ..
  with i show ?thesis by simp
qed

lemma ParseSAR_relayed_ex: "ParseSAR tlvs = Some i \<Longrightarrow> \<exists>a b c. relayedSAR tlvs = Some (a, b, c)
    \<and> (length a = 1 \<or> length a = 2) \<and> length b = 1 \<and> length c = 1"
  by (auto simp: ParseSAR_def relayedSAR_def split: option.splits if_splits)

lemma SplitUDH_again:
  assumes "SplitUDH raw e = Inr (udh, sm)"
  shows "SplitUDH (udh @ sm) (if udh = [] then 0 else 0x40) = Inr (udh, sm)"
proof (cases "e AND 0x40 = 0")
  case True
  with assms show ?thesis by (auto simp: SplitUDH_def)
next
  case False
  then have "udh \<noteq> []" using SplitUDH_D(2) [OF assms] by simp
  moreover have "SplitUDH raw 0x40 = SplitUDH raw e" using False by (simp add: SplitUDH_def)
  ultimately show ?thesis using assms SplitUDH_D(1) [OF assms] by simp
qed

text \<open>
  What was accepted once is accepted again: the header, the user data and the segmentation parameters of an accepted
  request, put together anew, are read as the same header, user data and concatenation.
\<close>

lemma submitContent_again:
  assumes "submitContent raw n e tlvs = Inr (udh, sm, cc)"
  shows "submitContent (udh @ sm) m (if udh = [] then 0 else 0x40)
      (case relayedSAR tlvs of Some (a, b, c) \<Rightarrow> sarTLVs a b c | None \<Rightarrow> []) = Inr (udh, sm, cc)"
proof -
  from assms obtain raw' where sp: "SplitUDH raw' e = Inr (udh, sm)" and cc: "submitConcat udh tlvs = Inr cc"
    and ud: "udh = [] \<or> \<not> HasSAR tlvs"
    by (auto simp: submitContent_def bindE_Inr_iff split: option.splits if_splits)
  note again = SplitUDH_again [OF sp]
  show ?thesis
  proof (cases "HasSAR tlvs")
    case True
    then obtain i where i: "ParseSAR tlvs = Some i" "cc = Some i" and u: "udh = []"
      using cc ud by (auto simp: submitConcat_def split: option.splits if_splits)
    obtain a b c where r: "relayedSAR tlvs = Some (a, b, c)" using ParseSAR_relayed_ex [OF i(1)] by blast
    show ?thesis using again u i ParseSAR_relayed [OF i(1) r]
      by (simp add: submitContent_def submitConcat_def r)
  next
    case False
    have n: "ParseSAR [] = None" "\<not> HasSAR []" by (simp_all add: ParseSAR_def HasSAR_def)
    have "submitConcat udh [] = Inr cc"
      using cc False ParseSAR_relayed_ex [of tlvs] HasSAR_relayed [OF False]
      by (auto simp: submitConcat_def n split: option.splits if_splits)
    then show ?thesis using again
      by (simp add: HasSAR_relayed [OF False] submitContent_def hasDuplicateSARTag_def n)
  qed
qed

text \<open>A message with a raw payload becomes one request, with the payload and the header as they are.\<close>

lemma BuildSubmitSM_raw:
  assumes "Cm_RawPayloadSet msg" "Cm_SARSet msg \<Longrightarrow> Cm_UDH msg = []"
  obtains p where "BuildSubmitSM isLetter ref msg cfg = [buildSubmitBody p]" "Sp_Msg p = msg" "Sp_Cfg p = cfg"
    "carriedContent p = Cm_UDH msg @ Cm_RawPayload msg" "Sp_ShortMessage p = [] \<or> Sp_MessagePayload p = []"
    "Sp_ESMClass p = (if Cm_UDH msg = [] then 0 else 0x40)"
    "Sp_TLVs p = (if Cm_SARSet msg
       then sarTLVs (Cm_SARRefNum msg) (Cm_SARTotalSegments msg) (Cm_SARSegmentSeqnum msg) else [])"
    "Sp_DataCoding p = Cm_DataCoding msg"
    "Sp_RegisteredDelivery p = (if Sc_RegisteredDelivery cfg \<ge> 0 then of_int (Sc_RegisteredDelivery cfg)
       else Cm_RegisteredDelivery msg)"
proof -
  let ?p = "bodyParams isLetter msg cfg (Cm_DataCoding msg)
    (if Sc_RegisteredDelivery cfg \<ge> 0 then of_int (Sc_RegisteredDelivery cfg) else Cm_RegisteredDelivery msg)"
  have dc: "snd (submitCoding msg) = Cm_DataCoding msg" by (simp add: submitCoding_def assms(1) Let_def)
  have b: "BuildSubmitSM isLetter ref msg cfg =
      (if Cm_SARSet msg then [buildSubmitBody (?p\<lparr>Sp_ShortMessage := Cm_RawPayload msg,
         Sp_TLVs := sarTLVs (Cm_SARRefNum msg) (Cm_SARTotalSegments msg) (Cm_SARSegmentSeqnum msg)\<rparr>)]
       else if Cm_UDH msg \<noteq> []
       then [buildSubmitBody (?p\<lparr>Sp_ShortMessage := Cm_UDH msg @ Cm_RawPayload msg, Sp_ESMClass := 0x40\<rparr>)]
       else if Sc_LongMessage cfg = ''payload'' then [buildSubmitBody (?p\<lparr>Sp_MessagePayload := Cm_RawPayload msg\<rparr>)]
       else [buildSubmitBody (?p\<lparr>Sp_ShortMessage := Cm_RawPayload msg\<rparr>)])"
    using dc assms(1)
    by (cases "submitCoding msg") (simp add: BuildSubmitSM_def encodeMessagePayload_def Let_def)
  consider (sar) "Cm_SARSet msg" | (udh) "\<not> Cm_SARSet msg" "Cm_UDH msg \<noteq> []"
    | (payload) "\<not> Cm_SARSet msg" "Cm_UDH msg = []" "Sc_LongMessage cfg = ''payload''"
    | (plain) "\<not> Cm_SARSet msg" "Cm_UDH msg = []" "Sc_LongMessage cfg \<noteq> ''payload''"
    by blast
  then show thesis
  proof cases
    case sar
    show thesis
      by (rule that [of "?p\<lparr>Sp_ShortMessage := Cm_RawPayload msg,
         Sp_TLVs := sarTLVs (Cm_SARRefNum msg) (Cm_SARTotalSegments msg) (Cm_SARSegmentSeqnum msg)\<rparr>"])
        (use sar assms(2) in \<open>simp_all add: b bodyParams_def carriedContent_def\<close>)
  next
    case udh
    show thesis
      by (rule that [of "?p\<lparr>Sp_ShortMessage := Cm_UDH msg @ Cm_RawPayload msg, Sp_ESMClass := 0x40\<rparr>"])
        (use udh in \<open>simp_all add: b bodyParams_def carriedContent_def\<close>)
  next
    case payload
    show thesis
      by (rule that [of "?p\<lparr>Sp_MessagePayload := Cm_RawPayload msg\<rparr>"])
        (use payload in \<open>simp_all add: b bodyParams_def carriedContent_def\<close>)
  next
    case plain
    show thesis
      by (rule that [of "?p\<lparr>Sp_ShortMessage := Cm_RawPayload msg\<rparr>"])
        (use plain in \<open>simp_all add: b bodyParams_def carriedContent_def\<close>)
  qed
qed

subsection \<open>Texts\<close>

lemma length_runeSeptets: "length (runeSeptets r) \<le> 2"
  by (simp add: runeSeptets_def split: option.split)

lemma length_septets: "length (concat (map runeSeptets rs)) \<le> 2 * length rs"
  by (induction rs) (use length_runeSeptets in \<open>auto intro: add_mono order_trans\<close>)

lemma length_utf16Encode: "length (utf16Encode rs) \<le> 2 * length rs"
  by (induction rs) (simp_all add: utf16Encode_def utf16EncodeRune_def)

lemma length_clientEncodeText: "length (clientEncodeText t dc packing) \<le> 4 * length (runes t)"
proof -
  let ?s = "concat (map runeSeptets (runes t))"
  have s: "length ?s \<le> 2 * length (runes t)" by (rule length_septets)
  then have p: "(length ?s * 7 + 7) div 8 \<le> 4 * length (runes t)" by linarith
  have u: "length (utf16Encode (runes t)) \<le> 2 * length (runes t)" by (rule length_utf16Encode)
  show ?thesis
    using s p u by (auto simp: clientEncodeText_def EncodeText_def EncodeGSM7Unpacked_def encodeGSM7Packed_def length_packSeptets)
qed

lemma sum_ge_length: "\<forall>x \<in> set xs. (1 :: int) \<le> x \<Longrightarrow> int (length xs) \<le> sum_list xs"
  by (induction xs) auto

lemma textLenFor_runes: "int (length (runes t)) \<le> textLenFor encoding t"
proof -
  have "\<forall>x \<in> set (map (sizeFor encoding) (runes t)). 1 \<le> x"
    using runes_sizes [of t encoding] by (auto simp: int_one_le_iff_zero_less)
  then have "int (length (map (sizeFor encoding) (runes t))) \<le> textLenFor encoding t"
    unfolding textLenFor_sum by (rule sum_ge_length)
  then show ?thesis by simp
qed

lemma segment_runes:
  assumes "s \<in> set (Split ref t force)"
  shows "length (runes (Seg_Text s)) \<le> 160"
proof -
  let ?e = "splitEncoding t force"
  have lim: "singleLimitFor ?e \<le> 160" "concatLimitFor ?e \<le> 160"
    by (simp_all add: singleLimitFor_def concatLimitFor_def limit_defs)
  have "textLenFor ?e (Seg_Text s) \<le> 160"
  proof (cases rule: Split_cases [of t force ref])
    case single
    with assms lim show ?thesis by simp
  next
    case many
    with assms obtain i where i: "i < length (splitCuts ?e t)" "Seg_Text s = string_of_runes (splitCuts ?e t ! i)"
      by (auto simp: in_set_enumerate_eq)
    then obtain c where c: "c \<in> set (splitCuts ?e t)" "Seg_Text s = string_of_runes c"
      using nth_mem by blast
    then show ?thesis
      using splitCuts_fit(1) [OF c(1)] textLenFor_cut [OF set_splitCuts [OF c(1)]] lim by simp
  qed
  then show ?thesis using textLenFor_runes [of "Seg_Text s" ?e] by simp
qed

lemma segment_payload: "s \<in> set (Split ref t force) \<Longrightarrow> length (clientEncodeText (Seg_Text s) dc packing) \<le> 640"
  using segment_runes [of s ref t force] length_clientEncodeText [of "Seg_Text s" dc packing] by linarith

lemma content_plain: "submitContent sm n 0 [] = Inr ([], sm, None)"
  by (simp add: submitContent_def hasDuplicateSARTag_def SplitUDH_def submitConcat_def ParseSAR_def HasSAR_def)

lemma content_sar:
  "validConcatPart tot part \<Longrightarrow>
     submitContent sm n 0 (sarTLVs (be_put16 r) [tot] [part])
       = Inr ([], sm, Some \<lparr>Cc_Reference = r, Cc_Total = tot, Cc_Part = part\<rparr>)"
  by (simp add: submitContent_def SplitUDH_def submitConcat_def ParseSAR_def newConcatInfo_def be_put16_def be_get_put16)

lemma content_udh:
  assumes "SplitUDH (udh @ sm) 0x40 = Inr (udh, sm)" "ParseConcat udh = Some c"
  shows "submitContent (udh @ sm) n 0x40 [] = Inr (udh, sm, Some c)"
proof -
  have "udh \<noteq> []" using assms(2) by (auto simp: ParseConcat_def)
  with assms show ?thesis by (simp add: submitContent_def hasDuplicateSARTag_def submitConcat_def HasSAR_def)
qed

text \<open>The request that carries a body, and the reference number the parts of a message share on the wire.\<close>

definition submitPdu :: "32 word \<Rightarrow> bytes \<Rightarrow> PDU" where
  "submitPdu seq body =
     \<lparr>Pdu_Length = 0, Pdu_CommandID = commandSubmitSM, Pdu_Status = statusOK, Pdu_SequenceID = seq, Pdu_Body = body\<rparr>"

definition wireReference :: "SMPPClientConfig \<Rightarrow> 16 word \<Rightarrow> 16 word" where
  "wireReference cfg ref = (if Sc_LongMessage cfg = ''sar'' then ref else ucast (ucast ref :: byte))"

lemma Split_reference:
  "1 < length (Split ref t force) \<Longrightarrow> s \<in> set (Split ref t force) \<Longrightarrow> Seg_Reference s = ref"
  by (cases rule: Split_cases [of t force ref]) (auto simp: in_set_enumerate_eq)

lemma valid_segment:
  assumes "valid_utf8 t" "s \<in> set (Split ref t force)"
  shows "valid_utf8 (Seg_Text s)"
proof (cases rule: Split_cases [of t force ref])
  case single
  with assms show ?thesis by simp
next
  case many
  let ?cs = "splitCuts (splitEncoding t force) t"
  from many assms(2) obtain i where i: "i < length ?cs" "Seg_Text s = string_of_runes (?cs ! i)"
    by (auto simp: in_set_enumerate_eq)
  have "set (?cs ! i) \<subseteq> set (runes t)" by (rule set_splitCuts [OF nth_mem [OF i(1)]])
  then have "\<forall>r \<in> set (?cs ! i). validRune r" using validRune_runes by blast
  then show ?thesis by (simp add: i(2) valid_utf8_def runes_string_of_runes)
qed

lemma uint_byte_of_int: "0 \<le> x \<Longrightarrow> x \<le> 255 \<Longrightarrow> uint (of_int x :: byte) = x"
  by (simp add: uint_word_of_int)

lemma segment_parts_valid:
  assumes "i < length (Split ref t force)" "length (Split ref t force) \<le> 255"
  shows "validConcatPart (of_int (Seg_Total (Split ref t force ! i))) (of_int (Seg_Part (Split ref t force ! i)))"
    "uint (of_int (Seg_Total (Split ref t force ! i)) :: byte) = int (length (Split ref t force))"
    "uint (of_int (Seg_Part (Split ref t force ! i)) :: byte) = int i + 1"
proof -
  let ?n = "int (length (Split ref t force))"
  have u: "uint (of_int ?n :: byte) = ?n" "uint (of_int (int i + 1) :: byte) = int i + 1"
    using assms by (intro uint_byte_of_int; simp)+
  then show "uint (of_int (Seg_Total (Split ref t force ! i)) :: byte) = ?n"
    "uint (of_int (Seg_Part (Split ref t force ! i)) :: byte) = int i + 1"
    using assms(1) by (simp_all only: Split_nth)
  show "validConcatPart (of_int (Seg_Total (Split ref t force ! i))) (of_int (Seg_Part (Split ref t force ! i)))"
    unfolding Split_nth [OF assms(1)] validConcatPart_def word_less_def word_le_def u using assms(1) by auto
qed

text \<open>One part of a text: its parameters, and what the other side reads.\<close>

lemma segment_parse:
  fixes msg cfg ref force
  defines "segs \<equiv> Split ref (Cm_Text msg) force"
  assumes ok: "messageOK msg cfg" and i: "i < length segs" "length segs \<le> 255"
    and body: "b = segmentParts isLetter ref msg cfg force dc rd ! i"
  obtains sub where "ParseSubmitSM (submitPdu seq b) = Inr sub"
    "Sub_From sub = stripPlus (Cm_SourceAddr msg)" "Sub_To sub = stripPlus (Cm_DestAddr msg)"
    "Sub_DataCoding sub = dc" "Sub_RegisteredDelivery sub = rd"
    "Sub_Payload sub = clientEncodeText (Seg_Text (segs ! i)) dc (Sc_GSM7Packing cfg)"
    "Sub_Text sub = DecodeSubmitText (Sub_Payload sub) dc"
    "case Sub_Concat sub of None \<Rightarrow> length segs = 1
      | Some c \<Rightarrow> 1 < length segs \<and> uint (Cc_Part c) = int i + 1 \<and> uint (Cc_Total c) = int (length segs)
          \<and> Cc_Reference c = wireReference cfg ref"
proof -
  let ?s = "segs ! i" and ?p = "bodyParams isLetter msg cfg dc rd"
  define pl where "pl = clientEncodeText (Seg_Text ?s) dc (Sc_GSM7Packing cfg)"
  define prm where "prm = (if length segs > 1
      then if Sc_LongMessage cfg = ''sar''
           then ?p\<lparr>Sp_ShortMessage := pl,
             Sp_TLVs := sarTLVs (be_put16 (Seg_Reference ?s)) [of_int (Seg_Total ?s)] [of_int (Seg_Part ?s)]\<rparr>
           else ?p\<lparr>Sp_ShortMessage := Seg_UDH ?s @ pl, Sp_ESMClass := 0x40\<rparr>
      else ?p\<lparr>Sp_ShortMessage := pl\<rparr>)"
  have s: "?s \<in> set (Split ref (Cm_Text msg) force)" using i(1) by (simp add: segs_def)
  have pl: "length pl \<le> 640" unfolding pl_def by (rule segment_payload [OF s])
  have b: "b = buildSubmitBody prm"
    using i(1) by (simp add: body segmentParts_def segs_def prm_def pl_def Let_def bodyParams_def)
  note v = segment_parts_valid [of i ref "Cm_Text msg" force, folded segs_def, OF i]
  have udh: "length (Seg_UDH ?s) = 6" if "1 < length segs"
    using Split_UDH [of ref "Cm_Text msg" force i] that i(1) by (simp add: segs_def concatUDH_def)
  have "\<exists>u cc. contentOK prm \<and> submitContent (carriedContent prm) (length (carriedContent prm)) (Sp_ESMClass prm) (Sp_TLVs prm)
      = Inr (u, pl, cc) \<and> (case cc of None \<Rightarrow> length segs = 1
      | Some c \<Rightarrow> 1 < length segs \<and> uint (Cc_Part c) = int i + 1 \<and> uint (Cc_Total c) = int (length segs)
          \<and> Cc_Reference c = wireReference cfg ref)"
  proof (cases "1 < length segs")
    case one: False
    then show ?thesis using i(1) pl
      by (intro exI [of _ "[]"] exI [of _ None])
        (simp add: prm_def contentOK_def bodyParams_def carriedContent_def content_plain)
  next
    case many: True
    then have r: "Seg_Reference ?s = ref" using Split_reference s by (simp add: segs_def)
    show ?thesis
    proof (cases "Sc_LongMessage cfg = ''sar''")
      case True
      then show ?thesis using many pl content_sar [OF v(1)] v(2,3) r
        by (intro exI [of _ "[]"] exI)
          (auto simp: prm_def contentOK_def bodyParams_def carriedContent_def wireReference_def sarTLVs_def tag_defs)
    next
      case False
      obtain c where c: "SplitUDH (Seg_UDH ?s @ pl) 0x40 = Inr (Seg_UDH ?s, pl)" "ParseConcat (Seg_UDH ?s) = Some c"
          "uint (Cc_Part c) = Seg_Part ?s" "uint (Cc_Total c) = Seg_Total ?s" "Cc_Reference c = ucast (ucast ref :: byte)"
        using split_udh_parses [OF s, of "0x40" pl] many i(2) by (auto simp: segs_def)
      show ?thesis using False many pl udh [OF many] content_udh [OF c(1,2)] c(3-5) i(1)
        by (intro exI [of _ "Seg_UDH ?s"] exI [of _ "Some c"])
          (auto simp: prm_def contentOK_def bodyParams_def carriedContent_def wireReference_def segs_def Split_nth)
    qed
  qed
  then obtain u cc where c: "contentOK prm"
      "submitContent (carriedContent prm) (length (carriedContent prm)) (Sp_ESMClass prm) (Sp_TLVs prm) = Inr (u, pl, cc)"
      "case cc of None \<Rightarrow> length segs = 1
      | Some c \<Rightarrow> 1 < length segs \<and> uint (Cc_Part c) = int i + 1 \<and> uint (Cc_Total c) = int (length segs)
          \<and> Cc_Reference c = wireReference cfg ref" by blast
  have prm: "Sp_Msg prm = msg" "Sp_Cfg prm = cfg" "Sp_DataCoding prm = dc" "Sp_RegisteredDelivery prm = rd"
    by (simp_all add: prm_def bodyParams_def)
  have "ParseSubmitSM (submitPdu seq b) = Inr (frameResult (submitPdu seq b) (bodyFrame prm) (u, pl, cc))"
    using parse_built [of prm "submitPdu seq b"] ok c(1,2) prm by (simp add: b submitPdu_def)
  then show thesis
    by (rule that) (use c(3) prm in \<open>simp_all add: frameResult_def bodyFrame_def Let_def pl_def\<close>)
qed

lemma decode_clientEncodeText_ucs2: "valid_utf8 t \<Longrightarrow> DecodeSubmitText (clientEncodeText t 0x08 packing) 0x08 = t"
  using ucs2_roundtrip [of t] by (simp add: DecodeSubmitText_def clientEncodeText_def)

subsection \<open>Properties\<close>


definition exampleText :: ClientMessage where
  "exampleText = \<lparr>Cm_GatewayID = ''g'', Cm_SourceAddr = ''INFO'', Cm_DestAddr = ''+8613800138000'',
     Cm_Text = replicate 71 CHR ''a'', Cm_DataCoding = 0, Cm_RegisteredDelivery = 1, Cm_Encoding = ''ucs2'', Cm_UDH = [],
     Cm_RawPayload = [], Cm_RawPayloadSet = False, Cm_SARRefNum = [], Cm_SARTotalSegments = [], Cm_SARSegmentSeqnum = [],
     Cm_SARSet = False\<rparr>"


end
