(* ===== verification/Smpp_Session.thy ===== *)
theory Smpp_Session
  imports Gw_Config Smpp_Pdu Go_Date
begin

text \<open>
  The SMPP server (\<open>smpp/server.go\<close>, \<open>smpp/session.go\<close>): sessions, binding and authentication, the window of
  open submissions, delivery of receipts and the limits on the number of sessions.

  A session is a record of its atomic fields; the PDUs sent are appended to \<open>Ss_out\<close>, the channel that
  the write loop empties. A PDU that is sent after the session was closed is never written and
  is dropped. What the handlers call, \<open>OnSubmit\<close> and \<open>OnReceiverBound\<close>, is reported as a list of
  events.
\<close>

subsection \<open>Sessions\<close>

datatype BindMode = BindNone | BindRX | BindTX | BindTRX

definition CanSubmit :: "BindMode \<Rightarrow> bool" where
  "CanSubmit m \<longleftrightarrow> m = BindTX \<or> m = BindTRX"

definition CanReceive :: "BindMode \<Rightarrow> bool" where
  "CanReceive m \<longleftrightarrow> m = BindRX \<or> m = BindTRX"

definition statusInvalidPassword :: "32 word" where "statusInvalidPassword = 0x0000000E"
definition statusInvalidSystemID :: "32 word" where "statusInvalidSystemID = 0x0000000F"

record SessionConfig =
  Sn_OwnSystemID :: string
  Sn_EnquirePeriod :: duration
  Sn_WindowSize :: int

record Session =
  Ss_id :: string
  Ss_bindMode :: BindMode
  Ss_inflight :: int
  Ss_nextSeq :: "32 word"
  Ss_systemID :: string
  Ss_lastSeen :: gotime
  Ss_out :: "PDU list"
  Ss_closed :: bool
  Ss_deliver :: "(32 word, 32 word option) gomap"

datatype SessionEvent = OnSubmit string SubmitSM | OnReceiverBound string

text \<open>Addition of 32-bit signed integers.\<close>

definition addInt32 :: "int \<Rightarrow> int \<Rightarrow> int" where
  "addInt32 a b = sint (of_int (a + b) :: 32 word)"

definition NewSession :: "string \<Rightarrow> gotime \<Rightarrow> Session" where
  "NewSession ident now = \<lparr>Ss_id = ident, Ss_bindMode = BindNone, Ss_inflight = 0, Ss_nextSeq = 0, Ss_systemID = [],
     Ss_lastSeen = now, Ss_out = [], Ss_closed = False, Ss_deliver = []\<rparr>"

definition NextSeq :: "Session \<Rightarrow> 32 word \<times> Session" where
  "NextSeq s = (let n = Ss_nextSeq s + 1 in (n, s\<lparr>Ss_nextSeq := n\<rparr>))"

definition Send :: "PDU \<Rightarrow> Session \<Rightarrow> Session" where
  "Send p s = (if Ss_closed s then s else s\<lparr>Ss_out := Ss_out s @ [p]\<rparr>)"

definition reply :: "32 word \<Rightarrow> 32 word \<Rightarrow> 32 word \<Rightarrow> bytes \<Rightarrow> PDU" where
  "reply cmd status sequence body = \<lparr>Pdu_Length = 0, Pdu_CommandID = cmd, Pdu_Status = status, Pdu_SequenceID = sequence,
     Pdu_Body = body\<rparr>"

definition CloseSession :: "Session \<Rightarrow> Session" where
  "CloseSession s = s\<lparr>Ss_closed := True\<rparr>"

definition CompleteSubmit :: "Session \<Rightarrow> Session" where
  "CompleteSubmit s = s\<lparr>Ss_inflight := addInt32 (Ss_inflight s) (- 1)\<rparr>"

subsection \<open>Delivering a receipt\<close>

text \<open>
  \<open>SendDeliverSM\<close> registers a channel for the sequence number, sends the PDU and waits for the status, the
  timeout or the end of the session; then it removes the channel.
\<close>

definition beginDeliver :: "PDU \<Rightarrow> Session \<Rightarrow> bool \<times> Session" where
  "beginDeliver p s =
     (let s1 = s\<lparr>Ss_deliver := AList.update (Pdu_SequenceID p) None (Ss_deliver s)\<rparr> in (\<not> Ss_closed s, Send p s1))"

definition unregisterDeliverResp :: "32 word \<Rightarrow> Session \<Rightarrow> Session" where
  "unregisterDeliverResp sequence s = s\<lparr>Ss_deliver := AList.delete sequence (Ss_deliver s)\<rparr>"

definition completeDeliverResp :: "32 word \<Rightarrow> 32 word \<Rightarrow> Session \<Rightarrow> Session" where
  "completeDeliverResp sequence status s =
     (case map_of (Ss_deliver s) sequence of
        Some None \<Rightarrow> s\<lparr>Ss_deliver := AList.update sequence (Some status) (Ss_deliver s)\<rparr>
      | _ \<Rightarrow> s)"

text \<open>The wait ends: with a status if one arrived, without if the time is over or the session closed.\<close>

definition endDeliver :: "32 word \<Rightarrow> Session \<Rightarrow> 32 word option \<times> Session" where
  "endDeliver sequence s =
     ((case map_of (Ss_deliver s) sequence of Some st \<Rightarrow> st | None \<Rightarrow> None), unregisterDeliverResp sequence s)"

subsection \<open>Binding\<close>

definition bindRespID :: "32 word \<Rightarrow> 32 word" where
  "bindRespID c =
     (if c = commandBindReceiver then commandBindReceiverResp
      else if c = commandBindTransmitter then commandBindTransmitterResp else commandBindTransceiverResp)"

definition bindModeOf :: "32 word \<Rightarrow> BindMode" where
  "bindModeOf c = (if c = commandBindReceiver then BindRX else if c = commandBindTransmitter then BindTX else BindTRX)"

text \<open>
  \<open>handleBind\<close> first decides on a status, consulting the accounts and the other sessions, and then stores the
  outcome. Both parts run in the session's goroutine and other sessions may run in between.
\<close>

record bindOutcome =
  Bo_status :: "32 word"
  Bo_parsed :: bool
  Bo_systemID :: string
  Bo_pdu :: PDU

type_synonym AuthFunc = "string \<Rightarrow> string \<Rightarrow> bool"

definition bindCheck :: "AuthFunc option \<Rightarrow> (string \<Rightarrow> bool) option \<Rightarrow> PDU \<Rightarrow> Session \<Rightarrow> bindOutcome" where
  "bindCheck auth allowed pdu s =
     (let failed = (\<lambda>st. \<lparr>Bo_status = st, Bo_parsed = False, Bo_systemID = [], Bo_pdu = pdu\<rparr>) in
      case readCStringMax (Pdu_Body pdu) 0 Smpp_Pdu.SMPPMaxSystemID of
        Inl _ \<Rightarrow> failed statusInvalidSystemID
      | Inr (systemID, o1) \<Rightarrow>
          (case readCStringMax (Pdu_Body pdu) o1 Smpp_Pdu.SMPPMaxPassword of
             Inl _ \<Rightarrow> failed statusInvalidPassword
           | Inr (password, o2) \<Rightarrow>
               (case readCStringMax (Pdu_Body pdu) o2 Smpp_Pdu.SMPPMaxSystemType of
                  Inl _ \<Rightarrow> failed statusBindFailed
                | Inr _ \<Rightarrow>
                    \<lparr>Bo_status =
                       (if Ss_bindMode s \<noteq> BindNone then statusAlreadyBound
                        else if (case auth of None \<Rightarrow> False | Some f \<Rightarrow> \<not> f systemID password) then statusBindFailed
                        else if (case allowed of None \<Rightarrow> False | Some f \<Rightarrow> \<not> f systemID) then statusBindFailed
                        else statusOK),
                     Bo_parsed = True, Bo_systemID = systemID, Bo_pdu = pdu\<rparr>)))"

definition bindCommit :: "SessionConfig \<Rightarrow> bindOutcome \<Rightarrow> Session \<Rightarrow> Session \<times> SessionEvent list" where
  "bindCommit cfg b s =
     (let c = Pdu_CommandID (Bo_pdu b); mode = bindModeOf c;
          ok = (Bo_parsed b \<and> Bo_status b = statusOK);
          s1 = (if ok then s\<lparr>Ss_bindMode := mode, Ss_systemID := Bo_systemID b\<rparr> else s)
      in (Send (reply (bindRespID c) (Bo_status b) (Pdu_SequenceID (Bo_pdu b)) (CString (Sn_OwnSystemID cfg))) s1,
          if ok \<and> CanReceive mode then [OnReceiverBound (Bo_systemID b)] else []))"

definition handleBind ::
  "SessionConfig \<Rightarrow> AuthFunc option \<Rightarrow> (string \<Rightarrow> bool) option \<Rightarrow> PDU \<Rightarrow> Session \<Rightarrow> Session \<times> SessionEvent list" where
  "handleBind cfg auth allowed pdu s = bindCommit cfg (bindCheck auth allowed pdu s) s"

subsection \<open>Dispatching a PDU\<close>

definition windowOf :: "SessionConfig \<Rightarrow> int" where
  "windowOf cfg = (if Sn_WindowSize cfg \<le> 0 then 16 else Sn_WindowSize cfg)"

definition handleSubmit :: "SessionConfig \<Rightarrow> PDU \<Rightarrow> Session \<Rightarrow> Session \<times> SessionEvent list" where
  "handleSubmit cfg pdu s =
     (let answer = (\<lambda>st. reply commandSubmitSMResp st (Pdu_SequenceID pdu) []) in
      if \<not> CanSubmit (Ss_bindMode s) then (Send (answer statusInvalidBind) s, [])
      else let n = addInt32 (Ss_inflight s) 1; s1 = s\<lparr>Ss_inflight := n\<rparr> in
        if windowOf cfg < n then (Send (answer statusThrottled) (s1\<lparr>Ss_inflight := addInt32 n (- 1)\<rparr>), [])
        else case ParseSubmitSM pdu of
               Inl _ \<Rightarrow> (Send (answer statusInvalidCmd) (s1\<lparr>Ss_inflight := addInt32 n (- 1)\<rparr>), [])
             | Inr msg \<Rightarrow> (s1, [OnSubmit (Ss_id s) msg]))"

definition isBindCommand :: "32 word \<Rightarrow> bool" where
  "isBindCommand c \<longleftrightarrow> c = commandBindReceiver \<or> c = commandBindTransmitter \<or> c = commandBindTransceiver"

definition dispatchPDU ::
  "SessionConfig \<Rightarrow> AuthFunc option \<Rightarrow> (string \<Rightarrow> bool) option \<Rightarrow> PDU \<Rightarrow> Session \<Rightarrow> Session \<times> SessionEvent list" where
  "dispatchPDU cfg auth allowed pdu s =
     (let c = Pdu_CommandID pdu; sequence = Pdu_SequenceID pdu in
      if isBindCommand c then handleBind cfg auth allowed pdu s
      else if c = commandSubmitSM then handleSubmit cfg pdu s
      else if c = commandDeliverSMResp then (completeDeliverResp sequence (Pdu_Status pdu) s, [])
      else if c = commandEnquireLink then (Send (reply commandEnquireLinkResp statusOK sequence []) s, [])
      else if c = commandUnbind then (Send (reply commandUnbindResp statusOK sequence []) s, [])
      else if c = commandEnquireLinkResp \<or> c = commandUnbindResp then (s, [])
      else (Send (reply commandGenericNack statusInvalidCmd sequence []) s, []))"

text \<open>A PDU was read: the time is stored and the PDU handled.\<close>

definition readStep ::
  "SessionConfig \<Rightarrow> AuthFunc option \<Rightarrow> (string \<Rightarrow> bool) option \<Rightarrow> gotime \<Rightarrow> PDU \<Rightarrow> Session \<Rightarrow> Session \<times> SessionEvent list" where
  "readStep cfg auth allowed now pdu s = dispatchPDU cfg auth allowed pdu (s\<lparr>Ss_lastSeen := now\<rparr>)"

text \<open>A tick of the enquire loop: a session idle for two periods is closed, another is probed.\<close>

definition enquireTick :: "SessionConfig \<Rightarrow> gotime \<Rightarrow> Session \<Rightarrow> Session" where
  "enquireTick cfg now s =
     (if Ss_bindMode s = BindNone then s
      else if 0 < unixNano (Ss_lastSeen s) \<and> 2 * Sn_EnquirePeriod cfg < now - Ss_lastSeen s then CloseSession s
      else case NextSeq s of (n, s1) \<Rightarrow> Send (reply commandEnquireLink statusOK n []) s1)"

subsection \<open>The server\<close>

record Server =
  Sv_cfg :: SMPPConfig
  Sv_auth :: "AuthFunc option"
  Sv_sessions :: "(string, Session) gomap"
  Sv_nextID :: "64 word"

definition NewServer :: "SMPPConfig \<Rightarrow> AuthFunc option \<Rightarrow> Server" where
  "NewServer cfg auth = \<lparr>Sv_cfg = cfg, Sv_auth = auth, Sv_sessions = [], Sv_nextID = 0\<rparr>"

definition effectiveEnquirePeriod :: "string \<Rightarrow> duration" where
  "effectiveEnquirePeriod raw =
     (case ParseDuration raw of Some p \<Rightarrow> if p \<le> 0 then 30 * Second else p | None \<Rightarrow> 30 * Second)"

definition sessionConfig :: "Server \<Rightarrow> SessionConfig" where
  "sessionConfig srv = \<lparr>Sn_OwnSystemID = Smc_SystemID (Sv_cfg srv),
     Sn_EnquirePeriod = effectiveEnquirePeriod (Smc_EnquirePeriod (Sv_cfg srv)),
     Sn_WindowSize = sint (of_int (Smc_WindowSize (Sv_cfg srv)) :: 32 word)\<rparr>"

definition SessionOf :: "string \<Rightarrow> Server \<Rightarrow> Session option" where
  "SessionOf ident srv = map_of (Sv_sessions srv) ident"

text \<open>The order of the result is the order in which the map is visited.\<close>

definition ReceiversBySystemID ::
  "((string, Session) gomap \<Rightarrow> (string, Session) gomap) \<Rightarrow> string \<Rightarrow> Server \<Rightarrow> Session list" where
  "ReceiversBySystemID it systemID srv =
     filter (\<lambda>s. Ss_systemID s = systemID \<and> CanReceive (Ss_bindMode s)) (map snd (it (Sv_sessions srv)))"

definition bindAllowed :: "Server \<Rightarrow> string \<Rightarrow> string \<Rightarrow> bool" where
  "bindAllowed srv candidate systemID =
     (let limit = Smc_MaxSessionsPerSystemID (Sv_cfg srv) in
      if limit \<le> 0 then True
      else int (length (filter (\<lambda>(k, s). k \<noteq> candidate \<and> Ss_systemID s = systemID) (Sv_sessions srv))) < limit)"

definition register :: "Session \<Rightarrow> Server \<Rightarrow> bool \<times> Server" where
  "register s srv =
     (if 0 < Smc_MaxSessions (Sv_cfg srv) \<and> Smc_MaxSessions (Sv_cfg srv) \<le> int (length (Sv_sessions srv))
      then (False, srv)
      else (True, srv\<lparr>Sv_sessions := AList.update (Ss_id s) s (Sv_sessions srv)\<rparr>))"

definition unregister :: "string \<Rightarrow> Server \<Rightarrow> Server" where
  "unregister ident srv = srv\<lparr>Sv_sessions := AList.delete ident (Sv_sessions srv)\<rparr>"

definition nextSessionID :: "Server \<Rightarrow> string \<times> Server" where
  "nextSessionID srv =
     (let n = Sv_nextID srv + 1 in (CHR ''s'' # FormatUint (unat n) 10, srv\<lparr>Sv_nextID := n\<rparr>))"

definition acceptConn :: "gotime \<Rightarrow> Server \<Rightarrow> bool \<times> Server" where
  "acceptConn now srv = (case nextSessionID srv of (ident, srv1) \<Rightarrow> register (NewSession ident now) srv1)"

definition putSession :: "Session \<Rightarrow> Server \<Rightarrow> Server" where
  "putSession s srv = srv\<lparr>Sv_sessions := AList.update (Ss_id s) s (Sv_sessions srv)\<rparr>"

definition serverPDU :: "gotime \<Rightarrow> string \<Rightarrow> PDU \<Rightarrow> Server \<Rightarrow> Server \<times> SessionEvent list" where
  "serverPDU now ident pdu srv =
     (case SessionOf ident srv of
        None \<Rightarrow> (srv, [])
      | Some s \<Rightarrow>
          (case readStep (sessionConfig srv) (Sv_auth srv) (Some (bindAllowed srv ident)) now pdu s of
             (s2, evs) \<Rightarrow> (putSession s2 srv, evs)))"

subsection \<open>What a session answers\<close>

definition isAnswer :: "32 word \<Rightarrow> bool" where
  "isAnswer c \<longleftrightarrow> c = commandDeliverSMResp \<or> c = commandEnquireLinkResp \<or> c = commandUnbindResp"

definition answerTo :: "32 word \<Rightarrow> 32 word" where
  "answerTo c =
     (if isBindCommand c then bindRespID c
      else if c = commandSubmitSM then commandSubmitSMResp
      else if c = commandEnquireLink then commandEnquireLinkResp
      else if c = commandUnbind then commandUnbindResp else commandGenericNack)"

lemma reply_simps [simp]:
  "Pdu_CommandID (reply c st n b) = c" "Pdu_Status (reply c st n b) = st" "Pdu_SequenceID (reply c st n b) = n"
  "Pdu_Body (reply c st n b) = b"
  by (simp_all add: reply_def)

lemma Send_open [simp]: "\<not> Ss_closed s \<Longrightarrow> Send p s = s\<lparr>Ss_out := Ss_out s @ [p]\<rparr>"
  by (simp add: Send_def)

lemma Send_frame [simp]:
  "Ss_id (Send p s) = Ss_id s" "Ss_bindMode (Send p s) = Ss_bindMode s" "Ss_inflight (Send p s) = Ss_inflight s"
  "Ss_systemID (Send p s) = Ss_systemID s" "Ss_closed (Send p s) = Ss_closed s" "Ss_deliver (Send p s) = Ss_deliver s"
  by (simp_all add: Send_def)

lemma completeDeliverResp_frame [simp]:
  "Ss_id (completeDeliverResp n st s) = Ss_id s" "Ss_bindMode (completeDeliverResp n st s) = Ss_bindMode s"
  "Ss_inflight (completeDeliverResp n st s) = Ss_inflight s" "Ss_systemID (completeDeliverResp n st s) = Ss_systemID s"
  "Ss_out (completeDeliverResp n st s) = Ss_out s"
  by (simp_all add: completeDeliverResp_def split: option.split)

lemma handleBind_answers:
  assumes "\<not> Ss_closed s" "handleBind cfg auth allowed pdu s = (s2, evs)"
  shows "Ss_out s2 = Ss_out s @ [reply (bindRespID (Pdu_CommandID pdu)) (Bo_status (bindCheck auth allowed pdu s))
      (Pdu_SequenceID pdu) (CString (Sn_OwnSystemID cfg))] \<and> (\<forall>i m. OnSubmit i m \<notin> set evs)"
proof -
  have "Bo_pdu (bindCheck auth allowed pdu s) = pdu"
    by (simp add: bindCheck_def Let_def split: sum.split)
  then show ?thesis
    using assms by (auto simp: handleBind_def bindCommit_def Let_def)
qed

lemma handleSubmit_answers:
  assumes "\<not> Ss_closed s" "handleSubmit cfg pdu s = (s2, evs)"
  shows "(\<exists>m. evs = [OnSubmit (Ss_id s) m] \<and> Ss_out s2 = Ss_out s \<and> CanSubmit (Ss_bindMode s) \<and> ParseSubmitSM pdu = Inr m) \<or>
    evs = [] \<and> (\<exists>st. Ss_out s2 = Ss_out s @ [reply commandSubmitSMResp st (Pdu_SequenceID pdu) []])"
  using assms by (auto simp: handleSubmit_def Let_def split: if_splits sum.splits)

lemma command_kinds:
  "isBindCommand c \<Longrightarrow> \<not> isAnswer c"
  "\<not> isAnswer commandSubmitSM" "\<not> isBindCommand commandSubmitSM"
  "\<not> isAnswer commandEnquireLink" "\<not> isBindCommand commandEnquireLink" "commandEnquireLink \<noteq> commandSubmitSM"
  "\<not> isAnswer commandUnbind" "\<not> isBindCommand commandUnbind" "commandUnbind \<noteq> commandSubmitSM" "commandUnbind \<noteq> commandEnquireLink"
  by (auto simp: isBindCommand_def isAnswer_def command_defs)



end
