(* ===== verification/Dispatch_Submit.thy ===== *)
theory Dispatch_Submit
  imports Sms_Router Dest_Addr Tenant_Limits Gw_Ids Content_Filter Cdr_Log Outbox_Cycle Smpp_Session
begin

text \<open>
  The dispatcher, first part (\<open>dispatch/types.go\<close>, \<open>dispatch/dispatcher.go\<close>): its state, the reloadable
  parts, and \<open>Submit\<close>, which admits, filters, routes, checks and enqueues a message.

  The dispatcher works on the memory store. The values of \<open>time.Now()\<close> are a function from
  the number of the reading to the time; the random reference of a split, the time-zone
  database and the parameters of the filter are arguments as well. A filter search
  that never ends makes \<open>Submit\<close> not return, which is the value \<open>None\<close>.
\<close>

subsection \<open>Types\<close>

type_synonym SourceKind = int

abbreviation (input) SourceSMPP :: SourceKind where "SourceSMPP \<equiv> 0"
abbreviation (input) SourceHTTPAPI :: SourceKind where "SourceHTTPAPI \<equiv> 1"

definition SourceKind_String :: "SourceKind \<Rightarrow> string" where
  "SourceKind_String k = (if k = SourceSMPP then ''smpp'' else if k = SourceHTTPAPI then ''http'' else ''unknown'')"

record SubmitSource =
  Su_Kind :: SourceKind
  Su_SMPPSessionID :: string
  Su_SMPPSystemID :: string
  Su_CallbackURL :: string
  Su_CallbackRule :: string

record Envelope =
  En_From :: string
  En_To :: string
  En_Text :: string
  En_ClientID :: string
  En_ClientMsgID :: string
  En_TenantID :: string
  En_AccountID :: string
  En_DataCoding :: byte
  En_Encoding :: string
  En_RegisteredDelivery :: byte
  En_Source :: SubmitSource
  En_ReceivedAt :: WallTime
  En_Meta :: "(string, string) gomap"
  En_UDH :: bytes
  En_RawPayload :: bytes
  En_RawPayloadSet :: bool
  En_SARRefNum :: bytes
  En_SARTotalSegments :: bytes
  En_SARSegmentSeqnum :: bytes
  En_SARSet :: bool

record Receipt =
  Re_GatewayID :: string
  Re_ProviderID :: string
  Re_Provider :: string
  Re_Route :: string
  Re_State :: string

text \<open>A delivery receipt of a provider (\<open>provider/provider.go\<close>).\<close>

record DLR =
  Dl_Provider :: string
  Dl_ProviderID :: string
  Dl_State :: string
  Dl_ErrorCode :: int
  Dl_DoneAt :: gotime

datatype SubmitError =
    ErrTenantDisabled | ErrRateExceeded | ErrBlocked string | ErrMaskMultipart | ErrRouterNotInitialized
  | ErrNoRoute string | ErrNoProvider string | ErrDestAddr DestError | ErrGatewayID | ErrStore StoreError

record Dispatcher =
  Dp_store :: MemoryStore
  Dp_idAlloc :: idAllocator
  Dp_router :: "Router option"
  Dp_filter :: "Engine option"
  Dp_sink :: "Event list option"
  Dp_instance :: "string option"
  Dp_resolver :: "StaticResolver option"
  Dp_limiter :: TokenBucket
  Dp_dlrPick :: "64 word"
  Dp_dlrCh :: "DLR list"
  Dp_pendingTTL :: duration
  Dp_pendingSweep :: duration
  Dp_claimTimeout :: duration
  Dp_workers :: int
  Dp_claimLimit :: int
  Dp_perWorkerConc :: int
  Dp_pollInterval :: duration
  Dp_maxAttempts :: int
  Dp_validateDest :: bool
  Dp_dlrLookupWait :: duration
  Dp_smppSrv :: "Server option"

record DispatchEnv =
  Dx_clock :: "nat \<Rightarrow> gotime"
  Dx_ref :: "16 word"
  Dx_zone :: "string \<Rightarrow> gotime \<Rightarrow> int"
  Dx_filter :: FilterEnv

subsection \<open>Construction and reloading\<close>

definition normalizeDispatcherConfig :: "DispatcherConfig \<Rightarrow> DispatcherConfig" where
  "normalizeDispatcherConfig cfg =
     cfg\<lparr>Dc_Workers := (if Dc_Workers cfg \<le> 0 then 10 else Dc_Workers cfg),
       Dc_PerWorkerConcurrency := (if Dc_PerWorkerConcurrency cfg \<le> 0 then 10 else Dc_PerWorkerConcurrency cfg),
       Dc_ClaimLimit := (if Dc_ClaimLimit cfg \<le> 0 then 20 else Dc_ClaimLimit cfg),
       Dc_PollIntervalMS := (if Dc_PollIntervalMS cfg \<le> 0 then 20 else Dc_PollIntervalMS cfg),
       Dc_PendingTTL := (if Dc_PendingTTL cfg = [] then ''30m'' else Dc_PendingTTL cfg),
       Dc_MaxAttempts := (if Dc_MaxAttempts cfg \<le> 0 then 5 else Dc_MaxAttempts cfg),
       Dc_ClaimTimeout := (if Dc_ClaimTimeout cfg = [] then ''60s'' else Dc_ClaimTimeout cfg),
       Dc_PendingSweepInterval := (if Dc_PendingSweepInterval cfg = [] then ''1m'' else Dc_PendingSweepInterval cfg),
       Dc_ValidateDestAddr := (case Dc_ValidateDestAddr cfg of None \<Rightarrow> Some True | Some b \<Rightarrow> Some b)\<rparr>"

definition durationOr :: "duration \<Rightarrow> string \<Rightarrow> duration" where
  "durationOr dflt s = (case ParseDuration s of Some t \<Rightarrow> if t \<le> 0 then dflt else t | None \<Rightarrow> dflt)"

text \<open>The resolver of an empty configuration has no accounts.\<close>

definition NewDispatcher :: "Server option \<Rightarrow> DispatcherConfig \<Rightarrow> MemoryStore \<Rightarrow> Dispatcher" where
  "NewDispatcher srv cfg0 st =
     (let cfg = normalizeDispatcherConfig cfg0 in
      \<lparr>Dp_store = st, Dp_idAlloc = newIDAllocator 1000, Dp_router = None, Dp_filter = None, Dp_sink = None,
       Dp_instance = None, Dp_resolver = Some \<lparr>Sr_http = [], Sr_smpp = []\<rparr>, Dp_limiter = NewTokenBucket, Dp_dlrPick = 0,
       Dp_dlrCh = [], Dp_pendingTTL = durationOr (30 * Minute) (Dc_PendingTTL cfg),
       Dp_pendingSweep = durationOr Minute (Dc_PendingSweepInterval cfg),
       Dp_claimTimeout = durationOr (60 * Second) (Dc_ClaimTimeout cfg), Dp_workers = Dc_Workers cfg,
       Dp_claimLimit = Dc_ClaimLimit cfg, Dp_perWorkerConc = Dc_PerWorkerConcurrency cfg,
       Dp_pollInterval = wrap64 (Dc_PollIntervalMS cfg * Millisecond), Dp_maxAttempts = Dc_MaxAttempts cfg,
       Dp_validateDest = ValidateDestAddrEnabled cfg, Dp_dlrLookupWait = 2 * Second, Dp_smppSrv = srv\<rparr>)"

definition SetSMPPServer :: "Server option \<Rightarrow> Dispatcher \<Rightarrow> Dispatcher" where
  "SetSMPPServer srv d = d\<lparr>Dp_smppSrv := srv\<rparr>"

definition ReloadRoutes :: "RouteConfig list \<Rightarrow> ProviderConfig list \<Rightarrow> Dispatcher \<Rightarrow> Dispatcher" where
  "ReloadRoutes routes providers d = d\<lparr>Dp_router := Some (NewWithProviders routes providers)\<rparr>"

definition SetFilterEngine :: "Engine option \<Rightarrow> Dispatcher \<Rightarrow> Dispatcher" where
  "SetFilterEngine e d = d\<lparr>Dp_filter := e\<rparr>"

definition ReloadFilter :: "Engine option \<Rightarrow> Dispatcher \<Rightarrow> Dispatcher" where
  "ReloadFilter e d = SetFilterEngine e d"

definition ReloadTenants :: "(string \<Rightarrow> bool) \<Rightarrow> Config \<Rightarrow> Dispatcher \<Rightarrow> Dispatcher" where
  "ReloadTenants zoneOK cfg d = d\<lparr>Dp_resolver := Some (NewResolver zoneOK cfg)\<rparr>"

text \<open>A sink is the list of the events it was given.\<close>

definition SetCDRSink :: "Event list option \<Rightarrow> Dispatcher \<Rightarrow> Dispatcher" where
  "SetCDRSink s d = (case s of None \<Rightarrow> d\<lparr>Dp_sink := None\<rparr> | Some evs \<Rightarrow> d\<lparr>Dp_sink := Some evs\<rparr>)"

definition SetInstanceID :: "string \<Rightarrow> Dispatcher \<Rightarrow> Dispatcher" where
  "SetInstanceID inst d = d\<lparr>Dp_instance := Some inst\<rparr>"

subsection \<open>Call detail records\<close>

definition emitCDR :: "Event \<Rightarrow> Dispatcher \<Rightarrow> Dispatcher" where
  "emitCDR e d =
     (case Dp_sink d of
        None \<Rightarrow> d
      | Some evs \<Rightarrow>
          let e2 = (if Ev_Instance e = [] then (case Dp_instance d of Some i \<Rightarrow> e\<lparr>Ev_Instance := i\<rparr> | None \<Rightarrow> e) else e)
          in d\<lparr>Dp_sink := Some (evs @ [e2])\<rparr>)"

definition rejectedEvent :: "Envelope \<Rightarrow> string \<Rightarrow> Event" where
  "rejectedEvent env reason =
     zeroEvent\<lparr>Ev_Kind := ''rejected'', Ev_From := En_From env, Ev_To := En_To env,
       Ev_TextLen := int (length (runes (En_Text env))), Ev_TextHash := TextHash (En_Text env), Ev_ClientID := En_ClientID env,
       Ev_TenantID := En_TenantID env, Ev_AccountID := En_AccountID env, Ev_ClientMsgID := En_ClientMsgID env,
       Ev_SystemID := Su_SMPPSystemID (En_Source env), Ev_Source := SourceKind_String (Su_Kind (En_Source env)),
       Ev_Reason := reason\<rparr>"

definition emitSubmitRejected :: "Envelope \<Rightarrow> string \<Rightarrow> Dispatcher \<Rightarrow> Dispatcher" where
  "emitSubmitRejected env reason d = emitCDR (rejectedEvent env reason) d"

subsection \<open>Submit\<close>

definition resolveTenant :: "Envelope \<Rightarrow> Dispatcher \<Rightarrow> Identity option" where
  "resolveTenant env d =
     (if Su_Kind (En_Source env) = SourceSMPP then Resolve (Dp_resolver d) ProtocolSMPP (Su_SMPPSystemID (En_Source env))
      else if Su_Kind (En_Source env) = SourceHTTPAPI then Resolve (Dp_resolver d) ProtocolHTTP (En_ClientID env)
      else None)"

definition receiptForExisting :: "string \<Rightarrow> Dispatcher \<Rightarrow> Receipt" where
  "receiptForExisting gatewayID d =
     (case GetMessage gatewayID (Dp_store d) of
        None \<Rightarrow> \<lparr>Re_GatewayID = gatewayID, Re_ProviderID = [], Re_Provider = [], Re_Route = [], Re_State = ''queued''\<rparr>
      | Some msg \<Rightarrow> \<lparr>Re_GatewayID = gatewayID, Re_ProviderID = Msg_ProviderID msg, Re_Provider = Msg_Provider msg,
          Re_Route = Msg_Route msg, Re_State = Msg_State msg\<rparr>)"

text \<open>A phase of \<open>Submit\<close> returns from the call or goes on.\<close>

datatype 'a phase = Return "SubmitError + Receipt" Dispatcher | Continue 'a Dispatcher

definition admit :: "DispatchEnv \<Rightarrow> Envelope \<Rightarrow> Dispatcher \<Rightarrow> (Envelope \<times> Identity option) phase" where
  "admit dx env0 d =
     (case resolveTenant env0 d of
        None \<Rightarrow> Continue (env0, None) d
      | Some ident \<Rightarrow>
          let env = env0\<lparr>En_TenantID := Id_TenantID ident, En_AccountID := Id_AccountID ident\<rparr> in
          if \<not> Id_Enabled ident then Return (Inl ErrTenantDisabled) (emitSubmitRejected env ''tenant_disabled'' d)
          else case AllowTenant (Dp_limiter d) (Dx_clock dx 1) (Id_TenantID ident) (Id_TPS ident) (Id_Burst ident) of
                 (allowed, limiter) \<Rightarrow>
                   let d1 = d\<lparr>Dp_limiter := limiter\<rparr> in
                   if allowed then Continue (env, Some ident) d1
                   else if En_ClientID env \<noteq> [] \<and> En_ClientMsgID env \<noteq> [] then
                     (case CheckIdempotency (Dx_clock dx 2) (En_ClientID env) (En_ClientMsgID env) (Dp_store d1) of
                        (found, st) \<Rightarrow>
                          let d2 = d1\<lparr>Dp_store := st\<rparr> in
                          (case found of
                             Some gatewayID \<Rightarrow> Return (Inr (receiptForExisting gatewayID d2)) d2
                           | None \<Rightarrow> Return (Inl ErrRateExceeded) (emitSubmitRejected env ''tenant_tps'' d2)))
                   else Return (Inl ErrRateExceeded) (emitSubmitRejected env ''tenant_tps'' d1))"

text \<open>The filter: the envelope goes on with the tags of the text.\<close>

definition applyFilter :: "DispatchEnv \<Rightarrow> Envelope \<Rightarrow> Dispatcher \<Rightarrow> (Envelope \<times> string list) phase option" where
  "applyFilter dx env d =
     (case Dp_filter d of
        None \<Rightarrow> Some (Continue (env, []) d)
      | Some e \<Rightarrow>
          (case Evaluate (Dx_filter dx) (Some e) (En_Text env) of
             None \<Rightarrow> None
           | Some dec \<Rightarrow>
               if De_Action dec = ActionBlock then
                 Some (Return (Inl (ErrBlocked (De_Reason dec)))
                   (emitCDR ((rejectedEvent env ''filter_block'')\<lparr>Ev_FilterRule := De_Reason dec\<rparr>) d))
               else if De_Action dec = ActionMask then
                 (if En_UDH env \<noteq> [] \<or> En_SARSet env then
                    Some (Return (Inl ErrMaskMultipart)
                      (emitCDR ((rejectedEvent env ''filter_mask_multipart'')\<lparr>Ev_FilterRule := De_Reason dec\<rparr>) d))
                  else Some (Continue (env\<lparr>En_Text := De_NewText dec, En_RawPayload := [], En_RawPayloadSet := False,
                         En_Encoding := [], En_DataCoding := 0\<rparr>, De_Tags dec) d))
               else Some (Continue (env, De_Tags dec) d)))"

definition matchInput :: "Envelope \<Rightarrow> string list \<Rightarrow> MatchInput" where
  "matchInput env tags = \<lparr>Mi_GatewayID = [], Mi_To = En_To env, Mi_From = En_From env,
     Mi_SystemID = Su_SMPPSystemID (En_Source env), Mi_ClientID = En_ClientID env, Mi_Tags = tags, Mi_Now = En_ReceivedAt env\<rparr>"

definition emptyRewrite :: AddrRewriteConfig where
  "emptyRewrite = \<lparr>Ar_StripTrunkZeroAfterCC = False, Ar_CountryCode = [], Ar_AddPrefix = [], Ar_EnforceE164Len = False\<rparr>"

definition destOptions :: "RouteConfig \<Rightarrow> destAddrOptions" where
  "destOptions route = \<lparr>Do_AllowShortCode = Da_AllowShortCode (Rt_DestAddr route),
     Do_MinShortLen = Da_MinShortLen (Rt_DestAddr route), Do_MaxShortLen = Da_MaxShortLen (Rt_DestAddr route),
     Do_CountryLengthMode = Da_CountryLengthMode (Rt_DestAddr route)\<rparr>"

definition findRoute :: "DispatchEnv \<Rightarrow> Envelope \<Rightarrow> string list \<Rightarrow> Dispatcher \<Rightarrow> (Envelope \<times> Router \<times> RouteConfig) phase" where
  "findRoute dx env tags d =
     (case Dp_router d of
        None \<Rightarrow> Return (Inl ErrRouterNotInitialized) d
      | Some rt \<Rightarrow>
          (case MatchRoute rt \<lparr>Wt_instant = Dx_clock dx 3, Wt_offset = Dx_zone dx ''Local'' (Dx_clock dx 3)\<rparr> (matchInput env tags) of
             None \<Rightarrow> Return (Inl (ErrNoRoute (En_To env))) (emitCDR (rejectedEvent env ''no_route'') d)
           | Some route \<Rightarrow>
               let hint = (case SelectProvider rt route [] of Some m \<Rightarrow> Mr_Provider m | None \<Rightarrow> []);
                   env2 = (if Rt_AddrRewrite route \<noteq> emptyRewrite
                           then env\<lparr>En_To := rewriteDestAddr (En_To env) (Rt_AddrRewrite route)\<rparr> else env);
                   shouldValidate = (ValidateEnabled (Rt_DestAddr route) (Dp_validateDest d) \<or> Ar_EnforceE164Len (Rt_AddrRewrite route))
               in if shouldValidate then
                    (case validateDestAddr (En_To env2) (destOptions route) of
                       Inl e \<Rightarrow> Return (Inl (ErrDestAddr e))
                         (emitCDR ((rejectedEvent env2 ''bad_dest'')\<lparr>Ev_Route := Rt_Name route, Ev_Provider := hint\<rparr>) d)
                     | Inr _ \<Rightarrow> Continue (env2, rt, route) d)
                  else Continue (env2, rt, route) d))"

definition cloneMeta :: "(string, string) gomap \<Rightarrow> (string, string) gomap" where
  "cloneMeta m = foldl (\<lambda>out (k, v). AList.update k v out) [] m"

definition clientMeta :: "Envelope \<Rightarrow> (string, string) gomap" where
  "clientMeta env =
     (if En_ClientID env \<noteq> [] then AList.update ''client_id'' (En_ClientID env) (cloneMeta (En_Meta env)) else cloneMeta (En_Meta env))"

definition submitEncoding :: "Envelope \<Rightarrow> string" where
  "submitEncoding env = (if En_Encoding env = [] then DetectEncoding (En_Text env) else En_Encoding env)"

definition buildMessage :: "DispatchEnv \<Rightarrow> Envelope \<Rightarrow> string \<Rightarrow> string \<Rightarrow> string \<Rightarrow> Message" where
  "buildMessage dx env gatewayID route provider =
     (Message_New (Dx_clock dx 4) gatewayID DirectionMT (En_From env) (En_To env) (En_Text env))
       \<lparr>Msg_Encoding := submitEncoding env, Msg_Route := route, Msg_Provider := provider,
        Msg_SourceKind := SourceKind_String (Su_Kind (En_Source env)), Msg_SourceID := Su_SMPPSessionID (En_Source env),
        Msg_TenantID := En_TenantID env, Msg_AccountID := En_AccountID env, Msg_ClientMsgID := En_ClientMsgID env,
        Msg_Metadata := clientMeta env, Msg_Segments := Split (Dx_ref dx) (En_Text env) (submitEncoding env),
        Msg_State := ''queued''\<rparr>"

definition buildPayload :: "Envelope \<Rightarrow> string \<Rightarrow> string \<Rightarrow> string \<Rightarrow> OutboxPayload" where
  "buildPayload env gatewayID route provider =
     \<lparr>Op_GatewayID = gatewayID, Op_TenantID = En_TenantID env, Op_AccountID = En_AccountID env, Op_ClientMsgID = En_ClientMsgID env,
      Op_Provider = provider, Op_Route = route, Op_From = En_From env, Op_To = En_To env, Op_Text = En_Text env,
      Op_DataCoding = En_DataCoding env, Op_RegisteredDelivery = En_RegisteredDelivery env, Op_Encoding = submitEncoding env,
      Op_Meta = clientMeta env, Op_SourceKind = SourceKind_String (Su_Kind (En_Source env)),
      Op_SourceSession = Su_SMPPSessionID (En_Source env), Op_SourceSystem = Su_SMPPSystemID (En_Source env),
      Op_CallbackURL = Su_CallbackURL (En_Source env), Op_CallbackRule = Su_CallbackRule (En_Source env),
      Op_ReceivedAt = Wt_instant (En_ReceivedAt env), Op_UDH = En_UDH env, Op_RawPayload = En_RawPayload env,
      Op_RawPayloadSet = En_RawPayloadSet env, Op_SARRefNum = En_SARRefNum env, Op_SARTotalSegments = En_SARTotalSegments env,
      Op_SARSegmentSeqnum = En_SARSegmentSeqnum env, Op_SARSet = En_SARSet env\<rparr>"

definition submitQuota :: "DispatchEnv \<Rightarrow> Identity option \<Rightarrow> Message \<Rightarrow> DailyQuotaDebit option" where
  "submitQuota dx ident msg =
     (case ident of
        None \<Rightarrow> None
      | Some i \<Rightarrow>
          if 0 < Id_DailySegments i then
            Some \<lparr>Dq_TenantID = Id_TenantID i,
              Dq_Date = formatDateOnly \<lparr>Wt_instant = Dx_clock dx 5, Wt_offset = Dx_zone dx (Id_Location i) (Dx_clock dx 5)\<rparr>,
              Dq_Segments = int (length (Msg_Segments msg)), Dq_Limit = Id_DailySegments i\<rparr>
          else None)"

definition submitOptions :: "DispatchEnv \<Rightarrow> Envelope \<Rightarrow> Identity option \<Rightarrow> Message \<Rightarrow> SubmitOptions" where
  "submitOptions dx env ident msg =
     \<lparr>So_Idempotency = \<lparr>Io_ClientID = En_ClientID env, Io_Key = En_ClientMsgID env, Io_TTL = 24 * Hour\<rparr>,
      So_Quota = submitQuota dx ident msg\<rparr>"

definition submitItem :: "Envelope \<Rightarrow> string \<Rightarrow> string \<Rightarrow> string \<Rightarrow> int \<Rightarrow> OutboxItem" where
  "submitItem env gatewayID route provider maxAttempts =
     \<lparr>Ob_ID = 0, Ob_GatewayID = gatewayID, Ob_Provider = provider, Ob_Payload = buildPayload env gatewayID route provider,
      Ob_State = [], Ob_ClaimedBy = [], Ob_ClaimedAt = 0, Ob_NextRetryAt = 0, Ob_Attempt = 0, Ob_MaxAttempts = maxAttempts,
      Ob_LastError = [], Ob_CreatedAt = 0\<rparr>"

definition acceptedEvent :: "Envelope \<Rightarrow> Message \<Rightarrow> Event" where
  "acceptedEvent env msg =
     zeroEvent\<lparr>Ev_Kind := ''accepted'', Ev_GatewayID := Msg_ID msg, Ev_From := En_From env, Ev_To := En_To env,
       Ev_TextLen := int (length (runes (En_Text env))), Ev_TextHash := TextHash (En_Text env), Ev_Encoding := Msg_Encoding msg,
       Ev_Segments := int (length (Msg_Segments msg)), Ev_Route := Msg_Route msg, Ev_Provider := Msg_Provider msg,
       Ev_ClientID := En_ClientID env, Ev_TenantID := En_TenantID env, Ev_AccountID := En_AccountID env,
       Ev_ClientMsgID := En_ClientMsgID env, Ev_SystemID := Su_SMPPSystemID (En_Source env),
       Ev_Source := SourceKind_String (Su_Kind (En_Source env)), Ev_State := ''queued''\<rparr>"

definition enqueue ::
  "DispatchEnv \<Rightarrow> Envelope \<Rightarrow> Identity option \<Rightarrow> Router \<Rightarrow> RouteConfig \<Rightarrow> Dispatcher \<Rightarrow> (SubmitError + Receipt) \<times> Dispatcher" where
  "enqueue dx env ident rt route d =
     (case newGatewayID memReserve (Dp_idAlloc d) (Dp_store d) of
        (None, alloc, st) \<Rightarrow> (Inl ErrGatewayID, d\<lparr>Dp_idAlloc := alloc, Dp_store := st\<rparr>)
      | (Some gatewayID, alloc, st) \<Rightarrow>
          let d1 = d\<lparr>Dp_idAlloc := alloc, Dp_store := st\<rparr> in
          (case SelectProvider rt route gatewayID of
             None \<Rightarrow> (Inl (ErrNoProvider (Rt_Name route)),
                emitCDR ((rejectedEvent env ''no_provider'')\<lparr>Ev_GatewayID := gatewayID, Ev_Route := Rt_Name route\<rparr>) d1)
           | Some m \<Rightarrow>
               let msg = buildMessage dx env gatewayID (Rt_Name route) (Mr_Provider m);
                   item = submitItem env gatewayID (Rt_Name route) (Mr_Provider m) (Dp_maxAttempts d1)
               in case SubmitAtomic (Dx_clock dx 6) msg item (submitOptions dx env ident msg) (Dp_store d1) of
                    (Inl e, st2) \<Rightarrow>
                      let d2 = d1\<lparr>Dp_store := st2\<rparr> in
                      (Inl (ErrStore e), if e = ErrQuotaExceeded then emitSubmitRejected env ''tenant_daily_segments'' d2 else d2)
                  | (Inr (n, existing, duplicate), st2) \<Rightarrow>
                      let d2 = d1\<lparr>Dp_store := st2\<rparr> in
                      if duplicate then (Inr (receiptForExisting existing d2), d2)
                      else (Inr \<lparr>Re_GatewayID = gatewayID, Re_ProviderID = [], Re_Provider = Mr_Provider m, Re_Route = Rt_Name route,
                              Re_State = ''queued''\<rparr>, emitCDR (acceptedEvent env msg) d2)))"

definition Submit :: "DispatchEnv \<Rightarrow> Envelope \<Rightarrow> Dispatcher \<Rightarrow> ((SubmitError + Receipt) \<times> Dispatcher) option" where
  "Submit dx env0 d =
     (let env = (if Wt_instant (En_ReceivedAt env0) = 0 then env0\<lparr>En_ReceivedAt := \<lparr>Wt_instant = Dx_clock dx 0, Wt_offset = 0\<rparr>\<rparr> else env0)
      in case admit dx env d of
           Return r d1 \<Rightarrow> Some (r, d1)
         | Continue (env1, ident) d1 \<Rightarrow>
             (case applyFilter dx (env1\<lparr>En_To := TrimPrefix (En_To env1) ''+''\<rparr>) d1 of
                None \<Rightarrow> None
              | Some (Return r d2) \<Rightarrow> Some (r, d2)
              | Some (Continue (env2, tags) d2) \<Rightarrow>
                  (case findRoute dx env2 tags d2 of
                     Return r d3 \<Rightarrow> Some (r, d3)
                   | Continue (env3, rt, route) d3 \<Rightarrow> Some (enqueue dx env3 ident rt route d3))))"

subsection \<open>What the phases keep\<close>

text \<open>The messages and the outbox, the part of the store that only an accepted submission changes.\<close>

definition queued :: "Dispatcher \<Rightarrow> Message list \<times> (string, nat) gomap \<times> (int, OutboxItem) gomap" where
  "queued d = (st_messages (Dp_store d), st_messageByID (Dp_store d), st_outbox (Dp_store d))"

lemma emitCDR_frame [simp]:
  "Dp_store (emitCDR e d) = Dp_store d" "queued (emitCDR e d) = queued d" "Dp_router (emitCDR e d) = Dp_router d"
  "Dp_smppSrv (emitCDR e d) = Dp_smppSrv d" "Dp_dlrPick (emitCDR e d) = Dp_dlrPick d" "Dp_pendingTTL (emitCDR e d) = Dp_pendingTTL d"
  "Dp_dlrCh (emitCDR e d) = Dp_dlrCh d"
  by (simp_all add: emitCDR_def queued_def Let_def split: option.splits)

lemma emitSubmitRejected_frame [simp]:
  "Dp_store (emitSubmitRejected e r d) = Dp_store d" "queued (emitSubmitRejected e r d) = queued d"
  by (simp_all add: emitSubmitRejected_def)

lemma emitCDR_sink:
  "Dp_sink d = Some evs \<Longrightarrow> \<exists>e2. Dp_sink (emitCDR e d) = Some (evs @ [e2]) \<and> Ev_Kind e2 = Ev_Kind e \<and> Ev_GatewayID e2 = Ev_GatewayID e"
  by (simp add: emitCDR_def Let_def split: option.splits)

lemma CheckIdempotency_queued:
  "CheckIdempotency now c k s = (r, s') \<Longrightarrow> st_messages s' = st_messages s \<and> st_messageByID s' = st_messageByID s \<and> st_outbox s' = st_outbox s"
  by (auto simp: CheckIdempotency_def Let_def split: if_splits option.splits)

lemma memReserve_frame:
  "memReserve n s = (r, s') \<Longrightarrow> \<exists>q. s' = s\<lparr>st_gatewaySeq := q\<rparr>"
  by (auto simp: memReserve_def ReserveGatewayIDRange_def Let_def split: prod.splits)

lemma newGatewayID_frame:
  assumes "newGatewayID memReserve a s = (g, a', s')"
  shows "\<exists>q. s' = s\<lparr>st_gatewaySeq := q\<rparr>"
proof -
  have "\<exists>q. s = s\<lparr>st_gatewaySeq := q\<rparr>"
    by (rule exI [of _ "st_gatewaySeq s"]) simp
  then show ?thesis
    using assms by (auto simp: newGatewayID_def NextID_def dest!: memReserve_frame split: if_splits prod.splits option.splits)
qed

lemma store_inv_gatewaySeq [simp]: "store_inv (s\<lparr>st_gatewaySeq := q\<rparr>) \<longleftrightarrow> store_inv s"
  by (simp add: store_inv_def)

text \<open>A phase that returns has stored nothing, and answers with an error or with a receipt of an earlier message.\<close>

definition answersOld :: "(SubmitError + Receipt) \<Rightarrow> Dispatcher \<Rightarrow> bool" where
  "answersOld r d \<longleftrightarrow> (case r of Inl _ \<Rightarrow> True | Inr rc \<Rightarrow> rc = receiptForExisting (Re_GatewayID rc) d)"

lemma receiptForExisting_id [simp]: "Re_GatewayID (receiptForExisting g d) = g"
  by (simp add: receiptForExisting_def split: option.splits)

lemma admit_Return: "admit dx env d = Return r d' \<Longrightarrow> queued d' = queued d \<and> answersOld r d'"
  by (auto simp: admit_def Let_def answersOld_def queued_def dest!: CheckIdempotency_queued split: option.splits if_splits prod.splits)

lemma admit_Continue:
  assumes "admit dx env d = Continue (env', ident) d'"
  shows "(\<exists>l. d' = d\<lparr>Dp_limiter := l\<rparr>) \<and> resolveTenant env d = ident
    \<and> (case ident of None \<Rightarrow> env' = env
       | Some i \<Rightarrow> Id_Enabled i \<and> fst (AllowTenant (Dp_limiter d) (Dx_clock dx 1) (Id_TenantID i) (Id_TPS i) (Id_Burst i))
           \<and> env' = env\<lparr>En_TenantID := Id_TenantID i, En_AccountID := Id_AccountID i\<rparr>)"
proof (cases "resolveTenant env d")
  case None
  then have "env' = env \<and> ident = None \<and> d' = d\<lparr>Dp_limiter := Dp_limiter d\<rparr>"
    using assms by (simp add: admit_def)
  with None show ?thesis by (auto intro: exI [of _ "Dp_limiter d"])
next
  case (Some i)
  then show ?thesis
    using assms by (auto simp: admit_def Let_def split: if_splits prod.splits option.splits)
qed

text \<open>The text that leaves the filter: never a blocked one, the masked one where the filter masks.\<close>

definition letThrough :: "FilterEnv \<Rightarrow> Engine option \<Rightarrow> string \<Rightarrow> string \<Rightarrow> bool" where
  "letThrough fe eng t t' \<longleftrightarrow>
     (case eng of
        None \<Rightarrow> t' = t
      | Some _ \<Rightarrow> (case Evaluate fe eng t of
          None \<Rightarrow> False
        | Some dec \<Rightarrow> De_Action dec \<noteq> ActionBlock \<and> t' = (if De_Action dec = ActionMask then De_NewText dec else t)))"

lemma applyFilter_Return: "applyFilter dx env d = Some (Return r d') \<Longrightarrow> queued d' = queued d \<and> answersOld r d'"
  by (auto simp: applyFilter_def answersOld_def split: option.splits if_splits)

lemma applyFilter_Continue:
  "applyFilter dx env d = Some (Continue (env', tags) d') \<Longrightarrow>
     d' = d \<and> letThrough (Dx_filter dx) (Dp_filter d) (En_Text env) (En_Text env')
     \<and> En_To env' = En_To env \<and> En_TenantID env' = En_TenantID env"
  by (auto simp: applyFilter_def letThrough_def split: option.splits if_splits)

lemma findRoute_Return: "findRoute dx env tags d = Return r d' \<Longrightarrow> queued d' = queued d \<and> answersOld r d'"
  by (auto simp: findRoute_def answersOld_def Let_def split: option.splits if_splits sum.splits)

text \<open>The destination passed its check, where the route asks for one.\<close>

definition destChecked :: "bool \<Rightarrow> RouteConfig \<Rightarrow> string \<Rightarrow> bool" where
  "destChecked dflt route dest \<longleftrightarrow>
     (if ValidateEnabled (Rt_DestAddr route) dflt \<or> Ar_EnforceE164Len (Rt_AddrRewrite route)
      then validateDestAddr dest (destOptions route) = Inr () else True)"

definition routeNow :: "DispatchEnv \<Rightarrow> WallTime" where
  "routeNow dx = \<lparr>Wt_instant = Dx_clock dx 3, Wt_offset = Dx_zone dx ''Local'' (Dx_clock dx 3)\<rparr>"

lemma findRoute_Continue:
  assumes "findRoute dx env tags d = Continue (env', rt, route) d'"
  shows "d' = d \<and> Dp_router d = Some rt \<and> MatchRoute rt (routeNow dx) (matchInput env tags) = Some route
     \<and> destChecked (Dp_validateDest d) route (En_To env')
     \<and> En_To env' = (if Rt_AddrRewrite route = emptyRewrite then En_To env else rewriteDestAddr (En_To env) (Rt_AddrRewrite route))
     \<and> En_Text env' = En_Text env \<and> En_TenantID env' = En_TenantID env"
  using assms
  by (auto simp: findRoute_def destChecked_def routeNow_def Let_def split: option.splits if_splits sum.splits)

lemma enqueue_result:
  assumes inv: "store_inv (Dp_store d)" and enq: "enqueue dx env ident rt route d = (r, d')"
  shows "(queued d' = queued d \<and> answersOld r d') \<or>
    (\<exists>g m msg n item. r = Inr \<lparr>Re_GatewayID = g, Re_ProviderID = [], Re_Provider = Mr_Provider m, Re_Route = Rt_Name route, Re_State = ''queued''\<rparr>
      \<and> SelectProvider rt route g = Some m \<and> msg = buildMessage dx env g (Rt_Name route) (Mr_Provider m)
      \<and> item = outboxDefaults (Dx_clock dx 6) (Dx_clock dx 6)
          ((submitItem env g (Rt_Name route) (Mr_Provider m) (Dp_maxAttempts d))\<lparr>Ob_ID := n\<rparr>)
      \<and> GetMessage g (Dp_store d') = Some msg
      \<and> map_of (st_outbox (Dp_store d)) n = None
      \<and> map_of (st_outbox (Dp_store d')) = (map_of (st_outbox (Dp_store d)))(n \<mapsto> item)
      \<and> (\<exists>d2. Dp_sink d2 = Dp_sink d \<and> d' = emitCDR (acceptedEvent env msg) d2))"
proof -
  obtain go alloc st where ng: "newGatewayID memReserve (Dp_idAlloc d) (Dp_store d) = (go, alloc, st)"
    by (cases "newGatewayID memReserve (Dp_idAlloc d) (Dp_store d)") auto
  obtain q where st: "st = (Dp_store d)\<lparr>st_gatewaySeq := q\<rparr>"
    using newGatewayID_frame [OF ng] by blast
  let ?d1 = "d\<lparr>Dp_idAlloc := alloc, Dp_store := st\<rparr>"
  show ?thesis
  proof (cases go)
    case None
    then show ?thesis using enq ng by (auto simp: enqueue_def answersOld_def queued_def st)
  next
    case (Some g)
    show ?thesis
    proof (cases "SelectProvider rt route g")
      case None
      then show ?thesis using enq ng Some by (auto simp: enqueue_def answersOld_def queued_def st Let_def)
    next
      case m: (Some m)
      let ?msg = "buildMessage dx env g (Rt_Name route) (Mr_Provider m)"
      let ?item = "submitItem env g (Rt_Name route) (Mr_Provider m) (Dp_maxAttempts d)"
      obtain res st2 where sub: "SubmitAtomic (Dx_clock dx 6) ?msg ?item (submitOptions dx env ident ?msg) st = (res, st2)"
        by fastforce
      have id: "Msg_ID ?msg = g"
        by (simp add: buildMessage_def Message_New_def)
      consider (new) n where "res = Inr (n, g, False)" | (other) "\<nexists>n g. res = Inr (n, g, False)"
        using SubmitAtomic_new [of st "Dx_clock dx 6" ?msg ?item "submitOptions dx env ident ?msg"] inv sub id
        by (fastforce simp: st)
      then show ?thesis
      proof cases
        case other
        have "st2 = sweepLocked (Dx_clock dx 6) st"
          by (rule SubmitAtomic_other [OF sub other])
        then show ?thesis
          using enq ng Some m sub other
          by (auto simp: enqueue_def answersOld_def queued_def st Let_def split: sum.splits if_splits prod.splits)
      next
        case (new n)
        have facts: "GetMessage g st2 = Some ?msg" "map_of (st_outbox st) n = None"
            "map_of (st_outbox st2) n = Some (outboxDefaults (Dx_clock dx 6) (Dx_clock dx 6) (?item\<lparr>Ob_ID := n\<rparr>))"
            "\<forall>k. k \<noteq> n \<longrightarrow> map_of (st_outbox st2) k = map_of (st_outbox st) k"
          using SubmitAtomic_new [OF _ sub [unfolded new]] inv by (simp_all add: st)
        have "map_of (st_outbox st2) = (map_of (st_outbox (Dp_store d)))(n \<mapsto> outboxDefaults (Dx_clock dx 6) (Dx_clock dx 6) (?item\<lparr>Ob_ID := n\<rparr>))"
          using facts(3,4) by (auto simp: st fun_eq_iff)
        moreover have "r = Inr \<lparr>Re_GatewayID = g, Re_ProviderID = [], Re_Provider = Mr_Provider m, Re_Route = Rt_Name route, Re_State = ''queued''\<rparr>"
          "d' = emitCDR (acceptedEvent env ?msg) (?d1\<lparr>Dp_store := st2\<rparr>)"
          using enq ng Some m sub new by (simp_all add: enqueue_def Let_def)
        moreover have "Dp_sink (?d1\<lparr>Dp_store := st2\<rparr>) = Dp_sink d" by simp
        ultimately show ?thesis
          using facts(1,2) m by (intro disjI2 exI [of _ g] exI [of _ m] exI [of _ ?msg] exI [of _ n] exI conjI refl) (auto simp: st)
      qed
    qed
  qed
qed

lemma Submit_phases:
  assumes "Submit dx env0 d = Some (r, d')"
  obtains (early) "queued d' = queued d" "answersOld r d'"
    | (enqueued) env env1 ident l env2 tags env3 rt route where
      "env = (if Wt_instant (En_ReceivedAt env0) = 0 then env0\<lparr>En_ReceivedAt := \<lparr>Wt_instant = Dx_clock dx 0, Wt_offset = 0\<rparr>\<rparr> else env0)"
      "admit dx env d = Continue (env1, ident) (d\<lparr>Dp_limiter := l\<rparr>)"
      "applyFilter dx (env1\<lparr>En_To := TrimPrefix (En_To env1) ''+''\<rparr>) (d\<lparr>Dp_limiter := l\<rparr>) = Some (Continue (env2, tags) (d\<lparr>Dp_limiter := l\<rparr>))"
      "findRoute dx env2 tags (d\<lparr>Dp_limiter := l\<rparr>) = Continue (env3, rt, route) (d\<lparr>Dp_limiter := l\<rparr>)"
      "enqueue dx env3 ident rt route (d\<lparr>Dp_limiter := l\<rparr>) = (r, d')"
proof -
  define env where "env = (if Wt_instant (En_ReceivedAt env0) = 0 then env0\<lparr>En_ReceivedAt := \<lparr>Wt_instant = Dx_clock dx 0, Wt_offset = 0\<rparr>\<rparr> else env0)"
  have lim: "queued (d\<lparr>Dp_limiter := l\<rparr>) = queued d" for l
    by (simp add: queued_def)
  show thesis
  proof (cases "admit dx env d")
    case (Return ra da)
    then show thesis
      using assms early admit_Return [OF Return] by (simp add: Submit_def env_def [symmetric])
  next
    case (Continue a d1)
    obtain env1 ident where a: "a = (env1, ident)" by (cases a)
    obtain l where d1: "d1 = d\<lparr>Dp_limiter := l\<rparr>"
      using admit_Continue Continue a by blast
    note ad = Continue [unfolded a d1]
    let ?f = "applyFilter dx (env1\<lparr>En_To := TrimPrefix (En_To env1) ''+''\<rparr>) (d\<lparr>Dp_limiter := l\<rparr>)"
    have sub: "(case ?f of None \<Rightarrow> None | Some (Return r d2) \<Rightarrow> Some (r, d2)
        | Some (Continue (env2, tags) d2) \<Rightarrow>
            (case findRoute dx env2 tags d2 of Return r d3 \<Rightarrow> Some (r, d3)
             | Continue (env3, rt, route) d3 \<Rightarrow> Some (enqueue dx env3 ident rt route d3))) = Some (r, d')"
      using assms ad by (simp add: Submit_def env_def [symmetric])
    then obtain ph where f: "?f = Some ph" by (cases ?f) auto
    show thesis
    proof (cases ph)
      case (Return rf df)
      then show thesis
        using sub f early applyFilter_Return [of dx _ "d\<lparr>Dp_limiter := l\<rparr>"] lim by simp
    next
      case (Continue b d2)
      obtain env2 tags where b: "b = (env2, tags)" by (cases b)
      have d2: "d2 = d\<lparr>Dp_limiter := l\<rparr>"
        using applyFilter_Continue f Continue b by blast
      note fl = f [unfolded Continue b d2]
      have sub2: "(case findRoute dx env2 tags (d\<lparr>Dp_limiter := l\<rparr>) of Return r d3 \<Rightarrow> Some (r, d3)
             | Continue (env3, rt, route) d3 \<Rightarrow> Some (enqueue dx env3 ident rt route d3)) = Some (r, d')"
        using sub fl by simp
      show thesis
      proof (cases "findRoute dx env2 tags (d\<lparr>Dp_limiter := l\<rparr>)")
        case (Return rr dr)
        then show thesis
          using sub2 early findRoute_Return [OF Return] lim by simp
      next
        case (Continue c d3)
        obtain env3 rt route where c: "c = (env3, rt, route)" by (cases c)
        have d3: "d3 = d\<lparr>Dp_limiter := l\<rparr>"
          using findRoute_Continue Continue c by blast
        show thesis
          using enqueued [OF env_def ad fl Continue [unfolded c d3]] sub2 Continue [unfolded c d3] by simp
      qed
    qed
  qed
qed


definition exampleEnvelope :: Envelope where
  "exampleEnvelope = \<lparr>En_From = ''10086'', En_To = ''+8613800000000'', En_Text = ''hi'', En_ClientID = [], En_ClientMsgID = [],
     En_TenantID = ''t'', En_AccountID = [], En_DataCoding = 0, En_Encoding = ''gsm7'', En_RegisteredDelivery = 1,
     En_Source = \<lparr>Su_Kind = 2, Su_SMPPSessionID = [], Su_SMPPSystemID = [], Su_CallbackURL = [], Su_CallbackRule = []\<rparr>,
     En_ReceivedAt = \<lparr>Wt_instant = 1, Wt_offset = 0\<rparr>, En_Meta = [], En_UDH = [], En_RawPayload = [], En_RawPayloadSet = False,
     En_SARRefNum = [], En_SARTotalSegments = [], En_SARSegmentSeqnum = [], En_SARSet = False\<rparr>"

definition exampleDispatchEnv :: "FilterEnv \<Rightarrow> DispatchEnv" where
  "exampleDispatchEnv fe = \<lparr>Dx_clock = (\<lambda>n. int n + 1), Dx_ref = 0, Dx_zone = (\<lambda>_ _. 0), Dx_filter = fe\<rparr>"

definition exampleFilterEnv :: FilterEnv where
  "exampleFilterEnv = \<lparr>Fe_lower = id, Fe_compile = (\<lambda>_. None), Fe_range = id, Fe_sort = id\<rparr>"

definition exampleDispatcher :: Dispatcher where
  "exampleDispatcher = \<lparr>Dp_store = NewMemory, Dp_idAlloc = newIDAllocator 1000, Dp_router = Some exampleRouter, Dp_filter = None,
     Dp_sink = Some [], Dp_instance = None, Dp_resolver = None, Dp_limiter = NewTokenBucket, Dp_dlrPick = 0, Dp_dlrCh = [],
     Dp_pendingTTL = Minute, Dp_pendingSweep = Minute, Dp_claimTimeout = Minute, Dp_workers = 1, Dp_claimLimit = 1,
     Dp_perWorkerConc = 1, Dp_pollInterval = Second, Dp_maxAttempts = 5, Dp_validateDest = False, Dp_dlrLookupWait = 0, Dp_smppSrv = None\<rparr>"

lemma exampleSubmitRoute:
  "MatchRoute exampleRouter now (matchInput (exampleEnvelope\<lparr>En_To := ''8613800000000''\<rparr>) []) = Some (exampleRoute ''r1'' [''86''] ''p1'')"
  by (simp add: MatchRoute_def exampleRouter_routes matchInput_def exampleEnvelope_def matchStep_def routeMatches_def exampleRoute_def
      matchedPrefixLen_def HasPrefix_def)

lemma exampleSubmitProvider:
  "SelectProvider exampleRouter (exampleRoute ''r1'' [''86''] ''p1'') g
     = Some \<lparr>Mr_Route = exampleRoute ''r1'' [''86''] ''p1'', Mr_Provider = ''p1'', Mr_FailoverChain = []\<rparr>"
proof -
  have "Ro_enabledProviders exampleRouter = [(''p1'', True)]"
    by (simp add: exampleRouter_def NewWithProviders_def Let_def enabledMap_def exampleProvider_def)
  then show ?thesis
    by (simp add: SelectProvider_def selectProvider_def exampleRoute_def providerEnabled_def enabledGet_def)
qed

lemma formatGatewayID_1: "formatGatewayID 1 = Some ''m0000001''"
proof -
  have "FormatUint 1 36 = ''1''"
    by (subst FormatUint.simps) (simp add: digitChar_def char_of_def bit_0)
  then show ?thesis
    by (simp add: formatGatewayID_def padLeft_def Let_def numeral_eq_Suc)
qed

lemma exampleGatewayID:
  "newGatewayID memReserve (newIDAllocator 1000) NewMemory =
     (Some ''m0000001'', (newIDAllocator 1000)\<lparr>Ia_next := 2, Ia_end := 1000\<rparr>, NewMemory\<lparr>st_gatewaySeq := 1000\<rparr>)"
  by (simp add: newGatewayID_def NextID_def newIDAllocator_def memReserve_def ReserveGatewayIDRange_def NewMemory_def formatGatewayID_1)

lemma exampleSubmitRuns:
  "\<exists>r d'. Submit (exampleDispatchEnv fe) exampleEnvelope exampleDispatcher = Some (r, d') \<and> st_outbox (Dp_store d') \<noteq> []"
proof -
  let ?env = "exampleEnvelope\<lparr>En_To := ''8613800000000''\<rparr>"
  have ad: "admit (exampleDispatchEnv fe) exampleEnvelope exampleDispatcher = Continue (exampleEnvelope, None) exampleDispatcher"
    by (simp add: admit_def resolveTenant_def exampleEnvelope_def)
  have trim: "exampleEnvelope\<lparr>En_To := TrimPrefix (En_To exampleEnvelope) ''+''\<rparr> = ?env"
    by (simp add: exampleEnvelope_def TrimPrefix_def HasPrefix_def)
  have fl: "applyFilter (exampleDispatchEnv fe) ?env exampleDispatcher = Some (Continue (?env, []) exampleDispatcher)"
    by (simp add: applyFilter_def exampleDispatcher_def)
  have fr: "findRoute (exampleDispatchEnv fe) ?env [] exampleDispatcher
      = Continue (?env, exampleRouter, exampleRoute ''r1'' [''86''] ''p1'') exampleDispatcher"
    by (simp add: findRoute_def exampleDispatcher_def exampleSubmitRoute exampleRoute_def emptyRewrite_def ValidateEnabled_def Let_def)
  have now: "Wt_instant (En_ReceivedAt exampleEnvelope) \<noteq> 0"
    by (simp add: exampleEnvelope_def)
  have "Submit (exampleDispatchEnv fe) exampleEnvelope exampleDispatcher
      = Some (enqueue (exampleDispatchEnv fe) ?env None exampleRouter (exampleRoute ''r1'' [''86''] ''p1'') exampleDispatcher)"
    using now by (simp add: Submit_def ad trim fl fr)
  moreover have "st_outbox (Dp_store (snd (enqueue (exampleDispatchEnv fe) ?env None exampleRouter (exampleRoute ''r1'' [''86''] ''p1'') exampleDispatcher))) \<noteq> []"
    by (simp add: enqueue_def exampleDispatcher_def exampleGatewayID exampleSubmitProvider SubmitAtomic_def submitOptions_def submitQuota_def
        debitQuota_def EnqueueOutbox_def Let_def exampleEnvelope_def)
  ultimately show ?thesis
    by (metis prod.collapse)
qed


end
