(* ===== verification/Dispatch_Dlr.thy ===== *)
theory Dispatch_Dlr
  imports Dispatch_Submit "HOL-Library.Signed_Division"
begin

text \<open>
  The dispatcher, second part (\<open>dispatch/dispatcher.go\<close>): delivery receipts. A receipt of a provider is matched to the
  segment it is for, the state of the message is aggregated over its segments, and the receipt is
  passed on to an SMPP session or an HTTP callback; receipts that cannot be passed on are kept and flushed later.

  What a session answers, what a callback returns, the order in which maps are visited and the
  clock are the fields of \<open>DlrEnv\<close>; every step of a loop gets an environment of its own.
\<close>

subsection \<open>The state of a message\<close>

definition isFinalDLRState :: "string \<Rightarrow> bool" where
  "isFinalDLRState state \<longleftrightarrow>
     ToUpper (TrimSpace state) \<in> {''DELIVRD'', ''EXPIRED'', ''DELETED'', ''UNDELIV'', ''REJECTD'', ''UNKNOWN''}"

record dlrAggregate =
  Ag_State :: string
  Ag_ErrorCode :: int
  Ag_Final :: bool
  Ag_AllDelivered :: bool

definition dlrFailureRank :: "string \<Rightarrow> nat" where
  "dlrFailureRank state =
     (if state = ''REJECTD'' then 6 else if state = ''UNDELIV'' then 5 else if state = ''EXPIRED'' then 4
      else if state = ''DELETED'' then 3 else if state = ''UNKNOWN'' then 2 else 0)"

record aggregateLoop =
  Al_expected :: int
  Al_seen :: "int list"
  Al_rank :: nat
  Al_result :: dlrAggregate

definition aggregateStep :: "aggregateLoop \<Rightarrow> Pending \<Rightarrow> aggregateLoop" where
  "aggregateStep a segment =
     (let state = ToUpper (TrimSpace (Pd_DLRState segment)); rank = dlrFailureRank state;
          r1 = (if isFinalDLRState state then Al_result a else (Al_result a)\<lparr>Ag_Final := False\<rparr>);
          r2 = (if Pd_DLRDelivered segment then r1 else r1\<lparr>Ag_AllDelivered := False\<rparr>);
          r3 = (if Al_rank a < rank then r2\<lparr>Ag_State := state, Ag_ErrorCode := Pd_DLRErrorCode segment\<rparr> else r2)
      in \<lparr>Al_expected = (if Al_expected a < Pd_SegmentCount segment then Pd_SegmentCount segment else Al_expected a),
          Al_seen = (if 0 < Pd_SegmentIndex segment then List.insert (Pd_SegmentIndex segment) (Al_seen a) else Al_seen a),
          Al_rank = (if Al_rank a < rank then rank else Al_rank a), Al_result = r3\<rparr>)"

definition aggregateDLR :: "Pending list \<Rightarrow> dlrAggregate" where
  "aggregateDLR segments =
     (let result = \<lparr>Ag_State = ''PENDING'', Ag_ErrorCode = 0, Ag_Final = False, Ag_AllDelivered = False\<rparr> in
      if segments = [] then result
      else let a = foldl aggregateStep
                     \<lparr>Al_expected = 1, Al_seen = [], Al_rank = 0, Al_result = result\<lparr>Ag_Final := True, Ag_AllDelivered := True\<rparr>\<rparr> segments;
               r = (if int (length (Al_seen a)) < Al_expected a
                    then (Al_result a)\<lparr>Ag_Final := False, Ag_AllDelivered := False\<rparr> else Al_result a)
           in if \<not> Ag_Final r then r\<lparr>Ag_State := ''PENDING'', Ag_ErrorCode := 0\<rparr>
              else if Al_rank a = 0 then r\<lparr>Ag_State := ''DELIVRD'', Ag_ErrorCode := 0\<rparr> else r)"

subsection \<open>Passing a receipt on\<close>

datatype jsonValue = JString string | JInt int | JBool bool

record DlrEnv =
  Dy_clock :: "nat \<Rightarrow> gotime"
  Dy_sessions :: "(string, Session) gomap \<Rightarrow> (string, Session) gomap"
  Dy_pending :: "(string, Pending) gomap \<Rightarrow> (string, Pending) gomap"
  Dy_ack :: "Session \<Rightarrow> PDU \<Rightarrow> 32 word option"
  Dy_callback :: "string \<Rightarrow> (string, jsonValue) gomap \<Rightarrow> int option"

datatype PushError = errNoServer | errNoReceiverOnline | errDLRNotAcked "32 word option" | panicIndex

text \<open>\<open>SendDeliverSM\<close> with the answer of the peer, \<open>None\<close> when none arrives in time.\<close>

definition SendDeliverSM :: "32 word option \<Rightarrow> PDU \<Rightarrow> Session \<Rightarrow> 32 word option \<times> Session" where
  "SendDeliverSM ack p s =
     (case beginDeliver p s of
        (False, s1) \<Rightarrow> (None, unregisterDeliverResp (Pdu_SequenceID p) s1)
      | (True, s1) \<Rightarrow> endDeliver (Pdu_SequenceID p)
          (case ack of None \<Rightarrow> s1 | Some status \<Rightarrow> completeDeliverResp (Pdu_SequenceID p) status s1))"

text \<open>
  The session that submitted the message if it still receives, otherwise the receivers of the same system
  in turn. The counter is converted to a signed integer, so its remainder may be negative.
\<close>

definition pickSession :: "DlrEnv \<Rightarrow> Pending \<Rightarrow> Server \<Rightarrow> 64 word \<Rightarrow> (PushError + Session) \<times> 64 word" where
  "pickSession dy rec srv pick =
     (case (if Pd_SourceSession rec \<noteq> [] then
              (case SessionOf (Pd_SourceSession rec) srv of
                 Some s \<Rightarrow> if CanReceive (Ss_bindMode s) then Some s else None
               | None \<Rightarrow> None)
            else None) of
        Some s \<Rightarrow> (Inr s, pick)
      | None \<Rightarrow>
          if Pd_SourceSystem rec \<noteq> [] then
            let receivers = ReceiversBySystemID (Dy_sessions dy) (Pd_SourceSystem rec) srv in
            if receivers \<noteq> [] then
              let idx = sint pick smod int (length receivers) in
              (if idx < 0 then Inl panicIndex else Inr (receivers ! nat idx), pick + 1)
            else (Inl errNoReceiverOnline, pick)
          else (Inl errNoReceiverOnline, pick))"

definition receiptParams :: "Pending \<Rightarrow> DLR \<Rightarrow> DLRParams" where
  "receiptParams rec dlr =
     \<lparr>Dlr_GatewayID = Pd_GatewayID rec, Dlr_SourceAddr = Pd_To rec, Dlr_DestAddr = Pd_From rec,
      Dlr_SubmittedAt = Pd_ReceivedAt rec, Dlr_DoneAt = Dl_DoneAt dlr, Dlr_State = Dl_State dlr,
      Dlr_ErrorCode = Dl_ErrorCode dlr, Dlr_OriginalText = Pd_Text rec\<rparr>"

definition pushSMPPDLR :: "DlrEnv \<Rightarrow> Pending \<Rightarrow> DLR \<Rightarrow> Dispatcher \<Rightarrow> (PushError + unit) \<times> Dispatcher" where
  "pushSMPPDLR dy rec dlr d =
     (case Dp_smppSrv d of
        None \<Rightarrow> (Inl errNoServer, d)
      | Some srv \<Rightarrow>
          (case pickSession dy rec srv (Dp_dlrPick d) of
             (Inl e, pick) \<Rightarrow> (Inl e, d\<lparr>Dp_dlrPick := pick\<rparr>)
           | (Inr s, pick) \<Rightarrow>
               (case NextSeq s of (sequence, s1) \<Rightarrow>
                  let p = (BuildDLR (receiptParams rec dlr))\<lparr>Pdu_SequenceID := sequence\<rparr> in
                  (case SendDeliverSM (Dy_ack dy s1 p) p s1 of (status, s2) \<Rightarrow>
                     let d2 = d\<lparr>Dp_dlrPick := pick, Dp_smppSrv := Some (putSession s2 srv)\<rparr> in
                     (if status = Some statusOK then Inr () else Inl (errDLRNotAcked status), d2)))))"

definition finishDLRDelivery :: "DlrEnv \<Rightarrow> Pending \<Rightarrow> Dispatcher \<Rightarrow> (StoreError + unit) \<times> Dispatcher" where
  "finishDLRDelivery dy rec d =
     (case MarkDLRDelivered (Pd_Provider rec) (Pd_ProviderID rec) (Dp_store d) of
        (Inl e, st) \<Rightarrow> (if e = ErrNotFound then Inr () else Inl e, d\<lparr>Dp_store := st\<rparr>)
      | (Inr _, st) \<Rightarrow>
          (case ListPendingByGatewayID (Dy_clock dy 0) (Pd_GatewayID rec) st of (segments, st2) \<Rightarrow>
             let aggregate = aggregateDLR segments in
             (Inr (), d\<lparr>Dp_store := (if Ag_Final aggregate \<and> Ag_AllDelivered aggregate
                then DeletePendingByGatewayID (Pd_GatewayID rec) st2 else st2)\<rparr>)))"

definition callbackPayload :: "Pending \<Rightarrow> DLR \<Rightarrow> dlrAggregate \<Rightarrow> (string, jsonValue) gomap" where
  "callbackPayload rec dlr aggregate =
     (let payload =
        [(''gateway_id'', JString (Pd_GatewayID rec)), (''client_msg_id'', JString (Pd_ClientMsgID rec)),
         (''provider_id'', JString (Dl_ProviderID dlr)), (''provider'', JString (Pd_Provider rec)),
         (''route'', JString (Pd_Route rec)), (''segment_index'', JInt (Pd_SegmentIndex rec)),
         (''segment_count'', JInt (Pd_SegmentCount rec)), (''state'', JString (Dl_State dlr)),
         (''message_state'', JString (Ag_State aggregate)), (''final'', JBool (Ag_Final aggregate)),
         (''error_code'', JInt (Dl_ErrorCode dlr)), (''done_at'', JString (formatRFC3339Nano (Dl_DoneAt dlr)))]
      in if Pd_CallbackRule rec \<noteq> [] then AList.update ''callback_rule'' (JString (Pd_CallbackRule rec)) payload else payload)"

datatype DlrError = DlrStore StoreError | DlrPush PushError | DlrTransport | DlrStatus int | DlrCanceled

definition sendHTTPCallback :: "DlrEnv \<Rightarrow> Pending \<Rightarrow> DLR \<Rightarrow> dlrAggregate \<Rightarrow> DlrError + unit" where
  "sendHTTPCallback dy rec dlr aggregate =
     (case Dy_callback dy (Pd_CallbackURL rec) (callbackPayload rec dlr aggregate) of
        None \<Rightarrow> Inl DlrTransport
      | Some status \<Rightarrow> if status < 200 \<or> 300 \<le> status then Inl (DlrStatus status) else Inr ())"

subsection \<open>Handling a receipt\<close>

text \<open>
  A receipt may arrive before its record is stored, so the lookup is repeated. For each round the
  environment has the times read and what the other goroutines do to the store during the wait of 50
  milliseconds; \<open>None\<close> stands for a wait ended by the context.
\<close>

record LookupEnv =
  Le_start :: gotime
  Le_get :: "nat \<Rightarrow> gotime"
  Le_now :: "nat \<Rightarrow> gotime"
  Le_wait :: "nat \<Rightarrow> MemoryStore \<Rightarrow> MemoryStore option"

partial_function (option) lookupLoop ::
  "LookupEnv \<Rightarrow> duration \<Rightarrow> string \<Rightarrow> string \<Rightarrow> nat \<Rightarrow> MemoryStore \<Rightarrow> ((DlrError + Pending option) \<times> MemoryStore) option" where
  "lookupLoop le wait provider providerID i s =
     (case GetPending (Le_get le i) provider providerID s of (rec, s1) \<Rightarrow>
        if rec \<noteq> None \<or> wait \<le> 0 \<or> Le_start le + wait < Le_now le i then Some (Inr rec, s1)
        else (case Le_wait le i s1 of
                None \<Rightarrow> Some (Inl DlrCanceled, s1)
              | Some s2 \<Rightarrow> lookupLoop le wait provider providerID (Suc i) s2))"

definition getPendingForDLR ::
  "LookupEnv \<Rightarrow> string \<Rightarrow> string \<Rightarrow> Dispatcher \<Rightarrow> ((DlrError + Pending option) \<times> Dispatcher) option" where
  "getPendingForDLR le provider providerID d =
     map_option (\<lambda>(r, st). (r, d\<lparr>Dp_store := st\<rparr>)) (lookupLoop le (Dp_dlrLookupWait d) provider providerID 0 (Dp_store d))"

definition dlrEvent :: "Pending \<Rightarrow> DLR \<Rightarrow> dlrAggregate \<Rightarrow> Dispatcher \<Rightarrow> Event" where
  "dlrEvent rec dlr aggregate d =
     (let clientID = (case GetMessage (Pd_GatewayID rec) (Dp_store d) of
                        Some msg \<Rightarrow> metaGet (Msg_Metadata msg) ''client_id'' | None \<Rightarrow> [])
      in zeroEvent\<lparr>Ev_Kind := ''dlr'', Ev_GatewayID := Pd_GatewayID rec, Ev_ProviderID := Dl_ProviderID dlr, Ev_From := Pd_From rec,
          Ev_To := Pd_To rec, Ev_TextLen := int (length (runes (Pd_Text rec))), Ev_TextHash := TextHash (Pd_Text rec),
          Ev_Route := Pd_Route rec, Ev_Provider := Pd_Provider rec, Ev_ClientID := clientID, Ev_TenantID := Pd_TenantID rec,
          Ev_AccountID := Pd_AccountID rec, Ev_ClientMsgID := Pd_ClientMsgID rec, Ev_SegmentIndex := Pd_SegmentIndex rec,
          Ev_SegmentCount := Pd_SegmentCount rec, Ev_MessageState := Ag_State aggregate, Ev_Final := Ag_Final aggregate,
          Ev_SystemID := Pd_SourceSystem rec, Ev_Source := Pd_SourceKind rec, Ev_State := Dl_State dlr, Ev_ErrorCode := Dl_ErrorCode dlr\<rparr>)"

definition storeResult :: "(StoreError + unit) \<times> Dispatcher \<Rightarrow> (DlrError + unit) \<times> Dispatcher" where
  "storeResult r = (case r of (Inl e, d) \<Rightarrow> (Inl (DlrStore e), d) | (Inr u, d) \<Rightarrow> (Inr u, d))"

text \<open>The receipt is passed on to where the message came from.\<close>

definition passOn :: "DlrEnv \<Rightarrow> Pending \<Rightarrow> DLR \<Rightarrow> dlrAggregate \<Rightarrow> Dispatcher \<Rightarrow> (DlrError + unit) \<times> Dispatcher" where
  "passOn dy rec dlr aggregate d =
     (if Pd_SourceKind rec = SourceKind_String SourceSMPP \<and> and (Pd_RegisteredDelivery rec) 3 = 0 then
        storeResult (finishDLRDelivery dy rec d)
      else if Pd_SourceKind rec = SourceKind_String SourceSMPP then
        (case pushSMPPDLR dy rec dlr d of
           (Inr _, d1) \<Rightarrow> storeResult (finishDLRDelivery dy rec d1)
         | (Inl e, d1) \<Rightarrow>
             (case e of
                errNoServer \<Rightarrow> (Inl (DlrPush e), d1)
              | panicIndex \<Rightarrow> (Inl (DlrPush e), d1)
              | _ \<Rightarrow> (case MarkDLRReady (Pd_Provider rec) (Pd_ProviderID rec) (Dl_State dlr) (Dl_ErrorCode dlr) (Dl_DoneAt dlr) (Dp_store d1) of
                        (Inl m, st) \<Rightarrow> (Inl (DlrStore m), d1\<lparr>Dp_store := st\<rparr>)
                      | (Inr _, st) \<Rightarrow> (Inr (), d1\<lparr>Dp_store := st\<rparr>))))
      else if Pd_SourceKind rec = SourceKind_String SourceHTTPAPI then
        (case (if Pd_CallbackURL rec \<noteq> [] then sendHTTPCallback dy rec dlr aggregate else Inr ()) of
           Inl e \<Rightarrow> (Inl e, d)
         | Inr _ \<Rightarrow> storeResult (finishDLRDelivery dy rec d))
      else (Inr (), d))"

definition recordDLR :: "DlrEnv \<Rightarrow> Pending \<Rightarrow> DLR \<Rightarrow> Dispatcher \<Rightarrow> (DlrError + unit) \<times> Dispatcher" where
  "recordDLR dy rec0 dlr0 d =
     (let dlr = (if Dl_DoneAt dlr0 = 0 then dlr0\<lparr>Dl_DoneAt := Dy_clock dy 1\<rparr> else dlr0) in
      case UpdatePendingDLR (Pd_Provider rec0) (Pd_ProviderID rec0) (Dl_State dlr) (Dl_ErrorCode dlr) (Dl_DoneAt dlr) (Dp_store d) of
        (Inl e, st) \<Rightarrow> (Inl (DlrStore e), d\<lparr>Dp_store := st\<rparr>)
      | (Inr _, st) \<Rightarrow>
          let rec = rec0\<lparr>Pd_DLRReady := False, Pd_DLRDelivered := False, Pd_DLRState := Dl_State dlr,
                Pd_DLRErrorCode := Dl_ErrorCode dlr, Pd_DLRDoneAt := Dl_DoneAt dlr\<rparr>
          in case ListPendingByGatewayID (Dy_clock dy 2) (Pd_GatewayID rec) st of (segments, st2) \<Rightarrow>
               let aggregate = aggregateDLR segments;
                   st3 = (if Ag_Final aggregate
                          then snd (UpdateMessageState (Dy_clock dy 3) (Pd_GatewayID rec) (Ag_State aggregate) (Ag_ErrorCode aggregate) st2)
                          else st2);
                   d3 = d\<lparr>Dp_store := st3\<rparr>
               in passOn dy rec dlr aggregate (emitCDR (dlrEvent rec dlr aggregate d3) d3))"

definition HandleDLR :: "LookupEnv \<Rightarrow> DlrEnv \<Rightarrow> DLR \<Rightarrow> Dispatcher \<Rightarrow> ((DlrError + unit) \<times> Dispatcher) option" where
  "HandleDLR le dy dlr d =
     (case getPendingForDLR le (Dl_Provider dlr) (Dl_ProviderID dlr) d of
        None \<Rightarrow> None
      | Some (Inl e, d1) \<Rightarrow> Some (Inl e, d1)
      | Some (Inr None, d1) \<Rightarrow> Some (Inl (DlrStore ErrNotFound), d1)
      | Some (Inr (Some rec), d1) \<Rightarrow> Some (recordDLR dy rec dlr d1))"

text \<open>Receipts wait in a channel of 4096 places; one that finds it full is handled at once by a goroutine of its own.\<close>

definition OnDLR :: "LookupEnv \<Rightarrow> DlrEnv \<Rightarrow> DLR \<Rightarrow> Dispatcher \<Rightarrow> Dispatcher option" where
  "OnDLR le dy dlr d =
     (if length (Dp_dlrCh d) < 4096 then Some (d\<lparr>Dp_dlrCh := Dp_dlrCh d @ [dlr]\<rparr>)
      else map_option snd (HandleDLR le dy dlr d))"

definition dlrWorker :: "LookupEnv \<Rightarrow> DlrEnv \<Rightarrow> Dispatcher \<Rightarrow> Dispatcher option" where
  "dlrWorker le dy d =
     (case Dp_dlrCh d of [] \<Rightarrow> Some d | dlr # rest \<Rightarrow> map_option snd (HandleDLR le dy dlr (d\<lparr>Dp_dlrCh := rest\<rparr>)))"

text \<open>The lock of a receipt, one of 256.\<close>

definition lockDLR :: "string \<Rightarrow> string \<Rightarrow> 64 word" where
  "lockDLR provider providerID =
     foldl (\<lambda>h value. (xor (foldl (\<lambda>h b. xor h (ucast b) * 1099511628211) h (bytes_of value)) 0) * 1099511628211)
       14695981039346656037 [provider, providerID] mod 256"

subsection \<open>Flushing\<close>

definition recordedDLR :: "gotime \<Rightarrow> Pending \<Rightarrow> DLR" where
  "recordedDLR now rec =
     \<lparr>Dl_Provider = Pd_Provider rec, Dl_ProviderID = Pd_ProviderID rec, Dl_State = Pd_DLRState rec,
      Dl_ErrorCode = Pd_DLRErrorCode rec, Dl_DoneAt = (if Pd_DLRDoneAt rec = 0 then now else Pd_DLRDoneAt rec)\<rparr>"

text \<open>One pass over the listed receipts; the result tells whether the loop goes on.\<close>

fun flushItems :: "(nat \<Rightarrow> DlrEnv) \<Rightarrow> string \<Rightarrow> nat \<Rightarrow> Pending list \<Rightarrow> Dispatcher \<Rightarrow> bool \<times> Dispatcher" where
  "flushItems E systemID i [] d = (True, d)"
| "flushItems E systemID i (rec # items) d =
     (let dlr = recordedDLR (Dy_clock (E i) 1) rec
      in case pushSMPPDLR (E i) rec dlr d of
           (Inl e, d1) \<Rightarrow> if e \<noteq> panicIndex \<and> systemID = [] then flushItems E systemID (Suc i) items d1 else (False, d1)
         | (Inr _, d1) \<Rightarrow>
             (case finishDLRDelivery (E i) rec d1 of
                (Inl _, d2) \<Rightarrow> (False, d2)
              | (Inr _, d2) \<Rightarrow> flushItems E systemID (Suc i) items d2))"

partial_function (option) FlushDLR :: "(nat \<Rightarrow> nat \<Rightarrow> DlrEnv) \<Rightarrow> string \<Rightarrow> nat \<Rightarrow> Dispatcher \<Rightarrow> Dispatcher option" where
  "FlushDLR E systemID k d =
     (case ListReadyDLR (Dy_pending (E k 0)) (Dy_clock (E k 0) 2) systemID 500 (Dp_store d) of (items, st) \<Rightarrow>
        if items = [] then Some (d\<lparr>Dp_store := st\<rparr>)
        else (case flushItems (E k) systemID 0 items (d\<lparr>Dp_store := st\<rparr>) of (goOn, d1) \<Rightarrow>
                if \<not> goOn \<or> systemID = [] then Some d1 else FlushDLR E systemID (Suc k) d1))"

end
