(* ===== verification/Dispatch_Worker.thy ===== *)
theory Dispatch_Worker
  imports Dispatch_Dlr
begin

text \<open>
  The dispatcher, third part (\<open>dispatch/dispatcher.go\<close>): the workers that claim outbox items and hand them to the
  providers, the retries, the receipt of a message that failed for good, and the periodic tasks.

  A provider is a parameter: what its \<open>Send\<close> or \<open>SendAll\<close> returns for a message. Other goroutines change the store
  while a worker waits or sends; what they do there is the field \<open>Wk_other\<close> of the environment, by the number
  of the gap. The times read, the random part of a delay, the waits that the context cuts short and the texts of
  errors are fields as well. The result of handling an item has the list of the calls of the provider.
\<close>

subsection \<open>Providers\<close>

record OutboundMessage =
  Om_GatewayID :: string
  Om_SourceAddr :: string
  Om_DestAddr :: string
  Om_Text :: string
  Om_DataCoding :: byte
  Om_RegisteredDelivery :: byte
  Om_Encoding :: string
  Om_Meta :: "(string, string) gomap"
  Om_UDH :: bytes
  Om_RawPayload :: bytes
  Om_RawPayloadSet :: bool
  Om_SARRefNum :: bytes
  Om_SARTotalSegments :: bytes
  Om_SARSegmentSeqnum :: bytes
  Om_SARSet :: bool

text \<open>An error with its text, the result of \<open>Permanent()\<close> and of \<open>SMPPStatus()\<close> if it has one.\<close>

record SendError =
  Er_text :: string
  Er_permanent :: bool
  Er_status :: "32 word option"

datatype Provider =
    SingleID "OutboundMessage \<Rightarrow> SendError + string"
  | MultiID "OutboundMessage \<Rightarrow> SendError + string list"

definition sendProvider :: "Provider \<Rightarrow> OutboundMessage \<Rightarrow> SendError + string list" where
  "sendProvider p msg =
     (case p of
        MultiID f \<Rightarrow> f msg
      | SingleID f \<Rightarrow> (case f msg of Inl e \<Rightarrow> Inl e | Inr ident \<Rightarrow> if ident = [] then Inr [] else Inr [ident]))"

definition isPermanent :: "SendError \<Rightarrow> bool" where
  "isPermanent err \<longleftrightarrow> Er_permanent err"

subsection \<open>Retries\<close>

record WorkEnv =
  Wk_clock :: "nat \<Rightarrow> gotime"
  Wk_jitter :: int
  Wk_done :: "nat \<Rightarrow> bool"
  Wk_other :: "nat \<Rightarrow> MemoryStore \<Rightarrow> MemoryStore"
  Wk_notFound :: "string \<Rightarrow> string"
  Wk_storeText :: "StoreError \<Rightarrow> string"

text \<open>\<open>rand.Intn(1000)\<close> is the field \<open>Wk_jitter\<close>.\<close>

definition retryDelay :: "int \<Rightarrow> int \<Rightarrow> duration" where
  "retryDelay jitter attempt0 =
     (let a1 = (if attempt0 < 1 then 1 else attempt0); attempt = (if a1 > 6 then 6 else a1);
          base = 2 ^ nat (attempt - 1) * Second
      in base + jitter * Millisecond)"

text \<open>Three attempts; \<open>g\<close> is the number of the first gap, with two gaps between the attempts.\<close>

fun retryLoop ::
  "WorkEnv \<Rightarrow> nat \<Rightarrow> (MemoryStore \<Rightarrow> (StoreError + unit) \<times> MemoryStore) \<Rightarrow> nat \<Rightarrow> MemoryStore \<Rightarrow> (StoreError + unit) \<times> MemoryStore" where
  "retryLoop we g f 0 s = f s"
| "retryLoop we g f (Suc n) s =
     (case f s of
        (Inr u, s1) \<Rightarrow> (Inr u, s1)
      | (Inl e, s1) \<Rightarrow> if Wk_done we g then (Inl e, s1) else retryLoop we (Suc g) f n (Wk_other we g s1))"

definition retryStoreTransition ::
  "WorkEnv \<Rightarrow> nat \<Rightarrow> (MemoryStore \<Rightarrow> (StoreError + unit) \<times> MemoryStore) \<Rightarrow> Dispatcher \<Rightarrow> (StoreError + unit) \<times> Dispatcher" where
  "retryStoreTransition we g f d = (case retryLoop we g f 2 (Dp_store d) of (r, st) \<Rightarrow> (r, d\<lparr>Dp_store := st\<rparr>))"

subsection \<open>Failed items\<close>

definition terminalFailureDLR :: "SendError \<Rightarrow> string \<times> int" where
  "terminalFailureDLR err =
     (case Er_status err of
        Some status \<Rightarrow> (''REJECTD'', uint (if status > 999 then 999 else status))
      | None \<Rightarrow> (''UNDELIV'', 1))"

definition outboxEvent :: "string \<Rightarrow> string \<Rightarrow> OutboxPayload \<Rightarrow> Event" where
  "outboxEvent kind state payload =
     zeroEvent\<lparr>Ev_Kind := kind, Ev_GatewayID := Op_GatewayID payload, Ev_From := Op_From payload, Ev_To := Op_To payload,
       Ev_TextLen := int (length (runes (Op_Text payload))), Ev_TextHash := TextHash (Op_Text payload), Ev_Encoding := Op_Encoding payload,
       Ev_Route := Op_Route payload, Ev_Provider := Op_Provider payload, Ev_ClientID := metaGet (Op_Meta payload) ''client_id'',
       Ev_TenantID := Op_TenantID payload, Ev_AccountID := Op_AccountID payload, Ev_ClientMsgID := Op_ClientMsgID payload,
       Ev_SystemID := Op_SourceSystem payload, Ev_Source := Op_SourceKind payload, Ev_State := state\<rparr>"

definition failurePending :: "gotime \<Rightarrow> duration \<Rightarrow> OutboxPayload \<Rightarrow> string \<Rightarrow> int \<Rightarrow> Pending" where
  "failurePending doneAt ttl payload state errorCode =
     \<lparr>Pd_ProviderID = ''local-failure:'' @ Op_GatewayID payload, Pd_GatewayID = Op_GatewayID payload, Pd_TenantID = Op_TenantID payload,
      Pd_AccountID = Op_AccountID payload, Pd_ClientMsgID = Op_ClientMsgID payload, Pd_SegmentIndex = 1, Pd_SegmentCount = 1,
      Pd_SourceKind = Op_SourceKind payload, Pd_SourceSession = Op_SourceSession payload, Pd_SourceSystem = Op_SourceSystem payload,
      Pd_CallbackURL = [], Pd_CallbackRule = [], Pd_From = Op_From payload, Pd_To = Op_To payload, Pd_Text = Op_Text payload,
      Pd_DataCoding = Op_DataCoding payload, Pd_RegisteredDelivery = Op_RegisteredDelivery payload, Pd_Provider = Op_Provider payload,
      Pd_Route = Op_Route payload, Pd_ReceivedAt = (if Op_ReceivedAt payload = 0 then doneAt else Op_ReceivedAt payload),
      Pd_ExpiresAt = doneAt + ttl, Pd_DLRReady = True, Pd_DLRDelivered = False, Pd_DLRState = state, Pd_DLRErrorCode = errorCode,
      Pd_DLRDoneAt = doneAt\<rparr>"

definition queueTerminalFailureDLR ::
  "WorkEnv \<Rightarrow> OutboxItem \<Rightarrow> string \<Rightarrow> int \<Rightarrow> Dispatcher \<Rightarrow> (Pending \<times> DLR) option \<times> Dispatcher" where
  "queueTerminalFailureDLR we item state errorCode d =
     (let payload = Ob_Payload item in
      if Op_SourceKind payload \<noteq> SourceKind_String SourceSMPP \<or> and (Op_RegisteredDelivery payload) 3 = 0 then (None, d)
      else let doneAt = Wk_clock we 0; rec = failurePending doneAt (Dp_pendingTTL d) payload state errorCode
           in (Some (rec, \<lparr>Dl_Provider = Op_Provider payload, Dl_ProviderID = Pd_ProviderID rec, Dl_State = state,
                 Dl_ErrorCode = errorCode, Dl_DoneAt = doneAt\<rparr>),
               d\<lparr>Dp_store := SavePending (Wk_clock we 1) rec (Dp_store d)\<rparr>))"

definition terminalItem :: "OutboxItem \<Rightarrow> SendError \<Rightarrow> bool" where
  "terminalItem item err \<longleftrightarrow> Ob_Attempt item \<ge> Ob_MaxAttempts item \<or> isPermanent err"

definition failOutbox :: "WorkEnv \<Rightarrow> LookupEnv \<Rightarrow> DlrEnv \<Rightarrow> OutboxItem \<Rightarrow> SendError \<Rightarrow> Dispatcher \<Rightarrow> Dispatcher option" where
  "failOutbox we le dy item err d =
     (let terminal = terminalItem item err;
          delay = retryDelay (Wk_jitter we) (Ob_Attempt item);
          next' = (if terminal then 0 else Wk_clock we 2 + delay);
          kind = (if terminal then ''failed'' else ''retry'');
          (dlrState, errorCode) = (if terminal then terminalFailureDLR err else ([], 1));
          d1 = (if terminal
                then d\<lparr>Dp_store := snd (UpdateMessageState (Wk_clock we 3) (Ob_GatewayID item) dlrState errorCode (Dp_store d))\<rparr>
                else d);
          (failure, d2) = (if terminal then queueTerminalFailureDLR we item dlrState errorCode d1 else (None, d1));
          d3 = emitCDR ((outboxEvent kind kind (Ob_Payload item))\<lparr>Ev_ErrorCode := errorCode, Ev_Reason := Er_text err\<rparr>) d2
      in case FailOutbox (Ob_ID item) (Er_text err) next' (Dp_store d3) of
           (Inl _, st) \<Rightarrow>
             Some (case failure of
                     Some (rec, _) \<Rightarrow> d3\<lparr>Dp_store := DeletePending (Pd_Provider rec) (Pd_ProviderID rec) st\<rparr>
                   | None \<Rightarrow> d3\<lparr>Dp_store := st\<rparr>)
         | (Inr _, st) \<Rightarrow>
             (case failure of
                Some (_, dlr) \<Rightarrow> OnDLR le dy dlr (d3\<lparr>Dp_store := st\<rparr>)
              | None \<Rightarrow> Some (d3\<lparr>Dp_store := st\<rparr>)))"

definition markOutboxUncertainWithContext :: "WorkEnv \<Rightarrow> nat \<Rightarrow> OutboxItem \<Rightarrow> string \<Rightarrow> Dispatcher \<Rightarrow> Dispatcher" where
  "markOutboxUncertainWithContext we g item errText d =
     (case retryStoreTransition we g (MarkOutboxUncertain (Wk_clock we 4) (Ob_ID item) (Ob_ClaimedBy item) errText) d of
        (_, d1) \<Rightarrow> emitCDR ((outboxEvent ''uncertain'' ''UNKNOWN'' (Ob_Payload item))\<lparr>Ev_ErrorCode := 1, Ev_Reason := errText\<rparr>) d1)"

definition markOutboxUncertain :: "WorkEnv \<Rightarrow> OutboxItem \<Rightarrow> SendError \<Rightarrow> Dispatcher \<Rightarrow> Dispatcher" where
  "markOutboxUncertain we item err d = markOutboxUncertainWithContext we 3 item (Er_text err) d"

subsection \<open>Sending\<close>

definition outboundMessage :: "OutboxPayload \<Rightarrow> OutboundMessage" where
  "outboundMessage payload =
     \<lparr>Om_GatewayID = Op_GatewayID payload, Om_SourceAddr = Op_From payload, Om_DestAddr = Op_To payload, Om_Text = Op_Text payload,
      Om_DataCoding = Op_DataCoding payload, Om_RegisteredDelivery = Op_RegisteredDelivery payload, Om_Encoding = Op_Encoding payload,
      Om_Meta = Op_Meta payload, Om_UDH = Op_UDH payload, Om_RawPayload = Op_RawPayload payload,
      Om_RawPayloadSet = Op_RawPayloadSet payload, Om_SARRefNum = Op_SARRefNum payload, Om_SARTotalSegments = Op_SARTotalSegments payload,
      Om_SARSegmentSeqnum = Op_SARSegmentSeqnum payload, Om_SARSet = Op_SARSet payload\<rparr>"

text \<open>The gateway id stands in for a provider id that is missing.\<close>

definition effectiveIDs :: "string \<Rightarrow> string list \<Rightarrow> string list" where
  "effectiveIDs gatewayID ids = map (\<lambda>p. if p = [] then gatewayID else p) (if ids = [] then [gatewayID] else ids)"

definition sentPending :: "gotime \<Rightarrow> OutboxPayload \<Rightarrow> string list \<Rightarrow> Pending list" where
  "sentPending expiresAt payload ids =
     map (\<lambda>i. \<lparr>Pd_ProviderID = ids ! i, Pd_GatewayID = Op_GatewayID payload, Pd_TenantID = Op_TenantID payload,
       Pd_AccountID = Op_AccountID payload, Pd_ClientMsgID = Op_ClientMsgID payload, Pd_SegmentIndex = int i + 1,
       Pd_SegmentCount = int (length ids), Pd_SourceKind = Op_SourceKind payload, Pd_SourceSession = Op_SourceSession payload,
       Pd_SourceSystem = Op_SourceSystem payload, Pd_CallbackURL = Op_CallbackURL payload, Pd_CallbackRule = Op_CallbackRule payload,
       Pd_From = Op_From payload, Pd_To = Op_To payload, Pd_Text = Op_Text payload, Pd_DataCoding = Op_DataCoding payload,
       Pd_RegisteredDelivery = Op_RegisteredDelivery payload, Pd_Provider = Op_Provider payload, Pd_Route = Op_Route payload,
       Pd_ReceivedAt = Op_ReceivedAt payload, Pd_ExpiresAt = expiresAt, Pd_DLRReady = False, Pd_DLRDelivered = False,
       Pd_DLRState = [], Pd_DLRErrorCode = 0, Pd_DLRDoneAt = 0\<rparr>) [0..<length ids]"

definition sentEvent :: "OutboxPayload \<Rightarrow> string list \<Rightarrow> nat \<Rightarrow> Event" where
  "sentEvent payload ids i =
     (outboxEvent ''sent'' ''sent'' payload)\<lparr>Ev_ProviderID := ids ! i, Ev_SegmentIndex := int i + 1, Ev_SegmentCount := int (length ids)\<rparr>"

text \<open>The provider was called: its answer is recorded.\<close>

definition recordSend ::
  "WorkEnv \<Rightarrow> LookupEnv \<Rightarrow> DlrEnv \<Rightarrow> OutboxItem \<Rightarrow> SendError + string list \<Rightarrow> Dispatcher \<Rightarrow> Dispatcher option" where
  "recordSend we le dy item answer d =
     (case answer of
        Inl err \<Rightarrow> if isPermanent err then failOutbox we le dy item err d else Some (markOutboxUncertain we item err d)
      | Inr ids0 \<Rightarrow>
          let payload = Ob_Payload item; ids = effectiveIDs (Op_GatewayID payload) ids0;
              pending = sentPending (Wk_clock we 5 + Dp_pendingTTL d) payload ids
          in case retryStoreTransition we 5 (CompleteOutboxSend (Wk_clock we 6) (Ob_ID item) (Ob_ClaimedBy item) pending) d of
               (Inl e, d1) \<Rightarrow> Some (markOutboxUncertainWithContext we 7 item (''persist sent result: '' @ Wk_storeText we e) d1)
             | (Inr _, d1) \<Rightarrow> Some (fold (\<lambda>i. emitCDR (sentEvent payload ids i)) [0..<length ids] d1))"

definition processOutbox ::
  "WorkEnv \<Rightarrow> (string, Provider) gomap \<Rightarrow> LookupEnv \<Rightarrow> DlrEnv \<Rightarrow> OutboxItem \<Rightarrow> Dispatcher \<Rightarrow> (OutboundMessage list \<times> Dispatcher) option" where
  "processOutbox we registry le dy item d =
     (case map_of registry (Ob_Provider item) of
        None \<Rightarrow> map_option (Pair [])
          (failOutbox we le dy item \<lparr>Er_text = Wk_notFound we (Ob_Provider item), Er_permanent = False, Er_status = None\<rparr> d)
      | Some p \<Rightarrow>
          let msg = outboundMessage (Ob_Payload item) in
          (case retryStoreTransition we 0 (MarkOutboxSending (Ob_ID item) (Ob_ClaimedBy item)) d of
             (Inl _, d1) \<Rightarrow> Some ([], d1)
           | (Inr _, d1) \<Rightarrow>
               map_option (Pair [msg])
                 (recordSend we le dy (item\<lparr>Ob_State := ''sending''\<rparr>) (sendProvider p msg) (d1\<lparr>Dp_store := Wk_other we 2 (Dp_store d1)\<rparr>))))"

subsection \<open>The loops\<close>

definition workerIDs :: "int \<Rightarrow> string list" where
  "workerIDs n = map (\<lambda>i. ''worker-'' @ Itoa (int i + 1)) [0..<nat (if n \<le> 0 then 1 else n)]"

text \<open>A tick of a worker with \<open>inFlight\<close> items under way: the items it claims and starts.\<close>

definition workerTick :: "gotime \<Rightarrow> string \<Rightarrow> int \<Rightarrow> Dispatcher \<Rightarrow> OutboxItem list \<times> Dispatcher" where
  "workerTick now workerID inFlight d =
     (let available = Dp_perWorkerConc d - inFlight in
      if available \<le> 0 then ([], d)
      else let limit = (if available < Dp_claimLimit d then available else Dp_claimLimit d) in
           case ClaimOutbox now workerID limit (Dp_store d) of (items, st) \<Rightarrow> (items, d\<lparr>Dp_store := st\<rparr>))"

definition requeueInterval :: "Dispatcher \<Rightarrow> duration option" where
  "requeueInterval d =
     (if Dp_claimTimeout d \<le> 0 then None
      else let interval = Dp_claimTimeout d div 2 in Some (if interval < Second then Second else interval))"

definition requeueStale ::
  "((int, OutboxItem) gomap \<Rightarrow> (int, OutboxItem) gomap) \<Rightarrow> gotime \<Rightarrow> Dispatcher \<Rightarrow> Dispatcher" where
  "requeueStale it now d =
     (let l = wrap64 (Dp_claimLimit d * Dp_workers d); limit = (if l \<le> 0 then Dp_claimLimit d else l)
      in d\<lparr>Dp_store := snd (RequeueStaleOutbox it (now - Dp_claimTimeout d) limit (Dp_store d))\<rparr>)"

definition sweepExpiredPending :: "gotime \<Rightarrow> Dispatcher \<Rightarrow> Dispatcher" where
  "sweepExpiredPending now d = d\<lparr>Dp_store := snd (SweepExpiredPending now (Dp_store d))\<rparr>"

definition pendingSweepTick :: "gotime \<Rightarrow> (nat \<Rightarrow> nat \<Rightarrow> DlrEnv) \<Rightarrow> Dispatcher \<Rightarrow> Dispatcher option" where
  "pendingSweepTick now E d = FlushDLR E [] 0 (sweepExpiredPending now d)"

end
