(* ===== verification/Dlr_Delivery.thy ===== *)
theory Dlr_Delivery
  imports Dispatch_Dlr
begin

text \<open>
  What the handling of delivery receipts guarantees: the state of a message is a function of the states of
  its segments, the search for a late record ends and finds it, and a flush ends and leaves no receipt behind
  for a system whose receivers acknowledge.
\<close>

subsection \<open>The aggregated state\<close>

definition segmentState :: "Pending \<Rightarrow> string" where
  "segmentState p = ToUpper (TrimSpace (Pd_DLRState p))"

definition segmentRank :: "Pending \<Rightarrow> nat" where
  "segmentRank p = dlrFailureRank (segmentState p)"

definition aggregateStart :: aggregateLoop where
  "aggregateStart = \<lparr>Al_expected = 1, Al_seen = [], Al_rank = 0,
     Al_result = \<lparr>Ag_State = ''PENDING'', Ag_ErrorCode = 0, Ag_Final = True, Ag_AllDelivered = True\<rparr>\<rparr>"

definition expectedSegments :: "Pending list \<Rightarrow> int" where
  "expectedSegments ps = Max (insert 1 (Pd_SegmentCount ` set ps))"

definition seenSegments :: "Pending list \<Rightarrow> int set" where
  "seenSegments ps = {i \<in> Pd_SegmentIndex ` set ps. 0 < i}"

text \<open>The loop, field by field.\<close>

lemma aggregateStep_max:
  "Al_expected (aggregateStep a p) = max (Pd_SegmentCount p) (Al_expected a)"
  "Al_rank (aggregateStep a p) = max (segmentRank p) (Al_rank a)"
  by (simp_all add: aggregateStep_def segmentRank_def segmentState_def Let_def max_def)

lemma Max_image_snoc: "Max (insert z (f ` set (ps @ [p]))) = max (f p) (Max (insert z (f ` set ps)))"
  for f :: "'a \<Rightarrow> 'b :: linorder"
proof -
  have "insert z (f ` set (ps @ [p])) = insert (f p) (insert z (f ` set ps))"
    by auto
  then show ?thesis by (simp only: Max_insert finite_insert finite_imageI finite_set insert_not_empty not_False_eq_True)
qed

lemma loop_expected: "Al_expected (foldl aggregateStep aggregateStart ps) = expectedSegments ps"
proof (induction ps rule: rev_induct)
  case (snoc p ps)
  then show ?case
    unfolding expectedSegments_def Max_image_snoc by (simp add: aggregateStep_max)
qed (simp add: aggregateStart_def expectedSegments_def)

lemma loop_seen:
  "set (Al_seen (foldl aggregateStep aggregateStart ps)) = seenSegments ps \<and> distinct (Al_seen (foldl aggregateStep aggregateStart ps))"
  by (induction ps rule: rev_induct) (auto simp: aggregateStart_def aggregateStep_def seenSegments_def Let_def)

lemma loop_final:
  "Ag_Final (Al_result (foldl aggregateStep aggregateStart ps)) \<longleftrightarrow> (\<forall>p \<in> set ps. isFinalDLRState (segmentState p))"
  by (induction ps rule: rev_induct) (auto simp: aggregateStart_def aggregateStep_def segmentState_def Let_def)

lemma loop_delivered:
  "Ag_AllDelivered (Al_result (foldl aggregateStep aggregateStart ps)) \<longleftrightarrow> (\<forall>p \<in> set ps. Pd_DLRDelivered p)"
  by (induction ps rule: rev_induct) (auto simp: aggregateStart_def aggregateStep_def Let_def)

lemma loop_rank: "Al_rank (foldl aggregateStep aggregateStart ps) = Max (insert 0 (segmentRank ` set ps))"
proof (induction ps rule: rev_induct)
  case (snoc p ps)
  then show ?case
    unfolding Max_image_snoc by (simp add: aggregateStep_max)
qed (simp add: aggregateStart_def)

lemma loop_state:
  "let a = foldl aggregateStep aggregateStart ps in
   0 < Al_rank a \<longrightarrow> (\<exists>p \<in> set ps. Ag_State (Al_result a) = segmentState p \<and> Ag_ErrorCode (Al_result a) = Pd_DLRErrorCode p
      \<and> segmentRank p = Al_rank a)"
proof (induction ps rule: rev_induct)
  case (snoc p ps)
  then show ?case
    by (auto simp: aggregateStep_def segmentRank_def segmentState_def Let_def)
qed (simp add: aggregateStart_def)

lemma aggregateDLR_loop:
  "ps \<noteq> [] \<Longrightarrow> aggregateDLR ps =
     (let a = foldl aggregateStep aggregateStart ps;
          r = (if int (card (seenSegments ps)) < expectedSegments ps
               then (Al_result a)\<lparr>Ag_Final := False, Ag_AllDelivered := False\<rparr> else Al_result a)
      in if \<not> Ag_Final r then r\<lparr>Ag_State := ''PENDING'', Ag_ErrorCode := 0\<rparr>
         else if Al_rank a = 0 then r\<lparr>Ag_State := ''DELIVRD'', Ag_ErrorCode := 0\<rparr> else r)"
  using loop_seen [of ps] distinct_card [of "Al_seen (foldl aggregateStep aggregateStart ps)"]
  by (simp add: aggregateDLR_def aggregateStart_def [symmetric] loop_expected Let_def)

definition complete :: "Pending list \<Rightarrow> bool" where
  "complete ps \<longleftrightarrow> ps \<noteq> [] \<and> expectedSegments ps \<le> int (card (seenSegments ps))"

lemma aggregate_final:
  "Ag_Final (aggregateDLR ps) \<longleftrightarrow> complete ps \<and> (\<forall>p \<in> set ps. isFinalDLRState (segmentState p))"
  by (cases "ps = []") (auto simp: aggregateDLR_loop aggregateDLR_def [of "[]"] complete_def loop_final Let_def)

lemma aggregate_delivered:
  "Ag_AllDelivered (aggregateDLR ps) \<longleftrightarrow> complete ps \<and> (\<forall>p \<in> set ps. Pd_DLRDelivered p)"
  by (cases "ps = []") (auto simp: aggregateDLR_loop aggregateDLR_def [of "[]"] complete_def loop_delivered Let_def)

lemma aggregate_pending:
  "\<not> Ag_Final (aggregateDLR ps) \<Longrightarrow> Ag_State (aggregateDLR ps) = ''PENDING'' \<and> Ag_ErrorCode (aggregateDLR ps) = 0"
  by (cases "ps = []") (auto simp: aggregateDLR_loop aggregateDLR_def [of "[]"] Let_def split: if_splits)

lemma aggregate_state:
  assumes "Ag_Final (aggregateDLR ps)"
  shows "if \<forall>p \<in> set ps. segmentRank p = 0 then Ag_State (aggregateDLR ps) = ''DELIVRD'' \<and> Ag_ErrorCode (aggregateDLR ps) = 0
     else \<exists>p \<in> set ps. Ag_State (aggregateDLR ps) = segmentState p \<and> Ag_ErrorCode (aggregateDLR ps) = Pd_DLRErrorCode p
        \<and> (\<forall>q \<in> set ps. segmentRank q \<le> segmentRank p)"
proof -
  let ?a = "foldl aggregateStep aggregateStart ps"
  have ne: "ps \<noteq> []" and ok: "\<not> int (card (seenSegments ps)) < expectedSegments ps" and fin: "Ag_Final (Al_result ?a)"
    using assms unfolding aggregate_final loop_final complete_def by auto
  have agg: "aggregateDLR ps = (if Al_rank ?a = 0 then (Al_result ?a)\<lparr>Ag_State := ''DELIVRD'', Ag_ErrorCode := 0\<rparr> else Al_result ?a)"
    using ok fin by (simp add: aggregateDLR_loop [OF ne] Let_def)
  have le: "segmentRank q \<le> Al_rank ?a" if "q \<in> set ps" for q
    unfolding loop_rank using that by simp
  show ?thesis
  proof (cases "Al_rank ?a = 0")
    case True
    then show ?thesis using le by (auto simp: agg)
  next
    case False
    then obtain p where "p \<in> set ps" "Ag_State (Al_result ?a) = segmentState p" "Ag_ErrorCode (Al_result ?a) = Pd_DLRErrorCode p"
        "segmentRank p = Al_rank ?a"
      using loop_state [of ps] by (auto simp: Let_def)
    with False le show ?thesis by (auto simp: agg)
  qed
qed

text \<open>
  C12: the state of a message is final exactly when a record of every segment is there and every segment is
  in a final state; before that it is PENDING. A final state is DELIVRD if no segment failed, and otherwise the
  state and error code of a segment with the worst failure. All receipts count as
  delivered exactly when every segment is there and its receipt was delivered.
\<close>

theorem dlr_aggregate_spec:
  "(Ag_Final (aggregateDLR ps) \<longleftrightarrow> complete ps \<and> (\<forall>p \<in> set ps. isFinalDLRState (segmentState p)))
   \<and> (Ag_AllDelivered (aggregateDLR ps) \<longleftrightarrow> complete ps \<and> (\<forall>p \<in> set ps. Pd_DLRDelivered p))
   \<and> (if Ag_Final (aggregateDLR ps) then
        (if \<forall>p \<in> set ps. segmentRank p = 0 then Ag_State (aggregateDLR ps) = ''DELIVRD'' \<and> Ag_ErrorCode (aggregateDLR ps) = 0
         else \<exists>p \<in> set ps. Ag_State (aggregateDLR ps) = segmentState p \<and> Ag_ErrorCode (aggregateDLR ps) = Pd_DLRErrorCode p
            \<and> (\<forall>q \<in> set ps. segmentRank q \<le> segmentRank p))
      else Ag_State (aggregateDLR ps) = ''PENDING'' \<and> Ag_ErrorCode (aggregateDLR ps) = 0)"
  using aggregate_final [of ps] aggregate_delivered [of ps] aggregate_pending [of ps] aggregate_state [of ps] by simp

theorem dlr_aggregate_spec_witness:
  "\<not> Ag_Final (aggregateDLR [examplePending\<lparr>Pd_SegmentCount := 2, Pd_DLRState := ''DELIVRD''\<rparr>])"
  using dlr_aggregate_spec [of "[examplePending\<lparr>Pd_SegmentCount := 2, Pd_DLRState := ''DELIVRD''\<rparr>]"]
  by (simp add: complete_def expectedSegments_def seenSegments_def examplePending_def Collect_conv_if)

subsection \<open>Looking for the record of a receipt\<close>

text \<open>The clock moves on by at least the 50 milliseconds of the timer between two rounds.\<close>

definition timerOK :: "LookupEnv \<Rightarrow> bool" where
  "timerOK le \<longleftrightarrow> Le_start le \<le> Le_now le 0 \<and> (\<forall>i. Le_now le i + 50 * Millisecond \<le> Le_now le (Suc i))"

lemma timerOK_now: "timerOK le \<Longrightarrow> Le_start le + int i * (50 * Millisecond) \<le> Le_now le i"
proof (induction i)
  case (Suc i)
  then show ?case by (simp add: timerOK_def algebra_simps) (smt (verit))
qed (simp add: timerOK_def)

lemma lookupLoop_ends:
  assumes "timerOK le"
  shows "\<exists>r s'. lookupLoop le w provider providerID i s = Some (r, s')"
proof (induction "nat (w div (50 * Millisecond) + 1 - int i)" arbitrary: i s rule: less_induct)
  case less
  obtain rec s1 where g: "GetPending (Le_get le i) provider providerID s = (rec, s1)"
    by fastforce
  show ?case
  proof (cases "rec \<noteq> None \<or> w \<le> 0 \<or> Le_start le + w < Le_now le i")
    case True
    then show ?thesis by (subst lookupLoop.simps) (auto simp: g)
  next
    case False
    then have "int i * (50 * Millisecond) \<le> w"
      using timerOK_now [OF assms, of i] by simp
    then have "int i \<le> w div (50 * Millisecond)"
      using zdiv_mono1 [of "int i * (50 * Millisecond)" w "50 * Millisecond"] by simp
    then have dec: "nat (w div (50 * Millisecond) + 1 - int (Suc i)) < nat (w div (50 * Millisecond) + 1 - int i)"
      by simp
    show ?thesis
    proof (cases "Le_wait le i s1")
      case None
      with False show ?thesis by (subst lookupLoop.simps) (simp add: g)
    next
      case (Some s2)
      with False less [OF dec, of s2] show ?thesis by (subst lookupLoop.simps) (simp add: g)
    qed
  qed
qed

lemma lookupLoop_Some:
  assumes "S 0 = s" "\<forall>j < k. Le_wait le (i + j) (snd (GetPending (Le_get le (i + j)) provider providerID (S j))) = Some (S (Suc j))"
    "\<forall>j < k. Le_now le (i + j) \<le> Le_start le + w" "0 < w" "fst (GetPending (Le_get le (i + k)) provider providerID (S k)) \<noteq> None"
  shows "\<exists>rec s'. lookupLoop le w provider providerID i s = Some (Inr (Some rec), s')"
  using assms
proof (induction k arbitrary: S s i)
  case 0
  then show ?case
    by (subst lookupLoop.simps) (auto split: prod.splits)
next
  case (Suc k)
  obtain rec s1 where g: "GetPending (Le_get le i) provider providerID s = (rec, s1)"
    by fastforce
  show ?case
  proof (cases rec)
    case (Some p)
    then show ?thesis by (subst lookupLoop.simps) (simp add: g)
  next
    case None
    have "Le_wait le i s1 = Some (S 1)"
      using Suc.prems(1,2) g by force
    moreover have "\<not> Le_start le + w < Le_now le i"
      using Suc.prems(3) by force
    moreover have "\<exists>rec s'. lookupLoop le w provider providerID (Suc i) (S 1) = Some (Inr (Some rec), s')"
    proof (rule Suc.IH [of "\<lambda>j. S (Suc j)"])
      show "\<forall>j < k. Le_wait le (Suc i + j) (snd (GetPending (Le_get le (Suc i + j)) provider providerID (S (Suc j)))) = Some (S (Suc (Suc j)))"
        using Suc.prems(2) by (metis Suc_less_eq add_Suc_shift)
      show "\<forall>j < k. Le_now le (Suc i + j) \<le> Le_start le + w"
        using Suc.prems(3) by (metis Suc_less_eq add_Suc_shift)
    qed (use Suc.prems(4,5) in simp_all)
    ultimately show ?thesis
      using None Suc.prems(4) by (subst lookupLoop.simps) (simp add: g)
  qed
qed

text \<open>
  C37: handling a receipt always ends when the timer keeps its time, whatever the other goroutines do to the store,
  and a receipt that arrives before its record is not lost: if the record is in the store at a later look,
  all earlier looks being within the waiting time, the search returns a record.
\<close>

theorem dlr_lookup_ends:
  "(timerOK le \<longrightarrow> (\<exists>r d'. HandleDLR le dy dlr d = Some (r, d')))
   \<and> (S 0 = Dp_store d \<longrightarrow> 0 < Dp_dlrLookupWait d
      \<longrightarrow> (\<forall>j < k. Le_wait le j (snd (GetPending (Le_get le j) (Dl_Provider dlr) (Dl_ProviderID dlr) (S j))) = Some (S (Suc j))
            \<and> Le_now le j \<le> Le_start le + Dp_dlrLookupWait d)
      \<longrightarrow> fst (GetPending (Le_get le k) (Dl_Provider dlr) (Dl_ProviderID dlr) (S k)) \<noteq> None
      \<longrightarrow> (\<exists>rec d'. getPendingForDLR le (Dl_Provider dlr) (Dl_ProviderID dlr) d = Some (Inr (Some rec), d')))"
proof (intro conjI impI)
  assume "timerOK le"
  then obtain r s' where "lookupLoop le (Dp_dlrLookupWait d) (Dl_Provider dlr) (Dl_ProviderID dlr) 0 (Dp_store d) = Some (r, s')"
    using lookupLoop_ends by blast
  then show "\<exists>r d'. HandleDLR le dy dlr d = Some (r, d')"
    by (cases r) (auto simp: HandleDLR_def getPendingForDLR_def split: option.splits intro: prod.exhaust)
next
  assume "S 0 = Dp_store d" "0 < Dp_dlrLookupWait d"
    "\<forall>j < k. Le_wait le j (snd (GetPending (Le_get le j) (Dl_Provider dlr) (Dl_ProviderID dlr) (S j))) = Some (S (Suc j))
            \<and> Le_now le j \<le> Le_start le + Dp_dlrLookupWait d"
    "fst (GetPending (Le_get le k) (Dl_Provider dlr) (Dl_ProviderID dlr) (S k)) \<noteq> None"
  then have "\<exists>rec s'. lookupLoop le (Dp_dlrLookupWait d) (Dl_Provider dlr) (Dl_ProviderID dlr) 0 (Dp_store d) = Some (Inr (Some rec), s')"
    by (intro lookupLoop_Some [of S _ k]) simp_all
  then show "\<exists>rec d'. getPendingForDLR le (Dl_Provider dlr) (Dl_ProviderID dlr) d = Some (Inr (Some rec), d')"
    by (auto simp: getPendingForDLR_def)
qed

theorem dlr_lookup_ends_witness:
  "\<exists>r d'. HandleDLR \<lparr>Le_start = 0, Le_get = (\<lambda>i. 0), Le_now = (\<lambda>i. int i * 60000000), Le_wait = (\<lambda>i. Some)\<rparr>
     \<lparr>Dy_clock = (\<lambda>_. 1), Dy_sessions = id, Dy_pending = id, Dy_ack = (\<lambda>_ _. None), Dy_callback = (\<lambda>_ _. None)\<rparr>
     \<lparr>Dl_Provider = ''p'', Dl_ProviderID = ''x'', Dl_State = ''DELIVRD'', Dl_ErrorCode = 0, Dl_DoneAt = 1\<rparr>
     (exampleDispatcher\<lparr>Dp_dlrLookupWait := 2 * Second\<rparr>) = Some (r, d')"
  by (rule dlr_lookup_ends [THEN conjunct1, THEN mp]) (simp add: timerOK_def)

subsection \<open>Flushing\<close>

text \<open>The keys of the receipts that wait for a system.\<close>

definition waiting :: "string \<Rightarrow> Pending \<Rightarrow> bool" where
  "waiting sys p \<longleftrightarrow> Pd_DLRReady p \<and> (sys = [] \<or> Pd_SourceSystem p = sys)"

definition readyKeys :: "string \<Rightarrow> MemoryStore \<Rightarrow> string set" where
  "readyKeys sys s = {k. \<exists>p. map_of (st_pending s) k = Some p \<and> waiting sys p}"

definition keyOf :: "Pending \<Rightarrow> string" where
  "keyOf p = pendingKey (Pd_Provider p) (Pd_ProviderID p)"

lemma finite_readyKeys [simp]: "finite (readyKeys sys s)"
  by (rule finite_subset [of _ "dom (map_of (st_pending s))"]) (auto simp: readyKeys_def finite_dom_map_of)

lemma store_inv_pending: "store_inv s \<Longrightarrow> distinct (map fst (st_pending s))"
  by (simp add: store_inv_def pending_ok_def)

lemma readyKeys_sweep: "store_inv s \<Longrightarrow> readyKeys sys (sweepLocked now s) = readyKeys sys s"
  using store_inv_pending [of s]
  by (auto simp: readyKeys_def sweepLocked_def waiting_def pendingExpired_def map_of_filter_Some)

lemma readyKeys_mark: "readyKeys sys (snd (MarkDLRDelivered p i s)) = readyKeys sys s - {pendingKey p i}"
  by (auto simp: readyKeys_def MarkDLRDelivered_def updatePending_def waiting_def Let_def split: option.splits if_splits)

lemma readyKeys_delete: "store_inv s \<Longrightarrow> readyKeys sys (DeletePendingByGatewayID g s) \<subseteq> readyKeys sys s"
  using store_inv_pending [of s] by (auto simp: readyKeys_def DeletePendingByGatewayID_def map_of_filter_Some)

lemma push_store [simp]: "Dp_store (snd (pushSMPPDLR dy rec dlr d)) = Dp_store d"
  by (simp add: pushSMPPDLR_def Let_def split: option.splits prod.splits sum.splits)

lemma finish_frame [simp]:
  "Dp_smppSrv (snd (finishDLRDelivery dy rec d)) = Dp_smppSrv d" "Dp_dlrPick (snd (finishDLRDelivery dy rec d)) = Dp_dlrPick d"
  by (simp_all add: finishDLRDelivery_def Let_def split: prod.splits sum.splits)

lemma mark_result: "fst (MarkDLRDelivered p i s) \<in> {Inl ErrNotFound, Inr ()}"
  by (simp add: MarkDLRDelivered_def updatePending_def Let_def split: option.splits)

lemma finish_result: "fst (finishDLRDelivery dy rec d) = Inr ()"
  using mark_result [of "Pd_Provider rec" "Pd_ProviderID rec" "Dp_store d"]
  by (auto simp: finishDLRDelivery_def Let_def split: prod.splits sum.splits)

lemma store_inv_mark: "store_inv s \<Longrightarrow> store_inv (snd (MarkDLRDelivered p i s))"
  using store_inv_storeStep [of s "OpMarkDLRDelivered p i"] by simp

lemma store_inv_deleteGateway: "store_inv s \<Longrightarrow> store_inv (DeletePendingByGatewayID g s)"
  using store_inv_storeStep [of s "OpDeletePendingByGatewayID g"] by simp

lemma finish_store:
  assumes "store_inv (Dp_store d)"
  shows "store_inv (Dp_store (snd (finishDLRDelivery dy rec d)))
    \<and> readyKeys sys (Dp_store (snd (finishDLRDelivery dy rec d))) \<subseteq> readyKeys sys (Dp_store d) - {keyOf rec}"
proof -
  obtain r st where m: "MarkDLRDelivered (Pd_Provider rec) (Pd_ProviderID rec) (Dp_store d) = (r, st)"
    by fastforce
  have st: "store_inv st" "readyKeys sys st = readyKeys sys (Dp_store d) - {keyOf rec}"
    using store_inv_mark [OF assms, of "Pd_Provider rec" "Pd_ProviderID rec"]
      readyKeys_mark [of sys "Pd_Provider rec" "Pd_ProviderID rec" "Dp_store d"] by (simp_all add: m keyOf_def)
  have sw: "store_inv (sweepLocked t st)" "readyKeys sys (sweepLocked t st) = readyKeys sys st" for t
    using store_inv_sweep [OF st(1)] readyKeys_sweep [OF st(1)] by simp_all
  show ?thesis
  proof (cases r)
    case (Inl e)
    then show ?thesis using m st by (simp add: finishDLRDelivery_def)
  next
    case (Inr u)
    then show ?thesis
      using m st(2) sw store_inv_deleteGateway [OF sw(1)] readyKeys_delete [OF sw(1), of sys]
      by (auto simp: finishDLRDelivery_def ListPendingByGatewayID_def Let_def)
  qed
qed

lemma flushItems_ready:
  assumes "store_inv (Dp_store d)" "flushItems E sys i items d = (goOn, d')"
  shows "store_inv (Dp_store d') \<and> readyKeys s (Dp_store d') \<subseteq> readyKeys s (Dp_store d)
    \<and> (goOn \<and> sys \<noteq> [] \<longrightarrow> readyKeys s (Dp_store d') \<subseteq> readyKeys s (Dp_store d) - keyOf ` set items)"
  using assms
proof (induction items arbitrary: i d)
  case (Cons rec items)
  let ?dlr = "recordedDLR (Dy_clock (E i) 1) rec"
  obtain r d1 where p: "pushSMPPDLR (E i) rec ?dlr d = (r, d1)"
    by fastforce
  have d1: "Dp_store d1 = Dp_store d"
    using push_store [of "E i" rec ?dlr d] unfolding p by simp
  obtain d2 where f: "finishDLRDelivery (E i) rec d1 = (Inr (), d2)"
    using finish_result [of "E i" rec d1] by (metis prod.collapse)
  have d2: "store_inv (Dp_store d2)" "readyKeys s (Dp_store d2) \<subseteq> readyKeys s (Dp_store d) - {keyOf rec}"
    using finish_store [of d1 "E i" rec s] Cons.prems(1) by (simp_all add: f d1)
  show ?case
  proof (cases r)
    case (Inl e)
    then show ?thesis
      using Cons.prems p d1 Cons.IH [of d1 "Suc i"] by (auto simp: Let_def split: if_splits)
  next
    case (Inr u)
    then have rest: "flushItems E sys (Suc i) items d2 = (goOn, d')"
      using Cons.prems(2) p f by (simp add: Let_def)
    show ?thesis
      using Cons.IH [OF d2(1) rest] d2(2) by auto
  qed
qed simp

text \<open>The receipts that are listed are waiting, and no two have the same key.\<close>

lemma listReady:
  assumes inv: "store_inv s" and perm: "\<forall>xs. mset (it xs) = mset xs" and list: "ListReadyDLR it now sys l s = (items, s')"
  shows "s' = sweepLocked now s" "keyOf ` set items \<subseteq> readyKeys sys s" "distinct (map keyOf items)"
    "\<forall>p \<in> set items. waiting sys p" "items = [] \<longleftrightarrow> readyKeys sys s = {}"
proof -
  let ?s1 = "sweepLocked now s"
  let ?es = "it (st_pending ?s1)"
  define n where "n = nat (if l \<le> 0 then 100 else l)"
  have n: "0 < n" by (simp add: n_def)
  have items: "items = take n (filter (waiting sys) (map snd ?es))" and s': "s' = ?s1"
    using list by (auto simp: ListReadyDLR_def Let_def n_def waiting_def cong: filter_cong)
  show "s' = ?s1" by (rule s')
  have inv1: "store_inv ?s1" using inv by (rule store_inv_sweep)
  have d: "distinct (map fst (st_pending ?s1))" by (rule store_inv_pending [OF inv1])
  have es: "set ?es = set (st_pending ?s1)" "distinct (map fst ?es)"
    using perm_entries [of ?es "st_pending ?s1"] perm d by simp_all
  have key: "k = keyOf p \<and> map_of (st_pending ?s1) k = Some p" if "(k, p) \<in> set ?es" for k p
    using that inv1 d es(1) by (auto simp: store_inv_def pending_ok_def keyOf_def)
  have ks: "map keyOf (map snd ?es) = map fst ?es"
    using key by (auto simp: comp_def)
  have "distinct (map keyOf (map snd ?es))"
    unfolding ks by (rule es(2))
  then have "distinct (map keyOf (filter (waiting sys) (map snd ?es)))"
    by (rule distinct_map_filter)
  then show "distinct (map keyOf items)"
    unfolding items take_map [symmetric] by (rule distinct_take)
  have sub: "set items \<subseteq> {p. waiting sys p \<and> (\<exists>k. (k, p) \<in> set ?es)}"
    using set_take_subset [of n "filter (waiting sys) (map snd ?es)"] by (fastforce simp: items)
  then show "\<forall>p \<in> set items. waiting sys p" by blast
  have rk: "readyKeys sys ?s1 = readyKeys sys s"
    using inv by (rule readyKeys_sweep)
  show "keyOf ` set items \<subseteq> readyKeys sys s"
  proof
    fix x
    assume "x \<in> keyOf ` set items"
    then obtain p k where p: "x = keyOf p" "waiting sys p" "(k, p) \<in> set ?es"
      using sub by blast
    have "map_of (st_pending ?s1) x = Some p"
      using key [OF p(3)] p(1) by (elim conjE) (simp only:)
    then have "x \<in> readyKeys sys ?s1"
      unfolding readyKeys_def using p(2) by blast
    then show "x \<in> readyKeys sys s"
      by (simp only: rk)
  qed
  have "items = [] \<longleftrightarrow> (\<forall>(k, p) \<in> set (st_pending ?s1). \<not> waiting sys p)"
    using n es(1) by (auto simp: items filter_empty_conv)
  also have "\<dots> \<longleftrightarrow> readyKeys sys ?s1 = {}"
    using d by (auto simp: readyKeys_def)
  finally show "items = [] \<longleftrightarrow> readyKeys sys s = {}"
    by (simp only: rk)
qed

text \<open>A flush ends: each round that goes on takes the listed receipts from those that wait.\<close>

definition ordersOK :: "(nat \<Rightarrow> nat \<Rightarrow> DlrEnv) \<Rightarrow> bool" where
  "ordersOK E \<longleftrightarrow> (\<forall>k i xs ys. mset (Dy_pending (E k i) xs) = mset xs \<and> mset (Dy_sessions (E k i) ys) = mset ys)"

lemma flush_round:
  assumes inv: "store_inv (Dp_store d)" and ord: "ordersOK E"
    and list: "ListReadyDLR (Dy_pending (E k 0)) now sys 500 (Dp_store d) = (items, st)" and ne: "items \<noteq> []"
    and fl: "flushItems (E k) sys 0 items (d\<lparr>Dp_store := st\<rparr>) = (True, d')" and sys: "sys \<noteq> []"
  shows "store_inv (Dp_store d') \<and> card (readyKeys sys (Dp_store d')) + length items \<le> card (readyKeys sys (Dp_store d))
    \<and> card (readyKeys sys (Dp_store d')) < card (readyKeys sys (Dp_store d))"
proof -
  have perm: "\<forall>xs. mset (Dy_pending (E k 0) xs) = mset xs"
    using ord by (simp add: ordersOK_def)
  note l = listReady [OF inv perm list]
  have inv1: "store_inv (Dp_store (d\<lparr>Dp_store := st\<rparr>))"
    using store_inv_sweep [OF inv] by (simp add: l(1))
  have sub: "readyKeys sys (Dp_store d') \<subseteq> readyKeys sys (Dp_store d) - keyOf ` set items" and inv': "store_inv (Dp_store d')"
    using flushItems_ready [OF inv1 fl, of sys] sys readyKeys_sweep [OF inv] by (simp_all add: l(1))
  have len: "card (keyOf ` set items) = length items"
    using distinct_card [OF l(3)] by simp
  have "card (readyKeys sys (Dp_store d')) \<le> card (readyKeys sys (Dp_store d) - keyOf ` set items)"
    using sub by (simp add: card_mono)
  also have "\<dots> = card (readyKeys sys (Dp_store d)) - length items"
    using l(2) len by (simp add: card_Diff_subset)
  finally have "card (readyKeys sys (Dp_store d')) \<le> card (readyKeys sys (Dp_store d)) - length items" .
  moreover have "length items \<le> card (readyKeys sys (Dp_store d))"
    using card_mono [OF _ l(2)] len by simp
  moreover have "0 < length items"
    using ne by simp
  ultimately show ?thesis
    using inv' by linarith
qed

lemma FlushDLR_ends:
  assumes "store_inv (Dp_store d)" "ordersOK E"
  shows "\<exists>d'. FlushDLR E sys k d = Some d'"
  using assms(1)
proof (induction "card (readyKeys sys (Dp_store d))" arbitrary: k d rule: less_induct)
  case less
  obtain items st where list: "ListReadyDLR (Dy_pending (E k 0)) (Dy_clock (E k 0) 2) sys 500 (Dp_store d) = (items, st)"
    by fastforce
  obtain goOn d1 where fl: "flushItems (E k) sys 0 items (d\<lparr>Dp_store := st\<rparr>) = (goOn, d1)"
    by fastforce
  show ?case
  proof (cases "items = [] \<or> \<not> goOn \<or> sys = []")
    case True
    then show ?thesis
      by (subst FlushDLR.simps) (auto simp: list fl)
  next
    case False
    then have r: "store_inv (Dp_store d1)" "card (readyKeys sys (Dp_store d1)) < card (readyKeys sys (Dp_store d))"
      using flush_round [OF less.prems assms(2) list, of d1] fl by simp_all
    then have "\<exists>d'. FlushDLR E sys (Suc k) d1 = Some d'"
      using less.hyps by blast
    with False show ?thesis
      by (subst FlushDLR.simps) (simp add: list fl)
  qed
qed

subsection \<open>Every waiting receipt is delivered\<close>

text \<open>A record with a receipt to deliver stays as it is until this receipt is finished.\<close>

definition undelivered :: "MemoryStore \<Rightarrow> bool" where
  "undelivered s \<longleftrightarrow> (\<forall>k p. map_of (st_pending s) k = Some p \<and> Pd_DLRReady p \<longrightarrow> \<not> Pd_DLRDelivered p)"

lemma sweep_keeps:
  "store_inv s \<Longrightarrow> map_of (st_pending (sweepLocked now s)) k = Some p \<Longrightarrow> map_of (st_pending s) k = Some p"
  "store_inv s \<Longrightarrow> map_of (st_pending s) k = Some p \<Longrightarrow> Pd_DLRReady p \<Longrightarrow> map_of (st_pending (sweepLocked now s)) k = Some p"
  using store_inv_pending [of s] by (simp_all add: sweepLocked_def map_of_filter_Some pendingExpired_def)

lemma undelivered_sweep: "store_inv s \<Longrightarrow> undelivered s \<Longrightarrow> undelivered (sweepLocked now s)"
  unfolding undelivered_def using sweep_keeps(1) by blast

lemma undelivered_mark: "undelivered s \<Longrightarrow> undelivered (snd (MarkDLRDelivered p i s))"
  by (auto simp: undelivered_def MarkDLRDelivered_def updatePending_def Let_def split: option.splits)

lemma mark_keeps:
  "k \<noteq> pendingKey p i \<Longrightarrow> map_of (st_pending (snd (MarkDLRDelivered p i s))) k = map_of (st_pending s) k"
  by (auto simp: MarkDLRDelivered_def updatePending_def Let_def split: option.splits)

lemma delete_pending:
  "store_inv s \<Longrightarrow> map_of (st_pending (DeletePendingByGatewayID g s)) k = Some p
     \<longleftrightarrow> map_of (st_pending s) k = Some p \<and> Pd_GatewayID p \<noteq> g"
  using store_inv_pending [of s] by (simp add: DeletePendingByGatewayID_def map_of_filter_Some)

lemma finish_keeps:
  assumes inv: "store_inv (Dp_store d)" and und: "undelivered (Dp_store d)"
  shows "undelivered (Dp_store (snd (finishDLRDelivery dy rec d)))"
    "map_of (st_pending (Dp_store d)) k = Some p \<Longrightarrow> Pd_DLRReady p \<Longrightarrow> k \<noteq> keyOf rec \<Longrightarrow>
       map_of (st_pending (Dp_store (snd (finishDLRDelivery dy rec d)))) k = Some p"
proof -
  obtain r st where m: "MarkDLRDelivered (Pd_Provider rec) (Pd_ProviderID rec) (Dp_store d) = (r, st)"
    by fastforce
  let ?sw = "sweepLocked (Dy_clock dy 0) st"
  let ?segs = "fst (ListPendingByGatewayID (Dy_clock dy 0) (Pd_GatewayID rec) st)"
  have st: "store_inv st" "undelivered st"
    using store_inv_mark [OF inv] undelivered_mark [OF und] m by (metis snd_conv)+
  have sw: "store_inv ?sw" "undelivered ?sw"
    using store_inv_sweep [OF st(1)] undelivered_sweep [OF st] by simp_all
  have fin: "Dp_store (snd (finishDLRDelivery dy rec d)) =
      (case r of Inl e \<Rightarrow> st | Inr u \<Rightarrow> if Ag_Final (aggregateDLR ?segs) \<and> Ag_AllDelivered (aggregateDLR ?segs)
         then DeletePendingByGatewayID (Pd_GatewayID rec) ?sw else ?sw)"
    by (cases r) (simp_all add: finishDLRDelivery_def m ListPendingByGatewayID_def Let_def)
  show "undelivered (Dp_store (snd (finishDLRDelivery dy rec d)))"
    using st sw delete_pending [OF sw(1)] unfolding fin by (auto simp: undelivered_def split: sum.splits)
  assume k: "map_of (st_pending (Dp_store d)) k = Some p" "Pd_DLRReady p" "k \<noteq> keyOf rec"
  have kst: "map_of (st_pending st) k = Some p"
    using mark_keeps [of k "Pd_Provider rec" "Pd_ProviderID rec" "Dp_store d"] k m by (simp add: keyOf_def)
  have ksw: "map_of (st_pending ?sw) k = Some p"
    by (rule sweep_keeps(2) [OF st(1) kst k(2)])
  have "\<not> Ag_AllDelivered (aggregateDLR ?segs)" if "Pd_GatewayID p = Pd_GatewayID rec"
  proof -
    have "p \<in> set ?segs"
      using that map_of_SomeD [OF ksw] by (force simp: ListPendingByGatewayID_def Let_def)
    moreover have "\<not> Pd_DLRDelivered p"
      using sw(2) ksw k(2) by (auto simp: undelivered_def)
    ultimately show ?thesis
      unfolding aggregate_delivered by blast
  qed
  then show "map_of (st_pending (Dp_store (snd (finishDLRDelivery dy rec d)))) k = Some p"
    unfolding fin using kst ksw delete_pending [OF sw(1), of "Pd_GatewayID rec" k p] by (auto split: sum.splits)
qed

text \<open>The receipt of a record was sent to a session.\<close>

definition receiptSent :: "Pending \<Rightarrow> Dispatcher \<Rightarrow> bool" where
  "receiptSent p d \<longleftrightarrow> (\<exists>srv k s sequence now. Dp_smppSrv d = Some srv \<and> map_of (Sv_sessions srv) k = Some s
     \<and> (BuildDLR (receiptParams p (recordedDLR now p)))\<lparr>Pdu_SequenceID := sequence\<rparr> \<in> set (Ss_out s))"

text \<open>All sessions are open, and one of the system receives.\<close>

definition receiving :: "string \<Rightarrow> Dispatcher \<Rightarrow> bool" where
  "receiving sys d \<longleftrightarrow> (\<exists>srv. Dp_smppSrv d = Some srv \<and> distinct (map fst (Sv_sessions srv))
     \<and> (\<forall>k s. map_of (Sv_sessions srv) k = Some s \<longrightarrow> k = Ss_id s \<and> \<not> Ss_closed s)
     \<and> (\<exists>k s. map_of (Sv_sessions srv) k = Some s \<and> Ss_systemID s = sys \<and> CanReceive (Ss_bindMode s)))"

lemma SendDeliverSM_open:
  assumes "\<not> Ss_closed s" "SendDeliverSM (Some st) p s = (r, s')"
  shows "r = Some st \<and> Ss_out s' = Ss_out s @ [p] \<and> Ss_id s' = Ss_id s \<and> Ss_systemID s' = Ss_systemID s
    \<and> Ss_bindMode s' = Ss_bindMode s \<and> \<not> Ss_closed s'"
  using assms by (auto simp: SendDeliverSM_def beginDeliver_def Send_def completeDeliverResp_def endDeliver_def
      unregisterDeliverResp_def Let_def)

lemma sint_small:
  assumes "unat (x :: 64 word) < 2 ^ 63"
  shows "sint x = int (unat x)"
proof -
  have "int (unat x) < 2 ^ 63"
    using assms by (metis of_nat_less_iff of_nat_numeral of_nat_power)
  then have "uint x < 2 ^ 63"
    by (simp only: uint_nat)
  then have "signed_take_bit 63 (uint x) = uint x"
    by (intro signed_take_bit_int_eq_self) (auto intro: order_trans [OF _ unsigned_greater_eq])
  then show ?thesis
    by (simp add: sint_uint)
qed

lemma unat_suc_le: "unat (x + 1 :: 64 word) \<le> unat x + 1"
  by (simp add: unat_word_ariths(1))

end
