(* ===== verification/Smpp_Server.thy ===== *)
theory Smpp_Server
  imports Smpp_Session
begin

text \<open>
  The SMPP server as a transition system: connections, PDUs, the two halves of a bind, completed
  submissions and closed sessions in any order, with the invariant of the reachable states.
\<close>

subsection \<open>The server as a transition system\<close>

text \<open>
  Besides the server the state has the bind requests that are decided but not yet stored, and the
  submissions handed over and not yet completed.
\<close>

record SrvState =
  Sx_srv :: Server
  Sx_checks :: "(string, bindOutcome) gomap"
  Sx_jobs :: "(string \<times> SubmitSM) list"

fun jobsOf :: "SessionEvent list \<Rightarrow> (string \<times> SubmitSM) list" where
  "jobsOf [] = []"
| "jobsOf (OnSubmit i m # evs) = (i, m) # jobsOf evs"
| "jobsOf (OnReceiverBound sid # evs) = jobsOf evs"

definition updateSession :: "string \<Rightarrow> (Session \<Rightarrow> Session) \<Rightarrow> Server \<Rightarrow> Server" where
  "updateSession i f srv = (case SessionOf i srv of None \<Rightarrow> srv | Some s \<Rightarrow> putSession (f s) srv)"

inductive srv_step :: "SrvState \<Rightarrow> SrvState \<Rightarrow> bool" where
  accept: "Sv_nextID (Sx_srv st) \<noteq> - 1 \<Longrightarrow> srv_step st (st\<lparr>Sx_srv := snd (acceptConn now (Sx_srv st))\<rparr>)"
| pdu: "SessionOf i (Sx_srv st) \<noteq> None \<Longrightarrow> map_of (Sx_checks st) i = None \<Longrightarrow> \<not> isBindCommand (Pdu_CommandID p) \<Longrightarrow>
     serverPDU now i p (Sx_srv st) = (srv2, evs) \<Longrightarrow>
     srv_step st (st\<lparr>Sx_srv := srv2, Sx_jobs := Sx_jobs st @ jobsOf evs\<rparr>)"
| bind_check: "SessionOf i (Sx_srv st) = Some s \<Longrightarrow> map_of (Sx_checks st) i = None \<Longrightarrow> isBindCommand (Pdu_CommandID p) \<Longrightarrow>
     srv_step st (st\<lparr>Sx_checks := AList.update i
       (bindCheck (Sv_auth (Sx_srv st)) (Some (bindAllowed (Sx_srv st) i)) p s) (Sx_checks st)\<rparr>)"
| bind_commit: "map_of (Sx_checks st) i = Some b \<Longrightarrow>
     srv_step st (st\<lparr>Sx_srv := updateSession i (\<lambda>s. fst (bindCommit (sessionConfig (Sx_srv st)) b s)) (Sx_srv st),
       Sx_checks := AList.delete i (Sx_checks st)\<rparr>)"
| complete: "(i, m) \<in> set (Sx_jobs st) \<Longrightarrow>
     srv_step st (st\<lparr>Sx_srv := updateSession i CompleteSubmit (Sx_srv st), Sx_jobs := remove1 (i, m) (Sx_jobs st)\<rparr>)"
| tick: "srv_step st (st\<lparr>Sx_srv := updateSession i (enquireTick (sessionConfig (Sx_srv st)) now) (Sx_srv st)\<rparr>)"
| closed: "srv_step st (st\<lparr>Sx_srv := unregister i (Sx_srv st), Sx_checks := AList.delete i (Sx_checks st)\<rparr>)"

inductive srv_reach :: "SMPPConfig \<Rightarrow> AuthFunc \<Rightarrow> SrvState \<Rightarrow> bool" for cfg auth where
  start: "srv_reach cfg auth \<lparr>Sx_srv = NewServer cfg (Some auth), Sx_checks = [], Sx_jobs = []\<rparr>"
| step: "srv_reach cfg auth st \<Longrightarrow> srv_step st st2 \<Longrightarrow> srv_reach cfg auth st2"

definition sessionNo :: "nat \<Rightarrow> string" where
  "sessionNo n = CHR ''s'' # FormatUint n 10"

definition openJobs :: "(string \<times> SubmitSM) list \<Rightarrow> string \<Rightarrow> nat" where
  "openJobs jobs i = length (filter (\<lambda>(j, m). j = i) jobs)"

definition known :: "Server \<Rightarrow> string \<Rightarrow> bool" where
  "known srv i \<longleftrightarrow> (\<exists>n. 0 < n \<and> n \<le> unat (Sv_nextID srv) \<and> i = sessionNo n)"

definition authentic :: "AuthFunc \<Rightarrow> string \<Rightarrow> bool" where
  "authentic auth systemID \<longleftrightarrow> (\<exists>password. auth systemID password)"

definition session_ok :: "AuthFunc \<Rightarrow> SrvState \<Rightarrow> string \<Rightarrow> Session \<Rightarrow> bool" where
  "session_ok auth st i s \<longleftrightarrow> Ss_id s = i \<and> known (Sx_srv st) i \<and>
     (Ss_bindMode s \<noteq> BindNone \<longrightarrow> authentic auth (Ss_systemID s)) \<and>
     Ss_inflight s = int (openJobs (Sx_jobs st) i) \<and> Ss_inflight s \<le> windowOf (sessionConfig (Sx_srv st)) \<and>
     (0 < openJobs (Sx_jobs st) i \<longrightarrow> CanSubmit (Ss_bindMode s))"

definition check_ok :: "AuthFunc \<Rightarrow> SrvState \<Rightarrow> string \<Rightarrow> bindOutcome \<Rightarrow> bool" where
  "check_ok auth st i b \<longleftrightarrow> (Bo_parsed b \<and> Bo_status b = statusOK \<longrightarrow> authentic auth (Bo_systemID b) \<and>
     (\<forall>s. SessionOf i (Sx_srv st) = Some s \<longrightarrow> Ss_bindMode s = BindNone))"

definition srv_inv :: "SMPPConfig \<Rightarrow> AuthFunc \<Rightarrow> SrvState \<Rightarrow> bool" where
  "srv_inv cfg auth st \<longleftrightarrow>
     Sv_cfg (Sx_srv st) = cfg \<and> Sv_auth (Sx_srv st) = Some auth \<and> distinct (map fst (Sv_sessions (Sx_srv st))) \<and>
     (0 < Smc_MaxSessions cfg \<longrightarrow> int (length (Sv_sessions (Sx_srv st))) \<le> Smc_MaxSessions cfg) \<and>
     (\<forall>i s. SessionOf i (Sx_srv st) = Some s \<longrightarrow> session_ok auth st i s) \<and>
     (\<forall>i b. map_of (Sx_checks st) i = Some b \<longrightarrow> check_ok auth st i b) \<and>
     (\<forall>(i, m) \<in> set (Sx_jobs st). known (Sx_srv st) i)"

lemma sessionNo_inj:
  assumes "a < 2 ^ 64" "b < 2 ^ 64" "sessionNo a = sessionNo b"
  shows "a = b"
proof -
  have "FormatUint a 10 = FormatUint b 10"
    using assms(3) by (simp add: sessionNo_def)
  moreover have "parseDigits 10 0 (FormatUint n 10) = Inr n" if "n < 2 ^ 64" for n
    using that by (simp add: parseDigits_FormatUint)
  ultimately have "(Inr a :: NumError + nat) = Inr b"
    using assms(1,2) by metis
  then show ?thesis
    by simp
qed

lemma addInt32_small: "- (2 ^ 31) \<le> a + b \<Longrightarrow> a + b < 2 ^ 31 \<Longrightarrow> addInt32 a b = a + b"
  unfolding addInt32_def by (simp add: signed_of_int signed_take_bit_int_eq_self del: of_int_add)

lemma openJobs_simps [simp]:
  "openJobs [] i = 0" "openJobs (xs @ ys) i = openJobs xs i + openJobs ys i"
  "openJobs ((j, m) # xs) i = (if j = i then 1 else 0) + openJobs xs i"
  by (simp_all add: openJobs_def)

lemma openJobs_pos: "(i, m) \<in> set xs \<Longrightarrow> 0 < openJobs xs i"
  by (auto simp: openJobs_def filter_empty_conv)

lemma openJobs_remove1:
  "(i, m) \<in> set xs \<Longrightarrow> openJobs (remove1 (i, m) xs) j = (if i = j then openJobs xs j - 1 else openJobs xs j)"
  by (auto simp: openJobs_def filter_remove1 length_remove1)

lemma SessionOf_put: "Ss_id s = i \<Longrightarrow> SessionOf j (putSession s srv) = (if j = i then Some s else SessionOf j srv)"
  by (auto simp: SessionOf_def putSession_def update_conv')

lemma SessionOf_update:
  assumes "\<And>s. SessionOf i srv = Some s \<Longrightarrow> Ss_id (f s) = i"
  shows "SessionOf j (updateSession i f srv) = (if j = i then map_option f (SessionOf i srv) else SessionOf j srv)"
  using assms by (cases "SessionOf i srv") (auto simp: updateSession_def SessionOf_put)

lemma putSession_frame [simp]:
  "Sv_cfg (putSession s srv) = Sv_cfg srv" "Sv_auth (putSession s srv) = Sv_auth srv" "Sv_nextID (putSession s srv) = Sv_nextID srv"
  by (simp_all add: putSession_def)

lemma updateSession_frame [simp]:
  "Sv_cfg (updateSession i f srv) = Sv_cfg srv" "Sv_auth (updateSession i f srv) = Sv_auth srv"
  "Sv_nextID (updateSession i f srv) = Sv_nextID srv"
  by (simp_all add: updateSession_def split: option.split)

lemma updateSession_keys:
  assumes "\<And>s. SessionOf i srv = Some s \<Longrightarrow> Ss_id (f s) = i"
  shows "map fst (Sv_sessions (updateSession i f srv)) = map fst (Sv_sessions srv)"
proof (cases "SessionOf i srv")
  case (Some s)
  then have "i \<in> set (map fst (Sv_sessions srv))"
    by (auto simp: SessionOf_def dest: map_of_SomeD intro: rev_image_eqI)
  then show ?thesis
    using Some assms by (simp add: updateSession_def putSession_def update_keys)
qed (simp add: updateSession_def)

lemma known_update [simp]: "known (updateSession i f srv) = known srv"
  by (simp add: known_def fun_eq_iff)

lemma putSession_known [simp]: "known (putSession s srv) = known srv" "sessionConfig (putSession s srv) = sessionConfig srv"
  by (simp_all add: known_def sessionConfig_def fun_eq_iff)

lemma sessionConfig_update [simp]: "sessionConfig (updateSession i f srv) = sessionConfig srv"
  by (simp add: sessionConfig_def)

text \<open>A step that changes one session and its jobs.\<close>

lemma srv_inv_update:
  assumes inv: "srv_inv cfg auth st"
    and ident: "\<And>s. SessionOf i (Sx_srv st) = Some s \<Longrightarrow> Ss_id (f s) = i"
    and st2: "st2 = st\<lparr>Sx_srv := updateSession i f (Sx_srv st), Sx_checks := checks, Sx_jobs := jobs\<rparr>"
    and ok: "\<And>s. SessionOf i (Sx_srv st) = Some s \<Longrightarrow> session_ok auth st i s \<Longrightarrow> session_ok auth st2 i (f s)"
    and others: "\<And>j. j \<noteq> i \<Longrightarrow> openJobs jobs j = openJobs (Sx_jobs st) j"
    and checks: "\<And>j b. map_of checks j = Some b \<Longrightarrow> map_of (Sx_checks st) j = Some b \<and>
        (j = i \<longrightarrow> (\<forall>s. SessionOf i (Sx_srv st) = Some s \<longrightarrow> Ss_bindMode (f s) = Ss_bindMode s))"
    and jobs: "\<And>j m. (j, m) \<in> set jobs \<Longrightarrow> known (Sx_srv st) j"
  shows "srv_inv cfg auth st2"
proof -
  have look: "SessionOf j (Sx_srv st2) = (if j = i then map_option f (SessionOf i (Sx_srv st)) else SessionOf j (Sx_srv st))" for j
    using SessionOf_update [of i "Sx_srv st" f j] ident st2 by simp
  have keys: "map fst (Sv_sessions (Sx_srv st2)) = map fst (Sv_sessions (Sx_srv st))"
    using updateSession_keys [of i "Sx_srv st" f] ident st2 by simp
  then have len: "length (Sv_sessions (Sx_srv st2)) = length (Sv_sessions (Sx_srv st))"
    by (metis length_map)
  have frame: "Sv_cfg (Sx_srv st2) = Sv_cfg (Sx_srv st)" "Sv_auth (Sx_srv st2) = Sv_auth (Sx_srv st)"
    "known (Sx_srv st2) = known (Sx_srv st)" "sessionConfig (Sx_srv st2) = sessionConfig (Sx_srv st)"
    using st2 by simp_all
  have old: "session_ok auth st j s" if "SessionOf j (Sx_srv st) = Some s" for j s
    using inv that by (simp add: srv_inv_def)
  have "session_ok auth st2 j s" if s: "SessionOf j (Sx_srv st2) = Some s" for j s
  proof (cases "j = i")
    case True
    then obtain s0 where "SessionOf i (Sx_srv st) = Some s0" "s = f s0"
      using s unfolding look [of j] by auto
    then show ?thesis
      using ok old True by simp
  next
    case False
    then have "session_ok auth st j s"
      using that old unfolding look [of j] by simp
    then show ?thesis
      using others [OF False] frame st2 by (simp add: session_ok_def)
  qed
  moreover have "check_ok auth st2 j b" if b: "map_of (Sx_checks st2) j = Some b" for j b
  proof -
    have c: "map_of (Sx_checks st) j = Some b" "j = i \<longrightarrow> (\<forall>s. SessionOf i (Sx_srv st) = Some s \<longrightarrow> Ss_bindMode (f s) = Ss_bindMode s)"
      using checks [of j b] b st2 by simp_all
    then have "check_ok auth st j b"
      using inv by (simp add: srv_inv_def)
    then show ?thesis
      using c(2) unfolding check_ok_def look by auto
  qed
  moreover have "\<forall>(j, m) \<in> set (Sx_jobs st2). known (Sx_srv st2) j"
    using jobs st2 frame(3) by auto
  ultimately show ?thesis
    using inv unfolding srv_inv_def keys len frame by blast
qed

lemma srv_inv_session: "srv_inv cfg auth st \<Longrightarrow> SessionOf i (Sx_srv st) = Some s \<Longrightarrow> session_ok auth st i s"
  by (simp add: srv_inv_def)

lemma srv_inv_start: "srv_inv cfg auth \<lparr>Sx_srv = NewServer cfg (Some auth), Sx_checks = [], Sx_jobs = []\<rparr>"
  by (simp add: srv_inv_def NewServer_def SessionOf_def)

lemma acceptConn_cases:
  obtains (full) "snd (acceptConn now srv) = srv\<lparr>Sv_nextID := Sv_nextID srv + 1\<rparr>"
  | (added) "\<not> (0 < Smc_MaxSessions (Sv_cfg srv) \<and> Smc_MaxSessions (Sv_cfg srv) \<le> int (length (Sv_sessions srv)))"
      "snd (acceptConn now srv) = putSession (NewSession (sessionNo (unat (Sv_nextID srv + 1))) now) (srv\<lparr>Sv_nextID := Sv_nextID srv + 1\<rparr>)"
  by (cases "0 < Smc_MaxSessions (Sv_cfg srv) \<and> Smc_MaxSessions (Sv_cfg srv) \<le> int (length (Sv_sessions srv))")
    (simp_all add: acceptConn_def nextSessionID_def register_def putSession_def NewSession_def sessionNo_def Let_def)

lemma unat_next: "n \<noteq> - 1 \<Longrightarrow> unat (n + 1 :: 64 word) = Suc (unat n)"
  using unatSuc [of n] by (simp add: add.commute eq_neg_iff_add_eq_0)

lemma known_next: "Sv_nextID srv \<noteq> - 1 \<Longrightarrow> known srv i \<Longrightarrow> known (srv\<lparr>Sv_nextID := Sv_nextID srv + 1\<rparr>) i"
  using unat_next by (auto simp: known_def intro: le_SucI)

lemma fresh_session: "Sv_nextID srv \<noteq> - 1 \<Longrightarrow> \<not> known srv (sessionNo (unat (Sv_nextID srv + 1)))"
proof
  assume room: "Sv_nextID srv \<noteq> - 1" and k: "known srv (sessionNo (unat (Sv_nextID srv + 1)))"
  from k obtain n where n: "n \<le> unat (Sv_nextID srv)" "sessionNo (unat (Sv_nextID srv + 1)) = sessionNo n"
    by (auto simp: known_def)
  have lt: "unat x < 2 ^ 64" for x :: "64 word"
    using unsigned_less [of x] by simp
  have "unat (Sv_nextID srv + 1) = n"
    using sessionNo_inj [OF lt order_le_less_trans [OF n(1) lt] n(2)] .
  then show False
    using n(1) unat_next [OF room] by simp
qed

lemma srv_inv_next:
  assumes inv: "srv_inv cfg auth st" and room: "Sv_nextID (Sx_srv st) \<noteq> - 1"
  shows "srv_inv cfg auth (st\<lparr>Sx_srv := (Sx_srv st)\<lparr>Sv_nextID := Sv_nextID (Sx_srv st) + 1\<rparr>\<rparr>)"
proof -
  let ?srv = "Sx_srv st"
  let ?st = "st\<lparr>Sx_srv := ?srv\<lparr>Sv_nextID := Sv_nextID ?srv + 1\<rparr>\<rparr>"
  have look: "SessionOf i (Sx_srv ?st) = SessionOf i ?srv" and conf: "sessionConfig (Sx_srv ?st) = sessionConfig ?srv" for i
    by (simp_all add: SessionOf_def sessionConfig_def)
  have "session_ok auth ?st i s" if "SessionOf i ?srv = Some s" for i s
    using srv_inv_session [OF inv that] known_next [OF room] conf by (simp add: session_ok_def)
  moreover have "check_ok auth ?st i b" if "map_of (Sx_checks st) i = Some b" for i b
    using inv that unfolding srv_inv_def check_ok_def look by blast
  moreover have "\<forall>(i, m) \<in> set (Sx_jobs st). known (Sx_srv ?st) i"
    using inv known_next [OF room] by (auto simp: srv_inv_def)
  ultimately show ?thesis
    using inv unfolding srv_inv_def look by simp
qed

lemma srv_inv_add:
  assumes inv: "srv_inv cfg auth st" and kn: "known (Sx_srv st) i" and new: "SessionOf i (Sx_srv st) = None"
    and idle: "openJobs (Sx_jobs st) i = 0"
    and room: "\<not> (0 < Smc_MaxSessions cfg \<and> Smc_MaxSessions cfg \<le> int (length (Sv_sessions (Sx_srv st))))"
  shows "srv_inv cfg auth (st\<lparr>Sx_srv := putSession (NewSession i now) (Sx_srv st)\<rparr>)"
proof -
  let ?s = "NewSession i now" and ?srv = "Sx_srv st"
  let ?st = "st\<lparr>Sx_srv := putSession ?s ?srv\<rparr>"
  have look: "SessionOf j (putSession ?s ?srv) = (if j = i then Some ?s else SessionOf j ?srv)" for j
    by (rule SessionOf_put) (simp add: NewSession_def)
  have i: "i \<notin> set (map fst (Sv_sessions ?srv))"
    using new by (simp add: SessionOf_def map_of_eq_None_iff)
  have keys: "map fst (Sv_sessions (putSession ?s ?srv)) = map fst (Sv_sessions ?srv) @ [i]"
    using i by (simp add: putSession_def NewSession_def update_keys)
  then have len: "length (Sv_sessions (putSession ?s ?srv)) = Suc (length (Sv_sessions ?srv))"
    by (metis length_append_singleton length_map)
  have "session_ok auth ?st i ?s"
    using kn idle by (simp add: session_ok_def NewSession_def windowOf_def)
  moreover have "session_ok auth ?st j s" if "SessionOf j ?srv = Some s" for j s
    using srv_inv_session [OF inv that] by (simp add: session_ok_def)
  ultimately have "\<forall>j s. SessionOf j (putSession ?s ?srv) = Some s \<longrightarrow> session_ok auth ?st j s"
    unfolding look by auto
  moreover have "check_ok auth ?st j b" if "map_of (Sx_checks st) j = Some b" for j b
  proof -
    have "check_ok auth st j b"
      using inv that by (simp add: srv_inv_def)
    moreover have "Ss_bindMode ?s = BindNone"
      by (simp add: NewSession_def)
    ultimately show ?thesis
      by (auto simp: check_ok_def look)
  qed
  moreover have "distinct (map fst (Sv_sessions (putSession ?s ?srv)))"
    using inv i unfolding keys by (simp add: srv_inv_def)
  moreover have "0 < Smc_MaxSessions cfg \<longrightarrow> int (length (Sv_sessions (putSession ?s ?srv))) \<le> Smc_MaxSessions cfg"
    using room unfolding len by auto
  ultimately show ?thesis
    using inv by (simp add: srv_inv_def)
qed

lemma srv_inv_accept:
  assumes inv: "srv_inv cfg auth st" and room: "Sv_nextID (Sx_srv st) \<noteq> - 1"
  shows "srv_inv cfg auth (st\<lparr>Sx_srv := snd (acceptConn now (Sx_srv st))\<rparr>)"
proof -
  let ?srv = "Sx_srv st"
  let ?srv1 = "?srv\<lparr>Sv_nextID := Sv_nextID ?srv + 1\<rparr>"
  let ?st1 = "st\<lparr>Sx_srv := ?srv1\<rparr>" and ?i = "sessionNo (unat (Sv_nextID ?srv + 1))"
  have inv1: "srv_inv cfg auth ?st1"
    using srv_inv_next [OF inv room] .
  show ?thesis
  proof (cases rule: acceptConn_cases [of now ?srv, case_names full added])
    case full
    then show ?thesis
      using inv1 by simp
  next
    case added
    have "known ?srv1 ?i"
      using unat_next [OF room] by (auto simp: known_def)
    moreover have "SessionOf ?i ?srv1 = None"
    proof (rule ccontr)
      assume "SessionOf ?i ?srv1 \<noteq> None"
      then obtain s where "SessionOf ?i ?srv = Some s"
        by (auto simp: SessionOf_def)
      then have "known ?srv ?i"
        using inv by (simp add: srv_inv_def session_ok_def)
      then show False
        using fresh_session [OF room] by blast
    qed
    moreover have "openJobs (Sx_jobs st) ?i = 0"
      using inv fresh_session [OF room] by (auto simp: srv_inv_def openJobs_def filter_empty_conv)
    ultimately show ?thesis
      using srv_inv_add [OF inv1, of ?i now] added inv by (simp add: srv_inv_def)
  qed
qed

lemma srv_inv_unregister:
  assumes inv: "srv_inv cfg auth st"
  shows "srv_inv cfg auth (st\<lparr>Sx_srv := unregister i (Sx_srv st), Sx_checks := AList.delete i (Sx_checks st)\<rparr>)"
proof -
  let ?srv = "Sx_srv st"
  let ?st = "st\<lparr>Sx_srv := unregister i ?srv, Sx_checks := AList.delete i (Sx_checks st)\<rparr>"
  have look: "SessionOf j (Sx_srv ?st) = (if j = i then None else SessionOf j ?srv)" for j
    by (simp add: SessionOf_def unregister_def delete_conv')
  have frame: "known (Sx_srv ?st) = known ?srv" "sessionConfig (Sx_srv ?st) = sessionConfig ?srv"
    by (simp_all add: known_def sessionConfig_def unregister_def fun_eq_iff)
  have "session_ok auth ?st j s" if s: "SessionOf j (Sx_srv ?st) = Some s" for j s
  proof -
    have "SessionOf j ?srv = Some s"
      using s unfolding look [of j] by (simp split: if_splits)
    from srv_inv_session [OF inv this] show ?thesis
      using frame by (simp add: session_ok_def)
  qed
  moreover have "check_ok auth ?st j b" if "map_of (Sx_checks ?st) j = Some b" for j b
  proof -
    have "map_of (Sx_checks st) j = Some b"
      using that by (simp add: delete_conv' split: if_splits)
    then have "check_ok auth st j b"
      using inv by (simp add: srv_inv_def)
    then show ?thesis
      unfolding check_ok_def look by auto
  qed
  moreover have "length (AList.delete i (Sv_sessions ?srv)) \<le> length (Sv_sessions ?srv)"
    by (rule length_delete_le)
  then have "0 < Smc_MaxSessions cfg \<longrightarrow> int (length (Sv_sessions (Sx_srv ?st))) \<le> Smc_MaxSessions cfg"
    using inv by (auto simp: srv_inv_def unregister_def)
  moreover have "distinct (map fst (Sv_sessions (Sx_srv ?st)))"
    using inv by (simp add: srv_inv_def unregister_def distinct_delete)
  ultimately show ?thesis
    using inv frame(1) unfolding srv_inv_def by (simp add: unregister_def)
qed

lemma bindCheck_ok:
  assumes "Bo_parsed (bindCheck (Some auth) allowed p s)" "Bo_status (bindCheck (Some auth) allowed p s) = statusOK"
  shows "authentic auth (Bo_systemID (bindCheck (Some auth) allowed p s)) \<and> Ss_bindMode s = BindNone"
  using assms
  by (auto simp: bindCheck_def Let_def authentic_def status_defs split: sum.splits if_splits)

lemma srv_inv_check:
  assumes inv: "srv_inv cfg auth st" and s: "SessionOf i (Sx_srv st) = Some s"
  shows "srv_inv cfg auth (st\<lparr>Sx_checks := AList.update i (bindCheck (Sv_auth (Sx_srv st)) allowed p s) (Sx_checks st)\<rparr>)"
proof -
  have "Sv_auth (Sx_srv st) = Some auth"
    using inv by (simp add: srv_inv_def)
  then have "check_ok auth st i (bindCheck (Sv_auth (Sx_srv st)) allowed p s)"
    using bindCheck_ok [of auth allowed p s] s by (auto simp: check_ok_def)
  then have "\<forall>j b. map_of (AList.update i (bindCheck (Sv_auth (Sx_srv st)) allowed p s) (Sx_checks st)) j = Some b \<longrightarrow> check_ok auth st j b"
    using inv by (auto simp: srv_inv_def update_conv' split: if_splits)
  moreover have "session_ok auth (st\<lparr>Sx_checks := c\<rparr>) = session_ok auth st" "check_ok auth (st\<lparr>Sx_checks := c\<rparr>) = check_ok auth st" for c
    by (simp_all add: session_ok_def check_ok_def fun_eq_iff)
  ultimately show ?thesis
    using inv by (simp add: srv_inv_def)
qed

lemma commit_frame:
  "Ss_id (fst (bindCommit cfg b s)) = Ss_id s" "Ss_inflight (fst (bindCommit cfg b s)) = Ss_inflight s"
  "\<not> (Bo_parsed b \<and> Bo_status b = statusOK) \<Longrightarrow> Ss_bindMode (fst (bindCommit cfg b s)) = Ss_bindMode s \<and>
     Ss_systemID (fst (bindCommit cfg b s)) = Ss_systemID s"
  "Bo_parsed b \<and> Bo_status b = statusOK \<Longrightarrow> Ss_systemID (fst (bindCommit cfg b s)) = Bo_systemID b"
  by (auto simp: bindCommit_def Let_def)

lemma srv_inv_commit:
  assumes inv: "srv_inv cfg auth st" and b: "map_of (Sx_checks st) i = Some b"
  shows "srv_inv cfg auth (st\<lparr>Sx_srv := updateSession i (\<lambda>s. fst (bindCommit (sessionConfig (Sx_srv st)) b s)) (Sx_srv st),
       Sx_checks := AList.delete i (Sx_checks st)\<rparr>)" (is "srv_inv cfg auth ?st2")
proof (rule srv_inv_update [OF inv, where i = i and jobs = "Sx_jobs st" and checks = "AList.delete i (Sx_checks st)"
      and f = "\<lambda>s. fst (bindCommit (sessionConfig (Sx_srv st)) b s)"])
  fix s
  assume s: "SessionOf i (Sx_srv st) = Some s"
  have old: "session_ok auth st i s"
    using srv_inv_session [OF inv s] .
  have c: "check_ok auth st i b"
    using inv b by (simp add: srv_inv_def)
  show "Ss_id (fst (bindCommit (sessionConfig (Sx_srv st)) b s)) = i"
    using old by (simp add: commit_frame session_ok_def)
  show "session_ok auth ?st2 i (fst (bindCommit (sessionConfig (Sx_srv st)) b s))"
  proof (cases "Bo_parsed b \<and> Bo_status b = statusOK")
    case True
    then have "Ss_bindMode s = BindNone" "authentic auth (Bo_systemID b)"
      using c s by (simp_all add: check_ok_def)
    moreover then have "openJobs (Sx_jobs st) i = 0"
      using old by (auto simp: session_ok_def CanSubmit_def)
    ultimately show ?thesis
      using old True by (simp add: session_ok_def commit_frame)
  next
    case False
    then show ?thesis
      using old commit_frame(3) [OF False] by (simp add: session_ok_def commit_frame)
  qed
next
  fix j b2
  assume "map_of (AList.delete i (Sx_checks st)) j = Some b2"
  then show "map_of (Sx_checks st) j = Some b2 \<and> (j = i \<longrightarrow> (\<forall>s. SessionOf i (Sx_srv st) = Some s \<longrightarrow>
      Ss_bindMode (fst (bindCommit (sessionConfig (Sx_srv st)) b s)) = Ss_bindMode s))"
    by (simp add: delete_conv' split: if_splits)
next
  fix j m
  assume "(j, m) \<in> set (Sx_jobs st)"
  then show "known (Sx_srv st) j"
    using inv by (auto simp: srv_inv_def)
qed simp_all

definition submitted :: "SessionConfig \<Rightarrow> Session \<Rightarrow> Session \<Rightarrow> SessionEvent list \<Rightarrow> bool" where
  "submitted cfg s s2 evs \<longleftrightarrow> Ss_id s2 = Ss_id s \<and> Ss_bindMode s2 = Ss_bindMode s \<and> Ss_systemID s2 = Ss_systemID s \<and>
     ((\<exists>m. jobsOf evs = [(Ss_id s, m)] \<and> CanSubmit (Ss_bindMode s) \<and> Ss_inflight s2 = Ss_inflight s + 1 \<and>
         Ss_inflight s2 \<le> windowOf cfg) \<or>
      jobsOf evs = [] \<and> Ss_inflight s2 = Ss_inflight s)"

lemma handleSubmit_submitted:
  assumes "0 \<le> Ss_inflight s" "Ss_inflight s \<le> windowOf cfg" "windowOf cfg < 2 ^ 31 - 1" "handleSubmit cfg p s = (s2, evs)"
  shows "submitted cfg s s2 evs"
proof -
  have "addInt32 (Ss_inflight s) 1 = Ss_inflight s + 1" "addInt32 (Ss_inflight s + 1) (- 1) = Ss_inflight s"
    using assms(1-3) by (simp_all add: addInt32_small)
  then show ?thesis
    using assms(4) by (auto simp: handleSubmit_def submitted_def Let_def split: if_splits sum.splits)
qed

lemma dispatch_submitted:
  assumes "0 \<le> Ss_inflight s" "Ss_inflight s \<le> windowOf cfg" "windowOf cfg < 2 ^ 31 - 1"
    "\<not> isBindCommand (Pdu_CommandID p)" "dispatchPDU cfg auth allowed p s = (s2, evs)"
  shows "submitted cfg s s2 evs"
proof (cases "Pdu_CommandID p = commandSubmitSM")
  case True
  then show ?thesis
    using assms handleSubmit_submitted by (simp add: dispatchPDU_def)
next
  case False
  then show ?thesis
    using assms(4,5) by (auto simp: dispatchPDU_def submitted_def Let_def split: if_splits)
qed

lemma srv_inv_pdu:
  assumes inv: "srv_inv cfg auth st" and win: "windowOf (sessionConfig (Sx_srv st)) < 2 ^ 31 - 1"
    and s: "SessionOf i (Sx_srv st) = Some s" and p: "\<not> isBindCommand (Pdu_CommandID p)"
    and step: "serverPDU now i p (Sx_srv st) = (srv2, evs)"
  shows "srv_inv cfg auth (st\<lparr>Sx_srv := srv2, Sx_jobs := Sx_jobs st @ jobsOf evs\<rparr>)" (is "srv_inv cfg auth ?st2")
proof -
  have old: "session_ok auth st i s"
    using srv_inv_session [OF inv s] .
  obtain s2 where d: "readStep (sessionConfig (Sx_srv st)) (Sv_auth (Sx_srv st)) (Some (bindAllowed (Sx_srv st) i)) now p s = (s2, evs)"
    and srv2: "srv2 = putSession s2 (Sx_srv st)"
    using step s by (auto simp: serverPDU_def split: prod.splits)
  have "submitted (sessionConfig (Sx_srv st)) (s\<lparr>Ss_lastSeen := now\<rparr>) s2 evs"
    using dispatch_submitted [OF _ _ win p] d old by (simp add: readStep_def session_ok_def)
  then have sub: "submitted (sessionConfig (Sx_srv st)) s s2 evs"
    by (simp add: submitted_def)
  have ids: "Ss_id s = i" "Ss_id s2 = i"
    using old sub by (simp_all add: session_ok_def submitted_def)
  have jobs: "j = i" if "(j, m) \<in> set (jobsOf evs)" for j m
    using sub that ids(1) by (auto simp: submitted_def)
  have st2: "?st2 = st\<lparr>Sx_srv := updateSession i (\<lambda>_. s2) (Sx_srv st), Sx_checks := Sx_checks st, Sx_jobs := Sx_jobs st @ jobsOf evs\<rparr>"
    using s srv2 by (simp add: updateSession_def)
  show ?thesis
  proof (rule srv_inv_update [OF inv _ st2])
    fix s'
    assume "SessionOf i (Sx_srv st) = Some s'"
    show "Ss_id s2 = i"
      by (rule ids)
    show "session_ok auth ?st2 i s2"
      using old sub ids srv2 by (auto simp: session_ok_def submitted_def)
  next
    fix j
    assume "j \<noteq> i"
    then have "openJobs (jobsOf evs) j = 0"
      using jobs by (auto simp: openJobs_def filter_empty_conv)
    then show "openJobs (Sx_jobs st @ jobsOf evs) j = openJobs (Sx_jobs st) j"
      by simp
  next
    fix j b
    assume "map_of (Sx_checks st) j = Some b"
    then show "map_of (Sx_checks st) j = Some b \<and> (j = i \<longrightarrow> (\<forall>s. SessionOf i (Sx_srv st) = Some s \<longrightarrow> Ss_bindMode s2 = Ss_bindMode s))"
      using sub s by (simp add: submitted_def)
  next
    fix j m
    assume "(j, m) \<in> set (Sx_jobs st @ jobsOf evs)"
    then show "known (Sx_srv st) j"
      using inv old jobs by (auto simp: srv_inv_def session_ok_def)
  qed
qed

lemma srv_inv_complete:
  assumes inv: "srv_inv cfg auth st" and win: "windowOf (sessionConfig (Sx_srv st)) < 2 ^ 31 - 1" and job: "(i, m) \<in> set (Sx_jobs st)"
  shows "srv_inv cfg auth (st\<lparr>Sx_srv := updateSession i CompleteSubmit (Sx_srv st), Sx_jobs := remove1 (i, m) (Sx_jobs st)\<rparr>)"
    (is "srv_inv cfg auth ?st2")
proof (rule srv_inv_update [OF inv, where i = i and f = CompleteSubmit and checks = "Sx_checks st" and jobs = "remove1 (i, m) (Sx_jobs st)"])
  fix s
  assume s: "SessionOf i (Sx_srv st) = Some s"
  have old: "session_ok auth st i s"
    using srv_inv_session [OF inv s] .
  show "Ss_id (CompleteSubmit s) = i"
    using old by (simp add: CompleteSubmit_def session_ok_def)
  have "0 < openJobs (Sx_jobs st) i"
    using job by (rule openJobs_pos)
  moreover have "addInt32 (Ss_inflight s) (- 1) = Ss_inflight s - 1"
    using old win by (simp add: addInt32_small session_ok_def)
  ultimately show "session_ok auth ?st2 i (CompleteSubmit s)"
    using old by (auto simp: session_ok_def CompleteSubmit_def openJobs_remove1 [OF job] of_nat_diff)
next
  fix j m2
  assume "(j, m2) \<in> set (remove1 (i, m) (Sx_jobs st))"
  then show "known (Sx_srv st) j"
    using inv by (auto simp: srv_inv_def dest: notin_set_remove1)
qed (simp_all add: openJobs_remove1 [OF job] CompleteSubmit_def)

lemma enquireTick_frame:
  "Ss_id (enquireTick c now s) = Ss_id s" "Ss_bindMode (enquireTick c now s) = Ss_bindMode s"
  "Ss_systemID (enquireTick c now s) = Ss_systemID s" "Ss_inflight (enquireTick c now s) = Ss_inflight s"
  by (simp_all add: enquireTick_def CloseSession_def NextSeq_def Let_def)

lemma srv_inv_tick:
  assumes inv: "srv_inv cfg auth st"
  shows "srv_inv cfg auth (st\<lparr>Sx_srv := updateSession i (enquireTick c now) (Sx_srv st)\<rparr>)"
proof (rule srv_inv_update [OF inv, where i = i and f = "enquireTick c now" and checks = "Sx_checks st" and jobs = "Sx_jobs st"])
  fix s
  assume s: "SessionOf i (Sx_srv st) = Some s"
  have old: "session_ok auth st i s"
    using srv_inv_session [OF inv s] .
  show "Ss_id (enquireTick c now s) = i"
    using old by (simp add: enquireTick_frame session_ok_def)
  show "session_ok auth (st\<lparr>Sx_srv := updateSession i (enquireTick c now) (Sx_srv st)\<rparr>) i (enquireTick c now s)"
    using old by (simp add: enquireTick_frame session_ok_def)
next
  fix j m
  assume "(j, m) \<in> set (Sx_jobs st)"
  then show "known (Sx_srv st) j"
    using inv by (auto simp: srv_inv_def)
qed (simp_all add: enquireTick_frame)

lemma srv_step_inv:
  assumes "srv_step st st2" "srv_inv cfg auth st" "windowOf (sessionConfig (Sx_srv st)) < 2 ^ 31 - 1"
  shows "srv_inv cfg auth st2"
  using assms
proof cases
  case (pdu i p now srv2 evs)
  then show ?thesis
    using srv_inv_pdu [OF assms(2,3), of i _ p now srv2 evs] by auto
qed (auto intro: srv_inv_accept srv_inv_check srv_inv_commit srv_inv_complete srv_inv_tick srv_inv_unregister)

definition confWindow :: "SMPPConfig \<Rightarrow> int" where
  "confWindow cfg = windowOf (sessionConfig (NewServer cfg None))"

lemma srv_reach_inv:
  assumes "srv_reach cfg auth st" "confWindow cfg < 2 ^ 31 - 1"
  shows "srv_inv cfg auth st"
  using assms(1)
proof induction
  case start
  show ?case
    by (rule srv_inv_start)
next
  case (step st st2)
  then have "windowOf (sessionConfig (Sx_srv st)) = confWindow cfg"
    by (simp add: srv_inv_def confWindow_def sessionConfig_def NewServer_def)
  then show ?case
    using srv_step_inv [OF step(2) step(3)] assms(2) by simp
qed

text \<open>
  C9: In every reachable state of the SMPP server, whatever the interleaving of connections, binds, submissions
  and their completion: there are no more sessions than configured; a session that may submit or
  receive belongs to a system id for which the authentication accepted a password; and a
  session has no more open submissions than the window allows, and none unless it is bound as
  transmitter.
\<close>

theorem smpp_server_safe:
  assumes "srv_reach cfg auth st" and "confWindow cfg < 2 ^ 31 - 1"
  shows "(0 < Smc_MaxSessions cfg \<longrightarrow> int (length (Sv_sessions (Sx_srv st))) \<le> Smc_MaxSessions cfg) \<and>
    (\<forall>i s. SessionOf i (Sx_srv st) = Some s \<longrightarrow>
       (CanSubmit (Ss_bindMode s) \<or> CanReceive (Ss_bindMode s) \<longrightarrow> (\<exists>password. auth (Ss_systemID s) password)) \<and>
       int (openJobs (Sx_jobs st) i) \<le> confWindow cfg \<and>
       (0 < openJobs (Sx_jobs st) i \<longrightarrow> CanSubmit (Ss_bindMode s)))"
proof -
  have inv: "srv_inv cfg auth st"
    using srv_reach_inv [OF assms] .
  then have w: "windowOf (sessionConfig (Sx_srv st)) = confWindow cfg"
    by (simp add: srv_inv_def confWindow_def sessionConfig_def NewServer_def)
  have "(CanSubmit (Ss_bindMode s) \<or> CanReceive (Ss_bindMode s) \<longrightarrow> (\<exists>password. auth (Ss_systemID s) password)) \<and>
      int (openJobs (Sx_jobs st) i) \<le> confWindow cfg \<and> (0 < openJobs (Sx_jobs st) i \<longrightarrow> CanSubmit (Ss_bindMode s))"
    if "SessionOf i (Sx_srv st) = Some s" for i s
    using srv_inv_session [OF inv that] w by (auto simp: session_ok_def authentic_def CanSubmit_def CanReceive_def)
  then show ?thesis
    using inv by (auto simp: srv_inv_def)
qed

definition exampleSMPP :: SMPPConfig where
  "exampleSMPP = \<lparr>Smc_Addr = '':2775'', Smc_SystemID = ''gw'', Smc_Password = [], Smc_SystemType = [], Smc_MaxSessions = 2,
     Smc_MaxSessionsPerSystemID = 1, Smc_WindowSize = 16, Smc_EnquirePeriod = ''30s''\<rparr>"

lemma exampleSMPP_window: "confWindow exampleSMPP = 16"
  by (simp add: confWindow_def windowOf_def sessionConfig_def NewServer_def exampleSMPP_def)

theorem smpp_server_safe_witness:
  "\<exists>st. srv_reach exampleSMPP (\<lambda>s p. p = ''pw'') st \<and> length (Sv_sessions (Sx_srv st)) = 1 \<and>
     int (length (Sv_sessions (Sx_srv st))) \<le> 2"
proof -
  let ?st = "\<lparr>Sx_srv = NewServer exampleSMPP (Some (\<lambda>s p. p = ''pw'')), Sx_checks = [], Sx_jobs = []\<rparr>"
  let ?st2 = "?st\<lparr>Sx_srv := snd (acceptConn 0 (Sx_srv ?st))\<rparr>"
  have r: "srv_reach exampleSMPP (\<lambda>s p. p = ''pw'') ?st2"
    by (rule srv_reach.step [OF srv_reach.start srv_step.accept]) (simp add: NewServer_def)
  moreover have "length (Sv_sessions (Sx_srv ?st2)) = 1"
    by (simp add: NewServer_def acceptConn_def nextSessionID_def register_def exampleSMPP_def Let_def)
  moreover have "int (length (Sv_sessions (Sx_srv ?st2))) \<le> 2"
    using smpp_server_safe [OF r] exampleSMPP_window by (simp add: exampleSMPP_def)
  ultimately show ?thesis
    by blast
qed

text \<open>
  The limit on the sessions of one system id is checked before the bind is stored, without a lock over both:
  two sessions that bind at the same time both pass the check.
\<close>

definition exampleBind :: PDU where
  "exampleBind = \<lparr>Pdu_Length = 0, Pdu_CommandID = commandBindTransceiver, Pdu_Status = 0, Pdu_SequenceID = 1,
     Pdu_Body = CString ''e'' @ CString ''p'' @ CString []\<rparr>"

lemma string_of_e: "string_of [101] = ''e''"
  using string_of_bytes_of [of "''e''"] by (simp add: bytes_of_def)

lemma exampleBind_check:
  "Ss_bindMode s = BindNone \<Longrightarrow> allowed ''e'' \<Longrightarrow> bindCheck (Some (\<lambda>s p. True)) (Some allowed) exampleBind s =
     \<lparr>Bo_status = statusOK, Bo_parsed = True, Bo_systemID = ''e'', Bo_pdu = exampleBind\<rparr>"
  by (simp add: bindCheck_def exampleBind_def CString_def bytes_of_def readCStringMax_eq string_of_e
      Smpp_Pdu.SMPPMaxSystemID_def Smpp_Pdu.SMPPMaxPassword_def Smpp_Pdu.SMPPMaxSystemType_def Let_def)

lemma sessionNo_12: "sessionNo 1 = ''s1''" "sessionNo 2 = ''s2''"
  by (simp_all add: sessionNo_def FormatUint.simps digitChar_def char_of_def bit_0)

lemma bind_limit_race:
  "\<exists>st s1 s2. srv_reach exampleSMPP (\<lambda>s p. True) st \<and> Smc_MaxSessionsPerSystemID exampleSMPP = 1 \<and>
     SessionOf ''s1'' (Sx_srv st) = Some s1 \<and> SessionOf ''s2'' (Sx_srv st) = Some s2 \<and>
     Ss_bindMode s1 = BindTRX \<and> Ss_bindMode s2 = BindTRX \<and> Ss_systemID s1 = ''e'' \<and> Ss_systemID s2 = ''e''"
proof -
  let ?auth = "\<lambda>s p. True" and ?n1 = "NewSession ''s1'' 0" and ?n2 = "NewSession ''s2'' 0"
  let ?b = "\<lparr>Bo_status = statusOK, Bo_parsed = True, Bo_systemID = ''e'', Bo_pdu = exampleBind\<rparr>"
  let ?srv = "NewServer exampleSMPP (Some ?auth)"
  let ?srv1 = "?srv\<lparr>Sv_sessions := [(''s1'', ?n1)], Sv_nextID := 1\<rparr>"
  let ?srv2 = "?srv\<lparr>Sv_sessions := [(''s1'', ?n1), (''s2'', ?n2)], Sv_nextID := 2\<rparr>"
  let ?st = "\<lambda>srv checks. \<lparr>Sx_srv = srv, Sx_checks = checks, Sx_jobs = []\<rparr>"
  let ?reach = "srv_reach exampleSMPP ?auth"
  let ?commit = "\<lambda>s. fst (bindCommit (sessionConfig ?srv) ?b s)"
  have conf: "sessionConfig ?srv2 = sessionConfig ?srv"
    by (simp add: sessionConfig_def)
  have a1: "snd (acceptConn 0 ?srv) = ?srv1"
    using sessionNo_12(1) by (simp add: acceptConn_def nextSessionID_def register_def exampleSMPP_def NewServer_def NewSession_def sessionNo_def Let_def)
  have a2: "snd (acceptConn 0 ?srv1) = ?srv2"
    using sessionNo_12(2) by (simp add: acceptConn_def nextSessionID_def register_def exampleSMPP_def NewServer_def NewSession_def sessionNo_def Let_def)
  have "?reach (?st ?srv1 [])"
    using srv_reach.step [OF srv_reach.start srv_step.accept, of exampleSMPP ?auth 0] a1 by (simp add: NewServer_def)
  from srv_reach.step [OF this srv_step.accept, of 0] a2 have r2: "?reach (?st ?srv2 [])"
    by (simp add: NewServer_def)
  have allowed: "bindAllowed ?srv2 i ''e''" for i
    by (simp add: bindAllowed_def NewServer_def exampleSMPP_def NewSession_def Let_def)
  have auth: "Sv_auth ?srv2 = Some ?auth" "isBindCommand (Pdu_CommandID exampleBind)"
    by (simp_all add: NewServer_def exampleBind_def isBindCommand_def)
  have mode: "Ss_bindMode ?n1 = BindNone" "Ss_bindMode ?n2 = BindNone"
    by (simp_all add: NewSession_def)
  have of2: "SessionOf ''s1'' ?srv2 = Some ?n1" "SessionOf ''s2'' ?srv2 = Some ?n2"
    by (simp_all add: SessionOf_def)
  have "?reach (?st ?srv2 [(''s1'', ?b)])"
    using srv_reach.step [OF r2 srv_step.bind_check, of "''s1''" ?n1 exampleBind] of2 auth exampleBind_check [of ?n1 "bindAllowed ?srv2 ''s1''"] mode(1) allowed
    by simp
  from srv_reach.step [OF this srv_step.bind_check, of "''s2''" ?n2 exampleBind] of2 auth exampleBind_check [of ?n2 "bindAllowed ?srv2 ''s2''"] mode(2) allowed
  have "?reach (?st ?srv2 [(''s1'', ?b), (''s2'', ?b)])"
    by simp
  from srv_reach.step [OF this srv_step.bind_commit, of "''s1''" ?b]
  have r5: "?reach (?st (updateSession ''s1'' ?commit ?srv2) [(''s2'', ?b)])"
    using conf by simp
  let ?srv5 = "updateSession ''s1'' ?commit ?srv2"
  from srv_reach.step [OF r5 srv_step.bind_commit, of "''s2''" ?b]
  have r6: "?reach (?st (updateSession ''s2'' ?commit ?srv5) [])"
    using conf by simp
  have ids: "Ss_id (?commit ?n1) = ''s1''" "Ss_id (?commit ?n2) = ''s2''"
    by (simp_all add: commit_frame NewSession_def)
  have "SessionOf ''s1'' (updateSession ''s2'' ?commit ?srv5) = Some (?commit ?n1)"
    "SessionOf ''s2'' (updateSession ''s2'' ?commit ?srv5) = Some (?commit ?n2)"
    using ids of2 by (simp_all add: updateSession_def SessionOf_put)
  moreover have "Ss_bindMode (?commit s) = BindTRX" "Ss_systemID (?commit s) = ''e''" for s
    by (simp_all add: bindCommit_def exampleBind_def bindModeOf_def command_defs Let_def)
  ultimately show ?thesis
    using r6 by (intro exI [of _ "?st (updateSession ''s2'' ?commit ?srv5) []"] exI [of _ "?commit ?n1"] exI [of _ "?commit ?n2"])
      (simp add: exampleSMPP_def)
qed

end
