(* ===== verification/Dlr_Flush.thy ===== *)
theory Dlr_Flush
  imports Dlr_Delivery Smpp_Server
begin

text \<open>
  The flush of deferred receipts as a progress property: it always returns, and when the sessions of a system
  are open and acknowledge, it sends every waiting receipt of the system and leaves none behind.
\<close>

subsection \<open>Sending one receipt\<close>

definition acking :: "DlrEnv \<Rightarrow> bool" where
  "acking dy \<longleftrightarrow> (\<forall>s p. Dy_ack dy s p = Some statusOK) \<and> (\<forall>xs. mset (Dy_sessions dy xs) = mset xs)"

lemma smod_nonneg: "0 \<le> a \<Longrightarrow> 0 < b \<Longrightarrow> a smod b = a mod b" for a b :: int
  by (cases "a = 0") (simp_all add: signed_modulo_int_def signed_divide_int_def minus_div_mult_eq_mod)

lemma receiptSentI:
  "Dp_smppSrv d = Some srv \<Longrightarrow> map_of (Sv_sessions srv) k = Some s \<Longrightarrow>
   (BuildDLR (receiptParams p (recordedDLR now p)))\<lparr>Pdu_SequenceID := n\<rparr> \<in> set (Ss_out s) \<Longrightarrow> receiptSent p d"
  unfolding receiptSent_def by blast

lemma pickSession_ok:
  assumes rcv: "receiving sys d" and srv: "Dp_smppSrv d = Some srv" and sys: "Pd_SourceSystem rec = sys" "sys \<noteq> []"
    and ack: "acking dy" and small: "unat pick < 2 ^ 63"
  obtains s pick' where "pickSession dy rec srv pick = (Inr s, pick')" "map_of (Sv_sessions srv) (Ss_id s) = Some s"
    "unat pick' \<le> unat pick + 1"
proof -
  have ok: "k = Ss_id s" if "map_of (Sv_sessions srv) k = Some s" for k s
    using rcv srv that by (auto simp: receiving_def)
  have dist: "distinct (map fst (Sv_sessions srv))"
    using rcv srv by (auto simp: receiving_def)
  let ?own = "if Pd_SourceSession rec \<noteq> [] then (case SessionOf (Pd_SourceSession rec) srv of
      Some s \<Rightarrow> if CanReceive (Ss_bindMode s) then Some s else None | None \<Rightarrow> None) else None"
  show thesis
  proof (cases ?own)
    case (Some s)
    then have "map_of (Sv_sessions srv) (Pd_SourceSession rec) = Some s"
      by (auto simp: SessionOf_def split: if_splits option.splits)
    with Some ok show thesis
      by (intro that [of s pick]) (auto simp: pickSession_def)
  next
    case None
    let ?rs = "ReceiversBySystemID (Dy_sessions dy) sys srv"
    have entries: "set (Dy_sessions dy (Sv_sessions srv)) = set (Sv_sessions srv)"
      by (rule perm_entries(1) [OF _ dist]) (use ack in \<open>simp add: acking_def\<close>)
    have mem: "map_of (Sv_sessions srv) (Ss_id s) = Some s" if s: "s \<in> set ?rs" for s
    proof -
      obtain k where "(k, s) \<in> set (Sv_sessions srv)"
        using s entries by (auto simp: ReceiversBySystemID_def)
      then have "map_of (Sv_sessions srv) k = Some s"
        using dist by simp
      with ok show ?thesis by blast
    qed
    obtain k s where "map_of (Sv_sessions srv) k = Some s" "Ss_systemID s = sys" "CanReceive (Ss_bindMode s)"
      using rcv srv by (auto simp: receiving_def)
    then have "s \<in> set ?rs"
      using map_of_SomeD [of "Sv_sessions srv" k s] entries by (force simp: ReceiversBySystemID_def)
    then have ne: "?rs \<noteq> []" by auto
    let ?idx = "uint pick mod int (length ?rs)"
    have idx: "sint pick smod int (length ?rs) = ?idx"
      using ne by (simp only: sint_small [OF small]) (simp add: smod_nonneg)
    have "0 \<le> ?idx" "?idx < int (length ?rs)" "\<not> ?idx < 0"
      using ne by (simp_all add: not_less)
    then have "nat ?idx < length ?rs" by linarith
    then have "?rs ! nat ?idx \<in> set ?rs" by (rule nth_mem)
    moreover have "pickSession dy rec srv pick = (Inr (?rs ! nat ?idx), pick + 1)"
      using None sys ne \<open>\<not> ?idx < 0\<close> unfolding pickSession_def None by (simp add: idx Let_def)
    ultimately show thesis
      using mem unat_suc_le by (intro that) blast+
  qed
qed

lemma putSession_receiving:
  assumes rcv: "receiving sys d" and srv: "Dp_smppSrv d = Some srv" and s: "map_of (Sv_sessions srv) (Ss_id s) = Some s"
    and s': "Ss_id s' = Ss_id s" "Ss_systemID s' = Ss_systemID s" "Ss_bindMode s' = Ss_bindMode s" "\<not> Ss_closed s'"
    and d': "Dp_smppSrv d' = Some (putSession s' srv)"
  shows "receiving sys d'"
proof -
  let ?m = "map_of (Sv_sessions (putSession s' srv))"
  have m: "?m = (map_of (Sv_sessions srv))(Ss_id s \<mapsto> s')"
    by (simp add: putSession_def s' update_conv')
  have dist: "distinct (map fst (Sv_sessions srv))"
    and each: "\<And>k t. map_of (Sv_sessions srv) k = Some t \<Longrightarrow> k = Ss_id t \<and> \<not> Ss_closed t"
    using rcv srv by (auto simp: receiving_def)
  obtain k t where t: "map_of (Sv_sessions srv) k = Some t" "Ss_systemID t = sys" "CanReceive (Ss_bindMode t)"
    using rcv srv by (auto simp: receiving_def)
  have "\<exists>k t. ?m k = Some t \<and> Ss_systemID t = sys \<and> CanReceive (Ss_bindMode t)"
  proof (cases "k = Ss_id s")
    case True
    then show ?thesis using t s s' by (intro exI [of _ k] exI [of _ s']) (simp add: m)
  next
    case False
    then show ?thesis using t by (intro exI [of _ k] exI [of _ t]) (simp add: m)
  qed
  moreover have "distinct (map fst (Sv_sessions (putSession s' srv)))"
    using dist by (simp add: putSession_def distinct_update)
  moreover have "k = Ss_id t \<and> \<not> Ss_closed t" if "?m k = Some t" for k t
    using that each s' by (auto simp: m split: if_splits)
  ultimately show ?thesis
    unfolding receiving_def d' by blast
qed

lemma receiptSent_mono:
  assumes "receiptSent p d" "Dp_smppSrv d = Some srv" "map_of (Sv_sessions srv) (Ss_id s) = Some s"
    "Ss_id s' = Ss_id s" "set (Ss_out s) \<subseteq> set (Ss_out s')" "Dp_smppSrv d' = Some (putSession s' srv)"
  shows "receiptSent p d'"
proof -
  obtain k t n now where t: "map_of (Sv_sessions srv) k = Some t"
      "(BuildDLR (receiptParams p (recordedDLR now p)))\<lparr>Pdu_SequenceID := n\<rparr> \<in> set (Ss_out t)"
    using assms(1,2) by (auto simp: receiptSent_def)
  have m: "map_of (Sv_sessions (putSession s' srv)) = (map_of (Sv_sessions srv))(Ss_id s \<mapsto> s')"
    by (simp add: putSession_def assms(4) update_conv')
  show ?thesis
  proof (cases "k = Ss_id s")
    case True
    then have "t = s" using t(1) assms(3) by simp
    then show ?thesis
      using t(2) assms(5) by (intro receiptSentI [OF assms(6), of "Ss_id s" s']) (simp add: m, blast)
  next
    case False
    then have "map_of (Sv_sessions (putSession s' srv)) k = Some t"
      using t(1) by (simp add: m)
    then show ?thesis
      using t(2) by (rule receiptSentI [OF assms(6)])
  qed
qed

lemma push_ok:
  assumes rcv: "receiving sys d" and sys: "Pd_SourceSystem rec = sys" "sys \<noteq> []" and ack: "acking dy"
    and small: "unat (Dp_dlrPick d) < 2 ^ 63"
  obtains d' where "pushSMPPDLR dy rec (recordedDLR now rec) d = (Inr (), d')" "receiving sys d'" "Dp_store d' = Dp_store d"
    "unat (Dp_dlrPick d') \<le> unat (Dp_dlrPick d) + 1" "receiptSent rec d'" "\<forall>p. receiptSent p d \<longrightarrow> receiptSent p d'"
proof -
  obtain srv where srv: "Dp_smppSrv d = Some srv"
    using rcv by (auto simp: receiving_def)
  obtain s pick' where s: "pickSession dy rec srv (Dp_dlrPick d) = (Inr s, pick')" "map_of (Sv_sessions srv) (Ss_id s) = Some s"
      "unat pick' \<le> unat (Dp_dlrPick d) + 1"
    using pickSession_ok [OF rcv srv sys ack small] by blast
  have op: "\<not> Ss_closed s"
    using rcv srv s(2) by (auto simp: receiving_def)
  let ?s1 = "s\<lparr>Ss_nextSeq := Ss_nextSeq s + 1\<rparr>"
  let ?p = "(BuildDLR (receiptParams rec (recordedDLR now rec)))\<lparr>Pdu_SequenceID := Ss_nextSeq s + 1\<rparr>"
  obtain r s2 where send: "SendDeliverSM (Some statusOK) ?p ?s1 = (r, s2)"
    by fastforce
  note o = SendDeliverSM_open [OF _ send]
  have r: "r = Some statusOK" and out: "Ss_out s2 = Ss_out s @ [?p]" and s2: "Ss_id s2 = Ss_id s" "Ss_systemID s2 = Ss_systemID s"
      "Ss_bindMode s2 = Ss_bindMode s" "\<not> Ss_closed s2"
    using o op by simp_all
  let ?d = "d\<lparr>Dp_dlrPick := pick', Dp_smppSrv := Some (putSession s2 srv)\<rparr>"
  have "pushSMPPDLR dy rec (recordedDLR now rec) d = (Inr (), ?d)"
    using ack send r by (simp add: pushSMPPDLR_def srv s(1) NextSeq_def acking_def Let_def)
  moreover have "receiving sys ?d"
    by (rule putSession_receiving [OF rcv srv s(2) s2]) simp
  moreover have "map_of (Sv_sessions (putSession s2 srv)) (Ss_id s2) = Some s2"
    by (simp add: putSession_def update_conv')
  then have "receiptSent rec ?d"
    by (rule receiptSentI [of ?d "putSession s2 srv" "Ss_id s2" s2 "Ss_nextSeq s + 1" rec now, rotated]) (simp_all add: out)
  moreover have "receiptSent p ?d" if "receiptSent p d" for p
    by (rule receiptSent_mono [OF that srv s(2) s2(1)]) (simp add: out subset_insertI, simp)
  ultimately show thesis
    using s(3) by (intro that [of ?d]) simp_all
qed

subsection \<open>A round and the whole flush\<close>

lemma listReady_items:
  assumes inv: "store_inv s" and perm: "\<forall>xs. mset (it xs) = mset xs" and list: "ListReadyDLR it now sys l s = (items, s')"
    and p: "p \<in> set items"
  shows "map_of (st_pending s) (keyOf p) = Some p"
proof -
  let ?s1 = "sweepLocked now s"
  have inv1: "store_inv ?s1" by (rule store_inv_sweep [OF inv])
  have "p \<in> set (map snd (it (st_pending ?s1)))"
    using list p by (auto simp: ListReadyDLR_def Let_def dest: in_set_takeD)
  then obtain k where "(k, p) \<in> set (it (st_pending ?s1))"
    by auto
  moreover have "set (it (st_pending ?s1)) = set (st_pending ?s1)"
    by (rule perm_entries(1) [OF _ store_inv_pending [OF inv1]]) (use perm in blast)
  ultimately have k: "map_of (st_pending ?s1) k = Some p"
    using store_inv_pending [OF inv1] by simp
  then have "k = keyOf p"
    using inv1 by (simp add: store_inv_def pending_ok_def keyOf_def)
  with sweep_keeps(1) [OF inv k] show ?thesis by simp
qed

text \<open>What a flush relies on and keeps.\<close>

definition flushable :: "string \<Rightarrow> Dispatcher \<Rightarrow> bool" where
  "flushable sys d \<longleftrightarrow> store_inv (Dp_store d) \<and> undelivered (Dp_store d) \<and> receiving sys d"

lemma flushItems_deliver:
  assumes "flushable sys d" "sys \<noteq> []" "\<forall>j. acking (E j)" "\<forall>p \<in> set items. Pd_SourceSystem p = sys"
    "unat (Dp_dlrPick d) + length items \<le> 2 ^ 63"
  shows "\<exists>d'. flushItems E sys i items d = (True, d') \<and> flushable sys d' \<and> unat (Dp_dlrPick d') \<le> unat (Dp_dlrPick d) + length items
    \<and> (\<forall>p \<in> set items. receiptSent p d') \<and> (\<forall>p. receiptSent p d \<longrightarrow> receiptSent p d')
    \<and> (\<forall>k p. map_of (st_pending (Dp_store d)) k = Some p \<and> Pd_DLRReady p \<and> k \<notin> keyOf ` set items
          \<longrightarrow> map_of (st_pending (Dp_store d')) k = Some p)"
  using assms(1,4,5)
proof (induction items arbitrary: i d)
  case (Cons rec items)
  have fl: "store_inv (Dp_store d)" "undelivered (Dp_store d)" "receiving sys d"
    using Cons.prems(1) by (simp_all add: flushable_def)
  have rec: "Pd_SourceSystem rec = sys" and ack: "acking (E i)" and small: "unat (Dp_dlrPick d) < 2 ^ 63"
    using assms(3) Cons.prems(2,3) by simp_all
  obtain d1 where d1: "pushSMPPDLR (E i) rec (recordedDLR (Dy_clock (E i) 1) rec) d = (Inr (), d1)" "receiving sys d1"
      "Dp_store d1 = Dp_store d" "unat (Dp_dlrPick d1) \<le> unat (Dp_dlrPick d) + 1" "receiptSent rec d1"
      "\<forall>p. receiptSent p d \<longrightarrow> receiptSent p d1"
    by (rule push_ok [where now = "Dy_clock (E i) 1", OF fl(3) rec assms(2) ack small])
  obtain d2 where f: "finishDLRDelivery (E i) rec d1 = (Inr (), d2)"
    using finish_result [of "E i" rec d1] by (metis prod.collapse)
  have d2: "Dp_smppSrv d2 = Dp_smppSrv d1" "Dp_dlrPick d2 = Dp_dlrPick d1"
    using finish_frame [of "E i" rec d1] by (simp_all add: f)
  have sent: "receiptSent p d2 \<longleftrightarrow> receiptSent p d1" for p
    by (simp add: receiptSent_def d2)
  have "receiving sys d2"
    using d1(2) by (simp add: receiving_def d2)
  moreover have "store_inv (Dp_store d2)"
    using finish_store [of d1 "E i" rec sys] fl(1) by (simp add: f d1(3))
  moreover have "undelivered (Dp_store d2)"
    using finish_keeps(1) [of d1 "E i" rec] fl(1,2) by (simp add: f d1(3))
  ultimately have fl2: "flushable sys d2"
    by (simp add: flushable_def)
  have "\<forall>p \<in> set items. Pd_SourceSystem p = sys" "unat (Dp_dlrPick d2) + length items \<le> 2 ^ 63"
    using Cons.prems(2,3) d1(4) d2(2) by simp_all
  from Cons.IH [OF fl2 this, of "Suc i"] obtain d' where d': "flushItems E sys (Suc i) items d2 = (True, d')" "flushable sys d'"
      "unat (Dp_dlrPick d') \<le> unat (Dp_dlrPick d2) + length items" "\<forall>p \<in> set items. receiptSent p d'"
      "\<forall>p. receiptSent p d2 \<longrightarrow> receiptSent p d'"
      "\<forall>k p. map_of (st_pending (Dp_store d2)) k = Some p \<and> Pd_DLRReady p \<and> k \<notin> keyOf ` set items
          \<longrightarrow> map_of (st_pending (Dp_store d')) k = Some p"
    by blast
  have "flushItems E sys i (rec # items) d = (True, d')"
    using d1(1) f d'(1) by (simp add: Let_def)
  moreover have "unat (Dp_dlrPick d') \<le> unat (Dp_dlrPick d) + length (rec # items)"
    using d'(3) d1(4) d2(2) by simp
  moreover have "receiptSent p d'" if "p \<in> set (rec # items)" for p
    using that d'(4,5) d1(5) sent by auto
  moreover have "receiptSent p d'" if "receiptSent p d" for p
    using that d'(5) d1(6) sent by blast
  moreover have "map_of (st_pending (Dp_store d')) k = Some p"
    if "map_of (st_pending (Dp_store d)) k = Some p" "Pd_DLRReady p" "k \<notin> keyOf ` set (rec # items)" for k p
    using that d'(6) finish_keeps(2) [of d1 k p rec "E i"] fl(1,2) by (simp add: f d1(3))
  ultimately show ?case
    using d'(2) by blast
qed (use assms(1) in simp)

lemma FlushDLR_deliver:
  assumes "flushable sys d" "sys \<noteq> []" "ordersOK E" "\<forall>k i. acking (E k i)"
    "unat (Dp_dlrPick d) + card (readyKeys sys (Dp_store d)) \<le> 2 ^ 63"
  shows "\<exists>d'. FlushDLR E sys k d = Some d' \<and> readyKeys sys (Dp_store d') = {}
    \<and> (\<forall>p. receiptSent p d \<longrightarrow> receiptSent p d')
    \<and> (\<forall>k p. map_of (st_pending (Dp_store d)) k = Some p \<and> waiting sys p \<longrightarrow> receiptSent p d')"
  using assms(1,5)
proof (induction "card (readyKeys sys (Dp_store d))" arbitrary: k d rule: less_induct)
  case less
  have inv: "store_inv (Dp_store d)" "undelivered (Dp_store d)"
    using less.prems(1) by (simp_all add: flushable_def)
  obtain items st where list: "ListReadyDLR (Dy_pending (E k 0)) (Dy_clock (E k 0) 2) sys 500 (Dp_store d) = (items, st)"
    by fastforce
  have perm: "\<forall>xs. mset (Dy_pending (E k 0) xs) = mset xs"
    using assms(3) by (simp add: ordersOK_def)
  note l = listReady [OF inv(1) perm list]
  let ?d0 = "d\<lparr>Dp_store := st\<rparr>"
  have fl0: "flushable sys ?d0"
    using less.prems(1) store_inv_sweep [OF inv(1)] undelivered_sweep [OF inv]
    by (simp add: flushable_def l(1) receiving_def)
  have sent0: "receiptSent p ?d0 \<longleftrightarrow> receiptSent p d" for p
    by (simp add: receiptSent_def)
  have kept0: "map_of (st_pending st) k = Some p" if "map_of (st_pending (Dp_store d)) k = Some p" "waiting sys p" for k p
    using sweep_keeps(2) [OF inv(1) that(1)] that(2) by (simp add: l(1) waiting_def)
  show ?case
  proof (cases "items = []")
    case True
    then have none: "readyKeys sys (Dp_store d) = {}"
      using l(5) by simp
    have "FlushDLR E sys k d = Some ?d0"
      using True by (subst FlushDLR.simps) (simp add: list)
    moreover have "readyKeys sys st = {}"
      using none readyKeys_sweep [OF inv(1)] by (simp add: l(1))
    moreover have "\<not> (map_of (st_pending (Dp_store d)) j = Some p \<and> waiting sys p)" for j p
      using none by (auto simp: readyKeys_def)
    ultimately show ?thesis
      using sent0 by auto
  next
    case False
    have len: "length items \<le> card (readyKeys sys (Dp_store d))"
      using card_mono [OF finite_readyKeys l(2)] distinct_card [OF l(3)] by simp
    have sys: "\<forall>p \<in> set items. Pd_SourceSystem p = sys"
      using l(4) assms(2) by (simp add: waiting_def)
    have "unat (Dp_dlrPick ?d0) + length items \<le> 2 ^ 63"
      using less.prems(2) len by simp
    from flushItems_deliver [OF fl0 assms(2) _ sys this, of "E k" 0] assms(4)
    obtain d1 where d1: "flushItems (E k) sys 0 items ?d0 = (True, d1)" "flushable sys d1"
        "unat (Dp_dlrPick d1) \<le> unat (Dp_dlrPick ?d0) + length items" "\<forall>p \<in> set items. receiptSent p d1"
        "\<forall>p. receiptSent p ?d0 \<longrightarrow> receiptSent p d1"
        "\<forall>k p. map_of (st_pending (Dp_store ?d0)) k = Some p \<and> Pd_DLRReady p \<and> k \<notin> keyOf ` set items
            \<longrightarrow> map_of (st_pending (Dp_store d1)) k = Some p"
      by blast
    note fr = flush_round [OF inv(1) assms(3) list False d1(1) assms(2)]
    have "unat (Dp_dlrPick d1) + card (readyKeys sys (Dp_store d1)) \<le> 2 ^ 63"
      using d1(3) fr less.prems(2) by simp
    from less.hyps [OF _ d1(2) this, of "Suc k"] fr
    obtain d' where d': "FlushDLR E sys (Suc k) d1 = Some d'" "readyKeys sys (Dp_store d') = {}"
        "\<forall>p. receiptSent p d1 \<longrightarrow> receiptSent p d'"
        "\<forall>k p. map_of (st_pending (Dp_store d1)) k = Some p \<and> waiting sys p \<longrightarrow> receiptSent p d'"
      by blast
    have "FlushDLR E sys k d = Some d'"
      using False d1(1) d'(1) assms(2) by (subst FlushDLR.simps) (simp add: list)
    moreover have "receiptSent p d'" if "receiptSent p d" for p
      using that sent0 d1(5) d'(3) by blast
    moreover have "receiptSent p d'" if p: "map_of (st_pending (Dp_store d)) j = Some p" "waiting sys p" for j p
    proof (cases "j \<in> keyOf ` set items")
      case True
      then have "p \<in> set items"
        using listReady_items [OF inv(1) perm list] p by fastforce
      then show ?thesis using d1(4) d'(3) by blast
    next
      case False
      then have "map_of (st_pending (Dp_store d1)) j = Some p"
        using d1(6) kept0 [OF p] p(2) by (simp add: waiting_def)
      then show ?thesis using d'(4) p(2) by blast
    qed
    ultimately show ?thesis
      using d'(2) by blast
  qed
qed

text \<open>
  C11: a flush always returns, whatever the sessions answer and in whatever order the maps are visited. If moreover
  the sessions are open and acknowledge and one of the system receives, a flush for this system sends the receipt of every record that
  waits for it, as a deliver_sm with the recorded state, and no receipt is left waiting. The counter that
  spreads the receipts over the receivers must not reach the sign bit, where the code would index with a negative number.
\<close>

theorem flush_delivers:
  assumes "store_reach (Dp_store d)" "ordersOK E"
  shows "(\<exists>d'. FlushDLR E sys 0 d = Some d')
    \<and> (sys \<noteq> [] \<and> undelivered (Dp_store d) \<and> receiving sys d \<and> (\<forall>k i. acking (E k i))
         \<and> unat (Dp_dlrPick d) + card (readyKeys sys (Dp_store d)) \<le> 2 ^ 63
       \<longrightarrow> (\<exists>d'. FlushDLR E sys 0 d = Some d' \<and> readyKeys sys (Dp_store d') = {}
             \<and> (\<forall>k p. map_of (st_pending (Dp_store d)) k = Some p \<and> waiting sys p \<longrightarrow> receiptSent p d')))"
proof -
  have inv: "store_inv (Dp_store d)"
    by (rule store_reach_inv [OF assms(1)])
  show ?thesis
    using FlushDLR_ends [OF inv assms(2), of sys 0] FlushDLR_deliver [OF _ _ assms(2), of sys d 0] inv
    unfolding flushable_def by blast
qed

definition exampleWaiting :: Pending where
  "exampleWaiting = examplePending\<lparr>Pd_SourceSystem := ''e'', Pd_DLRReady := True, Pd_DLRState := ''DELIVRD'', Pd_DLRDoneAt := 5\<rparr>"

definition exampleReceiver :: Session where
  "exampleReceiver = (NewSession ''s1'' 1)\<lparr>Ss_bindMode := BindTRX, Ss_systemID := ''e''\<rparr>"

definition exampleDlrEnv :: DlrEnv where
  "exampleDlrEnv = \<lparr>Dy_clock = (\<lambda>_. 9), Dy_sessions = id, Dy_pending = id, Dy_ack = (\<lambda>_ _. Some statusOK), Dy_callback = (\<lambda>_ _. None)\<rparr>"

definition exampleFlushed :: Dispatcher where
  "exampleFlushed = exampleDispatcher\<lparr>Dp_store := SavePending 1 exampleWaiting NewMemory,
     Dp_smppSrv := Some ((NewServer exampleSMPP None)\<lparr>Sv_sessions := [(''s1'', exampleReceiver)]\<rparr>)\<rparr>"

theorem flush_delivers_witness:
  "\<exists>d'. FlushDLR (\<lambda>_ _. exampleDlrEnv) ''e'' 0 exampleFlushed = Some d' \<and> readyKeys ''e'' (Dp_store d') = {} \<and> receiptSent exampleWaiting d'"
proof -
  have pend: "st_pending (Dp_store exampleFlushed) = [(pendingKey ''p'' ''x1'', exampleWaiting)]"
    by (simp add: exampleFlushed_def SavePending_def putPending_def normalizePending_def sweepLocked_def NewMemory_def
        exampleWaiting_def examplePending_def)
  have reach: "store_reach (Dp_store exampleFlushed)"
    using store_reach.step [OF store_reach.init, of "OpSavePending 1 exampleWaiting"] by (simp add: exampleFlushed_def)
  have ord: "ordersOK (\<lambda>_ _. exampleDlrEnv)"
    by (simp add: ordersOK_def exampleDlrEnv_def)
  have "receiving ''e'' exampleFlushed"
    by (auto simp: receiving_def exampleFlushed_def exampleReceiver_def NewSession_def CanReceive_def)
  moreover have "undelivered (Dp_store exampleFlushed)"
    by (simp add: undelivered_def pend exampleWaiting_def examplePending_def)
  moreover have "acking exampleDlrEnv"
    by (simp add: acking_def exampleDlrEnv_def)
  moreover have w: "waiting ''e'' exampleWaiting"
    by (simp add: waiting_def exampleWaiting_def)
  then have "readyKeys ''e'' (Dp_store exampleFlushed) = {pendingKey ''p'' ''x1''}"
    by (auto simp: readyKeys_def pend split: if_splits)
  moreover have "Dp_dlrPick exampleFlushed = 0"
    by (simp add: exampleFlushed_def exampleDispatcher_def)
  ultimately show ?thesis
    using flush_delivers [OF reach ord, of "''e''"] w pend by auto
qed

end
