(* ===== verification/Worker_Safety.thy ===== *)
theory Worker_Safety
  imports Dispatch_Worker Dlr_Flush
begin

text \<open>
  What the handlers of the dispatcher guarantee together with the store: each of them changes the store only
  through store operations, so that what holds of every run of the store holds of the dispatcher; the worker calls a
  provider at most once for an item, and records what came of it.
\<close>

subsection \<open>Runs of store operations\<close>

definition store_path :: "MemoryStore \<Rightarrow> MemoryStore \<Rightarrow> bool" where
  "store_path s s' \<longleftrightarrow> (\<exists>ops. list_all orderOK ops \<and> s' = runOps ops s)"

named_theorems path_intros

lemma store_path_refl [simp, path_intros]: "store_path s s"
  by (auto simp: store_path_def intro: exI [of _ "[]"])

lemma runOps_append: "runOps (xs @ ys) s = runOps ys (runOps xs s)"
  by (simp add: runOps_def)

lemma store_path_trans [trans]: "store_path s t \<Longrightarrow> store_path t u \<Longrightarrow> store_path s u"
  unfolding store_path_def by (metis list_all_append runOps_append)

lemma store_path_step: "orderOK opr \<Longrightarrow> store_path s (storeStep opr s)"
  unfolding store_path_def by (intro exI [of _ "[opr]"]) simp

lemma store_path_reach: "store_path s s' \<Longrightarrow> store_reach s \<Longrightarrow> store_reach s'"
proof -
  have "store_reach (runOps ops s)" if "list_all orderOK ops" "store_reach s" for ops s
    using that by (induction ops arbitrary: s) (simp_all add: store_reach.step)
  then show "store_path s s' \<Longrightarrow> store_reach s \<Longrightarrow> store_reach s'"
    by (auto simp: store_path_def)
qed

lemma store_path_stable:
  assumes "store_path s s'" "store_inv s" "map_of (st_outbox s) k = Some i" "P i" "\<And>i j. P i \<Longrightarrow> outbox_step i j \<Longrightarrow> P j"
  shows "\<exists>j. map_of (st_outbox s') k = Some j \<and> P j"
  using assms(1) runOps_stable [where P = P, OF assms(2) _ assms(3,4,5)] by (auto simp: store_path_def)

lemma path_ops [path_intros]:
  "store_path s (snd (UpdateMessageState now g st e s))"
  "store_path s (SavePending now p s)"
  "store_path s (snd (UpdatePendingDLR pr pid st e t s))"
  "store_path s (snd (MarkDLRReady pr pid st e t s))"
  "store_path s (snd (MarkDLRDelivered pr pid s))"
  "store_path s (snd (GetPending now pr pid s))"
  "store_path s (snd (ListPendingByGatewayID now g s))"
  "store_path s (DeletePending pr pid s)"
  "store_path s (DeletePendingByGatewayID g s)"
  "store_path s (snd (SweepExpiredPending now s))"
  "store_path s (snd (CheckIdempotency now c k s))"
  "store_path s (snd (ReserveGatewayIDRange n s))"
  "store_path s (snd (SubmitAtomic now msg item opts s))"
  "store_path s (snd (ClaimOutbox now w l s))"
  "store_path s (snd (MarkOutboxSending i w s))"
  "store_path s (snd (CompleteOutboxSend now i w ps s))"
  "store_path s (snd (MarkOutboxUncertain now i w errText s))"
  "store_path s (snd (FailOutbox i errText r s))"
  using store_path_step [of "OpUpdateMessageState now g st e" s] store_path_step [of "OpSavePending now p" s]
    store_path_step [of "OpUpdatePendingDLR pr pid st e t" s] store_path_step [of "OpMarkDLRReady pr pid st e t" s]
    store_path_step [of "OpMarkDLRDelivered pr pid" s] store_path_step [of "OpGetPending now pr pid" s]
    store_path_step [of "OpListPendingByGatewayID now g" s] store_path_step [of "OpDeletePending pr pid" s]
    store_path_step [of "OpDeletePendingByGatewayID g" s] store_path_step [of "OpSweepExpiredPending now" s]
    store_path_step [of "OpCheckIdempotency now c k" s] store_path_step [of "OpReserveGatewayIDRange n" s]
    store_path_step [of "OpSubmitAtomic now msg item opts" s] store_path_step [of "OpClaimOutbox now w l" s]
    store_path_step [of "OpMarkOutboxSending i w" s] store_path_step [of "OpCompleteOutboxSend now i w ps" s]
    store_path_step [of "OpMarkOutboxUncertain now i w errText" s] store_path_step [of "OpFailOutbox i errText r" s]
  by simp_all

lemma path_ordered [path_intros]:
  "\<forall>xs. mset (it xs) = mset xs \<Longrightarrow> store_path s (snd (ListReadyDLR it now sys l s))"
  "\<forall>xs. mset (jt xs) = mset xs \<Longrightarrow> store_path s (snd (RequeueStaleOutbox jt b l s))"
  using store_path_step [of "OpListReadyDLR it now sys l" s] store_path_step [of "OpRequeueStaleOutbox jt b l" s] by simp_all

lemma path_eq: "x = (r, s') \<Longrightarrow> store_path s (snd x) \<Longrightarrow> store_path s s'"
  by simp

subsection \<open>The handlers as runs of the store\<close>

definition dpath :: "Dispatcher \<Rightarrow> Dispatcher \<Rightarrow> bool" where
  "dpath d d' \<longleftrightarrow> store_path (Dp_store d) (Dp_store d')"

lemma dpath_refl [simp]: "dpath d d"
  by (simp add: dpath_def)

lemma dpath_trans [trans]: "dpath d e \<Longrightarrow> dpath e f \<Longrightarrow> dpath d f"
  unfolding dpath_def by (rule store_path_trans)

lemma dpath_same: "Dp_store d' = Dp_store d \<Longrightarrow> dpath d d'"
  by (simp add: dpath_def)

lemma dpath_emit [simp]: "dpath d (emitCDR e d') \<longleftrightarrow> dpath d d'"
  by (simp add: dpath_def)

lemma dpath_store: "store_path (Dp_store d) st \<Longrightarrow> dpath d (d\<lparr>Dp_store := st\<rparr>)"
  by (simp add: dpath_def)

lemma finish_path: "dpath d (snd (finishDLRDelivery dy rec d))"
proof -
  obtain r st where m: "MarkDLRDelivered (Pd_Provider rec) (Pd_ProviderID rec) (Dp_store d) = (r, st)"
    by fastforce
  have p1: "store_path (Dp_store d) st"
    by (rule path_eq [OF m path_ops(5)])
  obtain segs st2 where l: "ListPendingByGatewayID (Dy_clock dy 0) (Pd_GatewayID rec) st = (segs, st2)"
    by fastforce
  have p2: "store_path (Dp_store d) st2"
    using p1 path_eq [OF l path_ops(7)] by (rule store_path_trans)
  show ?thesis
    using p1 p2 store_path_trans [OF p2 path_ops(9)]
    by (cases r) (simp_all add: finishDLRDelivery_def dpath_def m l Let_def)
qed

lemma push_path: "dpath d (snd (pushSMPPDLR dy rec dlr d))"
  by (rule dpath_same) simp

lemma storeResult_snd [simp]: "snd (storeResult r) = snd r"
  by (simp add: storeResult_def split: prod.splits sum.splits)

lemma ready_path:
  "dpath d (snd (case MarkDLRReady a b c e t (Dp_store d) of (Inl m, st) \<Rightarrow> (Inl (DlrStore m), d\<lparr>Dp_store := st\<rparr>)
     | (Inr _, st) \<Rightarrow> (Inr (), d\<lparr>Dp_store := st\<rparr>)))"
proof -
  obtain r st where m: "MarkDLRReady a b c e t (Dp_store d) = (r, st)"
    by fastforce
  then show ?thesis
    using path_eq [OF m path_ops(4)] by (cases r) (simp_all add: dpath_def)
qed

lemma passOn_path: "dpath d (snd (passOn dy rec dlr aggregate d))"
proof -
  obtain r d1 where p: "pushSMPPDLR dy rec dlr d = (r, d1)"
    by fastforce
  have d1: "dpath d d1"
    using push_path [of d dy rec dlr] by (simp add: p)
  have fin: "dpath d (snd (finishDLRDelivery dy rec d1))"
    by (rule dpath_trans [OF d1 finish_path])
  show ?thesis
  proof (cases r)
    case (Inl e)
    then show ?thesis
      using d1 dpath_trans [OF d1 ready_path] finish_path [of d dy rec]
      by (cases e) (auto simp: passOn_def p split: sum.splits)
  next
    case (Inr u)
    then show ?thesis
      using fin finish_path [of d dy rec] by (auto simp: passOn_def p split: sum.splits)
  qed
qed

lemma recordDLR_path: "dpath d (snd (recordDLR dy rec dlr0 d))"
proof -
  define dlr where "dlr = (if Dl_DoneAt dlr0 = 0 then dlr0\<lparr>Dl_DoneAt := Dy_clock dy 1\<rparr> else dlr0)"
  obtain r st where u: "UpdatePendingDLR (Pd_Provider rec) (Pd_ProviderID rec) (Dl_State dlr) (Dl_ErrorCode dlr) (Dl_DoneAt dlr) (Dp_store d) = (r, st)"
    by fastforce
  have p1: "store_path (Dp_store d) st"
    by (rule path_eq [OF u path_ops(3)])
  obtain segs st2 where l: "ListPendingByGatewayID (Dy_clock dy 2) (Pd_GatewayID rec) st = (segs, st2)"
    by fastforce
  have p2: "store_path (Dp_store d) st2"
    using p1 path_eq [OF l path_ops(7)] by (rule store_path_trans)
  have p3: "store_path (Dp_store d) (if c then snd (UpdateMessageState t g a e st2) else st2)" for c t g a e
    using p2 store_path_trans [OF p2 path_ops(1)] by simp
  have "dpath d (snd (passOn dy rec' dlr ag (emitCDR ev (d\<lparr>Dp_store := if c then snd (UpdateMessageState t g a e st2) else st2\<rparr>))))"
    for rec' ag ev c t g a e
    by (rule dpath_trans [OF _ passOn_path]) (use p3 in \<open>simp add: dpath_def\<close>)
  then show ?thesis
    using p1 by (cases r) (simp_all add: recordDLR_def dlr_def [symmetric] u l Let_def dpath_def)
qed

text \<open>While a receipt waits for its record, the others run store operations.\<close>

definition lookupOK :: "LookupEnv \<Rightarrow> bool" where
  "lookupOK le \<longleftrightarrow> (\<forall>i s s'. Le_wait le i s = Some s' \<longrightarrow> store_path s s')"

lemma lookupLoop_path:
  assumes "lookupOK le" "lookupLoop le w provider providerID i s = Some (r, s')"
  shows "store_path s s'"
proof -
  have "lookupOK le \<longrightarrow> store_path s (snd (r, s'))"
  proof (rule lookupLoop.raw_induct [where P = "\<lambda>le w pr pid i s y. lookupOK le \<longrightarrow> store_path s (snd y)", OF _ assms(2)], intro impI)
    fix loop le w pr pid i s y
    assume IH: "\<And>le w pr pid i s y. loop le w pr pid i s = Some y \<Longrightarrow> lookupOK le \<longrightarrow> store_path s (snd y)"
      and eq: "(case GetPending (Le_get le i) pr pid s of (rec, s1) \<Rightarrow>
        if rec \<noteq> None \<or> w \<le> 0 \<or> Le_start le + w < Le_now le i then Some (Inr rec, s1)
        else (case Le_wait le i s1 of None \<Rightarrow> Some (Inl DlrCanceled, s1) | Some s2 \<Rightarrow> loop le w pr pid (Suc i) s2)) = Some y"
      and ok: "lookupOK le"
    obtain rec s1 where g: "GetPending (Le_get le i) pr pid s = (rec, s1)"
      by fastforce
    have p1: "store_path s s1"
      by (rule path_eq [OF g path_ops(6)])
    have "store_path s (snd y)" if "Le_wait le i s1 = Some s2" "loop le w pr pid (Suc i) s2 = Some y" for s2
      using p1 ok that(1) IH [OF that(2)] by (meson lookupOK_def store_path_trans)
    then show "store_path s (snd y)"
      using eq p1 by (auto simp: g split: if_splits option.splits)
  qed
  with assms(1) show ?thesis by simp
qed

lemma HandleDLR_path:
  assumes "lookupOK le" "HandleDLR le dy dlr d = Some (r, d')"
  shows "dpath d d'"
proof -
  obtain lr d1 where g: "getPendingForDLR le (Dl_Provider dlr) (Dl_ProviderID dlr) d = Some (lr, d1)"
    using assms(2) by (cases "getPendingForDLR le (Dl_Provider dlr) (Dl_ProviderID dlr) d") (auto simp: HandleDLR_def)
  then obtain st where "lookupLoop le (Dp_dlrLookupWait d) (Dl_Provider dlr) (Dl_ProviderID dlr) 0 (Dp_store d) = Some (lr, st)"
      "d1 = d\<lparr>Dp_store := st\<rparr>"
    by (auto simp: getPendingForDLR_def)
  then have d1: "dpath d d1"
    using lookupLoop_path [OF assms(1)] by (simp add: dpath_def)
  have "dpath d d'" if "recordDLR dy rec dlr d1 = (r, d')" for rec
    using dpath_trans [OF d1 recordDLR_path [of d1 dy rec dlr]] that by simp
  then show ?thesis
    using assms(2) g d1 by (auto simp: HandleDLR_def split: sum.splits option.splits)
qed

lemma OnDLR_path: "lookupOK le \<Longrightarrow> OnDLR le dy dlr d = Some d' \<Longrightarrow> dpath d d'"
  by (auto simp: OnDLR_def dpath_def [of _ "_\<lparr>Dp_dlrCh := _\<rparr>"] intro: HandleDLR_path split: if_splits)

lemma flushItems_path: "dpath d (snd (flushItems E sys i items d))"
proof (induction items arbitrary: i d)
  case (Cons rec items)
  obtain r d1 where p: "pushSMPPDLR (E i) rec (recordedDLR (Dy_clock (E i) 1) rec) d = (r, d1)"
    by fastforce
  have d1: "dpath d d1"
    using push_path [of d "E i" rec "recordedDLR (Dy_clock (E i) 1) rec"] unfolding p by simp
  obtain f d2 where f: "finishDLRDelivery (E i) rec d1 = (f, d2)"
    by fastforce
  have d2: "dpath d d2"
    using dpath_trans [OF d1 finish_path [of d1 "E i" rec]] by (simp add: f)
  show ?case
    using d1 d2 dpath_trans [OF d1 Cons.IH [of d1]] dpath_trans [OF d2 Cons.IH [of d2]]
    by (cases r; cases f) (auto simp: p [unfolded One_nat_def] f Let_def)
qed simp

lemma FlushDLR_path:
  assumes "ordersOK E" "FlushDLR E sys k d = Some d'"
  shows "dpath d d'"
proof -
  have "ordersOK E \<longrightarrow> dpath d d'"
  proof (rule FlushDLR.raw_induct [where P = "\<lambda>E sys k d y. ordersOK E \<longrightarrow> dpath d y", OF _ assms(2)], intro impI)
    fix loop E sys k d y
    assume IH: "\<And>E sys k d y. loop E sys k d = Some y \<Longrightarrow> ordersOK E \<longrightarrow> dpath d y"
      and eq: "(case ListReadyDLR (Dy_pending (E k 0)) (Dy_clock (E k 0) 2) sys 500 (Dp_store d) of (items, st) \<Rightarrow>
        if items = [] then Some (d\<lparr>Dp_store := st\<rparr>)
        else (case flushItems (E k) sys 0 items (d\<lparr>Dp_store := st\<rparr>) of (goOn, d1) \<Rightarrow>
                if \<not> goOn \<or> sys = [] then Some d1 else loop E sys (Suc k) d1)) = Some y"
      and ok: "ordersOK E"
    obtain items st where l: "ListReadyDLR (Dy_pending (E k 0)) (Dy_clock (E k 0) 2) sys 500 (Dp_store d) = (items, st)"
      by fastforce
    have "store_path (Dp_store d) st"
      by (rule path_eq [OF l path_ordered(1)]) (use ok in \<open>simp add: ordersOK_def\<close>)
    then have p0: "dpath d (d\<lparr>Dp_store := st\<rparr>)"
      by (simp add: dpath_def)
    obtain goOn d1 where f: "flushItems (E k) sys 0 items (d\<lparr>Dp_store := st\<rparr>) = (goOn, d1)"
      by fastforce
    have p1: "dpath d d1"
      using dpath_trans [OF p0 flushItems_path [of _ "E k" sys 0 items]] by (simp add: f)
    have "dpath d y" if "loop E sys (Suc k) d1 = Some y"
      using IH [OF that] ok p1 dpath_trans by blast
    then show "dpath d y"
      using eq p0 p1 by (auto simp: l f split: if_splits)
  qed
  with assms(1) show ?thesis by simp
qed

lemma admit_path:
  "admit dx env d = Return r d' \<Longrightarrow> dpath d d'" "admit dx env d = Continue e d' \<Longrightarrow> dpath d d'"
proof -
  have c: "store_path s s'" if "CheckIdempotency now c k s = (r, s')" for now c k s r s'
    by (rule path_eq [OF that path_ops(11)])
  show "admit dx env d = Return r d' \<Longrightarrow> dpath d d'" "admit dx env d = Continue e d' \<Longrightarrow> dpath d d'"
    by (auto simp: admit_def Let_def emitSubmitRejected_def dpath_def dest: c split: option.splits if_splits prod.splits)
qed

lemma applyFilter_path:
  "applyFilter dx env d = Some (Return r d') \<Longrightarrow> dpath d d'" "applyFilter dx env d = Some (Continue e d') \<Longrightarrow> dpath d d'"
  by (auto simp: applyFilter_def split: option.splits if_splits)

lemma findRoute_path:
  "findRoute dx env tags d = Return r d' \<Longrightarrow> dpath d d'" "findRoute dx env tags d = Continue e d' \<Longrightarrow> dpath d d'"
  by (auto simp: findRoute_def Let_def split: option.splits if_splits sum.splits)

lemma newGatewayID_path:
  assumes "newGatewayID memReserve a s = (g, a', s')"
  shows "store_path s s'"
proof -
  have "store_path s s'" if "memReserve n s = (r, s')" for n s r s'
    using that path_ops(12) [of s n] by (auto simp: memReserve_def split: prod.splits)
  then show ?thesis
    using assms by (auto simp: newGatewayID_def NextID_def split: if_splits prod.splits option.splits)
qed

lemma enqueue_path: "dpath d (snd (enqueue dx env ident rt route d))"
proof -
  obtain go alloc st where ng: "newGatewayID memReserve (Dp_idAlloc d) (Dp_store d) = (go, alloc, st)"
    by (cases "newGatewayID memReserve (Dp_idAlloc d) (Dp_store d)") auto
  have p1: "store_path (Dp_store d) st"
    by (rule newGatewayID_path [OF ng])
  have p2: "store_path (Dp_store d) st2" if "SubmitAtomic now msg item opts st = (res, st2)" for now msg item opts res st2
    using p1 path_eq [OF that path_ops(13)] by (rule store_path_trans)
  show ?thesis
    using p1 by (auto simp: enqueue_def ng dpath_def Let_def emitSubmitRejected_def dest: p2
        split: option.splits prod.splits sum.splits)
qed

lemma Submit_path:
  assumes "Submit dx env0 d = Some (r, d')"
  shows "dpath d d'"
proof -
  define env where "env = (if Wt_instant (En_ReceivedAt env0) = 0 then env0\<lparr>En_ReceivedAt := \<lparr>Wt_instant = Dx_clock dx 0, Wt_offset = 0\<rparr>\<rparr> else env0)"
  show ?thesis
  proof (cases "admit dx env d")
    case (Return ra da)
    then show ?thesis
      using assms admit_path(1) [OF Return] by (simp add: Submit_def env_def [symmetric])
  next
    case (Continue a d1)
    obtain env1 ident where a: "a = (env1, ident)" by (cases a)
    have p1: "dpath d d1" by (rule admit_path(2) [OF Continue])
    have step: "(case applyFilter dx (env1\<lparr>En_To := TrimPrefix (En_To env1) ''+''\<rparr>) d1 of
          None \<Rightarrow> None | Some (Return r d2) \<Rightarrow> Some (r, d2)
        | Some (Continue (env2, tags) d2) \<Rightarrow>
            (case findRoute dx env2 tags d2 of Return r d3 \<Rightarrow> Some (r, d3)
             | Continue (env3, rt, route) d3 \<Rightarrow> Some (enqueue dx env3 ident rt route d3))) = Some (r, d')"
      using assms Continue a by (simp add: Submit_def env_def [symmetric])
    have fin: "dpath d d'" if "dpath d d3" "enqueue dx e ident rt route d3 = (r, d')" for e rt route d3
      using dpath_trans [OF that(1) enqueue_path [of d3 dx e ident rt route]] that(2) by simp
    show ?thesis
      using step p1 by (auto split: option.splits phase.splits prod.splits
          dest!: applyFilter_path findRoute_path dest: dpath_trans intro: fin)
  qed
qed

text \<open>The other goroutines run store operations in the gaps.\<close>

definition othersOK :: "WorkEnv \<Rightarrow> bool" where
  "othersOK we \<longleftrightarrow> (\<forall>g s. store_path s (Wk_other we g s))"

lemma retryLoop_path:
  assumes "othersOK we" "\<And>s. store_path s (snd (f s))"
  shows "store_path s (snd (retryLoop we g f n s))"
proof (induction n arbitrary: g s)
  case (Suc n)
  obtain r s1 where f: "f s = (r, s1)" by fastforce
  have p1: "store_path s s1" using assms(2) [of s] by (simp add: f)
  have "store_path s (Wk_other we g s1)"
    using p1 assms(1) store_path_trans by (auto simp: othersOK_def)
  then have "store_path s (snd (retryLoop we (Suc g) f n (Wk_other we g s1)))"
    by (rule store_path_trans [OF _ Suc.IH])
  with p1 show ?case by (cases r) (simp_all add: f)
qed (simp add: assms(2))

lemma retry_path:
  assumes "othersOK we" "\<And>s. store_path s (snd (f s))" "retryStoreTransition we g f d = (r, d')"
  shows "dpath d d'"
  using assms(3) retryLoop_path [OF assms(1,2), of "Dp_store d" g 2] by (auto simp: retryStoreTransition_def dpath_def split: prod.splits)

lemma uncertain_path: "othersOK we \<Longrightarrow> dpath d (markOutboxUncertainWithContext we g item t d)"
  by (auto simp: markOutboxUncertainWithContext_def split: prod.splits intro: retry_path path_ops)

lemma queueFailure_path: "dpath d (snd (queueTerminalFailureDLR we item st e d))"
  using path_ops(2) by (auto simp: queueTerminalFailureDLR_def dpath_def Let_def)

lemma failOutbox_path:
  assumes "lookupOK le" "failOutbox we le dy item err d = Some d'"
  shows "dpath d d'"
proof -
  define t where "t = terminalItem item err"
  obtain st0 e0 where se: "(if t then terminalFailureDLR err else ([], 1)) = (st0, e0)"
    by fastforce
  define d1 where "d1 = (if t then d\<lparr>Dp_store := snd (UpdateMessageState (Wk_clock we 3) (Ob_GatewayID item) st0 e0 (Dp_store d))\<rparr> else d)"
  have p1: "dpath d d1"
    by (simp add: d1_def dpath_def path_ops(1))
  obtain failure d2 where q: "(if t then queueTerminalFailureDLR we item st0 e0 d1 else (None, d1)) = (failure, d2)"
    by fastforce
  have p2: "dpath d d2"
    using p1 dpath_trans [OF p1 queueFailure_path [of d1 we item st0 e0]] q by (auto split: if_splits)
  define kind where "kind = (if t then ''failed'' else ''retry'')"
  define d3 where "d3 = emitCDR ((outboxEvent kind kind (Ob_Payload item))\<lparr>Ev_ErrorCode := e0, Ev_Reason := Er_text err\<rparr>) d2"
  define nx where "nx = (if t then 0 else Wk_clock we 2 + retryDelay (Wk_jitter we) (Ob_Attempt item))"
  obtain r st where f: "FailOutbox (Ob_ID item) (Er_text err) nx (Dp_store d3) = (r, st)"
    by fastforce
  have p3: "dpath d (d3\<lparr>Dp_store := st\<rparr>)"
    using store_path_trans [OF p2 [unfolded dpath_def]] path_eq [OF f path_ops(18)] by (simp add: d3_def dpath_def)
  have p4: "dpath d (d3\<lparr>Dp_store := DeletePending a b st\<rparr>)" for a b
    using dpath_trans [OF p3, of "d3\<lparr>Dp_store := DeletePending a b st\<rparr>"] path_ops(8) by (simp add: dpath_def)
  have "(case r of Inl _ \<Rightarrow> Some (case failure of Some (rec, _) \<Rightarrow> d3\<lparr>Dp_store := DeletePending (Pd_Provider rec) (Pd_ProviderID rec) st\<rparr>
                   | None \<Rightarrow> d3\<lparr>Dp_store := st\<rparr>)
         | Inr _ \<Rightarrow> (case failure of Some (_, dlr) \<Rightarrow> OnDLR le dy dlr (d3\<lparr>Dp_store := st\<rparr>) | None \<Rightarrow> Some (d3\<lparr>Dp_store := st\<rparr>))) = Some d'"
    using assms(2)
    unfolding failOutbox_def t_def [symmetric] kind_def [symmetric] nx_def [symmetric] Let_def se prod.case
      d1_def [symmetric] q d3_def [symmetric] f by (cases r) simp_all
  then show ?thesis
    using p3 p4 OnDLR_path [OF assms(1), THEN dpath_trans [OF p3]] by (auto split: sum.splits option.splits)
qed

lemma fold_emit_store [simp]: "Dp_store (fold (\<lambda>i. emitCDR (f i)) is d) = Dp_store d"
  by (induction "is" arbitrary: d) simp_all

lemma recordSend_path:
  assumes "othersOK we" "lookupOK le" "recordSend we le dy item answer d = Some d'"
  shows "dpath d d'"
proof (cases answer)
  case (Inl err)
  then show ?thesis
    using assms failOutbox_path uncertain_path by (auto simp: recordSend_def markOutboxUncertain_def split: if_splits)
next
  case (Inr ids)
  let ?c = "CompleteOutboxSend (Wk_clock we 6) (Ob_ID item) (Ob_ClaimedBy item)
    (sentPending (Wk_clock we 5 + Dp_pendingTTL d) (Ob_Payload item) (effectiveIDs (Op_GatewayID (Ob_Payload item)) ids))"
  obtain r d1 where c: "retryStoreTransition we 5 ?c d = (r, d1)"
    by fastforce
  have p1: "dpath d d1"
    by (rule retry_path [OF assms(1) _ c]) (rule path_ops(16))
  show ?thesis
    using assms(3) p1 dpath_trans [OF p1 uncertain_path [OF assms(1)]]
    by (cases r) (auto simp: recordSend_def Inr c Let_def dpath_def)
qed

lemma processOutbox_path:
  assumes "othersOK we" "lookupOK le" "processOutbox we registry le dy item d = Some (calls, d')"
  shows "dpath d d'"
proof (cases "map_of registry (Ob_Provider item)")
  case None
  then show ?thesis
    using assms(3) failOutbox_path [OF assms(2)] by (auto simp: processOutbox_def)
next
  case (Some p)
  obtain r d1 where m: "retryStoreTransition we 0 (MarkOutboxSending (Ob_ID item) (Ob_ClaimedBy item)) d = (r, d1)"
    by fastforce
  have p1: "dpath d d1"
    by (rule retry_path [OF assms(1) _ m]) (rule path_ops(15))
  have p2: "dpath d (d1\<lparr>Dp_store := Wk_other we 2 (Dp_store d1)\<rparr>)"
    by (rule dpath_trans [OF p1]) (use assms(1) in \<open>simp add: dpath_def othersOK_def\<close>)
  show ?thesis
    using assms(3) p1 dpath_trans [OF p2 recordSend_path [OF assms(1,2)]]
    by (cases r) (auto simp: processOutbox_def Some m Let_def)
qed

subsection \<open>One call for an item\<close>

lemma retryLoop_success:
  assumes "retryLoop we g f n s = (Inr u, s')"
  shows "\<exists>s0. f s0 = (Inr u, s')"
  using assms by (induction n arbitrary: g s) (auto split: prod.splits sum.splits if_splits)

lemma retry_success:
  "retryStoreTransition we g f d = (Inr u, d') \<Longrightarrow> \<exists>s0. f s0 = (Inr u, Dp_store d')"
  by (auto simp: retryStoreTransition_def split: prod.splits dest: retryLoop_success)

lemma sent_by_handed_over: "sent_by w i \<Longrightarrow> handed_over i"
  by (auto simp: sent_by_def handed_over_def)

text \<open>
  C4: handling a claimed item changes the store only by store operations and calls the provider at most once, with the message
  of the item. If it was called, the item had been marked as being sent by this worker before, and it is never
  again claimed by any worker, whatever the provider answered, whichever transitions failed and whatever store
  operations the other goroutines run meanwhile and later.
\<close>

theorem worker_sends_once:
  assumes "store_reach (Dp_store d)" "othersOK we" "lookupOK le" "processOutbox we registry le dy item d = Some (calls, d')"
  shows "store_reach (Dp_store d') \<and> length calls \<le> 1
    \<and> (calls \<noteq> [] \<longrightarrow> calls = [outboundMessage (Ob_Payload item)] \<and> Ob_Provider item \<in> fst ` set registry
       \<and> (\<exists>j. map_of (st_outbox (Dp_store d')) (Ob_ID item) = Some j \<and> sent_by (Ob_ClaimedBy item) j)
       \<and> (\<forall>ops now w l. list_all orderOK ops \<longrightarrow> Ob_ID item \<notin> Ob_ID ` set (fst (ClaimOutbox now w l (runOps ops (Dp_store d'))))))"
proof -
  have reach: "store_reach (Dp_store d')"
    using processOutbox_path [OF assms(2-4)] assms(1) by (auto simp: dpath_def intro: store_path_reach)
  consider (none) "calls = []" | (sent) p d1 where "map_of registry (Ob_Provider item) = Some p"
      "retryStoreTransition we 0 (MarkOutboxSending (Ob_ID item) (Ob_ClaimedBy item)) d = (Inr (), d1)"
      "calls = [outboundMessage (Ob_Payload item)]"
      "recordSend we le dy (item\<lparr>Ob_State := ''sending''\<rparr>) (sendProvider p (outboundMessage (Ob_Payload item)))
         (d1\<lparr>Dp_store := Wk_other we 2 (Dp_store d1)\<rparr>) = Some d'"
    using assms(4) by (auto simp: processOutbox_def Let_def split: option.splits prod.splits sum.splits)
  then show ?thesis
  proof cases
    case none
    with reach show ?thesis by simp
  next
    case sent
    obtain i where i: "map_of (st_outbox (Dp_store d1)) (Ob_ID item) = Some i" "sent_by (Ob_ClaimedBy item) i"
      using retry_success [OF sent(2)] MarkOutboxSending_Inr(1) by (fastforce simp: sent_by_def)
    have d1: "dpath d d1"
      by (rule retry_path [OF assms(2) _ sent(2)]) (rule path_ops(15))
    have inv1: "store_inv (Dp_store d1)"
      using d1 assms(1) by (auto simp: dpath_def intro: store_reach_inv store_path_reach)
    have "dpath d1 (d1\<lparr>Dp_store := Wk_other we 2 (Dp_store d1)\<rparr>)"
      using assms(2) by (simp add: dpath_def othersOK_def)
    then have "store_path (Dp_store d1) (Dp_store d')"
      using dpath_trans recordSend_path [OF assms(2,3) sent(4)] unfolding dpath_def [symmetric] by blast
    then have "\<exists>j. map_of (st_outbox (Dp_store d')) (Ob_ID item) = Some j \<and> sent_by (Ob_ClaimedBy item) j"
      by (rule store_path_stable [where P = "sent_by (Ob_ClaimedBy item)", OF _ inv1 i]) (rule sent_by_step)
    then obtain j where j: "map_of (st_outbox (Dp_store d')) (Ob_ID item) = Some j" "sent_by (Ob_ClaimedBy item) j"
      by blast
    have "Ob_ID item \<notin> Ob_ID ` set (fst (ClaimOutbox now w l (runOps ops (Dp_store d'))))" if "list_all orderOK ops" for ops now w l
      by (rule handed_over_unclaimed [OF store_reach_inv [OF reach] that j(1) sent_by_handed_over [OF j(2)]])
    then show ?thesis
      using reach sent(1,3) j map_of_SomeD [OF sent(1)] by force
  qed
qed

definition exampleWorkEnv :: WorkEnv where
  "exampleWorkEnv = \<lparr>Wk_clock = (\<lambda>_. 7), Wk_jitter = 0, Wk_done = (\<lambda>_. False), Wk_other = (\<lambda>_ s. s), Wk_notFound = (\<lambda>_. []), Wk_storeText = (\<lambda>_. [])\<rparr>"

definition exampleLookup :: LookupEnv where
  "exampleLookup = \<lparr>Le_start = 0, Le_get = (\<lambda>_. 0), Le_now = (\<lambda>i. int i * Second), Le_wait = (\<lambda>_ _. None)\<rparr>"

definition exampleRegistry :: "(string, Provider) gomap" where
  "exampleRegistry = [(''p'', MultiID (\<lambda>msg. Inr [''x1'', ''x2'']))]"

definition exampleClaimed :: Dispatcher where
  "exampleClaimed = exampleDispatcher\<lparr>Dp_store := snd (EnqueueOutbox 1 1 (exampleItem ''claimed'') (SaveMessage exampleMessage NewMemory))\<rparr>"

lemma exampleClaimed_reach: "store_reach (Dp_store exampleClaimed)"
  using store_reach.step [OF store_reach.step [OF store_reach.init, of "OpSaveMessage exampleMessage"],
      of "OpEnqueueOutbox 1 1 (exampleItem ''claimed'')"]
  by (simp add: exampleClaimed_def)

lemma exampleClaimed_item: "map_of (st_outbox (Dp_store exampleClaimed)) 1 = Some (exampleItem ''claimed'')"
  by (simp add: exampleClaimed_def EnqueueOutbox_def outboxDefaults_def exampleItem_def NewMemory_def SaveMessage_def Let_def)

lemma exampleEnv_ok: "othersOK exampleWorkEnv" "lookupOK exampleLookup"
  by (simp_all add: othersOK_def exampleWorkEnv_def lookupOK_def exampleLookup_def)

lemma exampleProcess:
  "\<exists>d'. processOutbox exampleWorkEnv exampleRegistry exampleLookup dy (exampleItem ''claimed'') exampleClaimed
     = Some ([outboundMessage examplePayload], d')"
proof -
  have "MarkOutboxSending 1 ''w'' (Dp_store exampleClaimed) = (Inr (), putOutbox 1 ((exampleItem ''claimed'')\<lparr>Ob_State := ''sending''\<rparr>) (Dp_store exampleClaimed))"
    by (simp add: MarkOutboxSending_def exampleClaimed_item exampleItem_def)
  then show ?thesis
    by (simp add: processOutbox_def exampleRegistry_def exampleItem_def retryStoreTransition_def numeral_2_eq_2 sendProvider_def recordSend_def Let_def
        split: prod.splits sum.splits)
qed

theorem worker_sends_once_witness:
  "\<exists>d'. processOutbox exampleWorkEnv exampleRegistry exampleLookup exampleDlrEnv (exampleItem ''claimed'') exampleClaimed
     = Some ([outboundMessage examplePayload], d')
   \<and> (\<exists>j. map_of (st_outbox (Dp_store d')) 1 = Some j \<and> sent_by ''w'' j)"
proof -
  obtain d' where p: "processOutbox exampleWorkEnv exampleRegistry exampleLookup exampleDlrEnv (exampleItem ''claimed'') exampleClaimed
     = Some ([outboundMessage examplePayload], d')"
    using exampleProcess by blast
  with worker_sends_once [OF exampleClaimed_reach exampleEnv_ok p] show ?thesis
    by (simp add: exampleItem_def)
qed

subsection \<open>What comes of an item\<close>

lemma retry_first:
  "f (Dp_store d) = (Inr u, st) \<Longrightarrow> retryStoreTransition we g f d = (Inr u, d\<lparr>Dp_store := st\<rparr>)"
  by (simp add: retryStoreTransition_def numeral_2_eq_2)

lemma GetMessage_putOutbox [simp]: "GetMessage g (putOutbox k i s) = GetMessage g s"
  by (rule GetMessage_frame) simp_all

lemma updateMessage_get:
  assumes "store_inv s" "GetMessage g s = Some m"
  shows "GetMessage g (snd (updateMessage g f s)) = Some (f m)"
proof -
  obtain idx where idx: "map_of (st_messageByID s) g = Some idx" "m = st_messages s ! idx"
    using assms(2) by (auto simp: GetMessage_def split: option.splits)
  have "idx < length (st_messages s)"
    using assms(1) idx(1) messages_ok_lookup by (auto simp: store_inv_def)
  then show ?thesis
    by (simp add: updateMessage_def idx GetMessage_def)
qed

lemma validatePendings_I:
  "\<forall>p \<in> set ps. Pd_ProviderID p \<noteq> [] \<and> Pd_GatewayID p = Ob_GatewayID item \<and> Pd_Provider p = Ob_Provider item
     \<Longrightarrow> validatePendings item ps = Inr (map normalizePending ps)"
  by (induction ps) (simp_all add: Let_def bindE_def)

lemma effectiveIDs_ne: "g \<noteq> [] \<Longrightarrow> [] \<notin> set (effectiveIDs g ids)" "effectiveIDs g ids \<noteq> []"
  by (auto simp: effectiveIDs_def)

lemma sentPending_simps [simp]:
  "length (sentPending e pl ids) = length ids" "map Pd_ProviderID (sentPending e pl ids) = ids"
  by (simp_all add: sentPending_def comp_def map_nth)

lemma sentPending_mem:
  "p \<in> set (sentPending e pl ids) \<Longrightarrow> Pd_ProviderID p \<in> set ids \<and> Pd_GatewayID p = Op_GatewayID pl \<and> Pd_Provider p = Op_Provider pl
     \<and> normalizePending p = p"
  by (auto simp: sentPending_def normalizePending_def Let_def)

text \<open>An item as \<open>Submit\<close> makes it and a worker claims it, with its message in the store.\<close>

definition claimedItem :: "OutboxItem \<Rightarrow> MemoryStore \<Rightarrow> bool" where
  "claimedItem item s \<longleftrightarrow> map_of (st_outbox s) (Ob_ID item) = Some item \<and> Ob_State item = ''claimed''
     \<and> Op_GatewayID (Ob_Payload item) = Ob_GatewayID item \<and> Op_Provider (Ob_Payload item) = Ob_Provider item
     \<and> Ob_GatewayID item \<noteq> [] \<and> GetMessage (Ob_GatewayID item) s \<noteq> None"

definition markedSending :: "OutboxItem \<Rightarrow> Dispatcher \<Rightarrow> Dispatcher" where
  "markedSending item d = d\<lparr>Dp_store := putOutbox (Ob_ID item) (item\<lparr>Ob_State := ''sending''\<rparr>) (Dp_store d)\<rparr>"

lemma process_marked:
  assumes "claimedItem item (Dp_store d)" "map_of registry (Ob_Provider item) = Some p" "Wk_other we = (\<lambda>_ s. s)"
  shows "processOutbox we registry le dy item d = map_option (Pair [outboundMessage (Ob_Payload item)])
     (recordSend we le dy (item\<lparr>Ob_State := ''sending''\<rparr>) (sendProvider p (outboundMessage (Ob_Payload item))) (markedSending item d))"
proof -
  have "MarkOutboxSending (Ob_ID item) (Ob_ClaimedBy item) (Dp_store d) = (Inr (), Dp_store (markedSending item d))"
    using assms(1) by (simp add: MarkOutboxSending_def claimedItem_def markedSending_def)
  from retry_first [of "MarkOutboxSending (Ob_ID item) (Ob_ClaimedBy item)" d, OF this, of we 0] show ?thesis
    using assms(2,3) by (simp add: processOutbox_def markedSending_def Let_def)
qed

lemma marked_facts:
  assumes "store_reach (Dp_store d)" "claimedItem item (Dp_store d)"
  shows "store_reach (Dp_store (markedSending item d))"
    "map_of (st_outbox (Dp_store (markedSending item d))) (Ob_ID item) = Some (item\<lparr>Ob_State := ''sending''\<rparr>)"
    "GetMessage g (Dp_store (markedSending item d)) = GetMessage g (Dp_store d)"
proof -
  have "MarkOutboxSending (Ob_ID item) (Ob_ClaimedBy item) (Dp_store d) = (Inr (), Dp_store (markedSending item d))"
    using assms(2) by (simp add: MarkOutboxSending_def claimedItem_def markedSending_def)
  then show "store_reach (Dp_store (markedSending item d))"
    using store_path_reach [OF path_ops(15) assms(1), of "Ob_ID item" "Ob_ClaimedBy item"] by simp
qed (simp_all add: markedSending_def)

lemma send_accepted:
  assumes reach: "store_reach (Dp_store d)" and cl: "claimedItem item (Dp_store d)"
    and ids: "ids = effectiveIDs (Ob_GatewayID item) ids0" "distinct ids"
  shows "\<exists>d' m. recordSend we le dy (item\<lparr>Ob_State := ''sending''\<rparr>) (Inr ids0) (markedSending item d) = Some d'
    \<and> (\<exists>j. map_of (st_outbox (Dp_store d')) (Ob_ID item) = Some j \<and> Ob_State j = ''done'')
    \<and> GetMessage (Ob_GatewayID item) (Dp_store d') = Some m \<and> Msg_State m = ''sent'' \<and> Msg_ProviderID m = hd ids
    \<and> (\<forall>i < length ids. map_of (st_pending (Dp_store d')) (pendingKey (Ob_Provider item) (ids ! i))
          = Some (sentPending (Wk_clock we 5 + Dp_pendingTTL d) (Ob_Payload item) ids ! i))"
proof -
  let ?d1 = "markedSending item d" and ?it = "item\<lparr>Ob_State := ''sending''\<rparr>"
  define ps where "ps = sentPending (Wk_clock we 5 + Dp_pendingTTL d) (Ob_Payload item) ids"
  note mf = marked_facts [OF reach cl]
  have pl: "Op_GatewayID (Ob_Payload item) = Ob_GatewayID item" "Op_Provider (Ob_Payload item) = Ob_Provider item" "Ob_GatewayID item \<noteq> []"
    and msg: "GetMessage (Ob_GatewayID item) (Dp_store ?d1) \<noteq> None"
    using cl mf(3) by (simp_all add: claimedItem_def)
  have ne: "[] \<notin> set ids" "ids \<noteq> []"
    using effectiveIDs_ne [of "Ob_GatewayID item" ids0] pl(3) by (simp_all add: ids(1))
  have ps: "ps \<noteq> []" "map Pd_ProviderID ps = ids"
    using ne(2) by (auto simp: ps_def sentPending_def comp_def map_nth)
  have "validatePendings ?it ps = Inr (map normalizePending ps)"
    by (rule validatePendings_I) (use ne(1) pl in \<open>auto simp: ps_def dest!: sentPending_mem\<close>)
  then have v: "validateOutboxCompletion ?it ps = Inr (map normalizePending ps)"
    using ps(1) by (simp add: validateOutboxCompletion_def)
  obtain idx where idx: "map_of (st_messageByID (Dp_store ?d1)) (Ob_GatewayID item) = Some idx"
    using msg by (auto simp: GetMessage_def split: option.splits)
  obtain st where c: "CompleteOutboxSend (Wk_clock we 6) (Ob_ID item) (Ob_ClaimedBy item) ps (Dp_store ?d1) = (Inr (), st)"
    using mf(2) v idx by (simp add: CompleteOutboxSend_def Let_def)
  note eff = complete_send_effect [OF mf(1) c mf(2)]
  have "recordSend we le dy ?it (Inr ids0) ?d1 = Some (fold (\<lambda>i. emitCDR (sentEvent (Ob_Payload item) ids i)) [0..<length ids] (?d1\<lparr>Dp_store := st\<rparr>))"
  proof -
    have ttl: "Dp_pendingTTL ?d1 = Dp_pendingTTL d" by (simp add: markedSending_def)
    show ?thesis
      using retry_first [where f = "CompleteOutboxSend (Wk_clock we 6) (Ob_ID item) (Ob_ClaimedBy item) ps", OF c, of we 5] by (simp add: recordSend_def Let_def pl(1) ids(1) [symmetric] ttl ps_def [symmetric])
  qed
  moreover have "map_of (st_pending st) (pendingKey (Ob_Provider item) (ids ! i)) = Some (ps ! i)" if "i < length ids" for i
  proof -
    have "ps ! i \<in> set ps" "Pd_ProviderID (ps ! i) = ids ! i"
      using that ps(2) by (simp_all add: ps_def sentPending_def)
    moreover from this(1) have "normalizePending (ps ! i) = ps ! i"
      unfolding ps_def by (blast dest: sentPending_mem)
    moreover have "\<forall>p \<in> set ps. map_of (st_pending st) (pendingKey (Ob_Provider item) (Pd_ProviderID p)) = Some (normalizePending p)"
      using eff ids(2) ps(2) by simp
    ultimately show ?thesis by metis
  qed
  moreover have "hd ps \<in> set ps" "Pd_ProviderID (hd ps) = hd ids"
    using ps by (simp, metis hd_map)
  ultimately show ?thesis
    using eff ids(2) ps(2) by (auto simp: ps_def [symmetric])
qed

lemma send_uncertain:
  assumes reach: "store_reach (Dp_store d)" and cl: "claimedItem item (Dp_store d)" and err: "\<not> isPermanent err"
  shows "\<exists>d' m. recordSend we le dy (item\<lparr>Ob_State := ''sending''\<rparr>) (Inl err) (markedSending item d) = Some d'
    \<and> (\<exists>j. map_of (st_outbox (Dp_store d')) (Ob_ID item) = Some j \<and> Ob_State j = ''uncertain'' \<and> Ob_LastError j = Er_text err)
    \<and> GetMessage (Ob_GatewayID item) (Dp_store d') = Some m \<and> Msg_State m = ''UNKNOWN''"
proof -
  let ?d1 = "markedSending item d" and ?it = "item\<lparr>Ob_State := ''sending''\<rparr>"
  let ?f = "MarkOutboxUncertain (Wk_clock we 4) (Ob_ID item) (Ob_ClaimedBy item) (Er_text err)"
  note mf = marked_facts [OF reach cl]
  let ?s1 = "putOutbox (Ob_ID item) (?it\<lparr>Ob_State := ''uncertain'', Ob_LastError := Er_text err\<rparr>) (Dp_store ?d1)"
  let ?st = "snd (updateMessage (Ob_GatewayID item) (\<lambda>msg. msg\<lparr>Msg_State := ''UNKNOWN'', Msg_ErrorCode := 1, Msg_DoneAt := Wk_clock we 4\<rparr>) ?s1)"
  have f: "?f (Dp_store ?d1) = (Inr (), ?st)"
    using mf(2) by (simp add: MarkOutboxUncertain_def Let_def)
  obtain m where m: "GetMessage (Ob_GatewayID item) (Dp_store ?d1) = Some m"
    using cl mf(3) by (auto simp: claimedItem_def)
  have inv: "store_inv ?s1"
    by (rule store_inv_putOutbox [OF store_reach_inv [OF mf(1)] mf(2)]) simp
  have m1: "GetMessage (Ob_GatewayID item) ?s1 = Some m"
    using m by simp
  have "recordSend we le dy ?it (Inl err) ?d1
      = Some (emitCDR ((outboxEvent ''uncertain'' ''UNKNOWN'' (Ob_Payload item))\<lparr>Ev_ErrorCode := 1, Ev_Reason := Er_text err\<rparr>) (?d1\<lparr>Dp_store := ?st\<rparr>))"
    using err retry_first [where f = ?f, OF f, of we 3]
    by (simp add: recordSend_def markOutboxUncertain_def markOutboxUncertainWithContext_def)
  then show ?thesis
    using updateMessage_get [OF inv m1] by simp
qed

lemma send_rejected:
  assumes reach: "store_reach (Dp_store d)" and cl: "claimedItem item (Dp_store d)" and err: "isPermanent err"
    and room: "length (Dp_dlrCh d) < 4096"
  shows "\<exists>d' m. recordSend we le dy (item\<lparr>Ob_State := ''sending''\<rparr>) (Inl err) (markedSending item d) = Some d'
    \<and> (\<exists>j. map_of (st_outbox (Dp_store d')) (Ob_ID item) = Some j \<and> Ob_State j = ''failed'' \<and> Ob_LastError j = Er_text err)
    \<and> GetMessage (Ob_GatewayID item) (Dp_store d') = Some m \<and> (Msg_State m, Msg_ErrorCode m) = terminalFailureDLR err
    \<and> (if Op_SourceKind (Ob_Payload item) = ''smpp'' \<and> and (Op_RegisteredDelivery (Ob_Payload item)) 3 \<noteq> 0
       then \<exists>dlr. Dp_dlrCh d' = Dp_dlrCh d @ [dlr] \<and> (Dl_State dlr, Dl_ErrorCode dlr) = terminalFailureDLR err
         \<and> (\<exists>p. map_of (st_pending (Dp_store d')) (pendingKey (Dl_Provider dlr) (Dl_ProviderID dlr)) = Some p
              \<and> Pd_DLRReady p \<and> Pd_GatewayID p = Ob_GatewayID item)
       else Dp_dlrCh d' = Dp_dlrCh d)"
proof -
  let ?d1 = "markedSending item d" and ?it = "item\<lparr>Ob_State := ''sending''\<rparr>"
  note mf = marked_facts [OF reach cl]
  obtain st e where te: "terminalFailureDLR err = (st, e)" by fastforce
  have t: "terminalItem ?it err"
    using err by (simp add: terminalItem_def)
  obtain m where m: "GetMessage (Ob_GatewayID item) (Dp_store ?d1) = Some m"
    using cl mf(3) by (auto simp: claimedItem_def)
  define s1 where "s1 = snd (UpdateMessageState (Wk_clock we 3) (Ob_GatewayID item) st e (Dp_store ?d1))"
  have m1: "GetMessage (Ob_GatewayID item) s1 = Some (m\<lparr>Msg_State := st, Msg_ErrorCode := e, Msg_DoneAt := Wk_clock we 3\<rparr>)"
    unfolding s1_def UpdateMessageState_def by (rule updateMessage_get [OF store_reach_inv [OF mf(1)] m])
  have o1: "st_outbox s1 = st_outbox (Dp_store ?d1)"
    by (simp add: s1_def UpdateMessageState_def)
  define failure d2 where "failure = fst (queueTerminalFailureDLR we ?it st e (?d1\<lparr>Dp_store := s1\<rparr>))"
    and "d2 = snd (queueTerminalFailureDLR we ?it st e (?d1\<lparr>Dp_store := s1\<rparr>))"
  have q: "queueTerminalFailureDLR we ?it st e (?d1\<lparr>Dp_store := s1\<rparr>) = (failure, d2)"
    by (simp add: failure_def d2_def)
  let ?smpp = "Op_SourceKind (Ob_Payload item) = ''smpp'' \<and> and (Op_RegisteredDelivery (Ob_Payload item)) 3 \<noteq> 0"
  let ?rec = "failurePending (Wk_clock we 0) (Dp_pendingTTL ?d1) (Ob_Payload item) st e"
  let ?dlr = "\<lparr>Dl_Provider = Op_Provider (Ob_Payload item), Dl_ProviderID = Pd_ProviderID ?rec, Dl_State = st, Dl_ErrorCode = e, Dl_DoneAt = Wk_clock we 0\<rparr>"
  have f: "failure = (if ?smpp then Some (?rec, ?dlr) else None)"
    and d2: "d2 = (if ?smpp then ?d1\<lparr>Dp_store := SavePending (Wk_clock we 1) ?rec s1\<rparr> else ?d1\<lparr>Dp_store := s1\<rparr>)"
    using q by (auto simp: queueTerminalFailureDLR_def SourceKind_String_def Let_def split: if_splits)
  have o2: "st_outbox (Dp_store d2) = st_outbox (Dp_store ?d1)" and m2: "GetMessage g (Dp_store d2) = GetMessage g s1" for g
    by (auto simp: d2 o1 SavePending_def intro: GetMessage_frame)
  let ?d3 = "emitCDR ((outboxEvent ''failed'' ''failed'' (Ob_Payload item))\<lparr>Ev_ErrorCode := e, Ev_Reason := Er_text err\<rparr>) d2"
  let ?j = "item\<lparr>Ob_LastError := Er_text err, Ob_State := ''failed''\<rparr>"
  have fo: "FailOutbox (Ob_ID item) (Er_text err) 0 (Dp_store ?d3) = (Inr (), putOutbox (Ob_ID item) ?j (Dp_store d2))"
    using mf(2) by (simp add: FailOutbox_def o2 Let_def)
  let ?d4 = "?d3\<lparr>Dp_store := putOutbox (Ob_ID item) ?j (Dp_store d2)\<rparr>"
  have "recordSend we le dy ?it (Inl err) ?d1 = failOutbox we le dy ?it err ?d1"
    using err by (simp add: recordSend_def)
  also have "\<dots> = (case failure of Some (_, dlr) \<Rightarrow> OnDLR le dy dlr ?d4 | None \<Rightarrow> Some ?d4)"
    using fo by (simp add: failOutbox_def t te s1_def [symmetric] q Let_def)
  also have "\<dots> = Some (if ?smpp then ?d4\<lparr>Dp_dlrCh := Dp_dlrCh d @ [?dlr]\<rparr> else ?d4)"
    using room by (simp add: f OnDLR_def d2 markedSending_def)
  finally have eq: "recordSend we le dy ?it (Inl err) ?d1 = Some (if ?smpp then ?d4\<lparr>Dp_dlrCh := Dp_dlrCh d @ [?dlr]\<rparr> else ?d4)" .
  have get: "GetMessage (Ob_GatewayID item) (putOutbox (Ob_ID item) ?j (Dp_store d2)) = Some (m\<lparr>Msg_State := st, Msg_ErrorCode := e, Msg_DoneAt := Wk_clock we 3\<rparr>)"
    using m1 m2 by simp
  have pend: "map_of (st_pending (Dp_store d2)) (pendingKey (Dl_Provider ?dlr) (Dl_ProviderID ?dlr)) = Some ?rec" if ?smpp
    using that by (simp add: d2 SavePending_def putPending_def normalizePending_def failurePending_def)
  have gid: "Pd_GatewayID ?rec = Ob_GatewayID item" "Pd_DLRReady ?rec"
    using cl by (simp_all add: failurePending_def claimedItem_def)
  have ch: "Dp_dlrCh ?d4 = Dp_dlrCh d"
    by (simp add: d2 markedSending_def)
  have j: "map_of (st_outbox (putOutbox (Ob_ID item) ?j (Dp_store d2))) (Ob_ID item) = Some ?j"
    by simp
  show ?thesis
  proof (cases ?smpp)
    case True
    show ?thesis
      by (rule exI [of _ "?d4\<lparr>Dp_dlrCh := Dp_dlrCh d @ [?dlr]\<rparr>"], rule exI [of _ "m\<lparr>Msg_State := st, Msg_ErrorCode := e, Msg_DoneAt := Wk_clock we 3\<rparr>"])
        (use eq get pend [OF True] gid te True in simp)
  next
    case False
    show ?thesis
      by (rule exI [of _ ?d4], rule exI [of _ "m\<lparr>Msg_State := st, Msg_ErrorCode := e, Msg_DoneAt := Wk_clock we 3\<rparr>"])
        (use eq get ch te False in simp)
  qed
qed

text \<open>
  C5: what a worker makes of a claimed item, when no other goroutine interferes and there is room in the queue of receipts. The provider is
  called once with the message of the item. If it accepts, the item is done, the message is sent under the first provider id and each
  provider id has its record for the receipts, the gateway id standing in for a missing one. If it refuses for good, the item and the
  message have failed with the state and code of the error, and an SMPP client that asked for a receipt gets one. After any other
  error it is unknown whether the message was sent: the item is uncertain and is not sent again.
\<close>

theorem worker_outcome:
  assumes "store_reach (Dp_store d)" "claimedItem item (Dp_store d)" "map_of registry (Ob_Provider item) = Some p"
    "Wk_other we = (\<lambda>_ s. s)" "length (Dp_dlrCh d) < 4096" "sendProvider p (outboundMessage (Ob_Payload item)) = answer"
    "\<forall>ids. answer = Inr ids \<longrightarrow> distinct (effectiveIDs (Ob_GatewayID item) ids)"
  shows "\<exists>d' j m. processOutbox we registry le dy item d = Some ([outboundMessage (Ob_Payload item)], d')
    \<and> map_of (st_outbox (Dp_store d')) (Ob_ID item) = Some j \<and> GetMessage (Ob_GatewayID item) (Dp_store d') = Some m
    \<and> (case answer of
         Inr ids0 \<Rightarrow> let ids = effectiveIDs (Ob_GatewayID item) ids0 in
           Ob_State j = ''done'' \<and> Msg_State m = ''sent'' \<and> Msg_ProviderID m = hd ids
           \<and> (\<forall>i < length ids. map_of (st_pending (Dp_store d')) (pendingKey (Ob_Provider item) (ids ! i))
                = Some (sentPending (Wk_clock we 5 + Dp_pendingTTL d) (Ob_Payload item) ids ! i))
       | Inl err \<Rightarrow>
           if isPermanent err
           then Ob_State j = ''failed'' \<and> Ob_LastError j = Er_text err \<and> (Msg_State m, Msg_ErrorCode m) = terminalFailureDLR err
             \<and> (if Op_SourceKind (Ob_Payload item) = ''smpp'' \<and> and (Op_RegisteredDelivery (Ob_Payload item)) 3 \<noteq> 0
                then \<exists>dlr. Dp_dlrCh d' = Dp_dlrCh d @ [dlr] \<and> (Dl_State dlr, Dl_ErrorCode dlr) = terminalFailureDLR err
                  \<and> (\<exists>q. map_of (st_pending (Dp_store d')) (pendingKey (Dl_Provider dlr) (Dl_ProviderID dlr)) = Some q
                       \<and> Pd_DLRReady q \<and> Pd_GatewayID q = Ob_GatewayID item)
                else Dp_dlrCh d' = Dp_dlrCh d)
           else Ob_State j = ''uncertain'' \<and> Ob_LastError j = Er_text err \<and> Msg_State m = ''UNKNOWN'')"
proof -
  note pm = process_marked [OF assms(2-4), of le dy]
  show ?thesis
  proof (cases answer)
    case (Inr ids0)
    then show ?thesis
      using send_accepted [OF assms(1,2) refl, of ids0 we le dy] assms(6,7) unfolding pm Let_def by auto
  next
    case (Inl err)
    show ?thesis
    proof (cases "isPermanent err")
      case True
      then show ?thesis
        using send_rejected [OF assms(1,2) True assms(5), of we le dy] assms(6) Inl unfolding pm by auto
    next
      case False
      then show ?thesis
        using send_uncertain [OF assms(1,2) False, of we le dy] assms(6) Inl unfolding pm by auto
    qed
  qed
qed

theorem worker_outcome_witness:
  "\<exists>d' j m. processOutbox exampleWorkEnv exampleRegistry exampleLookup exampleDlrEnv (exampleItem ''claimed'') exampleClaimed
      = Some ([outboundMessage examplePayload], d')
    \<and> map_of (st_outbox (Dp_store d')) 1 = Some j \<and> Ob_State j = ''done'' \<and> GetMessage ''m1'' (Dp_store d') = Some m \<and> Msg_ProviderID m = ''x1''"
proof -
  have cl: "claimedItem (exampleItem ''claimed'') (Dp_store exampleClaimed)"
  proof -
    have "GetMessage ''m1'' (Dp_store exampleClaimed) = GetMessage ''m1'' (SaveMessage exampleMessage NewMemory)"
      by (simp add: exampleClaimed_def GetMessage_frame [OF Enqueue_frame(1,2)])
    also have "\<dots> \<noteq> None"
      using putMessage_get [OF NewMemory_inv, of exampleMessage] by (simp add: SaveMessage_def exampleMessage_def)
    finally show ?thesis
      using exampleClaimed_item by (simp add: claimedItem_def exampleItem_def examplePayload_def)
  qed
  have send: "sendProvider (MultiID (\<lambda>msg. Inr [''x1'', ''x2''])) (outboundMessage (Ob_Payload (exampleItem ''claimed''))) = Inr [''x1'', ''x2'']"
    by (simp add: sendProvider_def)
  have reg: "map_of exampleRegistry (Ob_Provider (exampleItem ''claimed'')) = Some (MultiID (\<lambda>msg. Inr [''x1'', ''x2'']))"
    by (simp add: exampleRegistry_def exampleItem_def)
  have oth: "Wk_other exampleWorkEnv = (\<lambda>_ s. s)"
    by (simp add: exampleWorkEnv_def)
  have room: "length (Dp_dlrCh exampleClaimed) < 4096"
    by (simp add: exampleClaimed_def exampleDispatcher_def)
  have dist: "\<forall>ids. (Inr [''x1'', ''x2''] :: SendError + string list) = Inr ids \<longrightarrow>
      distinct (effectiveIDs (Ob_GatewayID (exampleItem ''claimed'')) ids)"
    by (simp add: effectiveIDs_def)
  from worker_outcome [OF exampleClaimed_reach cl reg oth room send dist, of exampleLookup exampleDlrEnv]
  show ?thesis
    by (auto simp: exampleItem_def effectiveIDs_def Let_def)
qed

subsection \<open>The whole dispatcher\<close>

text \<open>Every handler of the dispatcher as a step; the orders of iteration are rearrangements and the other goroutines use the store operations.\<close>

inductive dispatcher_step :: "Dispatcher \<Rightarrow> Dispatcher \<Rightarrow> bool" where
  submit: "Submit dx env d = Some (r, d') \<Longrightarrow> dispatcher_step d d'"
| receipt: "lookupOK le \<Longrightarrow> OnDLR le dy dlr d = Some d' \<Longrightarrow> dispatcher_step d d'"
| handle: "lookupOK le \<Longrightarrow> dlrWorker le dy d = Some d' \<Longrightarrow> dispatcher_step d d'"
| flush: "ordersOK E \<Longrightarrow> FlushDLR E sys 0 d = Some d' \<Longrightarrow> dispatcher_step d d'"
| sweep: "ordersOK E \<Longrightarrow> pendingSweepTick now E d = Some d' \<Longrightarrow> dispatcher_step d d'"
| tick: "workerTick now w n d = (items, d') \<Longrightarrow> dispatcher_step d d'"
| work: "othersOK we \<Longrightarrow> lookupOK le \<Longrightarrow> processOutbox we registry le dy item d = Some (calls, d') \<Longrightarrow> dispatcher_step d d'"
| requeue: "\<forall>xs. mset (it xs) = mset xs \<Longrightarrow> dispatcher_step d (requeueStale it now d)"
| reload: "dispatcher_step d (ReloadTenants zoneOK cfg (ReloadFilter e (ReloadRoutes routes providers d)))"
| server: "dispatcher_step d (SetSMPPServer srv (SetCDRSink sink (SetInstanceID inst d)))"

inductive dispatcher_run :: "Dispatcher \<Rightarrow> Dispatcher \<Rightarrow> bool" where
  start: "dispatcher_run d d"
| more': "dispatcher_run d e \<Longrightarrow> dispatcher_step e f \<Longrightarrow> dispatcher_run d f"

lemma tick_path: "dpath d (snd (workerTick now w n d))"
  using path_ops(14) by (auto simp: workerTick_def dpath_def Let_def split: prod.splits) (metis snd_conv)+

lemma dispatcher_step_path: "dispatcher_step d d' \<Longrightarrow> dpath d d'"
proof (induction rule: dispatcher_step.induct)
  case (handle le dy d d')
  then show ?case
    by (auto simp: dlrWorker_def dpath_def split: list.splits dest!: HandleDLR_path)
next
  case (sweep E now d d')
  have "dpath d (sweepExpiredPending now d)"
    by (simp add: sweepExpiredPending_def dpath_def path_ops(10))
  then show ?case
    using FlushDLR_path [OF sweep(1)] sweep(2) dpath_trans by (auto simp: pendingSweepTick_def)
next
  case (tick now w n d items d')
  then show ?case using tick_path [of d now w n] by simp
next
  case (requeue it d now)
  then show ?case by (simp add: requeueStale_def dpath_def Let_def path_ordered(2))
next
  case (server d srv sink inst)
  then show ?case by (simp add: SetSMPPServer_def SetCDRSink_def SetInstanceID_def dpath_def split: option.splits)
qed (auto intro: Submit_path OnDLR_path FlushDLR_path processOutbox_path
    simp: ReloadTenants_def ReloadFilter_def SetFilterEngine_def ReloadRoutes_def dpath_def [of _ "_\<lparr>Dp_resolver := _\<rparr>"])

lemma dispatcher_run_path: "dispatcher_run d d' \<Longrightarrow> dpath d d'"
  by (induction rule: dispatcher_run.induct) (auto intro: dpath_trans dispatcher_step_path)

text \<open>
  C1: whatever a dispatcher that was started on an empty store does, its store is one that store operations lead to, and once an item
  was handed to a provider, finished or given up, it stays so: no later tick of any worker claims it again, so that a message is
  handed to a provider at most once.
\<close>

theorem dispatcher_at_most_once:
  assumes "dispatcher_run (NewDispatcher srv cfg NewMemory) d" "dispatcher_run d d'"
    "map_of (st_outbox (Dp_store d)) k = Some i" "handed_over i"
  shows "store_reach (Dp_store d') \<and> (\<exists>j. map_of (st_outbox (Dp_store d')) k = Some j \<and> handed_over j)
    \<and> k \<notin> Ob_ID ` set (fst (workerTick now w n d'))"
proof -
  have "store_reach (Dp_store (NewDispatcher srv cfg NewMemory))"
    by (simp add: NewDispatcher_def Let_def store_reach.init)
  then have r: "store_reach (Dp_store d)"
    using dispatcher_run_path [OF assms(1)] store_path_reach by (auto simp: dpath_def)
  have p: "store_path (Dp_store d) (Dp_store d')"
    using dispatcher_run_path [OF assms(2)] by (simp add: dpath_def)
  have r': "store_reach (Dp_store d')"
    using store_path_reach [OF p r] .
  have "\<exists>j. map_of (st_outbox (Dp_store d')) k = Some j \<and> handed_over j"
    by (rule store_path_stable [where P = handed_over, OF p store_reach_inv [OF r] assms(3,4)]) (rule handed_over_step)
  moreover from this obtain j where j: "map_of (st_outbox (Dp_store d')) k = Some j" "handed_over j" by blast
  have "k \<notin> Ob_ID ` set (fst (ClaimOutbox now w l (Dp_store d')))" for l
    using handed_over_unclaimed [OF store_reach_inv [OF r'] _ j, of "[]"] by simp
  then have "k \<notin> Ob_ID ` set (fst (workerTick now w n d'))"
    by (auto simp: workerTick_def Let_def split: prod.splits) (metis fst_conv image_eqI)+
  ultimately show ?thesis using r' by blast
qed

text \<open>While a worker retries to mark an item, another instance on the same store has finished it.\<close>

definition exampleTaken :: WorkEnv where
  "exampleTaken = exampleWorkEnv\<lparr>Wk_done := (\<lambda>g. g = 1), Wk_other := (\<lambda>g s. snd (EnqueueOutbox 1 1 (exampleItem ''done'') s))\<rparr>"

lemma exampleTaken_ok: "othersOK exampleTaken"
  using store_path_step [of "OpEnqueueOutbox 1 1 (exampleItem ''done'')"] by (simp add: othersOK_def exampleTaken_def)

theorem dispatcher_at_most_once_witness:
  "\<exists>d. dispatcher_run (NewDispatcher None (Cfg_Dispatcher DefaultConfig) NewMemory) d \<and> 1 \<in> dom (map_of (st_outbox (Dp_store d)))
     \<and> 1 \<notin> Ob_ID ` set (fst (workerTick 9 ''w'' 0 d))"
proof -
  let ?init = "NewDispatcher None (Cfg_Dispatcher DefaultConfig) NewMemory" and ?it = "exampleItem ''claimed''"
  let ?fin = "?init\<lparr>Dp_store := exampleStore ''done''\<rparr>"
  have s0: "Dp_store ?init = NewMemory"
    by (simp add: NewDispatcher_def Let_def)
  have m0: "MarkOutboxSending 1 ''w'' NewMemory = (Inl ErrNotFound, NewMemory)"
    by (simp add: MarkOutboxSending_def NewMemory_def)
  have out: "map_of (st_outbox (exampleStore ''done'')) 1 = Some (exampleItem ''done'')"
    using exampleStore_outbox [of "''done''"] by simp
  have m1: "MarkOutboxSending 1 ''w'' (exampleStore ''done'') = (Inl ErrNotClaimed, exampleStore ''done'')"
    unfolding MarkOutboxSending_def out by (simp add: exampleItem_def)
  have "retryStoreTransition exampleTaken 0 (MarkOutboxSending 1 ''w'') ?init = (Inl ErrNotClaimed, ?fin)"
    by (simp add: retryStoreTransition_def numeral_2_eq_2 s0 m0 m1 exampleTaken_def exampleWorkEnv_def exampleStore_def [symmetric])
  then have "processOutbox exampleTaken exampleRegistry exampleLookup exampleDlrEnv ?it ?init = Some ([], ?fin)"
    by (simp add: processOutbox_def exampleRegistry_def exampleItem_def)
  then have run: "dispatcher_run ?init ?fin"
    by (intro more' [OF start] work [OF exampleTaken_ok exampleEnv_ok(2)])
  have i: "map_of (st_outbox (Dp_store ?fin)) 1 = Some (exampleItem ''done'')" "handed_over (exampleItem ''done'')"
    using out by (simp_all add: handed_over_def exampleItem_def)
  show ?thesis
    using dispatcher_at_most_once [OF run start i, of 9 "''w''" 0] run i by auto
qed

text \<open>The delay before a retry is between one second and 33 seconds and does not fall with the number of attempts.\<close>

lemma retryDelay_bounds:
  assumes "0 \<le> jitter" "jitter < 1000"
  shows "Second \<le> retryDelay jitter a \<and> retryDelay jitter a < 33 * Second"
proof -
  define n where "n = nat ((if (if a < 1 then 1 else a) > 6 then 6 else if a < 1 then 1 else a) - 1)"
  have "n \<le> 5" by (auto simp: n_def)
  then have "(2::int) ^ n \<le> 32"
    using power_increasing [of n 5 "2 :: int"] by simp
  moreover have "(1::int) \<le> 2 ^ n" by simp
  ultimately show ?thesis
    unfolding retryDelay_def Let_def n_def [symmetric] using assms by (intro conjI; linarith)
qed

text \<open>A tick never starts more items than there are free places.\<close>

lemma workerTick_bounded:
  assumes "0 < Dp_claimLimit d" "inFlight \<le> Dp_perWorkerConc d"
  shows "inFlight + int (length (fst (workerTick now w inFlight d))) \<le> Dp_perWorkerConc d"
proof -
  have "length (fst (ClaimOutbox now w l s)) \<le> nat l" if "0 < l" for l s
    using that by (simp add: claim_out claimCandidates_def)
  then show ?thesis
    using assms by (auto simp: workerTick_def Let_def split: prod.splits) (smt (verit) fst_conv nat_0_le of_nat_le_iff)+
qed

end
