(* ===== verification/Gateway_Main.thy ===== *)
theory Gateway_Main
  imports Smpp_Client Worker_Safety Go_Hash
begin

text \<open>
  The wiring of the gateway (\<open>cmd/mysmpp/main.go\<close>), the comparison of secrets (\<open>authutil/compare.go\<close>) and the adapter
  from the dispatcher's messages to the SMPP client (\<open>provider/smpp.go\<close>): who may bind, how an accepted submit_sm
  becomes an envelope for the dispatcher with a key that recognises a repetition, what the session answers, and how an
  item of the outbox becomes a message of the client.

  The theorems follow a message through the components: from the bytes of the client's request to the bytes of the
  request to the provider. The bytes drawn at the start of the process and the time are arguments.
\<close>

subsection \<open>Binding\<close>

definition ConstantTimeEqual :: "string \<Rightarrow> string \<Rightarrow> bool" where
  "ConstantTimeEqual a b = (if a = [] \<or> b = [] then False else a = b)"

definition smppAuth :: "Config \<Rightarrow> string \<Rightarrow> string \<Rightarrow> bool" where
  "smppAuth current systemID password =
     list_ex (\<lambda>esme. esmeEnabled esme \<and> ConstantTimeEqual (Es_SystemID esme) systemID
        \<and> ConstantTimeEqual (Es_Password esme) password) (Cfg_ESMEs current)"

subsection \<open>From a request to an envelope\<close>

definition StatusInvalidDestAddr :: "32 word" where "StatusInvalidDestAddr = 0x0000000B"
definition StatusSubmitFailed :: "32 word" where "StatusSubmitFailed = 0x00000045"

text \<open>\<open>errors.Is\<close> against the sentinel errors; the quota error of the dispatcher is the one of the store.\<close>

definition smppSubmitErrorStatus :: "SubmitError \<Rightarrow> 32 word" where
  "smppSubmitErrorStatus err =
     (case err of
        ErrRateExceeded \<Rightarrow> statusThrottled
      | ErrStore e \<Rightarrow> if e = ErrQuotaExceeded then statusThrottled else StatusSubmitFailed
      | ErrDestAddr _ \<Rightarrow> StatusInvalidDestAddr
      | _ \<Rightarrow> StatusSubmitFailed)"

definition smppSubmitEncoding :: "byte \<Rightarrow> string" where
  "smppSubmitEncoding dataCoding =
     (if dataCoding = 0x00 then ''gsm7'' else if dataCoding = 0x03 then ''8bit''
      else if dataCoding = 0x08 then ''ucs2'' else ''8bit'')"

text \<open>What is written to the hash for one field: the length in four bytes and the field.\<close>

definition smppIdempotencyField :: "bytes \<Rightarrow> bytes" where
  "smppIdempotencyField value = be_put32 (of_nat (length value)) @ value"

definition smppIdempotencyInput :: "bytes \<Rightarrow> string \<Rightarrow> string \<Rightarrow> SubmitSM \<Rightarrow> bytes" where
  "smppIdempotencyInput inst sessionID systemID submit =
     smppIdempotencyField inst @ smppIdempotencyField (bytes_of sessionID) @ smppIdempotencyField (bytes_of systemID)
     @ smppIdempotencyField (bytes_of (Sub_From submit)) @ smppIdempotencyField (bytes_of (Sub_To submit))
     @ smppIdempotencyField [Sub_DataCoding submit] @ smppIdempotencyField (Sub_UDH submit)
     @ smppIdempotencyField (Sub_Payload submit)
     @ concat (map (\<lambda>tag. smppIdempotencyField (case FindTLV (Sub_TLVs submit) tag of None \<Rightarrow> [] | Some v \<Rightarrow> v))
         [TagSARMsgRefNum, TagSARTotalSegments, TagSARSegmentSeqnum])"

definition smppClientMsgID :: "bytes \<Rightarrow> string \<Rightarrow> string \<Rightarrow> SubmitSM \<Rightarrow> string" where
  "smppClientMsgID inst sessionID systemID submit =
     (let sum = Sum256 (smppIdempotencyInput inst sessionID systemID submit) in
      ''smpp:v2:'' @ systemID @ '':'' @ HexEncode (take 12 sum) @ '':'' @ HexEncode (be_put32 (Sub_SequenceID submit)))"

definition smppSubmitEnvelope :: "bytes \<Rightarrow> gotime \<Rightarrow> string \<Rightarrow> string \<Rightarrow> SubmitSM \<Rightarrow> Envelope" where
  "smppSubmitEnvelope inst now sessionID systemID submit =
     (let env =
        \<lparr>En_From = Sub_From submit, En_To = Sub_To submit, En_Text = Sub_Text submit, En_ClientID = ''smpp:'' @ systemID,
         En_ClientMsgID = smppClientMsgID inst sessionID systemID submit, En_TenantID = [], En_AccountID = [],
         En_DataCoding = Sub_DataCoding submit, En_Encoding = smppSubmitEncoding (Sub_DataCoding submit),
         En_RegisteredDelivery = Sub_RegisteredDelivery submit,
         En_Source = \<lparr>Su_Kind = SourceSMPP, Su_SMPPSessionID = sessionID, Su_SMPPSystemID = systemID,
           Su_CallbackURL = [], Su_CallbackRule = []\<rparr>,
         En_ReceivedAt = \<lparr>Wt_instant = now, Wt_offset = 0\<rparr>, En_Meta = [], En_UDH = Sub_UDH submit,
         En_RawPayload = Sub_Payload submit, En_RawPayloadSet = True,
         En_SARRefNum = [], En_SARTotalSegments = [], En_SARSegmentSeqnum = [], En_SARSet = False\<rparr>
      in case (FindTLV (Sub_TLVs submit) TagSARMsgRefNum, FindTLV (Sub_TLVs submit) TagSARTotalSegments,
               FindTLV (Sub_TLVs submit) TagSARSegmentSeqnum) of
           (Some ref, Some tot, Some part) \<Rightarrow>
             env\<lparr>En_SARRefNum := ref, En_SARTotalSegments := tot, En_SARSegmentSeqnum := part, En_SARSet := True\<rparr>
         | _ \<Rightarrow> env)"

subsection \<open>The jobs of the sessions\<close>

text \<open>The capacity of the channel of jobs; \<open>onSubmit\<close> puts a job into it, or answers that the gateway is busy.\<close>

definition submitJobsCap :: "Config \<Rightarrow> int" where
  "submitJobsCap cfg = max 1 (Smc_MaxSessions (Cfg_SMPP cfg) * max 1 (Smc_WindowSize (Cfg_SMPP cfg)))"

definition onSubmit :: "Config \<Rightarrow> SubmitSM \<Rightarrow> (string \<times> SubmitSM) list \<Rightarrow> Session \<Rightarrow> (string \<times> SubmitSM) list \<times> Session" where
  "onSubmit cfg submit jobs s =
     (if int (length jobs) < submitJobsCap cfg then (jobs @ [(Ss_id s, submit)], s)
      else (jobs, Send (reply commandSubmitSMResp statusThrottled (Sub_SequenceID submit) []) (CompleteSubmit s)))"

text \<open>A job: the submission to the dispatcher, the answer of the session and the end of the open request.\<close>

definition submitResponse :: "SubmitSM \<Rightarrow> SubmitError + Receipt \<Rightarrow> PDU" where
  "submitResponse submit r =
     (case r of
        Inl err \<Rightarrow> reply commandSubmitSMResp (smppSubmitErrorStatus err) (Sub_SequenceID submit) []
      | Inr receipt \<Rightarrow> reply commandSubmitSMResp statusOK (Sub_SequenceID submit) (CString (Re_GatewayID receipt)))"

definition submitJob ::
  "bytes \<Rightarrow> gotime \<Rightarrow> DispatchEnv \<Rightarrow> SubmitSM \<Rightarrow> Session \<Rightarrow> Dispatcher \<Rightarrow> (Session \<times> Dispatcher) option" where
  "submitJob inst now dx submit s d =
     (case Submit dx (smppSubmitEnvelope inst now (Ss_id s) (Ss_systemID s) submit) d of
        None \<Rightarrow> None
      | Some (r, d') \<Rightarrow> Some (CompleteSubmit (Send (submitResponse submit r) s), d'))"

subsection \<open>From the outbox to the SMPP client\<close>

definition smppProviderMessage :: "OutboundMessage \<Rightarrow> ClientMessage" where
  "smppProviderMessage msg =
     \<lparr>Cm_GatewayID = Om_GatewayID msg, Cm_SourceAddr = Om_SourceAddr msg, Cm_DestAddr = Om_DestAddr msg,
      Cm_Text = Om_Text msg, Cm_DataCoding = Om_DataCoding msg, Cm_RegisteredDelivery = Om_RegisteredDelivery msg,
      Cm_Encoding = Om_Encoding msg, Cm_UDH = Om_UDH msg, Cm_RawPayload = Om_RawPayload msg,
      Cm_RawPayloadSet = Om_RawPayloadSet msg, Cm_SARRefNum = Om_SARRefNum msg,
      Cm_SARTotalSegments = Om_SARTotalSegments msg, Cm_SARSegmentSeqnum = Om_SARSegmentSeqnum msg,
      Cm_SARSet = Om_SARSet msg\<rparr>"

subsection \<open>What an accepted request holds\<close>

lemma FindTLV_in: "FindTLV xs t = Some v \<Longrightarrow> \<exists>x \<in> set xs. Tlv_Tag x = t \<and> Tlv_Value x = v"
  by (induction xs) (auto split: if_splits)

lemma parse_content:
  assumes "ParseSubmitSM pdu = Inr sub"
  obtains raw n e where "submitContent raw n e (Sub_TLVs sub) = Inr (Sub_UDH sub, Sub_Payload sub, Sub_Concat sub)"
    "length (Sub_UDH sub @ Sub_Payload sub) < 65536" "Sub_Text sub = DecodeSubmitText (Sub_Payload sub) (Sub_DataCoding sub)"
proof -
  obtain f udh sm cc where f: "frameOK f"
      "submitContent (Fr_ShortMessage f) (length (Fr_ShortMessage f)) (fst (Fr_Fixed f)) (Fr_TLVs f) = Inr (udh, sm, cc)"
      "sub = frameResult pdu f (udh, sm, cc)"
    using assms by (metis parse_submit_frame prod_cases3)
  have sub: "Sub_TLVs sub = Fr_TLVs f" "Sub_UDH sub = udh" "Sub_Payload sub = sm" "Sub_Concat sub = cc"
      "Sub_Text sub = DecodeSubmitText (Sub_Payload sub) (Sub_DataCoding sub)"
    by (cases "Fr_Fixed f"; cases "Fr_Delivery f"; simp add: f(3) frameResult_def)+
  have "length (case FindTLV (Fr_TLVs f) TagMessagePayload of Some p \<Rightarrow> p | None \<Rightarrow> Fr_ShortMessage f) < 65536"
    using f(1) by (auto simp: frameOK_def dest!: FindTLV_in split: option.split)
  then have "length (Sub_UDH sub @ Sub_Payload sub) < 65536"
    using submitContent_D(1) [OF f(2)] sub by simp
  with f(2) sub show thesis using that by metis
qed

text \<open>
  A message that has the header, the user data and the segmentation parameters of an accepted request becomes one
  request, and that is accepted with the same header, user data, text and concatenation.
\<close>

lemma relay_core:
  assumes sub: "ParseSubmitSM pdu = Inr sub" and ok: "messageOK msg cfg" and raw: "Cm_RawPayloadSet msg"
    and cm: "Cm_UDH msg = Sub_UDH sub" "Cm_RawPayload msg = Sub_Payload sub" "Cm_DataCoding msg = Sub_DataCoding sub"
    and sar: "relayedSAR (Sub_TLVs sub) = (if Cm_SARSet msg
      then Some (Cm_SARRefNum msg, Cm_SARTotalSegments msg, Cm_SARSegmentSeqnum msg) else None)"
  obtains b sub' where "BuildSubmitSM isLetter ref msg cfg = [b]" "ParseSubmitSM (submitPdu seq b) = Inr sub'"
    "Sub_From sub' = stripPlus (Cm_SourceAddr msg)" "Sub_To sub' = stripPlus (Cm_DestAddr msg)"
    "Sub_DataCoding sub' = Sub_DataCoding sub" "Sub_Text sub' = Sub_Text sub" "Sub_Payload sub' = Sub_Payload sub"
    "Sub_UDH sub' = Sub_UDH sub" "Sub_Concat sub' = Sub_Concat sub"
    "Sub_RegisteredDelivery sub' = (if Sc_RegisteredDelivery cfg \<ge> 0 then of_int (Sc_RegisteredDelivery cfg)
       else Cm_RegisteredDelivery msg)"
proof -
  obtain rw n e where c: "submitContent rw n e (Sub_TLVs sub) = Inr (Sub_UDH sub, Sub_Payload sub, Sub_Concat sub)"
      "length (Sub_UDH sub @ Sub_Payload sub) < 65536" "Sub_Text sub = DecodeSubmitText (Sub_Payload sub) (Sub_DataCoding sub)"
    using parse_content [OF sub] .
  have set: "HasSAR (Sub_TLVs sub)" if "Cm_SARSet msg" using that sar HasSAR_relayed [of "Sub_TLVs sub"] by auto
  then have udh: "Cm_UDH msg = []" if "Cm_SARSet msg" using that submitContent_D(4) [OF c(1)] cm(1) by simp
  obtain p where p: "BuildSubmitSM isLetter ref msg cfg = [buildSubmitBody p]" "Sp_Msg p = msg" "Sp_Cfg p = cfg"
      "carriedContent p = Cm_UDH msg @ Cm_RawPayload msg" "Sp_ShortMessage p = [] \<or> Sp_MessagePayload p = []"
      "Sp_ESMClass p = (if Cm_UDH msg = [] then 0 else 0x40)"
      "Sp_TLVs p = (if Cm_SARSet msg
         then sarTLVs (Cm_SARRefNum msg) (Cm_SARTotalSegments msg) (Cm_SARSegmentSeqnum msg) else [])"
      "Sp_DataCoding p = Cm_DataCoding msg"
      "Sp_RegisteredDelivery p = (if Sc_RegisteredDelivery cfg \<ge> 0 then of_int (Sc_RegisteredDelivery cfg)
         else Cm_RegisteredDelivery msg)"
    using BuildSubmitSM_raw [OF raw udh, of isLetter ref cfg] .
  have tl: "Sp_TLVs p = (case relayedSAR (Sub_TLVs sub) of Some (a, b, c) \<Rightarrow> sarTLVs a b c | None \<Rightarrow> [])"
    by (simp add: p(7) sar)
  have len: "length (Cm_SARRefNum msg) < 65536 \<and> length (Cm_SARTotalSegments msg) < 65536 \<and> length (Cm_SARSegmentSeqnum msg) < 65536"
    if st: "Cm_SARSet msg"
  proof -
    obtain i where "ParseSAR (Sub_TLVs sub) = Some i"
      using submitContent_D(4) [OF c(1) set [OF st]] c(1)
      by (auto simp: submitContent_def submitConcat_def bindE_Inr_iff split: option.splits if_splits)
    then show ?thesis using ParseSAR_relayed_ex [of "Sub_TLVs sub" i] sar st by auto
  qed
  have "length (carriedContent p) < 65536" using c(2) cm by (simp add: p(4))
  then have cok: "contentOK p"
    using p(5) len by (auto simp: contentOK_def carriedContent_def p(7) sarTLVs_def tag_defs split: if_splits)
  have "submitContent (carriedContent p) (length (carriedContent p)) (Sp_ESMClass p) (Sp_TLVs p)
      = Inr (Sub_UDH sub, Sub_Payload sub, Sub_Concat sub)"
    unfolding tl p(4,6) cm(1,2) by (rule submitContent_again [OF c(1)])
  then have "ParseSubmitSM (submitPdu seq (buildSubmitBody p))
      = Inr (frameResult (submitPdu seq (buildSubmitBody p)) (bodyFrame p) (Sub_UDH sub, Sub_Payload sub, Sub_Concat sub))"
    using parse_built [of p "submitPdu seq (buildSubmitBody p)"] ok cok by (simp add: p(2,3) submitPdu_def)
  from p(1) this show thesis
    by (rule that) (simp_all add: frameResult_def bodyFrame_def Let_def p(2,3,8,9) cm(3) c(3))
qed

subsection \<open>Through the dispatcher\<close>

text \<open>The fields of the envelope of a submission that the dispatcher hands on, unless the filter masked the text.\<close>

definition sameContent :: "Envelope \<Rightarrow> Envelope \<Rightarrow> bool" where
  "sameContent a b \<longleftrightarrow> En_From a = En_From b \<and> En_Text a = En_Text b \<and> En_DataCoding a = En_DataCoding b
     \<and> En_RegisteredDelivery a = En_RegisteredDelivery b \<and> En_UDH a = En_UDH b \<and> En_RawPayload a = En_RawPayload b
     \<and> En_RawPayloadSet a = En_RawPayloadSet b \<and> En_SARRefNum a = En_SARRefNum b
     \<and> En_SARTotalSegments a = En_SARTotalSegments b \<and> En_SARSegmentSeqnum a = En_SARSegmentSeqnum b
     \<and> En_SARSet a = En_SARSet b"

lemma applyFilter_content:
  "applyFilter dx env d = Some (Continue (env', tags) d') \<Longrightarrow> sameContent env' env \<or> \<not> En_RawPayloadSet env'"
  by (auto simp: applyFilter_def sameContent_def split: option.splits if_splits)

lemma findRoute_content: "findRoute dx env tags d = Continue (env', rt, route) d' \<Longrightarrow> sameContent env' env"
  by (auto simp: findRoute_def sameContent_def Let_def split: option.splits if_splits sum.splits)

lemma admit_content: "admit dx env d = Continue (env', ident) d' \<Longrightarrow> sameContent env' env"
  using admit_Continue [of dx env d env' ident d'] by (auto simp: sameContent_def split: option.splits)

lemma Submit_item:
  assumes "store_inv (Dp_store d)" "Submit dx env0 d = Some (r, d')"
    "map_of (st_outbox (Dp_store d)) n = None" "map_of (st_outbox (Dp_store d')) n = Some item"
    "Op_RawPayloadSet (Ob_Payload item)"
  obtains env g route provider where "Ob_Payload item = buildPayload env g route provider" "sameContent env env0"
  using assms(2)
proof (cases rule: Submit_phases)
  case early
  then show ?thesis using assms(3,4) by (simp add: queued_def)
next
  case (enqueued env env1 ident l env2 tags env3 rt route)
  let ?d = "d\<lparr>Dp_limiter := l\<rparr>"
  have inv: "store_inv (Dp_store ?d)" using assms(1) by simp
  show ?thesis using enqueue_result [OF inv enqueued(5)]
  proof (elim disjE exE conjE)
    assume "queued d' = queued ?d"
    then show ?thesis using assms(3,4) by (simp add: queued_def)
  next
    fix g m msg k it
    assume it: "it = outboxDefaults (Dx_clock dx 6) (Dx_clock dx 6)
          ((submitItem env3 g (Rt_Name route) (Mr_Provider m) (Dp_maxAttempts ?d))\<lparr>Ob_ID := k\<rparr>)"
      and ob: "map_of (st_outbox (Dp_store d')) = (map_of (st_outbox (Dp_store ?d)))(k \<mapsto> it)"
    have "item = it" using ob assms(3,4) by (auto split: if_splits)
    then have pl: "Ob_Payload item = buildPayload env3 g (Rt_Name route) (Mr_Provider m)"
      by (simp add: it outboxDefaults_def submitItem_def Let_def)
    then have raw: "En_RawPayloadSet env3" using assms(5) by (simp add: buildPayload_def)
    have s3: "sameContent env3 env2" using findRoute_content [OF enqueued(4)] .
    then have "En_RawPayloadSet env2" using raw by (simp add: sameContent_def)
    then have "sameContent env2 (env1\<lparr>En_To := TrimPrefix (En_To env1) ''+''\<rparr>)"
      using applyFilter_content [OF enqueued(3)] by simp
    moreover have "sameContent env1 env" using admit_content [OF enqueued(2)] .
    moreover have "sameContent env env0" by (simp add: enqueued(1) sameContent_def)
    ultimately have "sameContent env3 env0" using s3 by (simp add: sameContent_def)
    with pl show ?thesis by (rule that)
  qed
qed

lemma smppSubmitEnvelope_fields:
  "En_From (smppSubmitEnvelope inst now sid sys sub) = Sub_From sub"
  "En_UDH (smppSubmitEnvelope inst now sid sys sub) = Sub_UDH sub"
  "En_RawPayload (smppSubmitEnvelope inst now sid sys sub) = Sub_Payload sub"
  "En_RawPayloadSet (smppSubmitEnvelope inst now sid sys sub)"
  "En_DataCoding (smppSubmitEnvelope inst now sid sys sub) = Sub_DataCoding sub"
  "En_RegisteredDelivery (smppSubmitEnvelope inst now sid sys sub) = Sub_RegisteredDelivery sub"
  "En_ClientID (smppSubmitEnvelope inst now sid sys sub) = ''smpp:'' @ sys"
  "En_ClientMsgID (smppSubmitEnvelope inst now sid sys sub) = smppClientMsgID inst sid sys sub"
  by (simp_all add: smppSubmitEnvelope_def Let_def split: option.split)

lemma smppSubmitEnvelope_SAR:
  "relayedSAR (Sub_TLVs sub) = (let e = smppSubmitEnvelope inst now sid sys sub in
     if En_SARSet e then Some (En_SARRefNum e, En_SARTotalSegments e, En_SARSegmentSeqnum e) else None)"
  by (simp add: smppSubmitEnvelope_def relayedSAR_def Let_def split: option.split)

subsection \<open>Keys of requests\<close>

lemma be_put32_inj: "be_put32 a = be_put32 b \<longleftrightarrow> a = b"
  by (metis be32At_put append_Nil2)

lemma field_inj:
  assumes "length a < 2 ^ 32" "length b < 2 ^ 32"
  shows "smppIdempotencyField a @ r = smppIdempotencyField b @ r' \<longleftrightarrow> a = b \<and> r = r'"
proof
  assume eq: "smppIdempotencyField a @ r = smppIdempotencyField b @ r'"
  then have "(of_nat (length a) :: 32 word) = of_nat (length b)" and rest: "a @ r = b @ r'"
    by (simp_all add: smppIdempotencyField_def be_put32_inj)
  then have "length a = length b" using unat_of_nat32 [OF assms(1)] unat_of_nat32 [OF assms(2)] by metis
  with rest show "a = b \<and> r = r'" by simp
qed simp

definition sarFields :: "TLV list \<Rightarrow> bytes list" where
  "sarFields tlvs = map (\<lambda>tag. case FindTLV tlvs tag of None \<Rightarrow> [] | Some v \<Rightarrow> v)
     [TagSARMsgRefNum, TagSARTotalSegments, TagSARSegmentSeqnum]"

lemma smppIdempotencyInput_fields:
  "smppIdempotencyInput inst sid sys sub = concat (map smppIdempotencyField
     ([inst, bytes_of sid, bytes_of sys, bytes_of (Sub_From sub), bytes_of (Sub_To sub), [Sub_DataCoding sub], Sub_UDH sub, Sub_Payload sub]
      @ sarFields (Sub_TLVs sub)))"
  by (simp add: smppIdempotencyInput_def sarFields_def)

lemma fields_inj:
  assumes "length as = length bs" "\<forall>a \<in> set as. length a < 2 ^ 32" "\<forall>b \<in> set bs. length b < 2 ^ 32"
  shows "concat (map smppIdempotencyField as) = concat (map smppIdempotencyField bs) \<longleftrightarrow> as = bs"
  using assms by (induction as bs rule: list_induct2) (simp_all add: field_inj)

text \<open>The segmentation parameters of an accepted request: all absent, or all present and not empty.\<close>

lemma accepted_SAR:
  assumes "ParseSubmitSM pdu = Inr sub"
  shows "sarFields (Sub_TLVs sub) = (case relayedSAR (Sub_TLVs sub) of None \<Rightarrow> [[], [], []] | Some (a, b, c) \<Rightarrow> [a, b, c])"
    and "relayedSAR (Sub_TLVs sub) = Some (a, b, c) \<Longrightarrow> a \<noteq> [] \<and> length a \<le> 2 \<and> length b = 1 \<and> length c = 1"
proof -
  obtain raw n e where c: "submitContent raw n e (Sub_TLVs sub) = Inr (Sub_UDH sub, Sub_Payload sub, Sub_Concat sub)"
    using parse_content [OF assms] by metis
  have "sarFields (Sub_TLVs sub) = (case relayedSAR (Sub_TLVs sub) of None \<Rightarrow> [[], [], []] | Some (a, b, c) \<Rightarrow> [a, b, c])
    \<and> (\<forall>a b c. relayedSAR (Sub_TLVs sub) = Some (a, b, c) \<longrightarrow> a \<noteq> [] \<and> length a \<le> 2 \<and> length b = 1 \<and> length c = 1)"
  proof (cases "HasSAR (Sub_TLVs sub)")
    case True
    then obtain i where "ParseSAR (Sub_TLVs sub) = Some i"
      using submitContent_D(4) [OF c True] c
      by (auto simp: submitContent_def submitConcat_def bindE_Inr_iff split: option.splits if_splits)
    from ParseSAR_relayed_ex [OF this] show ?thesis
      by (auto simp: relayedSAR_def sarFields_def split: option.splits)
  next
    case False
    then have "FindTLV (Sub_TLVs sub) t = None" if "isSARTag t" for t
      using that unfolding FindTLV_None HasSAR_def list_ex_iff by blast
    then show ?thesis by (simp add: relayedSAR_def sarFields_def isSARTag_def)
  qed
  then show "sarFields (Sub_TLVs sub) = (case relayedSAR (Sub_TLVs sub) of None \<Rightarrow> [[], [], []] | Some (a, b, c) \<Rightarrow> [a, b, c])"
    "relayedSAR (Sub_TLVs sub) = Some (a, b, c) \<Longrightarrow> a \<noteq> [] \<and> length a \<le> 2 \<and> length b = 1 \<and> length c = 1" by blast+
qed

lemma accepted_SAR_eq:
  assumes "ParseSubmitSM p1 = Inr s1" "ParseSubmitSM p2 = Inr s2"
  shows "sarFields (Sub_TLVs s1) = sarFields (Sub_TLVs s2) \<longleftrightarrow> relayedSAR (Sub_TLVs s1) = relayedSAR (Sub_TLVs s2)"
  using accepted_SAR [OF assms(1)] accepted_SAR [OF assms(2)] by (auto split: option.splits)

lemma accepted_fields_short:
  assumes "ParseSubmitSM pdu = Inr sub" "f \<in> set ([bytes_of (Sub_From sub), bytes_of (Sub_To sub), [Sub_DataCoding sub], Sub_UDH sub, Sub_Payload sub]
    @ sarFields (Sub_TLVs sub))"
  shows "length f < 2 ^ 32"
proof -
  have "length (Sub_From sub) \<le> 20 \<and> length (Sub_To sub) \<le> 20"
    using submit_accepted_wellformed [OF assms(1)] by (simp add: cstrOK_def SMPPMaxAddress_def)
  moreover have "length (Sub_UDH sub) + length (Sub_Payload sub) < 65536" using parse_content [OF assms(1)] by (metis length_append)
  moreover have "\<forall>f \<in> set (sarFields (Sub_TLVs sub)). length f \<le> 2"
    using accepted_SAR [OF assms(1)] by (auto split: option.splits)
  ultimately show ?thesis using assms(2) by auto
qed

subsection \<open>Repeated requests\<close>

definition envKey :: "Envelope \<Rightarrow> string \<times> string" where
  "envKey env = (En_ClientID env, En_ClientMsgID env)"

lemma admit_key: "admit dx env d = Continue (env', ident) d' \<Longrightarrow> envKey env' = envKey env"
  using admit_Continue [of dx env d env' ident d'] by (auto simp: envKey_def split: option.splits)

lemma applyFilter_key: "applyFilter dx env d = Some (Continue (env', tags) d') \<Longrightarrow> envKey env' = envKey env"
  by (auto simp: applyFilter_def envKey_def split: option.splits if_splits)

lemma findRoute_key: "findRoute dx env tags d = Continue (env', rt, route) d' \<Longrightarrow> envKey env' = envKey env"
  by (auto simp: findRoute_def envKey_def Let_def split: option.splits if_splits sum.splits)

lemma idemKey_submitOptions: "idemKey (submitOptions dx env ident msg) = envKey env"
  by (simp add: submitOptions_def envKey_def)

lemma applyFilter_Return_error: "applyFilter dx env d = Some (Return r d') \<Longrightarrow> \<exists>e. r = Inl e"
  by (auto simp: applyFilter_def split: option.splits if_splits)

lemma findRoute_Return_error: "findRoute dx env tags d = Return r d' \<Longrightarrow> \<exists>e. r = Inl e"
  by (auto simp: findRoute_def Let_def split: option.splits if_splits sum.splits)

text \<open>A submission that is queued leaves the record of its key, with the gateway id it was answered with, for a day.\<close>

lemma enqueue_records:
  assumes "enqueue dx env ident rt route d = (r, d')" "queued d' \<noteq> queued d" "En_ClientID env \<noteq> []" "En_ClientMsgID env \<noteq> []"
  shows "\<exists>rc. r = Inr rc \<and> map_of (st_idempotency (Dp_store d')) (envKey env)
    = Some \<lparr>Ir_gatewayID = Re_GatewayID rc, Ir_expiresAt = Dx_clock dx 6 + 24 * Hour\<rparr>"
proof -
  obtain go alloc st where ng: "newGatewayID memReserve (Dp_idAlloc d) (Dp_store d) = (go, alloc, st)"
    by (cases "newGatewayID memReserve (Dp_idAlloc d) (Dp_store d)") auto
  obtain q where st: "st = (Dp_store d)\<lparr>st_gatewaySeq := q\<rparr>" using newGatewayID_frame [OF ng] by blast
  obtain g where g: "go = Some g" using assms(1,2) ng by (cases go) (auto simp: enqueue_def queued_def st)
  obtain m where m: "SelectProvider rt route g = Some m"
    using assms(1,2) ng g by (cases "SelectProvider rt route g") (auto simp: enqueue_def queued_def st Let_def)
  let ?msg = "buildMessage dx env g (Rt_Name route) (Mr_Provider m)"
  let ?item = "submitItem env g (Rt_Name route) (Mr_Provider m) (Dp_maxAttempts d)"
  let ?opts = "submitOptions dx env ident ?msg"
  have id: "Msg_ID ?msg = g" by (simp add: buildMessage_def Message_New_def)
  have enq: "enqueue dx env ident rt route d = (case SubmitAtomic (Dx_clock dx 6) ?msg ?item ?opts st of
      (Inl e, st2) \<Rightarrow> (Inl (ErrStore e), let d2 = d\<lparr>Dp_idAlloc := alloc, Dp_store := st2\<rparr> in
         if e = ErrQuotaExceeded then emitSubmitRejected env ''tenant_daily_segments'' d2 else d2)
    | (Inr (n, existing, duplicate), st2) \<Rightarrow> let d2 = d\<lparr>Dp_idAlloc := alloc, Dp_store := st2\<rparr> in
        if duplicate then (Inr (receiptForExisting existing d2), d2)
        else (Inr \<lparr>Re_GatewayID = g, Re_ProviderID = [], Re_Provider = Mr_Provider m, Re_Route = Rt_Name route,
                Re_State = ''queued''\<rparr>, emitCDR (acceptedEvent env ?msg) d2))"
    by (simp add: enqueue_def ng g m Let_def split: prod.split sum.split)
  show ?thesis
  proof (cases rule: SubmitAtomic_cases [of ?opts "Dx_clock dx 6" st ?msg ?item])
    case (new s2)
    have k: "keyed ?opts" using assms(3,4) by (simp add: submitOptions_def)
    have ttl: "Io_TTL (So_Idempotency ?opts) = 24 * Hour" by (simp add: submitOptions_def)
    from assms(1) enq new(3) k ttl id show ?thesis
      by (auto simp: recordKey_def idemKey_submitOptions defaultTTL_def Let_def EnqueueOutbox_def)
  qed (use assms(1,2) enq in \<open>auto simp: queued_def st Let_def split: if_splits\<close>)
qed

lemma Submit_records:
  assumes "Submit dx env0 d = Some (r, d')" "queued d' \<noteq> queued d" "En_ClientID env0 \<noteq> []" "En_ClientMsgID env0 \<noteq> []"
  shows "\<exists>rc. r = Inr rc \<and> map_of (st_idempotency (Dp_store d')) (envKey env0)
    = Some \<lparr>Ir_gatewayID = Re_GatewayID rc, Ir_expiresAt = Dx_clock dx 6 + 24 * Hour\<rparr>"
  using assms(1)
proof (cases rule: Submit_phases)
  case early
  with assms(2) show ?thesis by simp
next
  case (enqueued env env1 ident l env2 tags env3 rt route)
  have key: "envKey env3 = envKey env0"
    using findRoute_key [OF enqueued(4)] applyFilter_key [OF enqueued(3)] admit_key [OF enqueued(2)]
    by (simp add: enqueued(1) envKey_def split: if_splits)
  have "queued (d\<lparr>Dp_limiter := l\<rparr>) = queued d" by (simp add: queued_def)
  then show ?thesis
    using enqueue_records [OF enqueued(5)] assms(2-4) key by (simp add: envKey_def)
qed

text \<open>While the record of its key is alive, a submission adds nothing, and a receipt has the id of the record.\<close>

lemma admit_live:
  assumes "store_inv (Dp_store d)" "map_of (st_idempotency (Dp_store d)) (envKey env) = Some rec" "Dx_clock dx 2 < Ir_expiresAt rec"
    "admit dx env d = Return (Inr rc) d'"
  shows "Re_GatewayID rc = Ir_gatewayID rec"
proof -
  have "map_of (st_idempotency (sweepLocked (Dx_clock dx 2) (Dp_store d))) (envKey env) = Some rec"
    using sweep_idem [OF assms(1,2,3)] .
  then have "CheckIdempotency (Dx_clock dx 2) (En_ClientID env) (En_ClientMsgID env) (Dp_store d)
      = (Some (Ir_gatewayID rec), sweepLocked (Dx_clock dx 2) (Dp_store d))"
    if "En_ClientID env \<noteq> []" "En_ClientMsgID env \<noteq> []"
    using that assms(3) by (simp add: CheckIdempotency_def envKey_def Let_def)
  then show ?thesis using assms(4)
    by (auto simp: admit_def Let_def split: option.splits if_splits prod.splits)
qed

lemma enqueue_live:
  assumes "store_inv (Dp_store d)" "map_of (st_idempotency (Dp_store d)) (envKey env) = Some rec" "Dx_clock dx 6 < Ir_expiresAt rec"
    "En_ClientID env \<noteq> []" "En_ClientMsgID env \<noteq> []" "enqueue dx env ident rt route d = (r, d')"
  shows "queued d' = queued d \<and> (\<forall>rc. r = Inr rc \<longrightarrow> Re_GatewayID rc = Ir_gatewayID rec)"
proof -
  obtain go alloc st where ng: "newGatewayID memReserve (Dp_idAlloc d) (Dp_store d) = (go, alloc, st)"
    by (cases "newGatewayID memReserve (Dp_idAlloc d) (Dp_store d)") auto
  obtain q where st: "st = (Dp_store d)\<lparr>st_gatewaySeq := q\<rparr>" using newGatewayID_frame [OF ng] by blast
  have sw: "map_of (st_idempotency (sweepLocked (Dx_clock dx 6) st)) (envKey env) = Some rec"
    using sweep_idem [OF assms(1-3)] by (simp add: st sweepLocked_def)
  have "SubmitAtomic (Dx_clock dx 6) msg item (submitOptions dx env ident msg') st
      = (Inr (0, Ir_gatewayID rec, True), sweepLocked (Dx_clock dx 6) st)" for msg item msg'
    using sw assms(3-5) by (simp add: SubmitAtomic_def submitOptions_def envKey_def Let_def)
  then show ?thesis
    using assms(6) ng by (auto simp: enqueue_def Let_def queued_def st split: option.splits)
qed

lemma Submit_live:
  assumes inv: "store_inv (Dp_store d)" and rec: "map_of (st_idempotency (Dp_store d)) (envKey env0) = Some rec"
    and now: "Dx_clock dx 2 < Ir_expiresAt rec" "Dx_clock dx 6 < Ir_expiresAt rec"
    and keyed: "En_ClientID env0 \<noteq> []" "En_ClientMsgID env0 \<noteq> []" and sub: "Submit dx env0 d = Some (r, d')"
  shows "queued d' = queued d \<and> (\<forall>rc. r = Inr rc \<longrightarrow> Re_GatewayID rc = Ir_gatewayID rec)"
proof -
  define env where "env = (if Wt_instant (En_ReceivedAt env0) = 0 then env0\<lparr>En_ReceivedAt := \<lparr>Wt_instant = Dx_clock dx 0, Wt_offset = 0\<rparr>\<rparr> else env0)"
  have key: "envKey env = envKey env0" by (simp add: env_def envKey_def)
  show ?thesis
  proof (cases "admit dx env d")
    case (Return ra da)
    then have "r = ra" "d' = da" using sub by (simp_all add: Submit_def env_def [symmetric])
    then show ?thesis using Return admit_live [OF inv _ now(1), of env] admit_Return [OF Return] rec key by auto
  next
    case (Continue a d1)
    obtain env1 ident where a: "a = (env1, ident)" by (cases a)
    obtain l where d1: "d1 = d\<lparr>Dp_limiter := l\<rparr>" using admit_Continue Continue a by blast
    have q: "queued d1 = queued d" by (simp add: d1 queued_def)
    let ?e = "env1\<lparr>En_To := TrimPrefix (En_To env1) ''+''\<rparr>"
    obtain ph where ph: "applyFilter dx ?e d1 = Some ph"
      using sub Continue a by (cases "applyFilter dx ?e d1") (simp_all add: Submit_def env_def [symmetric])
    show ?thesis
    proof (cases ph)
      case (Return r2 d2)
      then have "r = r2" "d' = d2" using sub Continue a ph by (simp_all add: Submit_def env_def [symmetric])
      then show ?thesis using applyFilter_Return_error applyFilter_Return ph Return q by fastforce
    next
      case flt: (Continue b d2)
      obtain env2 tags where b: "b = (env2, tags)" by (cases b)
      have d2: "d2 = d1" using applyFilter_Continue ph flt b by blast
      show ?thesis
      proof (cases "findRoute dx env2 tags d2")
        case (Return r3 d3)
        then have "r = r3" "d' = d3" using sub Continue a ph flt b by (simp_all add: Submit_def env_def [symmetric])
        then show ?thesis using findRoute_Return_error findRoute_Return Return q d2 by fastforce
      next
        case rt: (Continue c d3)
        obtain env3 rt' route where c: "c = (env3, rt', route)" by (cases c)
        have d3: "d3 = d1" using findRoute_Continue rt c d2 by blast
        have enq: "enqueue dx env3 ident rt' route d1 = (r, d')"
          using sub Continue a ph flt b rt c d3 by (simp add: Submit_def env_def [symmetric])
        have k3: "envKey env3 = envKey env0"
          using findRoute_key [OF rt [unfolded c]] applyFilter_key [OF ph [unfolded flt b]] admit_key [OF Continue [unfolded a]] key
          by (simp add: envKey_def)
        have "queued d' = queued d1 \<and> (\<forall>rc. r = Inr rc \<longrightarrow> Re_GatewayID rc = Ir_gatewayID rec)"
          by (rule enqueue_live [OF _ _ now(2) _ _ enq]) (use inv rec keyed k3 in \<open>simp_all add: d1 envKey_def\<close>)
        then show ?thesis using q by simp
      qed
    qed
  qed
qed

lemma idem_run:
  assumes "store_inv s" "map_of (st_idempotency s) key = Some rec"
    "list_all (\<lambda>opr. orderOK opr \<and> before_expiry key (Ir_expiresAt rec) opr) ops"
  shows "store_inv (runOps ops s) \<and> map_of (st_idempotency (runOps ops s)) key = Some rec"
  using assms
proof (induction ops arbitrary: s)
  case (Cons opr ops)
  then have "store_inv (storeStep opr s)" by (simp add: store_inv_storeStep)
  moreover have "map_of (st_idempotency (storeStep opr s)) key = Some rec" using Cons.prems by (simp add: idem_kept)
  ultimately show ?case using Cons.IH Cons.prems(3) by simp
qed simp

subsection \<open>Properties\<close>

text \<open>
  C2: the gateway hands on what it accepts. Take any submit_sm that the server accepts and the item that the dispatcher
  queues for it; unless the filter masked the text, the request that the SMPP client builds for the item is a single
  one, and it is read with the same user data, user data header, concatenation, data coding and text, the sender without
  its plus sign and the destination the dispatcher settled on; the delivery flag is the client's unless one is configured.
\<close>

theorem relay_transparent:
  assumes "store_reach (Dp_store d)" "ParseSubmitSM pdu = Inr sub"
    "submitJob inst now dx sub s d = Some (s', d')"
    "map_of (st_outbox (Dp_store d)) n = None" "map_of (st_outbox (Dp_store d')) n = Some item"
    "Op_RawPayloadSet (Ob_Payload item)"
    "cstrOK (Sc_ServiceType cfg) smppMaxServiceType" "cstrOK (Sc_ValidityPeriod cfg) 16"
    "cstrOK (stripPlus (Op_To (Ob_Payload item))) SMPPMaxAddress"
  shows "\<exists>b sub'. BuildSubmitSM isLetter ref (smppProviderMessage (outboundMessage (Ob_Payload item))) cfg = [b]
    \<and> ParseSubmitSM (submitPdu seq b) = Inr sub'
    \<and> Sub_From sub' = stripPlus (Sub_From sub) \<and> Sub_To sub' = stripPlus (Op_To (Ob_Payload item))
    \<and> Sub_Payload sub' = Sub_Payload sub \<and> Sub_UDH sub' = Sub_UDH sub \<and> Sub_Concat sub' = Sub_Concat sub
    \<and> Sub_DataCoding sub' = Sub_DataCoding sub \<and> Sub_Text sub' = Sub_Text sub
    \<and> Sub_RegisteredDelivery sub' = (if Sc_RegisteredDelivery cfg \<ge> 0 then of_int (Sc_RegisteredDelivery cfg)
        else Sub_RegisteredDelivery sub)"
proof -
  let ?env = "smppSubmitEnvelope inst now (Ss_id s) (Ss_systemID s) sub"
    and ?msg = "smppProviderMessage (outboundMessage (Ob_Payload item))"
  obtain r where r: "Submit dx ?env d = Some (r, d')"
    using assms(3) by (auto simp: submitJob_def split: option.splits prod.splits)
  obtain env g route provider where pl: "Ob_Payload item = buildPayload env g route provider" and same: "sameContent env ?env"
    using Submit_item [OF store_reach_inv [OF assms(1)] r assms(4-6)] .
  note eqs = pl smppProviderMessage_def outboundMessage_def buildPayload_def
  have "cstrOK (Sub_From sub) SMPPMaxAddress" using submit_accepted_wellformed [OF assms(2)] by simp
  then have "cstrOK (stripPlus (Sub_From sub)) SMPPMaxAddress"
    by (auto simp: cstrOK_def stripPlus_def TrimPrefix_def dest: in_set_dropD)
  then have ok: "messageOK ?msg cfg"
    using assms(7-9) same by (simp add: messageOK_def eqs sameContent_def smppSubmitEnvelope_fields)
  have cm: "Cm_RawPayloadSet ?msg" "Cm_UDH ?msg = Sub_UDH sub" "Cm_RawPayload ?msg = Sub_Payload sub"
      "Cm_DataCoding ?msg = Sub_DataCoding sub" "Cm_RegisteredDelivery ?msg = Sub_RegisteredDelivery sub"
      "Cm_SourceAddr ?msg = Sub_From sub" "Cm_DestAddr ?msg = Op_To (Ob_Payload item)"
    using same by (simp_all add: eqs sameContent_def smppSubmitEnvelope_fields)
  have sar: "relayedSAR (Sub_TLVs sub) = (if Cm_SARSet ?msg
      then Some (Cm_SARRefNum ?msg, Cm_SARTotalSegments ?msg, Cm_SARSegmentSeqnum ?msg) else None)"
    using same smppSubmitEnvelope_SAR [of sub inst now "Ss_id s" "Ss_systemID s"] by (simp add: eqs sameContent_def Let_def)
  show ?thesis
    by (rule relay_core [OF assms(2) ok cm(1-4) sar, of isLetter ref seq]) (auto simp: cm(5-7))
qed

definition exampleBound :: Session where
  "exampleBound = \<lparr>Ss_id = ''s1'', Ss_bindMode = BindTRX, Ss_inflight = 1, Ss_nextSeq = 0, Ss_systemID = ''acme'',
     Ss_lastSeen = 1, Ss_out = [], Ss_closed = False, Ss_deliver = []\<rparr>"

definition exampleSubmission :: SubmitSM where
  "exampleSubmission = frameResult examplePdu exampleFrame
     ([5, 0, 3, 7, 2, 1], [0, 0x48], Some \<lparr>Cc_Reference = 7, Cc_Total = 2, Cc_Part = 1\<rparr>)"

lemma exampleSubmission_fields: "Sub_To exampleSubmission = ''8613800138000''" "Sub_UDH exampleSubmission = [5, 0, 3, 7, 2, 1]"
    "Sub_Payload exampleSubmission = [0, 0x48]" "Sub_From exampleSubmission = ''INFO''"
    "Sub_TLVs exampleSubmission = [\<lparr>Tlv_Tag = TagDestPort, Tlv_Value = [0x0B, 0x84]\<rparr>]"
  by (simp_all add: exampleSubmission_def frameResult_def exampleFrame_def)

lemma exampleJob:
  "\<exists>s' d' n item. submitJob [] 5 (exampleDispatchEnv exampleFilterEnv) exampleSubmission exampleBound exampleDispatcher = Some (s', d')
     \<and> map_of (st_outbox (Dp_store d')) n = Some item \<and> Op_RawPayloadSet (Ob_Payload item) \<and> Op_To (Ob_Payload item) = ''8613800138000''"
proof -
  let ?dx = "exampleDispatchEnv exampleFilterEnv" and ?env = "smppSubmitEnvelope [] 5 ''s1'' ''acme'' exampleSubmission"
    and ?route = "exampleRoute ''r1'' [''86''] ''p1''"
  have to: "En_To ?env = ''8613800138000''" "En_RawPayloadSet ?env" "En_ClientID ?env = ''smpp:acme''"
      "Wt_instant (En_ReceivedAt ?env) = 5" "Su_Kind (En_Source ?env) = 0"
    by (simp_all add: smppSubmitEnvelope_def exampleSubmission_fields Let_def tag_defs)
  have key: "En_ClientMsgID ?env \<noteq> []" by (simp add: smppSubmitEnvelope_fields smppClientMsgID_def Let_def)
  have ad: "admit ?dx ?env exampleDispatcher = Continue (?env, None) exampleDispatcher"
    by (simp add: admit_def resolveTenant_def exampleDispatcher_def to Resolve_def)
  have trim: "?env\<lparr>En_To := TrimPrefix (En_To ?env) ''+''\<rparr> = ?env"
  proof -
    have id: "e\<lparr>En_To := En_To e\<rparr> = e" for e :: Envelope by (cases e) simp
    have "TrimPrefix (En_To ?env) ''+'' = En_To ?env" by (simp add: to TrimPrefix_def HasPrefix_def)
    then show ?thesis using id [of ?env] by (simp only:)
  qed
  have fl: "applyFilter ?dx ?env exampleDispatcher = Some (Continue (?env, []) exampleDispatcher)"
    by (simp add: applyFilter_def exampleDispatcher_def)
  have ro: "MatchRoute exampleRouter now (matchInput ?env []) = Some ?route" for now
    by (simp add: MatchRoute_def exampleRouter_routes matchInput_def to matchStep_def routeMatches_def exampleRoute_def
      matchedPrefixLen_def HasPrefix_def)
  have fr: "findRoute ?dx ?env [] exampleDispatcher = Continue (?env, exampleRouter, ?route) exampleDispatcher"
    by (simp add: findRoute_def exampleDispatcher_def ro exampleRoute_def emptyRewrite_def ValidateEnabled_def Let_def)
  let ?r = "enqueue ?dx ?env None exampleRouter ?route exampleDispatcher"
  have sub: "Submit ?dx ?env exampleDispatcher = Some ?r"
    by (simp add: Submit_def ad trim fl fr to(4))
  have nm: "Rt_Name ?route = ''r1''" by (simp add: exampleRoute_def)
  have sw: "st_idempotency (sweepLocked t (NewMemory\<lparr>st_gatewaySeq := q\<rparr>)) = []"
      "st_outbox NewMemory = []" "st_nextOutbox NewMemory = 0" for t q
    by (simp_all add: sweepLocked_def NewMemory_def)
  have ob: "st_outbox (Dp_store (snd ?r)) = [(1, outboxDefaults 7 7 ((submitItem ?env ''m0000001'' ''r1'' ''p1'' 5)\<lparr>Ob_ID := 1\<rparr>))]"
    by (simp add: enqueue_def exampleDispatcher_def exampleGatewayID exampleSubmitProvider SubmitAtomic_def submitOptions_def submitQuota_def
        debitQuota_def EnqueueOutbox_def Let_def to key sw nm exampleDispatchEnv_def)
  show ?thesis
    using sub ob
    by (cases ?r) (auto simp: submitJob_def exampleBound_def outboxDefaults_def submitItem_def buildPayload_def Let_def to)
qed

theorem relay_transparent_witness:
  "\<exists>(item :: OutboxItem) b sub'. BuildSubmitSM (\<lambda>_. False) 0 (smppProviderMessage (outboundMessage (Ob_Payload item))) DefaultSMPPClientConfig = [b]
    \<and> ParseSubmitSM (submitPdu 1 b) = Inr sub' \<and> Sub_To sub' = ''8613800138000'' \<and> Sub_UDH sub' = [5, 0, 3, 7, 2, 1]
    \<and> Sub_Payload sub' = [0, 0x48] \<and> Sub_Concat sub' = Some \<lparr>Cc_Reference = 7, Cc_Total = 2, Cc_Part = 1\<rparr>"
proof -
  obtain s' d' n item where job: "submitJob [] 5 (exampleDispatchEnv exampleFilterEnv) exampleSubmission exampleBound exampleDispatcher = Some (s', d')"
      and it: "map_of (st_outbox (Dp_store d')) n = Some item" "Op_RawPayloadSet (Ob_Payload item)"
      and to: "Op_To (Ob_Payload item) = ''8613800138000''"
    using exampleJob by blast
  have reach: "store_reach (Dp_store exampleDispatcher)" by (simp add: exampleDispatcher_def store_reach.init)
  have empty: "map_of (st_outbox (Dp_store exampleDispatcher)) n = None" by (simp add: exampleDispatcher_def NewMemory_def)
  have strip: "stripPlus ''8613800138000'' = ''8613800138000''" by (simp add: stripPlus_def TrimPrefix_def HasPrefix_def)
  have cfg: "cstrOK (Sc_ServiceType DefaultSMPPClientConfig) smppMaxServiceType" "cstrOK (Sc_ValidityPeriod DefaultSMPPClientConfig) 16"
      "cstrOK (stripPlus (Op_To (Ob_Payload item))) SMPPMaxAddress"
    by (simp_all add: DefaultSMPPClientConfig_def cstrOK_def to strip SMPPMaxAddress_def)
  have "Sub_Concat exampleSubmission = Some \<lparr>Cc_Reference = 7, Cc_Total = 2, Cc_Part = 1\<rparr>"
    by (simp add: exampleSubmission_def frameResult_def exampleFrame_def)
  then obtain b sub' where "BuildSubmitSM (\<lambda>_. False) 0 (smppProviderMessage (outboundMessage (Ob_Payload item))) DefaultSMPPClientConfig = [b]"
      "ParseSubmitSM (submitPdu 1 b) = Inr sub'" "Sub_To sub' = ''8613800138000''" "Sub_UDH sub' = [5, 0, 3, 7, 2, 1]"
      "Sub_Payload sub' = [0, 0x48]" "Sub_Concat sub' = Some \<lparr>Cc_Reference = 7, Cc_Total = 2, Cc_Part = 1\<rparr>"
    using relay_transparent [OF reach example_submit [folded exampleSubmission_def] job empty it cfg, of "\<lambda>_. False" 0 1]
    by (auto simp: to strip exampleSubmission_fields)
  then show ?thesis by blast
qed

text \<open>
  C36: the key under which the gateway recognises a repeated request. Two accepted requests get the same key exactly when
  they have the same system id and sequence number and the same first 96 bits of the hash of their description; the
  descriptions are equal exactly when the instance, the session, the system id, the addresses, the data coding, the header,
  the user data and the segmentation parameters are. So requests of different sessions, or with different contents,
  share a key only if the truncated hashes collide.
\<close>

theorem smpp_request_keys:
  assumes "ParseSubmitSM p1 = Inr s1" "ParseSubmitSM p2 = Inr s2"
    "length i1 < 2 ^ 32" "length i2 < 2 ^ 32" "length e1 < 2 ^ 32" "length e2 < 2 ^ 32" "length y1 < 2 ^ 32" "length y2 < 2 ^ 32"
  shows "(smppClientMsgID i1 e1 y1 s1 = smppClientMsgID i2 e2 y2 s2 \<longleftrightarrow>
       y1 = y2 \<and> Sub_SequenceID s1 = Sub_SequenceID s2
       \<and> take 12 (Sum256 (smppIdempotencyInput i1 e1 y1 s1)) = take 12 (Sum256 (smppIdempotencyInput i2 e2 y2 s2)))
    \<and> (smppIdempotencyInput i1 e1 y1 s1 = smppIdempotencyInput i2 e2 y2 s2 \<longleftrightarrow>
       i1 = i2 \<and> e1 = e2 \<and> y1 = y2 \<and> Sub_From s1 = Sub_From s2 \<and> Sub_To s1 = Sub_To s2
       \<and> Sub_DataCoding s1 = Sub_DataCoding s2 \<and> Sub_UDH s1 = Sub_UDH s2 \<and> Sub_Payload s1 = Sub_Payload s2
       \<and> relayedSAR (Sub_TLVs s1) = relayedSAR (Sub_TLVs s2))"
proof (intro conjI)
  let ?h1 = "take 12 (Sum256 (smppIdempotencyInput i1 e1 y1 s1))" and ?h2 = "take 12 (Sum256 (smppIdempotencyInput i2 e2 y2 s2))"
  have "(y1 @ '':'' @ HexEncode ?h1 @ '':'' @ HexEncode (be_put32 (Sub_SequenceID s1))
      = y2 @ '':'' @ HexEncode ?h2 @ '':'' @ HexEncode (be_put32 (Sub_SequenceID s2)))
    \<longleftrightarrow> y1 = y2 \<and> HexEncode ?h1 = HexEncode ?h2 \<and> HexEncode (be_put32 (Sub_SequenceID s1)) = HexEncode (be_put32 (Sub_SequenceID s2))"
    by (subst append_eq_append_conv; simp)
  then show "smppClientMsgID i1 e1 y1 s1 = smppClientMsgID i2 e2 y2 s2 \<longleftrightarrow>
       y1 = y2 \<and> Sub_SequenceID s1 = Sub_SequenceID s2 \<and> ?h1 = ?h2"
    by (auto simp: smppClientMsgID_def Let_def be_put32_inj)
  let ?f = "\<lambda>i e y s. [i, bytes_of e, bytes_of y, bytes_of (Sub_From s), bytes_of (Sub_To s), [Sub_DataCoding s], Sub_UDH s, Sub_Payload s]
      @ sarFields (Sub_TLVs s)"
  have "smppIdempotencyInput i1 e1 y1 s1 = smppIdempotencyInput i2 e2 y2 s2 \<longleftrightarrow> ?f i1 e1 y1 s1 = ?f i2 e2 y2 s2"
    unfolding smppIdempotencyInput_fields
    using accepted_fields_short [OF assms(1)] accepted_fields_short [OF assms(2)] assms(3-8)
    by (intro fields_inj) (auto simp: sarFields_def)
  also have "\<dots> \<longleftrightarrow> i1 = i2 \<and> e1 = e2 \<and> y1 = y2 \<and> Sub_From s1 = Sub_From s2 \<and> Sub_To s1 = Sub_To s2
       \<and> Sub_DataCoding s1 = Sub_DataCoding s2 \<and> Sub_UDH s1 = Sub_UDH s2 \<and> Sub_Payload s1 = Sub_Payload s2
       \<and> sarFields (Sub_TLVs s1) = sarFields (Sub_TLVs s2)"
    by (auto dest: arg_cong [of _ _ string_of])
  finally show "smppIdempotencyInput i1 e1 y1 s1 = smppIdempotencyInput i2 e2 y2 s2 \<longleftrightarrow>
       i1 = i2 \<and> e1 = e2 \<and> y1 = y2 \<and> Sub_From s1 = Sub_From s2 \<and> Sub_To s1 = Sub_To s2
       \<and> Sub_DataCoding s1 = Sub_DataCoding s2 \<and> Sub_UDH s1 = Sub_UDH s2 \<and> Sub_Payload s1 = Sub_Payload s2
       \<and> relayedSAR (Sub_TLVs s1) = relayedSAR (Sub_TLVs s2)"
    by (simp only: accepted_SAR_eq [OF assms(1,2)])
qed

theorem smpp_request_keys_witness:
  "smppClientMsgID [1] ''s1'' ''acme'' exampleSubmission \<noteq> smppClientMsgID [1] ''s1'' ''other'' exampleSubmission
   \<and> smppIdempotencyInput [1] ''s1'' ''acme'' exampleSubmission \<noteq> smppIdempotencyInput [1] ''s2'' ''acme'' exampleSubmission"
  using smpp_request_keys [OF example_submit example_submit, of "[1]" "[1]" "''s1''" "''s1''" "''acme''" "''other''"]
    smpp_request_keys [OF example_submit example_submit, of "[1]" "[1]" "''s1''" "''s2''" "''acme''" "''acme''"]
  by (simp add: exampleSubmission_def)

text \<open>
  C3: a client that repeats a request gets the same answer and its message is not queued again. After a job put a message
  into the queue, let the other goroutines do any operations on the store; when the session's client sends the same
  request with the same sequence number again within a day, the second job adds nothing to the queue, and if it is
  answered with success, then with the response of the first one, byte by byte.
\<close>

theorem repeated_request:
  assumes "store_reach (Dp_store d)"
    "Submit dx (smppSubmitEnvelope inst now sid sys sub) d = Some (r, d1)" "queued d1 \<noteq> queued d"
    "Dp_store d2 = runOps ops (Dp_store d1)"
    "list_all (\<lambda>opr. orderOK opr \<and> before_expiry (''smpp:'' @ sys, smppClientMsgID inst sid sys sub) (Dx_clock dx 6 + 24 * Hour) opr) ops"
    "Dx_clock dx' 2 < Dx_clock dx 6 + 24 * Hour" "Dx_clock dx' 6 < Dx_clock dx 6 + 24 * Hour"
    "Ss_id s = sid" "Ss_systemID s = sys" "\<not> Ss_closed s" "submitJob inst now' dx' sub s d2 = Some (s', d3)"
  shows "queued d3 = queued d2
    \<and> (\<exists>resp. Ss_out s' = Ss_out s @ [resp] \<and> Pdu_CommandID resp = commandSubmitSMResp \<and> Pdu_SequenceID resp = Sub_SequenceID sub
        \<and> (Pdu_Status resp = statusOK \<longrightarrow> resp = submitResponse sub r))"
proof -
  let ?env = "smppSubmitEnvelope inst now sid sys sub" and ?env' = "smppSubmitEnvelope inst now' sid sys sub"
  have k: "En_ClientID ?env \<noteq> []" "En_ClientMsgID ?env \<noteq> []" "envKey ?env = (''smpp:'' @ sys, smppClientMsgID inst sid sys sub)"
      "En_ClientID ?env' \<noteq> []" "En_ClientMsgID ?env' \<noteq> []" "envKey ?env' = envKey ?env"
    by (simp_all add: smppSubmitEnvelope_fields envKey_def smppClientMsgID_def Let_def)
  obtain rc where rc: "r = Inr rc" "map_of (st_idempotency (Dp_store d1)) (envKey ?env)
      = Some \<lparr>Ir_gatewayID = Re_GatewayID rc, Ir_expiresAt = Dx_clock dx 6 + 24 * Hour\<rparr>"
    using Submit_records [OF assms(2,3) k(1,2)] by blast
  have inv1: "store_inv (Dp_store d1)" 
    using Submit_path [OF assms(2)] store_path_reach [OF _ assms(1)] store_reach_inv by (auto simp: dpath_def)
  have live: "store_inv (Dp_store d2)" "map_of (st_idempotency (Dp_store d2)) (envKey ?env')
      = Some \<lparr>Ir_gatewayID = Re_GatewayID rc, Ir_expiresAt = Dx_clock dx 6 + 24 * Hour\<rparr>"
    using idem_run [OF inv1 rc(2), of ops] assms(4,5) k(3,6) by simp_all
  obtain r' where sub: "Submit dx' ?env' d2 = Some (r', d3)" and s': "s' = CompleteSubmit (Send (submitResponse sub r') s)"
    using assms(8,9,11) by (auto simp: submitJob_def split: option.splits prod.splits)
  have ans: "queued d3 = queued d2" "\<And>rc'. r' = Inr rc' \<Longrightarrow> Re_GatewayID rc' = Re_GatewayID rc"
    using Submit_live [OF live _ _ k(4,5) sub] assms(6,7) by simp_all
  have "Ss_out s' = Ss_out s @ [submitResponse sub r']" using assms(10) by (simp add: s' CompleteSubmit_def Send_def)
  moreover have "submitResponse sub r' = submitResponse sub r" if "Pdu_Status (submitResponse sub r') = statusOK"
  proof (cases r')
    case (Inl e)
    then have False using that
      by (auto simp: submitResponse_def reply_def smppSubmitErrorStatus_def statusOK_def statusThrottled_def StatusSubmitFailed_def
          StatusInvalidDestAddr_def split: SubmitError.splits if_splits)
    then show ?thesis ..
  qed (use ans(2) rc(1) in \<open>simp add: submitResponse_def\<close>)
  moreover have "Pdu_CommandID (submitResponse sub r') = commandSubmitSMResp \<and> Pdu_SequenceID (submitResponse sub r') = Sub_SequenceID sub"
    by (simp add: submitResponse_def reply_def split: sum.split)
  ultimately show ?thesis using ans(1) by blast
qed

lemma Submit_unfiltered: "Dp_filter d = None \<Longrightarrow> \<exists>r d'. Submit dx env0 d = Some (r, d')"
proof -
  assume f: "Dp_filter d = None"
  define env where "env = (if Wt_instant (En_ReceivedAt env0) = 0 then env0\<lparr>En_ReceivedAt := \<lparr>Wt_instant = Dx_clock dx 0, Wt_offset = 0\<rparr>\<rparr> else env0)"
  show ?thesis
  proof (cases "admit dx env d")
    case (Return ra da)
    then show ?thesis by (simp add: Submit_def env_def [symmetric])
  next
    case (Continue a d1)
    obtain env1 ident where a: "a = (env1, ident)" by (cases a)
    obtain l where "d1 = d\<lparr>Dp_limiter := l\<rparr>" using admit_Continue Continue a by blast
    then show ?thesis using f Continue a
      by (cases "findRoute dx (env1\<lparr>En_To := TrimPrefix (En_To env1) ''+''\<rparr>) [] d1")
        (auto simp: Submit_def env_def [symmetric] applyFilter_def split: prod.split)
  qed
qed

theorem repeated_request_witness:
  "\<exists>d1 d3 s' r resp. Submit (exampleDispatchEnv exampleFilterEnv) (smppSubmitEnvelope [] 5 ''s1'' ''acme'' exampleSubmission) exampleDispatcher
       = Some (r, d1)
     \<and> submitJob [] 9 (exampleDispatchEnv exampleFilterEnv) exampleSubmission exampleBound (exampleDispatcher\<lparr>Dp_store := Dp_store d1\<rparr>) = Some (s', d3)
     \<and> st_outbox (Dp_store d3) = st_outbox (Dp_store d1) \<and> Ss_out s' = [resp]
     \<and> Pdu_SequenceID resp = Sub_SequenceID exampleSubmission"
proof -
  let ?dx = "exampleDispatchEnv exampleFilterEnv"
  obtain s0 d1 n item where job: "submitJob [] 5 ?dx exampleSubmission exampleBound exampleDispatcher = Some (s0, d1)"
      and it: "map_of (st_outbox (Dp_store d1)) n = Some item"
    using exampleJob by blast
  obtain r where r: "Submit ?dx (smppSubmitEnvelope [] 5 ''s1'' ''acme'' exampleSubmission) exampleDispatcher = Some (r, d1)"
    using job by (auto simp: submitJob_def exampleBound_def split: option.splits prod.splits)
  have reach: "store_reach (Dp_store exampleDispatcher)" by (simp add: exampleDispatcher_def store_reach.init)
  have new: "queued d1 \<noteq> queued exampleDispatcher" using it by (auto simp: queued_def exampleDispatcher_def NewMemory_def)
  let ?d2 = "exampleDispatcher\<lparr>Dp_store := Dp_store d1\<rparr>"
  obtain r' d3 where r': "Submit ?dx (smppSubmitEnvelope [] 9 ''s1'' ''acme'' exampleSubmission) ?d2 = Some (r', d3)"
    using Submit_unfiltered [of ?d2 ?dx "smppSubmitEnvelope [] 9 ''s1'' ''acme'' exampleSubmission"] by (auto simp: exampleDispatcher_def)
  obtain s' where s': "submitJob [] 9 ?dx exampleSubmission exampleBound ?d2 = Some (s', d3)"
    using r' by (simp add: submitJob_def exampleBound_def)
  have "queued d3 = queued ?d2 \<and> (\<exists>resp. Ss_out s' = Ss_out exampleBound @ [resp] \<and> Pdu_CommandID resp = commandSubmitSMResp
      \<and> Pdu_SequenceID resp = Sub_SequenceID exampleSubmission
      \<and> (Pdu_Status resp = statusOK \<longrightarrow> resp = submitResponse exampleSubmission r))"
    by (rule repeated_request [OF reach r new, of ?d2 "[]" ?dx exampleBound 9 s' d3])
      (use s' in \<open>simp_all add: exampleBound_def exampleDispatchEnv_def\<close>)
  then show ?thesis using r s' by (auto simp: queued_def exampleBound_def)
qed

end
