(* ===== verification/Spec2Isabelle.thy ===== *)
theory Spec2Isabelle
  imports Smpp_Pdu File_Store Config_Bootstrap Sms_Router Dest_Addr Tenant_Limits Gw_Ids Keyword_Search Cdr_Log Gateway_Main
begin

text \<open>
  Verification of the mysmpp SMS gateway (Go, \<open>src/\<close>).

  \<^bold>\<open>The program.\<close> Clients bind to the SMPP server (\<open>internal/smpp\<close>) or call the HTTP gateway (\<open>internal/httpgw\<close>) and submit
  messages. The wiring (\<open>cmd/mysmpp/main.go\<close>) turns a submission into an envelope for the dispatcher (\<open>internal/dispatch\<close>),
  which resolves the tenant and its rate (\<open>internal/tenant\<close>), filters the text (\<open>internal/filter\<close>), finds a route and a
  provider (\<open>internal/router\<close>), checks the destination, allocates a gateway id and stores the message together with an
  outbox item (\<open>internal/store\<close>). Workers claim items and hand them to a provider (\<open>internal/provider\<close>), e.g. an SMPP
  client (\<open>internal/smppclient\<close>). Receipts of the provider come back through the dispatcher to the session or callback of
  the client. Call detail records (\<open>internal/cdr\<close>) are written beside. The configuration (\<open>internal/config\<close>) is validated
  and completed with secrets at the start.

  \<^bold>\<open>The theories\<close>, from the bottom to the top; each opens with what it holds.

  \<^item> Language and standard library: \<open>Go_Prelude\<close> (strings as bytes, runes and UTF-8, maps as association lists, errors,
    big-endian numbers), \<open>Go_Strconv\<close>, \<open>Go_Time\<close>, \<open>Go_Date\<close>, \<open>Go_Net\<close>, \<open>Go_Float\<close> (float64 as rationals with
    rounding), \<open>Go_Hash\<close> (SHA-256, hexadecimal text).
  \<^item> \<open>Sms_Text\<close> (\<open>message/message.go\<close>, \<open>message/codec.go\<close>): encoding detection, splitting and joining, codecs. A text that is
    split is joined from its segments in any order; the segments fit and are the fewest; the codecs are inverse, with
    one exception that is a finding.
  \<^item> \<open>Smpp_Pdu\<close> (\<open>smpp/pdu.go\<close>, \<open>tlv.go\<close>, \<open>udh.go\<close>, \<open>submit.go\<close>, \<open>dlr.go\<close>): framing, optional parameters, headers, the
    submit_sm parser, receipts. The parsers accept exactly the layouts and return their fields.
  \<^item> \<open>Mem_Store\<close>, \<open>Outbox_Cycle\<close> (\<open>store/memory.go\<close>, \<open>store/id.go\<close>): every operation of the memory store, its invariant over
    all sequences of operations, and the refinement of the outbox by an abstract life cycle: exclusive sending,
    idempotent submission, quotas.
  \<^item> \<open>File_Store\<close> (\<open>store/file.go\<close>): the memory store with snapshots, the contents of the disk after each file-system call,
    and restarts. A message is handed to a provider at most once across restarts; what a restart finds at each point where
    the process can stop, one of which loses everything and is a finding.
  \<^item> \<open>Gw_Config\<close>, \<open>Config_Validate\<close>, \<open>Config_Bootstrap\<close> (\<open>config/config.go\<close>, \<open>config/bootstrap.go\<close>): defaults, normalisation,
    validation and generated secrets; what a validated configuration guarantees.
  \<^item> \<open>Sms_Router\<close> (\<open>router/router.go\<close>), \<open>Dest_Addr\<close> (\<open>dispatch/addr.go\<close>, \<open>dispatch/country_rules.go\<close>), \<open>Tenant_Limits\<close>
    (\<open>tenant/tenant.go\<close>), \<open>Gw_Ids\<close> (\<open>dispatch/idalloc.go\<close>): the decisions of the dispatcher.
  \<^item> \<open>Content_Filter\<close>, \<open>Keyword_Search\<close> (\<open>filter/\<close>): normalisation, the keyword automaton against the occurrences of the
    keywords, and the decision.
  \<^item> \<open>Cdr_Log\<close> (\<open>cdr/\<close>): the writer as a state machine; no record is lost or reordered.
  \<^item> \<open>Smpp_Session\<close>, \<open>Smpp_Server\<close> (\<open>smpp/session.go\<close>, \<open>smpp/server.go\<close>): a session as a state, the server with all its
    sessions as a step relation whose steps interleave; limits, authentication and windows hold in every state.
  \<^item> \<open>Dispatch_Submit\<close>, \<open>Dispatch_Dlr\<close>, \<open>Dlr_Delivery\<close>, \<open>Dlr_Flush\<close>, \<open>Dispatch_Worker\<close>, \<open>Worker_Safety\<close>
    (\<open>dispatch/dispatcher.go\<close>): submission, receipts, workers. Every handler is a run of store operations, so that the
    facts on the store hold of the dispatcher: a message is handed to a provider at most once.
  \<^item> \<open>Smpp_Client\<close> (\<open>smppclient/encode.go\<close>): the requests to a provider, read back by the gateway's own parser.
  \<^item> \<open>Gateway_Main\<close> (\<open>cmd/mysmpp/main.go\<close>, \<open>provider/smpp.go\<close>, \<open>authutil/compare.go\<close>): the wiring, and the theorems that follow
    a message from the bytes of the client's request to the bytes of the request to the provider.

  \<^bold>\<open>Conventions.\<close> A Go string is a HOL \<open>string\<close> of bytes, \<open>[]byte\<close> a list of 8-bit words, an instant an \<open>int\<close> of nanoseconds
  with 0 for the zero time; machine integers are words, or \<open>int\<close> with the wrap-around written out where it matters. A Go map
  is an association list with distinct keys; where the code ranges over one, the order is an argument. Errors are values of
  sum types. What the environment decides (the clock, random numbers, what a provider answers, what other goroutines do to
  shared state while a handler waits) is an argument, and the theorems hold for every value of it, under hypotheses stated
  in the theorem; each theorem with hypotheses is followed by an instance.

  \<^bold>\<open>Bounds.\<close> Loops are structural recursions or have a termination proof. The two loops that the code does not bound by
  its data, the failure links of the keyword automaton and the flush of receipts, are partial functions into \<open>option\<close>, and
  that they return is proved. The iteration that waits for the record of a receipt has the measure of its deadline.

  \<^bold>\<open>Not modelled.\<close> The PostgreSQL store and the migrations (their behaviour is that of the database); the administration server and its pages, the HTTP gateway and its rule language, the HTTP provider (request
  routing, JSON and HTML text, network calls); the sockets, deadlines and reconnection of the SMPP client; process start,
  flags, signals and logging; the test client and the generator of the numbering table, which are not part of the gateway.
\<close>

end
